(* ===== verification/Prelude.thy ===== *)
theory Prelude
  imports
    "HOL-Library.AList"
    "HOL-Library.Char_ord"
    "HOL-Library.List_Lexorder"
    "HOL-Library.Monad_Syntax"
    "HOL-Library.Option_ord"
    "HOL-Library.Product_Lexorder"
    "HOL-Library.Word"
begin

text \<open>
  Shared vocabulary of the development: the machine integers, the standard
  library types the Rust sources use (hash maps, \<open>Ordering\<close>, panics), the
  generic lemmas about them, and two interfaces. \<open>hash_map\<close> is the contract of
  \<open>std::collections::HashMap\<close>; \<open>max_store\<close> is the contract of a replicated
  store that keeps, per key, the largest version it was ever given.
\<close>

section \<open>Machine integers, panics and orderings\<close>

text \<open>
  \<open>u64\<close> and \<open>usize\<close> (64-bit targets) wrap around; an operation that may panic
  (\<open>expect\<close>, \<open>unwrap\<close>) returns an option in which \<open>None\<close> is the panic.
\<close>

type_synonym u64 = "64 word"
type_synonym usize = "64 word"

lemma u64_less_succ: "x < - 1 \<Longrightarrow> x < x + 1" for x :: u64
  by (simp add: word_less_def uint_word_ariths)

text \<open>Instants of \<open>time::SteadyTime\<close> and durations, in milliseconds.\<close>

type_synonym steady_time = int

datatype rust_ordering = Less | Equal | Greater

definition rust_cmp :: "'a::linorder \<Rightarrow> 'a \<Rightarrow> rust_ordering" where
  "rust_cmp a b = (if a < b then Less else if a = b then Equal else Greater)"

fun flip_ordering :: "rust_ordering \<Rightarrow> rust_ordering" where
  "flip_ordering Less = Greater"
| "flip_ordering Equal = Equal"
| "flip_ordering Greater = Less"

text \<open>
  \<open>PartialOrd::ge\<close>, the operator \<open>>=\<close>, in terms of \<open>partial_cmp\<close>: it is false when
  the operands cannot be compared.
\<close>

fun partial_ge :: "rust_ordering option \<Rightarrow> bool" where
  "partial_ge (Some Greater) = True"
| "partial_ge (Some Equal) = True"
| "partial_ge _ = False"

lemma rust_cmp_refl [simp]: "rust_cmp a a = Equal"
  by (simp add: rust_cmp_def)

lemma rust_cmp_flip: "flip_ordering (rust_cmp a b) = rust_cmp b a"
  by (auto simp: rust_cmp_def)

lemma rust_cmp_iff [simp]:
  "rust_cmp a b = Less \<longleftrightarrow> a < b"
  "rust_cmp a b = Equal \<longleftrightarrow> a = b"
  "rust_cmp a b = Greater \<longleftrightarrow> b < a"
  by (auto simp: rust_cmp_def)

lemma partial_ge_cmp [simp]: "partial_ge (Some (rust_cmp a b)) \<longleftrightarrow> b \<le> a"
  by (auto simp: rust_cmp_def)

lemma flip_ordering_eq_iff [simp]:
  "flip_ordering x = Less \<longleftrightarrow> x = Greater"
  "flip_ordering x = Equal \<longleftrightarrow> x = Equal"
  "flip_ordering x = Greater \<longleftrightarrow> x = Less"
  by (cases x; simp)+

lemma pred_option_code [code]:
  "pred_option P None \<longleftrightarrow> True"
  "pred_option P (Some x) \<longleftrightarrow> P x"
  by simp_all

section \<open>Hash maps\<close>

text \<open>
  A \<open>HashMap\<close> is an association list with distinct keys. The position of an entry in
  the list is its place in the table's iteration order, which Rust leaves open: the
  lemmas quantify over all lists, so they hold for every order.
\<close>

type_synonym ('k, 'v) hmap = "('k \<times> 'v) list"

definition hm_new :: "('k, 'v) hmap" where
  "hm_new = []"

definition hm_get :: "('k, 'v) hmap \<Rightarrow> 'k \<Rightarrow> 'v option" where
  "hm_get m k = map_of m k"

definition hm_contains :: "('k, 'v) hmap \<Rightarrow> 'k \<Rightarrow> bool" where
  "hm_contains m k = (hm_get m k \<noteq> None)"

definition hm_insert :: "'k \<Rightarrow> 'v \<Rightarrow> ('k, 'v) hmap \<Rightarrow> ('k, 'v) hmap" where
  "hm_insert k v m = AList.update k v m"

definition hm_remove :: "'k \<Rightarrow> ('k, 'v) hmap \<Rightarrow> ('k, 'v) hmap" where
  "hm_remove k m = AList.delete k m"

definition hm_values :: "('k, 'v) hmap \<Rightarrow> 'v list" where
  "hm_values m = map snd m"

definition hm_keys :: "('k, 'v) hmap \<Rightarrow> 'k list" where
  "hm_keys m = map fst m"

definition hm_len :: "('k, 'v) hmap \<Rightarrow> nat" where
  "hm_len m = length m"

definition hm_inv :: "('k, 'v) hmap \<Rightarrow> bool" where
  "hm_inv m = distinct (map fst m)"

locale hash_map =
  fixes new :: "'m"
    and get :: "'m \<Rightarrow> 'k \<Rightarrow> 'v option"
    and ins :: "'k \<Rightarrow> 'v \<Rightarrow> 'm \<Rightarrow> 'm"
    and rem :: "'k \<Rightarrow> 'm \<Rightarrow> 'm"
    and inv :: "'m \<Rightarrow> bool"
  assumes get_new: "get new k = None"
    and get_ins: "get (ins k v m) k' = (if k' = k then Some v else get m k')"
    and get_rem: "inv m \<Longrightarrow> get (rem k m) k' = (if k' = k then None else get m k')"
    and inv_new: "inv new"
    and inv_ins: "inv m \<Longrightarrow> inv (ins k v m)"
    and inv_rem: "inv m \<Longrightarrow> inv (rem k m)"
begin

lemma get_ins_self: "get (ins k v m) k = Some v"
  by (simp add: get_ins)

lemma inv_fold_ins: "inv m \<Longrightarrow> inv (fold (\<lambda>(k, v). ins k v) kvs m)"
  by (induction kvs arbitrary: m) (auto simp: inv_ins)

lemma inv_fold_rem: "inv m \<Longrightarrow> inv (fold rem ks m)"
  by (induction ks arbitrary: m) (auto simp: inv_rem)

lemma get_fold_ins_const:
  "get (fold (\<lambda>k. ins k v) ks m) k' = (if k' \<in> set ks then Some v else get m k')"
  by (induction ks arbitrary: m) (auto simp: get_ins)

lemma get_fold_rem:
  "inv m \<Longrightarrow> get (fold rem ks m) k' = (if k' \<in> set ks then None else get m k')"
proof (induction ks arbitrary: m)
  case (Cons k ks)
  then show ?case using inv_rem [of m k] by (simp add: get_rem)
qed simp

end

lemma map_of_delete_distinct:
  "map_of (AList.delete k m) k' = (if k' = k then None else map_of m k')"
  by (simp add: delete_conv')

interpretation hm: hash_map hm_new hm_get hm_insert hm_remove hm_inv
  by unfold_locales
    (auto simp: hm_new_def hm_get_def hm_insert_def hm_remove_def hm_inv_def
      update_conv' map_of_delete_distinct distinct_update distinct_delete)

lemmas hm_simps [simp] = hm.get_new hm.get_ins hm.inv_new hm.inv_ins hm.inv_rem

lemma hm_get_remove [simp]: "hm_get (hm_remove k m) k' = (if k' = k then None else hm_get m k')"
  by (simp add: hm_get_def hm_remove_def map_of_delete_distinct)

lemma hm_contains_get [simp]: "hm_contains m k \<longleftrightarrow> (\<exists>v. hm_get m k = Some v)"
  by (auto simp: hm_contains_def)

lemma hm_get_mem: "hm_get m k = Some v \<Longrightarrow> (k, v) \<in> set m"
  by (simp add: hm_get_def map_of_SomeD)

lemma hm_mem_get: "hm_inv m \<Longrightarrow> (k, v) \<in> set m \<Longrightarrow> hm_get m k = Some v"
  by (simp add: hm_get_def hm_inv_def)

lemma hm_mem_iff: "hm_inv m \<Longrightarrow> (k, v) \<in> set m \<longleftrightarrow> hm_get m k = Some v"
  by (auto intro: hm_get_mem hm_mem_get)

lemma hm_keys_iff: "k \<in> set (hm_keys m) \<longleftrightarrow> (\<exists>v. hm_get m k = Some v)"
  by (metis hm_get_def hm_keys_def map_of_eq_None_iff option.exhaust option.distinct(1) image_set)

lemma hm_values_iff: "hm_inv m \<Longrightarrow> v \<in> set (hm_values m) \<longleftrightarrow> (\<exists>k. hm_get m k = Some v)"
  by (force simp: hm_values_def hm_mem_iff [symmetric])

lemma list_all_hmap: "hm_inv m \<Longrightarrow> list_all (\<lambda>(k, v). P k v) m \<longleftrightarrow> (\<forall>k v. hm_get m k = Some v \<longrightarrow> P k v)"
  by (auto simp: list_all_iff hm_mem_iff)

section \<open>Strings\<close>

text \<open>Splitting a string at the first occurrence of a delimiter.\<close>

definition split_once :: "char \<Rightarrow> string \<Rightarrow> (string \<times> string) option" where
  "split_once c s =
     (if c \<in> set s then Some (takeWhile (\<lambda>x. x \<noteq> c) s, tl (dropWhile (\<lambda>x. x \<noteq> c) s)) else None)"

lemma split_once_None [simp]: "split_once c s = None \<longleftrightarrow> c \<notin> set s"
  by (simp add: split_once_def)

lemma split_once_notin [simp]: "c \<notin> set s \<Longrightarrow> split_once c s = None"
  by (simp add: split_once_def)

lemma split_once_append [simp]: "c \<notin> set a \<Longrightarrow> split_once c (a @ c # b) = Some (a, b)"
proof -
  assume "c \<notin> set a"
  then have "takeWhile (\<lambda>x. x \<noteq> c) a = a" "dropWhile (\<lambda>x. x \<noteq> c) a = []"
    by (auto simp: takeWhile_eq_all_conv dropWhile_eq_Nil_conv)
  then show ?thesis
    by (auto simp: split_once_def takeWhile_append dropWhile_append)
qed

lemma split_once_Some: "split_once c s = Some (a, b) \<longleftrightarrow> s = a @ c # b \<and> c \<notin> set a"
proof
  assume split: "split_once c s = Some (a, b)"
  then have "c \<in> set s" by (simp add: split_once_def split: if_splits)
  then obtain xs ys where "s = xs @ c # ys" "c \<notin> set xs"
    using split_list_first by metis
  with split show "s = a @ c # b \<and> c \<notin> set a" by simp
qed auto

text \<open>\<open>str::split\<close> with a one-character pattern, and \<open>join\<close>.\<close>

fun split_on :: "char \<Rightarrow> string \<Rightarrow> string list" where
  "split_on c [] = [[]]"
| "split_on c (x # xs) =
     (if x = c then [] # split_on c xs
      else case split_on c xs of [] \<Rightarrow> [[x]] | p # ps \<Rightarrow> (x # p) # ps)"

fun join_with :: "char \<Rightarrow> string list \<Rightarrow> string" where
  "join_with c [] = []"
| "join_with c [p] = p"
| "join_with c (p # q # ps) = p @ c # join_with c (q # ps)"

lemma split_on_nonempty [simp]: "split_on c s \<noteq> []"
  by (induction s) (auto split: list.splits)

lemma split_on_free: "p \<in> set (split_on c s) \<Longrightarrow> c \<notin> set p"
  by (induction s arbitrary: p) (auto split: list.splits if_splits)

lemma join_with_Cons: "ps \<noteq> [] \<Longrightarrow> join_with c (p # ps) = p @ c # join_with c ps"
  by (cases ps) simp_all

lemma join_with_Cons_char: "join_with c ((x # p) # ps) = x # join_with c (p # ps)"
  by (cases ps) simp_all

lemma join_split [simp]: "join_with c (split_on c s) = s"
  by (induction s) (auto simp: join_with_Cons join_with_Cons_char split: list.split)

lemma split_on_notin: "c \<notin> set p \<Longrightarrow> split_on c p = [p]"
  by (induction p) auto

lemma split_on_append: "c \<notin> set p \<Longrightarrow> split_on c (p @ c # s) = p # split_on c s"
  by (induction p) (auto split: list.split)

lemma split_join: "ps \<noteq> [] \<Longrightarrow> list_all (\<lambda>p. c \<notin> set p) ps \<Longrightarrow> split_on c (join_with c ps) = ps"
  by (induction c ps rule: join_with.induct) (auto simp: split_on_notin split_on_append)

text \<open>\<open>to_lowercase\<close> and \<open>trim\<close> on ASCII strings, and \<open>str::parse::<u64>\<close>.\<close>

definition ascii_lowercase :: "string \<Rightarrow> string" where
  "ascii_lowercase s =
     map (\<lambda>c. if CHR ''A'' \<le> c \<and> c \<le> CHR ''Z'' then char_of (of_char c + 32 :: nat) else c) s"

definition is_whitespace :: "char \<Rightarrow> bool" where
  "is_whitespace c \<longleftrightarrow> c = CHR '' '' \<or> (9 \<le> (of_char c :: nat) \<and> (of_char c :: nat) \<le> 13)"

definition ascii_trim :: "string \<Rightarrow> string" where
  "ascii_trim s = rev (dropWhile is_whitespace (rev (dropWhile is_whitespace s)))"

definition is_digit :: "char \<Rightarrow> bool" where
  "is_digit c \<longleftrightarrow> CHR ''0'' \<le> c \<and> c \<le> CHR ''9''"

definition digits_value :: "string \<Rightarrow> int" where
  "digits_value s = foldl (\<lambda>n c. 10 * n + (of_char c - 48)) 0 s"

definition parse_u64 :: "string \<Rightarrow> u64 option" where
  "parse_u64 s =
     (let ds = (if s \<noteq> [] \<and> hd s = CHR ''+'' then tl s else s)
      in if ds \<noteq> [] \<and> list_all is_digit ds \<and> digits_value ds < 2 ^ 64
         then Some (word_of_int (digits_value ds)) else None)"

text \<open>\<open>Display\<close> of an unsigned integer.\<close>

function decimal :: "int \<Rightarrow> string" where
  "decimal n = (if n < 10 then [char_of (48 + n)] else decimal (n div 10) @ [char_of (48 + n mod 10)])"
  by pat_completeness auto
termination
  by (relation "measure nat") auto

declare decimal.simps [simp del]

definition show_u64 :: "u64 \<Rightarrow> string" where
  "show_u64 w = decimal (uint w)"

lemma of_char_digit:
  assumes "0 \<le> d" and "d < (10 :: int)"
  shows "(of_char (char_of (48 + d)) :: int) = 48 + d"
  using assms by (simp add: of_char_of)

lemma is_digit_char_of:
  assumes "0 \<le> d" and "d < (10 :: int)"
  shows "is_digit (char_of (48 + d))"
proof -
  from assms have "d = 0 \<or> d = 1 \<or> d = 2 \<or> d = 3 \<or> d = 4 \<or> d = 5 \<or> d = 6 \<or> d = 7 \<or> d = 8 \<or> d = 9"
    by presburger
  then show ?thesis by (elim disjE; hypsubst) (code_simp+)
qed

lemma decimal_digits: "0 \<le> n \<Longrightarrow> decimal n \<noteq> [] \<and> list_all is_digit (decimal n) \<and> digits_value (decimal n) = n"
proof (induction n rule: decimal.induct)
  case (1 n)
  show ?case
  proof (cases "n < 10")
    case True
    with 1 show ?thesis by (simp add: decimal.simps [of n] digits_value_def of_char_digit is_digit_char_of)
  next
    case False
    with 1 have "decimal (n div 10) \<noteq> []" "list_all is_digit (decimal (n div 10))" "digits_value (decimal (n div 10)) = n div 10"
      by simp_all
    with False 1 show ?thesis
      by (simp add: decimal.simps [of n] digits_value_def of_char_digit is_digit_char_of)
  qed
qed

lemma parse_show_u64 [simp]: "parse_u64 (show_u64 w) = Some w"
proof -
  let ?s = "decimal (uint w)"
  have not_digit: "\<not> is_digit (CHR ''+'')" by code_simp
  have s: "?s \<noteq> []" "list_all is_digit ?s" "digits_value ?s = uint w" using decimal_digits [of "uint w"] by simp_all
  then have "hd ?s \<noteq> CHR ''+''" using not_digit by (cases ?s) auto
  moreover have "uint w < 2 ^ 64" using uint_lt2p [of w] by simp
  ultimately show ?thesis using s by (simp add: parse_u64_def show_u64_def)
qed

section \<open>Sequencing operations that may panic\<close>

lemma fold_keeps: "(\<And>x s. f (g x s) = f s) \<Longrightarrow> f (fold g xs s) = f s"
  by (induction xs arbitrary: s) simp_all

primrec fold_opt :: "('a \<Rightarrow> 's \<Rightarrow> 's option) \<Rightarrow> 'a list \<Rightarrow> 's \<Rightarrow> 's option" where
  "fold_opt f [] s = Some s"
| "fold_opt f (x # xs) s = do { s' \<leftarrow> f x s; fold_opt f xs s' }"

lemma fold_opt_append: "fold_opt f (xs @ ys) s = do { s' \<leftarrow> fold_opt f xs s; fold_opt f ys s' }"
  by (induction xs arbitrary: s) (auto split: bind_splits)

lemma fold_opt_Some: "fold_opt (\<lambda>x s. Some (f x s)) xs s = Some (fold f xs s)"
  by (induction xs arbitrary: s) auto

lemma fold_opt_invariant:
  assumes "P s"
    and "\<And>x s. x \<in> set xs \<Longrightarrow> P s \<Longrightarrow> \<exists>s'. f x s = Some s' \<and> P s'"
  shows "\<exists>s'. fold_opt f xs s = Some s' \<and> P s'"
  using assms
proof (induction xs arbitrary: s)
  case (Cons x xs)
  from Cons.prems(2) [of x s] Cons.prems(1) obtain s' where "f x s = Some s'" "P s'" by auto
  moreover from this Cons.prems(2) have "\<exists>s''. fold_opt f xs s' = Some s'' \<and> P s''"
    by (intro Cons.IH) auto
  ultimately show ?case by simp
qed simp

lemma fold_opt_preserves:
  assumes "fold_opt f xs s = Some s'" and "P s"
    and "\<And>x s s'. x \<in> set xs \<Longrightarrow> P s \<Longrightarrow> f x s = Some s' \<Longrightarrow> P s'"
  shows "P s'"
  using assms
proof (induction xs arbitrary: s)
  case (Cons x xs)
  then obtain s1 where "f x s = Some s1" "fold_opt f xs s1 = Some s'"
    by (auto split: bind_splits)
  moreover from this Cons.prems have "P s1" by auto
  ultimately show ?case using Cons.IH Cons.prems(3) by auto
qed simp

section \<open>Replicated stores that keep the largest version\<close>

text \<open>
  The contract of a store whose entries carry a version from a linear order: \<open>put\<close>
  replaces the entry of its key exactly when the new version is larger. What such a store
  holds after any sequence of deliveries depends on the set of delivered messages only,
  not on their order or on how often each arrived.
\<close>

lemma Max_insert_max:
  "finite A \<Longrightarrow> Max (insert (max a b) A) = Max (insert a (insert b A))"
  by (cases "A = {}") (simp_all add: max.assoc)

locale max_store =
  fixes view :: "'s \<Rightarrow> 'k \<Rightarrow> 'v::linorder option"
    and key :: "'m \<Rightarrow> 'k"
    and ver :: "'m \<Rightarrow> 'v"
    and put :: "'m \<Rightarrow> 's \<Rightarrow> 's option"
    and inv :: "'s \<Rightarrow> bool"
  assumes put_step: "inv s \<Longrightarrow>
    \<exists>s'. put m s = Some s' \<and> inv s' \<and>
      (\<forall>k. view s' k = (if k = key m then max (view s k) (Some (ver m)) else view s k))"
begin

lemma put_all:
  assumes "inv s"
  shows "\<exists>s'. fold_opt put ms s = Some s' \<and> inv s' \<and>
    (\<forall>k. view s' k = Max (insert (view s k) (Some ` ver ` {m \<in> set ms. key m = k})))"
  using assms
proof (induction ms arbitrary: s)
  case Nil
  then show ?case by simp
next
  case (Cons m ms)
  from put_step [OF Cons.prems, of m] obtain s1 where s1: "put m s = Some s1" "inv s1"
    "\<And>k. view s1 k = (if k = key m then max (view s k) (Some (ver m)) else view s k)" by auto
  from Cons.IH [OF s1(2)] obtain s2 where s2: "fold_opt put ms s1 = Some s2" "inv s2"
    "\<And>k. view s2 k = Max (insert (view s1 k) (Some ` ver ` {m \<in> set ms. key m = k}))" by auto
  have "view s2 k = Max (insert (view s k) (Some ` ver ` {m' \<in> set (m # ms). key m' = k}))" for k
  proof (cases "k = key m")
    case True
    then have "{m' \<in> set (m # ms). key m' = k} = insert m {m' \<in> set ms. key m' = k}" by auto
    with True show ?thesis by (simp add: s1(3) s2(3) Max_insert_max del: Max_insert)
  next
    case False
    then have "{m' \<in> set (m # ms). key m' = k} = {m' \<in> set ms. key m' = k}" by auto
    with False show ?thesis by (simp add: s1(3) s2(3))
  qed
  with s1(1) s2 show ?case by simp
qed

lemma put_all_total: "inv s \<Longrightarrow> \<exists>s'. fold_opt put ms s = Some s'"
  using put_all by blast

lemma put_all_inv: "inv s \<Longrightarrow> fold_opt put ms s = Some s' \<Longrightarrow> inv s'"
  using put_all by (metis option.inject)

lemma view_put_all:
  "inv s \<Longrightarrow> fold_opt put ms s = Some s' \<Longrightarrow>
    view s' k = Max (insert (view s k) (Some ` ver ` {m \<in> set ms. key m = k}))"
  using put_all [of s ms] by auto

lemma put_all_converges:
  assumes "inv s" and "inv t" and "view s = view t"
    and "(\<lambda>m. (key m, ver m)) ` set ms = (\<lambda>m. (key m, ver m)) ` set ns"
    and "fold_opt put ms s = Some s'" and "fold_opt put ns t = Some t'"
  shows "view s' = view t'"
proof
  fix k
  have image: "ver ` {m \<in> set xs. key m = k} = snd ` {p \<in> (\<lambda>m. (key m, ver m)) ` set xs. fst p = k}" for xs
    by force
  have "ver ` {m \<in> set ms. key m = k} = ver ` {m \<in> set ns. key m = k}"
    by (simp only: image assms(4))
  with assms show "view s' k = view t' k" by (simp only: view_put_all)
qed

lemma put_all_increasing:
  "inv s \<Longrightarrow> fold_opt put ms s = Some s' \<Longrightarrow> view s k \<le> view s' k"
  by (simp add: view_put_all)

lemma put_all_at_least:
  "inv s \<Longrightarrow> fold_opt put ms s = Some s' \<Longrightarrow> m \<in> set ms \<Longrightarrow> Some (ver m) \<le> view s' (key m)"
  by (auto simp: view_put_all intro!: Max_ge)

lemma put_all_redelivery:
  assumes "inv s" and "fold_opt put ms s = Some s'" and "set ns \<subseteq> set ms"
    and "fold_opt put ns s' = Some s''"
  shows "view s'' = view s'"
proof -
  from assms have all: "fold_opt put (ms @ ns) s = Some s''" by (simp add: fold_opt_append)
  from assms(3) have "set (ms @ ns) = set ms" by auto
  then show ?thesis
    by (intro put_all_converges [OF assms(1) assms(1) refl _ all assms(2)]) simp
qed

end

end
