(* ===== verification/Member_List.thy ===== *)
theory Member_List
  imports Prelude "HOL-Library.Multiset"
begin

text \<open>
  The membership component of the gossip layer, \<open>components/butterfly/src/member.rs\<close>:
  the health of a member, the member record, and the member list with its suspicion and
  departure timers. Every operation of \<open>MemberList\<close> is a function on the record
  \<open>member_list\<close>; the clock reading \<open>SteadyTime::now()\<close> and the shuffle of \<open>thread_rng\<close>
  are arguments. The lemmas show that the list is well formed after every operation (so the
  \<open>expect\<close> calls of the source cannot fail), and that \<open>insert\<close> implements a store that
  keeps the largest pair of incarnation and health.
\<close>

section \<open>Health\<close>

datatype health = Alive | Suspect | Confirmed | Departed

definition default_health :: health where
  "default_health = Alive"

text \<open>The wire representation, \<open>Membership.Health\<close> of \<open>swim.proto\<close>.\<close>

datatype proto_health = ALIVE | SUSPECT | CONFIRMED | DEPARTED

fun proto_health_from_i32 :: "int \<Rightarrow> proto_health option" where
  "proto_health_from_i32 n =
     (if n = 1 then Some ALIVE else if n = 2 then Some SUSPECT
      else if n = 3 then Some CONFIRMED else if n = 4 then Some DEPARTED else None)"

fun health_from_proto :: "proto_health \<Rightarrow> health" where
  "health_from_proto ALIVE = Alive"
| "health_from_proto SUSPECT = Suspect"
| "health_from_proto CONFIRMED = Confirmed"
| "health_from_proto DEPARTED = Departed"

fun proto_from_health :: "health \<Rightarrow> proto_health" where
  "proto_from_health Alive = ALIVE"
| "proto_from_health Suspect = SUSPECT"
| "proto_from_health Confirmed = CONFIRMED"
| "proto_from_health Departed = DEPARTED"

definition health_from_i32 :: "int \<Rightarrow> health" where
  "health_from_i32 n =
     health_from_proto (case proto_health_from_i32 n of Some p \<Rightarrow> p | None \<Rightarrow> ALIVE)"

fun health_to_string :: "health \<Rightarrow> string" where
  "health_to_string Alive = ''alive''"
| "health_to_string Suspect = ''suspect''"
| "health_to_string Confirmed = ''confirmed''"
| "health_to_string Departed = ''departed''"

text \<open>
  \<open>from_str\<close> lower-cases its argument and panics on any other word. No letter outside
  ASCII lower-cases to a letter of these four words, so ASCII lower-casing decides the match.
\<close>

definition health_from_str :: "string \<Rightarrow> health option" where
  "health_from_str s =
     (let v = ascii_lowercase s in
      if v = ''alive'' then Some Alive
      else if v = ''suspect'' then Some Suspect
      else if v = ''confirmed'' then Some Confirmed
      else if v = ''departed'' then Some Departed
      else None)"

text \<open>
  The order in which rumors of one incarnation override each other. The source writes it
  out as a chain of conditions in \<open>MemberList::insert\<close>.
\<close>

fun health_rank :: "health \<Rightarrow> nat" where
  "health_rank Alive = 0"
| "health_rank Suspect = 1"
| "health_rank Confirmed = 2"
| "health_rank Departed = 3"

lemma health_rank_inject [simp]: "health_rank a = health_rank b \<longleftrightarrow> a = b"
  by (cases a; cases b) simp_all

instantiation health :: linorder
begin

definition less_eq_health :: "health \<Rightarrow> health \<Rightarrow> bool" where
  "less_eq_health a b = (health_rank a \<le> health_rank b)"

definition less_health :: "health \<Rightarrow> health \<Rightarrow> bool" where
  "less_health a b = (health_rank a < health_rank b)"

instance
  by standard (auto simp: less_eq_health_def less_health_def)

end

lemmas health_order = less_eq_health_def less_health_def

section \<open>Members\<close>

text \<open>
  \<open>Member\<close> wraps the protobuf message \<open>Member\<close>; the fields hold what its getters return.
\<close>

record member =
  mb_id :: string
  mb_incarnation :: u64
  mb_address :: string
  mb_swim_port :: int
  mb_gossip_port :: int
  mb_persistent :: bool
  mb_departed :: bool

text \<open>\<open>Member::default\<close>, with the identifier \<open>Uuid::new_v4\<close> generates as an argument.\<close>

definition default_member :: "string \<Rightarrow> member" where
  "default_member uuid =
     \<lparr>mb_id = uuid, mb_incarnation = 0, mb_address = '''', mb_swim_port = 0,
      mb_gossip_port = 0, mb_persistent = False, mb_departed = False\<rparr>"

text \<open>
  \<open>swim_socket_address\<close> formats address and port and parses the result. The parser of
  \<open>SocketAddr\<close> is an argument; a string it rejects is a panic.
\<close>

definition swim_socket_address :: "(string \<Rightarrow> int \<Rightarrow> 'addr option) \<Rightarrow> member \<Rightarrow> 'addr option" where
  "swim_socket_address parse_addr m = parse_addr (mb_address m) (mb_swim_port m)"

record membership =
  ms_member :: member
  ms_health :: proto_health

section \<open>The member list\<close>

record member_list =
  ml_members :: "(string, member) hmap"
  ml_health :: "(string, health) hmap"
  ml_suspect :: "(string, steady_time) hmap"
  ml_depart :: "(string, steady_time) hmap"
  ml_initial_members :: "member list"
  ml_update_counter :: usize

definition ml_new :: member_list where
  "ml_new = \<lparr>ml_members = hm_new, ml_health = hm_new, ml_suspect = hm_new, ml_depart = hm_new,
     ml_initial_members = [], ml_update_counter = 0\<rparr>"

definition ml_increment_update_counter :: "member_list \<Rightarrow> member_list" where
  "ml_increment_update_counter ml = ml\<lparr>ml_update_counter := ml_update_counter ml + 1\<rparr>"

definition len_initial_members :: "member_list \<Rightarrow> nat" where
  "len_initial_members ml = length (ml_initial_members ml)"

definition add_initial_member :: "member \<Rightarrow> member_list \<Rightarrow> member_list" where
  "add_initial_member m ml = ml\<lparr>ml_initial_members := ml_initial_members ml @ [m]\<rparr>"

definition set_initial_members :: "member list \<Rightarrow> member_list \<Rightarrow> member_list" where
  "set_initial_members ms ml = ml\<lparr>ml_initial_members := ms\<rparr>"

text \<open>
  The decision part of \<open>MemberList::insert\<close>: whether the rumor is shared and which
  timers are started or stopped. \<open>None\<close> is the panic of \<open>expect\<close> on a member without a
  health entry.
\<close>

record insert_flags =
  share_rumor :: bool
  start_suspicion :: bool
  stop_suspicion :: bool
  stop_departure :: bool

definition no_flags :: insert_flags where
  "no_flags = \<lparr>share_rumor = False, start_suspicion = False, stop_suspicion = False,
     stop_departure = False\<rparr>"

definition same_incarnation_flags :: "health \<Rightarrow> health \<Rightarrow> insert_flags" where
  "same_incarnation_flags current_health health =
     (if current_health = Alive \<and> health = Suspect
        then no_flags\<lparr>start_suspicion := True, share_rumor := True\<rparr>
      else if current_health = Alive \<and> health = Confirmed then no_flags\<lparr>share_rumor := True\<rparr>
      else if current_health = Alive \<and> health = Departed then no_flags\<lparr>share_rumor := True\<rparr>
      else if current_health = Alive \<and> health = Alive then no_flags
      else if current_health = Suspect \<and> health = Alive then no_flags
      else if current_health = Suspect \<and> health = Suspect then no_flags
      else if current_health = Suspect \<and> health = Confirmed
        then no_flags\<lparr>stop_suspicion := True, share_rumor := True\<rparr>
      else if current_health = Suspect \<and> health = Departed
        then no_flags\<lparr>stop_suspicion := True, share_rumor := True\<rparr>
      else if current_health = Confirmed \<and> health = Departed
        then no_flags\<lparr>share_rumor := True, stop_departure := True\<rparr>
      else no_flags)"

definition insert_decision :: "member \<Rightarrow> health \<Rightarrow> member_list \<Rightarrow> insert_flags option" where
  "insert_decision member health ml =
     (case hm_get (ml_members ml) (mb_id member) of
        None \<Rightarrow> Some (no_flags\<lparr>share_rumor := True\<rparr>)
      | Some current_member \<Rightarrow>
          if mb_incarnation current_member > mb_incarnation member then Some no_flags
          else if mb_incarnation member > mb_incarnation current_member then
            Some (no_flags\<lparr>share_rumor := True,
              stop_suspicion := (health = Confirmed \<or> health = Departed),
              stop_departure := (health = Departed)\<rparr>)
          else
            (case hm_get (ml_health ml) (mb_id current_member) of
               None \<Rightarrow> None
             | Some current_health \<Rightarrow> Some (same_incarnation_flags current_health health)))"

text \<open>The update part, for the flags of the decision.\<close>

definition apply_insert :: "steady_time \<Rightarrow> member \<Rightarrow> health \<Rightarrow> insert_flags \<Rightarrow> member_list \<Rightarrow> member_list" where
  "apply_insert now member health fl ml =
     (if share_rumor fl then
        let ml = ml_increment_update_counter ml;
            ml = ml\<lparr>ml_health := hm_insert (mb_id member) health (ml_health ml)\<rparr>;
            ml = (if start_suspicion fl
                  then ml\<lparr>ml_suspect := hm_insert (mb_id member) now (ml_suspect ml)\<rparr> else ml);
            ml = (if stop_suspicion fl
                  then ml\<lparr>ml_suspect := hm_remove (mb_id member) (ml_suspect ml)\<rparr> else ml);
            ml = (if stop_departure fl
                  then ml\<lparr>ml_depart := hm_remove (mb_id member) (ml_depart ml)\<rparr> else ml)
        in ml\<lparr>ml_members := hm_insert (mb_id member) member (ml_members ml)\<rparr>
      else ml)"

definition ml_insert :: "steady_time \<Rightarrow> member \<Rightarrow> health \<Rightarrow> member_list \<Rightarrow> (member_list \<times> bool) option" where
  "ml_insert now member health ml =
     do { fl \<leftarrow> insert_decision member health ml;
          Some (apply_insert now member health fl ml, share_rumor fl) }"

definition health_of_by_id :: "string \<Rightarrow> member_list \<Rightarrow> health option" where
  "health_of_by_id mid ml = hm_get (ml_health ml) mid"

definition health_of :: "member \<Rightarrow> member_list \<Rightarrow> health option" where
  "health_of m ml = hm_get (ml_health ml) (mb_id m)"

fun check_in_voting_population_by_id :: "string \<Rightarrow> member_list \<Rightarrow> bool" where
  "check_in_voting_population_by_id mid ml =
     (case hm_get (ml_health ml) mid of
        Some Alive \<Rightarrow> True
      | Some Suspect \<Rightarrow> True
      | Some Confirmed \<Rightarrow> True
      | Some Departed \<Rightarrow> False
      | None \<Rightarrow> False)"

definition check_health_of_by_id :: "string \<Rightarrow> health \<Rightarrow> member_list \<Rightarrow> bool" where
  "check_health_of_by_id mid h ml =
     (case hm_get (ml_health ml) mid of Some real_health \<Rightarrow> real_health = h | None \<Rightarrow> False)"

definition check_health_of :: "member \<Rightarrow> health \<Rightarrow> member_list \<Rightarrow> bool" where
  "check_health_of m h ml =
     (case hm_get (ml_health ml) (mb_id m) of Some real_health \<Rightarrow> real_health = h | None \<Rightarrow> False)"

definition pingable :: "member \<Rightarrow> member_list \<Rightarrow> bool" where
  "pingable m ml =
     (if mb_persistent m then True
      else check_health_of m Alive ml \<or> check_health_of m Suspect ml)"

definition persistent_and_confirmed :: "member \<Rightarrow> member_list \<Rightarrow> bool" where
  "persistent_and_confirmed m ml = (mb_persistent m \<and> check_health_of m Confirmed ml)"

definition insert_health_by_id :: "steady_time \<Rightarrow> string \<Rightarrow> health \<Rightarrow> member_list \<Rightarrow> member_list \<times> bool" where
  "insert_health_by_id now mid h ml =
     (if hm_get (ml_health ml) mid = Some h then (ml, False)
      else
        let ml = (if h = Suspect
                  then ml\<lparr>ml_suspect := hm_insert mid now (ml_suspect ml)\<rparr> else ml);
            ml = ml\<lparr>ml_health := hm_insert mid h (ml_health ml)\<rparr>
        in (ml_increment_update_counter ml, True))"

definition ml_insert_health :: "steady_time \<Rightarrow> member \<Rightarrow> health \<Rightarrow> member_list \<Rightarrow> member_list \<times> bool" where
  "ml_insert_health now m h ml = insert_health_by_id now (mb_id m) h ml"

definition membership_for :: "string \<Rightarrow> member_list \<Rightarrow> membership option" where
  "membership_for mid ml =
     (case hm_get (ml_health ml) mid of
        None \<Rightarrow> None
      | Some h \<Rightarrow>
          (case hm_get (ml_members ml) mid of
             Some m \<Rightarrow> Some \<lparr>ms_member = m, ms_health = proto_from_health h\<rparr>
           | None \<Rightarrow> None))"

definition ml_len :: "member_list \<Rightarrow> nat" where
  "ml_len ml = hm_len (ml_members ml)"

definition check_list :: "(member list \<Rightarrow> member list) \<Rightarrow> string \<Rightarrow> member_list \<Rightarrow> member list" where
  "check_list shuffle exclude_id ml =
     shuffle (filter (\<lambda>m. mb_id m \<noteq> exclude_id) (hm_values (ml_members ml)))"

definition PINGREQ_TARGETS :: nat where
  "PINGREQ_TARGETS = 5"

text \<open>\<open>with_pingreq_targets\<close> as the list of members its closure is called on, in order.\<close>

definition pingreq_targets :: "(member list \<Rightarrow> member list) \<Rightarrow> string \<Rightarrow> string \<Rightarrow> member_list \<Rightarrow> member list" where
  "pingreq_targets shuffle sending_member_id target_member_id ml =
     take PINGREQ_TARGETS
       (filter (\<lambda>m. mb_id m \<noteq> sending_member_id \<and> mb_id m \<noteq> target_member_id \<and>
                    check_health_of_by_id (mb_id m) Alive ml)
         (shuffle (hm_values (ml_members ml))))"

definition with_member :: "string \<Rightarrow> member_list \<Rightarrow> member option" where
  "with_member mid ml = hm_get (ml_members ml) mid"

definition with_members :: "member_list \<Rightarrow> member list" where
  "with_members ml = hm_values (ml_members ml)"

definition with_suspects :: "member_list \<Rightarrow> (string \<times> steady_time) list" where
  "with_suspects ml = ml_suspect ml"

definition with_departures :: "member_list \<Rightarrow> (string \<times> steady_time) list" where
  "with_departures ml = ml_depart ml"

definition ml_expire :: "string \<Rightarrow> member_list \<Rightarrow> member_list" where
  "ml_expire mid ml = ml\<lparr>ml_suspect := hm_remove mid (ml_suspect ml)\<rparr>"

definition ml_depart_at :: "steady_time \<Rightarrow> string \<Rightarrow> member_list \<Rightarrow> member_list" where
  "ml_depart_at now mid ml = ml\<lparr>ml_depart := hm_insert mid now (ml_depart ml)\<rparr>"

definition depart_remove :: "string \<Rightarrow> member_list \<Rightarrow> member_list" where
  "depart_remove mid ml = ml\<lparr>ml_depart := hm_remove mid (ml_depart ml)\<rparr>"

definition contains_member :: "string \<Rightarrow> member_list \<Rightarrow> bool" where
  "contains_member mid ml = hm_contains (ml_members ml) mid"

section \<open>Well-formed member lists\<close>

text \<open>
  Every member is stored under its own identifier and has a health entry; only members
  of the list have timers. A health entry alone may exist: a departure rumor can arrive
  before the member it is about.
\<close>

definition ml_inv :: "member_list \<Rightarrow> bool" where
  "ml_inv ml \<longleftrightarrow>
     hm_inv (ml_members ml) \<and> hm_inv (ml_health ml) \<and> hm_inv (ml_suspect ml) \<and> hm_inv (ml_depart ml) \<and>
     list_all (\<lambda>(k, m). mb_id m = k \<and> hm_contains (ml_health ml) k) (ml_members ml) \<and>
     list_all (\<lambda>(k, t). hm_contains (ml_members ml) k) (ml_suspect ml) \<and>
     list_all (\<lambda>(k, t). hm_contains (ml_members ml) k) (ml_depart ml)"

definition ml_view :: "member_list \<Rightarrow> string \<Rightarrow> (u64 \<times> health) option" where
  "ml_view ml mid =
     (case (hm_get (ml_members ml) mid, hm_get (ml_health ml) mid) of
        (Some m, Some h) \<Rightarrow> Some (mb_incarnation m, h)
      | _ \<Rightarrow> None)"

lemma ml_inv_iff:
  "ml_inv ml \<longleftrightarrow>
     hm_inv (ml_members ml) \<and> hm_inv (ml_health ml) \<and> hm_inv (ml_suspect ml) \<and> hm_inv (ml_depart ml) \<and>
     (\<forall>k m. hm_get (ml_members ml) k = Some m \<longrightarrow> mb_id m = k \<and> hm_get (ml_health ml) k \<noteq> None) \<and>
     (\<forall>k t. hm_get (ml_suspect ml) k = Some t \<longrightarrow> hm_get (ml_members ml) k \<noteq> None) \<and>
     (\<forall>k t. hm_get (ml_depart ml) k = Some t \<longrightarrow> hm_get (ml_members ml) k \<noteq> None)"
  unfolding ml_inv_def by (auto simp: list_all_hmap)

lemma ml_inv_new [simp]: "ml_inv ml_new"
  by (simp add: ml_inv_iff ml_new_def)

lemma ml_inv_member: "ml_inv ml \<Longrightarrow> hm_get (ml_members ml) k = Some m \<Longrightarrow> mb_id m = k"
  by (simp add: ml_inv_iff)

lemma ml_inv_health: "ml_inv ml \<Longrightarrow> hm_get (ml_members ml) k = Some m \<Longrightarrow> \<exists>h. hm_get (ml_health ml) k = Some h"
  by (auto simp: ml_inv_iff)

lemma ml_inv_timer:
  "ml_inv ml \<Longrightarrow> hm_get (ml_suspect ml) k = Some t \<Longrightarrow> \<exists>m. hm_get (ml_members ml) k = Some m"
  "ml_inv ml \<Longrightarrow> hm_get (ml_depart ml) k = Some t \<Longrightarrow> \<exists>m. hm_get (ml_members ml) k = Some m"
  by (auto simp: ml_inv_iff)

named_theorems ml_inv_intro \<open>operations that keep member lists well formed\<close>

lemma ml_inv_counter [ml_inv_intro]: "ml_inv ml \<Longrightarrow> ml_inv (ml_increment_update_counter ml)"
  by (simp add: ml_inv_iff ml_increment_update_counter_def)

lemma ml_inv_expire [ml_inv_intro]: "ml_inv ml \<Longrightarrow> ml_inv (ml_expire mid ml)"
  by (simp add: ml_inv_iff ml_expire_def)

lemma ml_inv_depart_remove [ml_inv_intro]: "ml_inv ml \<Longrightarrow> ml_inv (depart_remove mid ml)"
  by (simp add: ml_inv_iff depart_remove_def)

lemma ml_inv_initial [ml_inv_intro]:
  "ml_inv ml \<Longrightarrow> ml_inv (add_initial_member m ml)"
  "ml_inv ml \<Longrightarrow> ml_inv (set_initial_members ms ml)"
  by (simp_all add: ml_inv_iff add_initial_member_def set_initial_members_def)

lemma ml_inv_depart_at [ml_inv_intro]:
  "ml_inv ml \<Longrightarrow> contains_member mid ml \<Longrightarrow> ml_inv (ml_depart_at now mid ml)"
  by (auto simp: ml_inv_iff ml_depart_at_def contains_member_def)

text \<open>Writing only a health entry keeps the list well formed unless it starts a timer for a stranger.\<close>

lemma ml_inv_insert_health [ml_inv_intro]:
  "ml_inv ml \<Longrightarrow> h \<noteq> Suspect \<or> contains_member mid ml \<Longrightarrow> ml_inv (fst (insert_health_by_id now mid h ml))"
  by (auto simp: ml_inv_iff insert_health_by_id_def ml_increment_update_counter_def contains_member_def Let_def)

lemma ml_inv_apply_insert:
  "ml_inv ml \<Longrightarrow> ml_inv (apply_insert now m h fl ml)"
  by (auto simp: ml_inv_iff apply_insert_def ml_increment_update_counter_def Let_def)

section \<open>Insert keeps the largest incarnation and health\<close>

lemma same_incarnation_flags_share:
  "share_rumor (same_incarnation_flags c h) \<longleftrightarrow> c < h"
  by (cases c; cases h) (simp_all add: same_incarnation_flags_def no_flags_def health_order)

lemma insert_decision_total:
  "ml_inv ml \<Longrightarrow> \<exists>fl. insert_decision m h ml = Some fl"
  using ml_inv_member [of ml "mb_id m"] ml_inv_health [of ml "mb_id m"]
  by (cases "hm_get (ml_members ml) (mb_id m)") (auto simp: insert_decision_def)

lemma insert_decision_share:
  assumes "ml_inv ml" and "insert_decision m h ml = Some fl"
  shows "share_rumor fl \<longleftrightarrow> ml_view ml (mb_id m) < Some (mb_incarnation m, h)"
proof (cases "hm_get (ml_members ml) (mb_id m)")
  case None
  with assms show ?thesis
    by (auto simp: insert_decision_def ml_view_def no_flags_def)
next
  case (Some c)
  from ml_inv_member [OF assms(1) Some] have c: "mb_id c = mb_id m" .
  from ml_inv_health [OF assms(1) Some] obtain ch where ch: "hm_get (ml_health ml) (mb_id m) = Some ch" ..
  from assms(2) Some c ch show ?thesis
    by (auto simp: insert_decision_def ml_view_def no_flags_def same_incarnation_flags_share
        less_prod_def split: if_splits)
qed

lemma ml_view_apply_insert:
  "share_rumor fl \<Longrightarrow>
     ml_view (apply_insert now m h fl ml) = (ml_view ml)(mb_id m := Some (mb_incarnation m, h))"
  by (auto simp: apply_insert_def ml_view_def ml_increment_update_counter_def Let_def fun_eq_iff
      split: option.splits)

lemma ml_view_apply_insert_ignored:
  "\<not> share_rumor fl \<Longrightarrow> apply_insert now m h fl ml = ml"
  by (simp add: apply_insert_def)

lemma ml_insert_spec:
  assumes "ml_inv ml"
  obtains ml' where
    "ml_insert now m h ml = Some (ml', ml_view ml (mb_id m) < Some (mb_incarnation m, h))"
    "ml_inv ml'"
    "\<And>k. ml_view ml' k =
       (if k = mb_id m then max (ml_view ml k) (Some (mb_incarnation m, h)) else ml_view ml k)"
proof -
  obtain fl where fl: "insert_decision m h ml = Some fl"
    using insert_decision_total [OF assms] by blast
  note share = insert_decision_share [OF assms fl]
  show ?thesis
  proof (rule that [of "apply_insert now m h fl ml"])
    show "ml_insert now m h ml =
        Some (apply_insert now m h fl ml, ml_view ml (mb_id m) < Some (mb_incarnation m, h))"
      by (simp add: ml_insert_def fl share)
    show "ml_inv (apply_insert now m h fl ml)"
      by (rule ml_inv_apply_insert [OF assms])
    show "ml_view (apply_insert now m h fl ml) k =
       (if k = mb_id m then max (ml_view ml k) (Some (mb_incarnation m, h)) else ml_view ml k)" for k
      by (cases "share_rumor fl")
        (auto simp: ml_view_apply_insert ml_view_apply_insert_ignored share max_def)
  qed
qed

text \<open>One delivery of a membership rumor: its arrival time, the member and its health.\<close>

type_synonym delivery = "steady_time \<times> member \<times> health"

definition deliver :: "delivery \<Rightarrow> member_list \<Rightarrow> member_list option" where
  "deliver d ml = (case d of (now, m, h) \<Rightarrow> map_option fst (ml_insert now m h ml))"

definition delivery_id :: "delivery \<Rightarrow> string" where
  "delivery_id d = mb_id (fst (snd d))"

definition delivery_version :: "delivery \<Rightarrow> u64 \<times> health" where
  "delivery_version d = (mb_incarnation (fst (snd d)), snd (snd d))"

interpretation mls: max_store ml_view delivery_id delivery_version deliver ml_inv
proof
  fix ml :: member_list and d :: delivery
  assume inv: "ml_inv ml"
  obtain now m h where d: "d = (now, m, h)" by (cases d)
  show "\<exists>ml'. deliver d ml = Some ml' \<and> ml_inv ml' \<and>
      (\<forall>k. ml_view ml' k =
         (if k = delivery_id d then max (ml_view ml k) (Some (delivery_version d)) else ml_view ml k))"
    by (rule ml_insert_spec [OF inv, of now m h])
      (auto simp: d deliver_def delivery_id_def delivery_version_def)
qed

section \<open>Properties of the member list\<close>

text \<open>On a well-formed member list \<open>insert\<close> does not panic, keeps the list well formed, and
  stores for the member the larger of the old and the new pair of incarnation and health, in the
  order Alive, Suspect, Confirmed, Departed of healths. It reports a change, to be
  gossiped on, exactly when the new pair is larger. Nothing else it knows of other members changes.\<close>

theorem insert_refines_max:
  assumes "ml_inv ml"
  shows "\<exists>ml'. ml_insert now m h ml = Some (ml', ml_view ml (mb_id m) < Some (mb_incarnation m, h)) \<and>
    ml_inv ml' \<and>
    ml_view ml' = (ml_view ml)(mb_id m := max (ml_view ml (mb_id m)) (Some (mb_incarnation m, h)))"
  by (rule ml_insert_spec [OF assms, of now m h]) (auto simp: fun_eq_iff)

definition example_member :: "string \<Rightarrow> u64 \<Rightarrow> member" where
  "example_member mid inc = (default_member mid)\<lparr>mb_incarnation := inc\<rparr>"

theorem insert_refines_max_witness:
  "ml_inv ml_new \<and>
   (\<exists>ml'. ml_insert 0 (example_member ''a'' 3) Suspect ml_new = Some (ml', True) \<and>
      ml_view ml' ''a'' = Some (3, Suspect))"
proof -
  have "ml_view ml_new ''a'' = None" by code_simp
  with insert_refines_max [OF ml_inv_new, of 0 "example_member ''a'' 3" Suspect] show ?thesis
    by (auto simp: example_member_def default_member_def max_def)
qed

text \<open>C2: Membership converges. Two members of the ring that start from the same knowledge and
  receive the same membership rumors, in any order and each any number of times, at any time,
  end without a panic and with the same incarnation and health for every member.\<close>

theorem membership_converges:
  assumes "ml_inv ml1" and "ml_inv ml2" and "ml_view ml1 = ml_view ml2"
    and "(\<lambda>d. (delivery_id d, delivery_version d)) ` set ds1 = (\<lambda>d. (delivery_id d, delivery_version d)) ` set ds2"
  shows "\<exists>ml1' ml2'. fold_opt deliver ds1 ml1 = Some ml1' \<and> fold_opt deliver ds2 ml2 = Some ml2' \<and>
    ml_inv ml1' \<and> ml_inv ml2' \<and> ml_view ml1' = ml_view ml2'"
proof -
  obtain ml1' ml2' where *: "fold_opt deliver ds1 ml1 = Some ml1'" "fold_opt deliver ds2 ml2 = Some ml2'"
    using mls.put_all_total [OF assms(1)] mls.put_all_total [OF assms(2)] by blast
  with mls.put_all_converges [OF assms *] mls.put_all_inv assms show ?thesis by blast
qed

theorem membership_converges_witness:
  "\<exists>ml1 ml2.
     fold_opt deliver [(0, example_member ''a'' 1, Alive), (5, example_member ''a'' 2, Suspect)] ml_new = Some ml1 \<and>
     fold_opt deliver [(1, example_member ''a'' 2, Suspect), (2, example_member ''a'' 1, Alive),
       (3, example_member ''a'' 2, Suspect)] ml_new = Some ml2 \<and>
     ml_view ml1 = ml_view ml2"
  using membership_converges [OF ml_inv_new ml_inv_new refl,
    of "[(0, example_member ''a'' 1, Alive), (5, example_member ''a'' 2, Suspect)]"
       "[(1, example_member ''a'' 2, Suspect), (2, example_member ''a'' 1, Alive),
         (3, example_member ''a'' 2, Suspect)]"]
  by (auto simp: delivery_id_def delivery_version_def)

text \<open>The members chosen to relay a ping are at most five, all different, and every one of
  them is alive and neither the sender nor the target. When fewer than five are chosen, no other
  member qualifies. The shuffle may be any permutation.\<close>

theorem pingreq_targets_correct:
  assumes "ml_inv ml" and "mset (shuffle (hm_values (ml_members ml))) = mset (hm_values (ml_members ml))"
  shows "length (pingreq_targets shuffle s t ml) \<le> PINGREQ_TARGETS \<and>
    distinct (map mb_id (pingreq_targets shuffle s t ml)) \<and>
    list_all (\<lambda>m. with_member (mb_id m) ml = Some m \<and> check_health_of m Alive ml \<and>
       mb_id m \<noteq> s \<and> mb_id m \<noteq> t) (pingreq_targets shuffle s t ml) \<and>
    (length (pingreq_targets shuffle s t ml) < PINGREQ_TARGETS \<longrightarrow>
      (\<forall>mid m. with_member mid ml = Some m \<and> check_health_of m Alive ml \<and> mid \<noteq> s \<and> mid \<noteq> t \<longrightarrow>
         m \<in> set (pingreq_targets shuffle s t ml)))"
proof -
  define ok where "ok m \<longleftrightarrow> mb_id m \<noteq> s \<and> mb_id m \<noteq> t \<and> check_health_of_by_id (mb_id m) Alive ml" for m :: member
  let ?vs = "shuffle (hm_values (ml_members ml))"
  have targets: "pingreq_targets shuffle s t ml = take PINGREQ_TARGETS (filter ok ?vs)"
    by (simp add: pingreq_targets_def ok_def [abs_def])
  have ids: "map mb_id (hm_values (ml_members ml)) = hm_keys (ml_members ml)"
    using assms(1) by (auto simp: ml_inv_iff hm_values_def hm_keys_def hm_mem_iff)
  have mem: "m \<in> set ?vs \<longleftrightarrow> with_member (mb_id m) ml = Some m" for m
    using assms by (auto simp: mset_eq_setD [OF assms(2)] hm_values_iff ml_inv_iff with_member_def)
  have "mset (map mb_id ?vs) = mset (hm_keys (ml_members ml))"
    using assms(2) ids by (metis mset_map)
  then have "distinct (map mb_id ?vs)"
    using assms(1) by (metis hm_keys_def hm_inv_def ml_inv_iff mset_eq_imp_distinct_iff)
  then have "distinct (map mb_id (filter ok ?vs))" by (rule distinct_map_filter)
  then have dist: "distinct (map mb_id (pingreq_targets shuffle s t ml))"
    by (simp add: targets take_map [symmetric])
  have sub: "m \<in> set ?vs \<and> ok m" if "m \<in> set (pingreq_targets shuffle s t ml)" for m
    using in_set_takeD [OF that [unfolded targets]] by simp
  have all: "m \<in> set (pingreq_targets shuffle s t ml)"
    if "length (pingreq_targets shuffle s t ml) < PINGREQ_TARGETS" "m \<in> set ?vs" "ok m" for m
    using that by (simp add: targets)
  show ?thesis
  proof (intro conjI impI allI)
    show "list_all (\<lambda>m. with_member (mb_id m) ml = Some m \<and> check_health_of m Alive ml \<and>
       mb_id m \<noteq> s \<and> mb_id m \<noteq> t) (pingreq_targets shuffle s t ml)"
      using sub mem by (auto simp: list_all_iff ok_def check_health_of_def check_health_of_by_id_def)
  next
    fix mid m
    assume short: "length (pingreq_targets shuffle s t ml) < PINGREQ_TARGETS"
      and m: "with_member mid ml = Some m \<and> check_health_of m Alive ml \<and> mid \<noteq> s \<and> mid \<noteq> t"
    from m have "mb_id m = mid" using ml_inv_member [OF assms(1)] by (simp add: with_member_def)
    with m mem [of m] have "m \<in> set ?vs" "ok m"
      by (simp_all add: ok_def check_health_of_def check_health_of_by_id_def)
    with short show "m \<in> set (pingreq_targets shuffle s t ml)" by (rule all)
  qed (simp_all add: dist, simp add: targets)
qed

definition example_members :: member_list where
  "example_members = ml_new\<lparr>
     ml_members := map (\<lambda>k. (k, example_member k 0)) [''a'', ''b'', ''c''],
     ml_health := [(''a'', Alive), (''b'', Alive), (''c'', Confirmed)]\<rparr>"

theorem pingreq_targets_correct_witness:
  "ml_inv example_members \<and>
   mset (rev (hm_values (ml_members example_members))) = mset (hm_values (ml_members example_members)) \<and>
   distinct (map mb_id (pingreq_targets rev ''a'' ''x'' example_members)) \<and>
   pingreq_targets rev ''a'' ''x'' example_members = [example_member ''b'' 0]"
proof -
  have inv: "ml_inv example_members" by code_simp
  have val: "pingreq_targets rev ''a'' ''x'' example_members = [example_member ''b'' 0]" by code_simp
  show ?thesis using pingreq_targets_correct [OF inv, of rev "''a''" "''x''"] inv val by simp
qed

text \<open>The textual and the numeric forms of a health are read back: \<open>from_str\<close> inverts
  \<open>to_string\<close>, the conversions to and from the wire enumeration are inverse to each other,
  and an unknown number is read as the default, Alive.\<close>

theorem health_roundtrip:
  "health_from_str (health_to_string h) = Some h \<and>
   health_from_proto (proto_from_health h) = h \<and> proto_from_health (health_from_proto p) = p \<and>
   (n < 1 \<or> 4 < n \<longrightarrow> health_from_i32 n = default_health)"
proof -
  have "health_from_str (health_to_string h) = Some h" for h
    by (cases h) (simp_all add: health_from_str_def, code_simp+)
  moreover have "health_from_proto (proto_from_health h) = h" by (cases h) simp_all
  moreover have "proto_from_health (health_from_proto p) = p" by (cases p) simp_all
  ultimately show ?thesis by (simp add: health_from_i32_def default_health_def)
qed

theorem health_roundtrip_witness:
  "health_from_i32 9 = Alive \<and> health_from_str ''suspect'' = Some Suspect"
  using health_roundtrip [of Suspect ALIVE 9] by (simp add: default_health_def)

end
