(* ===== verification/Rumor_Store.thy ===== *)
theory Rumor_Store
  imports Prelude
begin

text \<open>
  The generic rumor machinery of \<open>components/butterfly/src/rumor/mod.rs\<close>: rumor keys,
  the \<open>Rumor\<close> trait as a record of its methods, and the store \<open>RumorStore\<close> over any
  implementation of the trait. The locale \<open>rumor_trait\<close> states what the store relies on
  in an implementation; \<open>versioned_rumor\<close> adds that merging keeps the larger version, which
  makes the store a \<open>max_store\<close> of the prelude. The rumor types of the program interpret
  both in the theory \<open>Rumors\<close>.
\<close>

section \<open>Rumor keys and the rumor trait\<close>

datatype rumor_type =
    RT_Member | RT_Service | RT_Election | RT_ServiceConfig | RT_ServiceFile
  | RT_Fake | RT_Fake2 | RT_ElectionUpdate | RT_Departure

record rumor_key =
  rk_kind :: rumor_type
  rk_id :: string
  rk_key :: string

definition rumor_key_new :: "rumor_type \<Rightarrow> string \<Rightarrow> string \<Rightarrow> rumor_key" where
  "rumor_key_new kind i k = \<lparr>rk_kind = kind, rk_id = i, rk_key = k\<rparr>"

definition rumor_key_key :: "rumor_key \<Rightarrow> string" where
  "rumor_key_key rk = (if length (rk_key rk) > 0 then rk_id rk @ ''-'' @ rk_key rk else rk_id rk)"

text \<open>
  The methods of the trait the store calls. \<open>merge\<close> takes the stored rumor and the
  arriving one and returns the rumor that is stored afterwards, with the Boolean result.
\<close>

record 'r rumor_ops =
  r_kind :: "'r \<Rightarrow> rumor_type"
  r_key :: "'r \<Rightarrow> string"
  r_id :: "'r \<Rightarrow> string"
  r_merge :: "'r \<Rightarrow> 'r \<Rightarrow> 'r \<times> bool"

definition rumor_key_of :: "'r rumor_ops \<Rightarrow> 'r \<Rightarrow> rumor_key" where
  "rumor_key_of R r = rumor_key_new (r_kind R r) (r_id R r) (r_key R r)"

section \<open>The store\<close>

record 'r rumor_store =
  rs_list :: "(string, (string, 'r) hmap) hmap"
  rs_update_counter :: usize

definition rs_default :: "'r rumor_store" where
  "rs_default = \<lparr>rs_list = hm_new, rs_update_counter = 0\<rparr>"

definition rs_new :: "usize \<Rightarrow> 'r rumor_store" where
  "rs_new counter = rs_default\<lparr>rs_update_counter := counter\<rparr>"

definition rs_clear :: "'r rumor_store \<Rightarrow> 'r rumor_store \<times> usize" where
  "rs_clear s = (s\<lparr>rs_list := hm_new, rs_update_counter := 0\<rparr>, rs_update_counter s)"

definition rs_increment_update_counter :: "'r rumor_store \<Rightarrow> 'r rumor_store" where
  "rs_increment_update_counter s = s\<lparr>rs_update_counter := rs_update_counter s + 1\<rparr>"

definition rs_len :: "'r rumor_store \<Rightarrow> nat" where
  "rs_len s = sum_list (map hm_len (hm_values (rs_list s)))"

definition rs_len_for_key :: "'r rumor_store \<Rightarrow> string \<Rightarrow> nat" where
  "rs_len_for_key s k = (case hm_get (rs_list s) k of None \<Rightarrow> 0 | Some r \<Rightarrow> hm_len r)"

definition rs_insert :: "'r rumor_ops \<Rightarrow> 'r \<Rightarrow> 'r rumor_store \<Rightarrow> 'r rumor_store \<times> bool" where
  "rs_insert R rumor s =
     (let rumors = (case hm_get (rs_list s) (r_key R rumor) of Some rs \<Rightarrow> rs | None \<Rightarrow> hm_new);
          (stored, result) =
            (case hm_get rumors (r_id R rumor) of
               Some entry \<Rightarrow> r_merge R entry rumor
             | None \<Rightarrow> (rumor, True));
          s = s\<lparr>rs_list := hm_insert (r_key R rumor) (hm_insert (r_id R rumor) stored rumors) (rs_list s)\<rparr>
      in (if result then rs_increment_update_counter s else s, result))"

definition rs_remove :: "string \<Rightarrow> string \<Rightarrow> 'r rumor_store \<Rightarrow> 'r rumor_store" where
  "rs_remove k i s =
     (case hm_get (rs_list s) k of
        Some rumors \<Rightarrow> s\<lparr>rs_list := hm_insert k (hm_remove i rumors) (rs_list s)\<rparr>
      | None \<Rightarrow> s)"

text \<open>The closures of \<open>with_keys\<close>, \<open>with_rumors\<close> and \<open>with_rumor\<close> see these values.\<close>

definition with_keys :: "'r rumor_store \<Rightarrow> (string \<times> (string, 'r) hmap) list" where
  "with_keys s = rs_list s"

definition with_rumors :: "'r rumor_store \<Rightarrow> string \<Rightarrow> 'r list" where
  "with_rumors s k = (case hm_get (rs_list s) k of Some rumors \<Rightarrow> hm_values rumors | None \<Rightarrow> [])"

definition with_rumor :: "'r rumor_store \<Rightarrow> string \<Rightarrow> string \<Rightarrow> 'r option" where
  "with_rumor s k i = do { rumors \<leftarrow> hm_get (rs_list s) k; hm_get rumors i }"

definition contains_rumor :: "'r rumor_store \<Rightarrow> string \<Rightarrow> string \<Rightarrow> bool" where
  "contains_rumor s k i =
     (case do { rumors \<leftarrow> hm_get (rs_list s) k; hm_get rumors i } of Some _ \<Rightarrow> True | None \<Rightarrow> False)"

text \<open>\<open>write_to_bytes\<close>, with the encoder of the rumor as an argument.\<close>

datatype rumor_error = NonExistentRumor string string | EncodeError string

definition rs_write_to_bytes ::
  "('r \<Rightarrow> rumor_error + 'b) \<Rightarrow> 'r rumor_store \<Rightarrow> string \<Rightarrow> string \<Rightarrow> rumor_error + 'b" where
  "rs_write_to_bytes encode s k i =
     (case with_rumor s k i of
        Some rumor \<Rightarrow> encode rumor
      | None \<Rightarrow> Inl (NonExistentRumor i k))"

lemma contains_rumor_iff [simp]: "contains_rumor s k i \<longleftrightarrow> (\<exists>r. with_rumor s k i = Some r)"
  by (auto simp: contains_rumor_def with_rumor_def split: option.splits)

section \<open>Well-formed stores\<close>

text \<open>Every rumor is filed under its own key and identifier.\<close>

definition rs_inv :: "'r rumor_ops \<Rightarrow> 'r rumor_store \<Rightarrow> bool" where
  "rs_inv R s \<longleftrightarrow>
     hm_inv (rs_list s) \<and>
     list_all (\<lambda>(k, rumors). hm_inv rumors \<and>
       list_all (\<lambda>(i, r). r_key R r = k \<and> r_id R r = i) rumors) (rs_list s)"

lemma rs_inv_default [simp]: "rs_inv R rs_default"
  by (simp add: rs_inv_def rs_default_def hm_new_def hm_inv_def)

lemma rs_inv_counter [simp]: "rs_inv R (rs_increment_update_counter s) = rs_inv R s"
  by (simp add: rs_inv_def rs_increment_update_counter_def)

lemma rs_inv_iff:
  "rs_inv R s \<longleftrightarrow> hm_inv (rs_list s) \<and>
     (\<forall>k rumors. hm_get (rs_list s) k = Some rumors \<longrightarrow>
        hm_inv rumors \<and> (\<forall>i r. hm_get rumors i = Some r \<longrightarrow> r_key R r = k \<and> r_id R r = i))"
proof -
  have inner: "hm_inv rumors \<and> list_all (\<lambda>(i, r). r_key R r = k \<and> r_id R r = i) rumors \<longleftrightarrow>
      hm_inv rumors \<and> (\<forall>i r. hm_get rumors i = Some r \<longrightarrow> r_key R r = k \<and> r_id R r = i)" for k rumors
    by (cases "hm_inv rumors") (simp_all add: list_all_hmap)
  show ?thesis
    unfolding rs_inv_def inner by (cases "hm_inv (rs_list s)") (simp_all add: list_all_hmap)
qed

lemma rs_inv_group:
  assumes "rs_inv R s" and "hm_get (rs_list s) k = Some rumors"
  shows "hm_inv rumors"
    and "hm_get rumors i = Some r \<Longrightarrow> r_key R r = k"
    and "hm_get rumors i = Some r \<Longrightarrow> r_id R r = i"
  using assms by (simp_all add: rs_inv_iff)

lemma rs_inv_lookup:
  assumes "rs_inv R s" and "with_rumor s k i = Some r"
  shows "r_key R r = k" and "r_id R r = i"
  using assms rs_inv_group by (auto simp: with_rumor_def bind_eq_Some_conv)

lemma with_rumors_iff:
  assumes "rs_inv R s"
  shows "r \<in> set (with_rumors s k) \<longleftrightarrow> (\<exists>i. with_rumor s k i = Some r)"
proof (cases "hm_get (rs_list s) k")
  case (Some rumors)
  with rs_inv_group(1) [OF assms Some] show ?thesis
    by (simp add: with_rumors_def with_rumor_def hm_values_iff)
qed (simp add: with_rumors_def with_rumor_def)

lemma with_rumors_ids_distinct:
  assumes "rs_inv R s"
  shows "distinct (map (r_id R) (with_rumors s k))"
proof (cases "hm_get (rs_list s) k")
  case (Some rumors)
  have "map (r_id R) (hm_values rumors) = hm_keys rumors"
    unfolding hm_values_def hm_keys_def
    using rs_inv_group [OF assms Some] by (auto simp: hm_mem_get)
  with rs_inv_group(1) [OF assms Some] Some show ?thesis
    by (simp add: with_rumors_def hm_keys_def hm_inv_def)
qed (simp add: with_rumors_def)

lemma rs_inv_update:
  assumes "rs_inv R s" and "hm_inv rumors"
    and "\<And>i r. hm_get rumors i = Some r \<Longrightarrow> r_key R r = k \<and> r_id R r = i"
  shows "rs_inv R (s\<lparr>rs_list := hm_insert k rumors (rs_list s)\<rparr>)"
  using assms by (simp add: rs_inv_iff)

lemma rs_inv_remove:
  assumes "rs_inv R s"
  shows "rs_inv R (rs_remove k i s)"
proof (cases "hm_get (rs_list s) k")
  case (Some rumors)
  with rs_inv_group [OF assms Some] show ?thesis
    by (auto simp: rs_remove_def split: if_splits intro!: rs_inv_update assms)
qed (simp add: rs_remove_def assms)

lemma with_rumor_remove:
  "with_rumor (rs_remove k i s) k' i' = (if k' = k \<and> i' = i then None else with_rumor s k' i')"
  by (cases "hm_get (rs_list s) k") (auto simp: with_rumor_def rs_remove_def)

lemma with_rumor_clear [simp]: "with_rumor (fst (rs_clear s)) k i = None"
  by (simp add: with_rumor_def rs_clear_def)

text \<open>\<open>insert\<close> with the group it writes to and the merge result named.\<close>

definition rs_group :: "'r rumor_store \<Rightarrow> string \<Rightarrow> (string, 'r) hmap" where
  "rs_group s k = (case hm_get (rs_list s) k of Some rs \<Rightarrow> rs | None \<Rightarrow> hm_new)"

definition rs_merged :: "'r rumor_ops \<Rightarrow> 'r \<Rightarrow> 'r rumor_store \<Rightarrow> 'r \<times> bool" where
  "rs_merged R r s =
     (case with_rumor s (r_key R r) (r_id R r) of Some e \<Rightarrow> r_merge R e r | None \<Rightarrow> (r, True))"

lemma hm_get_rs_group: "hm_get (rs_group s k) i = with_rumor s k i"
  by (cases "hm_get (rs_list s) k") (simp_all add: rs_group_def with_rumor_def)

lemma rs_insert_eq:
  "rs_insert R r s =
     (let s' = s\<lparr>rs_list := hm_insert (r_key R r)
                  (hm_insert (r_id R r) (fst (rs_merged R r s)) (rs_group s (r_key R r))) (rs_list s)\<rparr>
      in (if snd (rs_merged R r s) then rs_increment_update_counter s' else s', snd (rs_merged R r s)))"
  unfolding rs_insert_def rs_merged_def hm_get_rs_group [symmetric]
  by (simp add: Let_def rs_group_def case_prod_beta)

lemma with_rumor_update:
  "with_rumor (s\<lparr>rs_list := hm_insert k rumors (rs_list s)\<rparr>) k' i =
     (if k' = k then hm_get rumors i else with_rumor s k' i)"
  by (simp add: with_rumor_def)

lemma with_rumor_counter [simp]: "with_rumor (rs_increment_update_counter s) = with_rumor s"
  by (simp add: fun_eq_iff with_rumor_def rs_increment_update_counter_def)

lemma with_rumor_insert_raw:
  "with_rumor (fst (rs_insert R r s)) k i =
     (if k = r_key R r \<and> i = r_id R r then Some (fst (rs_merged R r s)) else with_rumor s k i)"
  by (simp add: rs_insert_eq Let_def with_rumor_update hm_get_rs_group)

section \<open>What the store relies on in a rumor type\<close>

locale rumor_trait =
  fixes R :: "'r rumor_ops"
  assumes merge_key: "r_key R a = r_key R b \<Longrightarrow> r_id R a = r_id R b \<Longrightarrow>
      r_key R (fst (r_merge R a b)) = r_key R a"
    and merge_id: "r_key R a = r_key R b \<Longrightarrow> r_id R a = r_id R b \<Longrightarrow>
      r_id R (fst (r_merge R a b)) = r_id R a"
    and merge_unchanged: "\<not> snd (r_merge R a b) \<Longrightarrow> fst (r_merge R a b) = a"
begin

text \<open>The rumor that is stored after \<open>insert\<close>, and whether the insert counts as a change.\<close>

lemma with_rumor_insert:
  "with_rumor (fst (rs_insert R r s)) k i =
     (if k = r_key R r \<and> i = r_id R r
      then Some (case with_rumor s k i of None \<Rightarrow> r | Some e \<Rightarrow> fst (r_merge R e r))
      else with_rumor s k i)"
  by (simp add: with_rumor_insert_raw rs_merged_def split: option.split)

lemma insert_result:
  "snd (rs_insert R r s) =
     (case with_rumor s (r_key R r) (r_id R r) of None \<Rightarrow> True | Some e \<Rightarrow> snd (r_merge R e r))"
  by (simp add: rs_insert_eq Let_def rs_merged_def split: option.split)

lemma insert_counter:
  "rs_update_counter (fst (rs_insert R r s)) =
     (if snd (rs_insert R r s) then rs_update_counter s + 1 else rs_update_counter s)"
  by (simp add: rs_insert_eq Let_def rs_increment_update_counter_def)

lemma insert_unchanged:
  "\<not> snd (rs_insert R r s) \<Longrightarrow> with_rumor (fst (rs_insert R r s)) = with_rumor s"
  by (auto simp: fun_eq_iff with_rumor_insert insert_result merge_unchanged split: option.splits)

lemma inv_insert:
  assumes "rs_inv R s"
  shows "rs_inv R (fst (rs_insert R r s))"
proof -
  have old: "r_key R e = k \<and> r_id R e = i" if "with_rumor s k i = Some e" for k i e
    using rs_inv_lookup [OF assms that] by simp
  have group: "hm_inv (rs_group s (r_key R r))"
    using rs_inv_group(1) [OF assms] by (simp add: rs_group_def split: option.split)
  have "r_key R (fst (rs_merged R r s)) = r_key R r" "r_id R (fst (rs_merged R r s)) = r_id R r"
    using old by (simp_all add: rs_merged_def merge_key merge_id split: option.split)
  with group old have "rs_inv R (s\<lparr>rs_list := hm_insert (r_key R r)
      (hm_insert (r_id R r) (fst (rs_merged R r s)) (rs_group s (r_key R r))) (rs_list s)\<rparr>)"
    by (intro rs_inv_update [OF assms]) (simp_all add: hm_get_rs_group split: if_splits)
  then show ?thesis by (simp add: rs_insert_eq Let_def)
qed

end

text \<open>
  Rumor types whose \<open>merge\<close> keeps the larger version: the store of such rumors is a
  \<open>max_store\<close>, so what it holds does not depend on the order of delivery.
\<close>

definition rs_view :: "('r \<Rightarrow> 'v) \<Rightarrow> 'r rumor_store \<Rightarrow> string \<times> string \<Rightarrow> 'v option" where
  "rs_view ver s ki = map_option ver (with_rumor s (fst ki) (snd ki))"

definition rs_file :: "'r rumor_ops \<Rightarrow> 'r \<Rightarrow> string \<times> string" where
  "rs_file R r = (r_key R r, r_id R r)"

definition rs_put :: "'r rumor_ops \<Rightarrow> 'r \<Rightarrow> 'r rumor_store \<Rightarrow> 'r rumor_store option" where
  "rs_put R r s = Some (fst (rs_insert R r s))"

locale versioned_rumor = rumor_trait R
  for R :: "'r rumor_ops" +
  fixes ver :: "'r \<Rightarrow> 'v::linorder"
  assumes merge_max: "r_key R a = r_key R b \<Longrightarrow> r_id R a = r_id R b \<Longrightarrow>
    r_merge R a b = (if ver b \<le> ver a then (a, False) else (b, True))"
begin

lemma put_view:
  assumes "rs_inv R s"
  shows "rs_view ver (fst (rs_insert R r s)) ki =
    (if ki = rs_file R r then max (rs_view ver s ki) (Some (ver r)) else rs_view ver s ki)"
proof (cases "ki = rs_file R r")
  case True
  then have ki: "fst ki = r_key R r" "snd ki = r_id R r" by (simp_all add: rs_file_def)
  show ?thesis
  proof (cases "with_rumor s (r_key R r) (r_id R r)")
    case None
    with True ki show ?thesis by (simp add: rs_view_def with_rumor_insert max_def)
  next
    case (Some e)
    from rs_inv_lookup [OF assms Some] have "r_merge R e r = (if ver r \<le> ver e then (e, False) else (r, True))"
      by (rule merge_max)
    with True ki Some show ?thesis
      by (auto simp: rs_view_def with_rumor_insert max_def)
  qed
next
  case False
  then have "\<not> (fst ki = r_key R r \<and> snd ki = r_id R r)" by (auto simp: rs_file_def prod_eq_iff)
  with False show ?thesis by (simp only: rs_view_def with_rumor_insert if_False)
qed

sublocale ms: max_store "rs_view ver" "rs_file R" ver "rs_put R" "rs_inv R"
  by unfold_locales (auto simp: rs_put_def inv_insert put_view)

text \<open>A store holds only rumors it was given; with one rumor per version, equal versions are equal rumors.\<close>

lemma stored_was_put:
  assumes "rs_inv R s" and "fold_opt (rs_put R) rs s = Some s'" and "with_rumor s' k i = Some r"
  shows "r \<in> set rs \<or> with_rumor s k i = Some r"
  using assms
proof (induction rs arbitrary: s)
  case (Cons a rs)
  let ?s1 = "fst (rs_insert R a s)"
  have "with_rumor ?s1 k i = Some r \<Longrightarrow> r = a \<or> with_rumor s k i = Some r"
    using rs_inv_lookup [OF Cons.prems(1), of k i] merge_max
    by (auto simp: with_rumor_insert split: option.splits if_splits)
  moreover from Cons have "r \<in> set rs \<or> with_rumor ?s1 k i = Some r"
    by (intro Cons.IH) (auto simp: rs_put_def inv_insert)
  ultimately show ?case by auto
qed simp

lemma put_all_same_rumors:
  assumes "set rs = set rs'" and "inj_on (\<lambda>r. (rs_file R r, ver r)) (set rs)"
  shows "\<exists>s s'. fold_opt (rs_put R) rs rs_default = Some s \<and> fold_opt (rs_put R) rs' rs_default = Some s' \<and>
    with_rumor s = with_rumor s'"
proof -
  obtain s s' where *: "fold_opt (rs_put R) rs rs_default = Some s" "fold_opt (rs_put R) rs' rs_default = Some s'"
    using ms.put_all_total [OF rs_inv_default] by blast
  note inv = ms.put_all_inv [OF rs_inv_default *(1)] ms.put_all_inv [OF rs_inv_default *(2)]
  have view: "rs_view ver s = rs_view ver s'"
    using assms(1) by (intro ms.put_all_converges [OF rs_inv_default rs_inv_default refl _ *]) simp
  have "with_rumor s k i = with_rumor s' k i" for k i
  proof (cases "with_rumor s k i")
    case None
    with fun_cong [OF view, of "(k, i)"] show ?thesis by (simp add: rs_view_def)
  next
    case (Some r)
    with fun_cong [OF view, of "(k, i)"] obtain r' where r': "with_rumor s' k i = Some r'" "ver r' = ver r"
      by (cases "with_rumor s' k i") (auto simp: rs_view_def)
    have "rs_file R r = rs_file R r'"
      using rs_inv_lookup [OF inv(1) Some] rs_inv_lookup [OF inv(2) r'(1)] by (simp add: rs_file_def)
    moreover have "r \<in> set rs" "r' \<in> set rs"
      using stored_was_put [OF rs_inv_default *(1) Some] stored_was_put [OF rs_inv_default *(2) r'(1)] assms(1)
      by (auto simp: with_rumor_def rs_default_def)
    ultimately have "r = r'" using inj_onD [OF assms(2), of r r'] r'(2) by simp
    with Some r'(1) show ?thesis by simp
  qed
  with * show ?thesis by blast
qed

end

end
