(* ===== verification/Service_Group.thy ===== *)
theory Service_Group
  imports Prelude
begin

text \<open>
  Service groups and application environments, \<open>components/core/src/service.rs\<close>: both are
  strings with a fixed shape, checked and taken apart with two regular expressions. The
  matchers \<open>sg_captures\<close> and \<open>ae_captures\<close> return the named capture groups; the lemmas
  relate them to the languages of the expressions and show that parsing, printing and the
  accessors agree.
\<close>

section \<open>Errors of the core library\<close>

datatype core_error =
    InvalidServiceGroup string
  | InvalidApplicationEnvironment string
  | InvalidPackageIdent string
  | InvalidArchitecture string
  | InvalidPlatform string
  | InvalidPackageTarget string
  | ParseIntError string

section \<open>The two regular expressions\<close>

text \<open>A nonempty string over the class that excludes the given characters.\<close>

definition in_class :: "char list \<Rightarrow> string \<Rightarrow> bool" where
  "in_class excluded s \<longleftrightarrow> s \<noteq> [] \<and> list_all (\<lambda>c. c \<notin> set excluded) s"

text \<open>
  \<open>SG_FROM_STR_RE\<close>. The characters that separate the parts are excluded from the parts
  that follow them, so an anchored match cuts at the first \<open>#\<close>, \<open>@\<close> and \<open>.\<close> of the
  remaining text. The result holds the groups \<open>application_environment\<close>, \<open>service\<close>,
  \<open>group\<close> and \<open>organization\<close>.
\<close>

definition sg_captures :: "string \<Rightarrow> (string option \<times> string \<times> string \<times> string option) option" where
  "sg_captures v =
     (let (ae, rest) = (case split_once (CHR ''#'') v of Some (a, r) \<Rightarrow> (Some a, r) | None \<Rightarrow> (None, v));
          (body, org) = (case split_once (CHR ''@'') rest of Some (b, r) \<Rightarrow> (b, Some r) | None \<Rightarrow> (rest, None))
      in case split_once (CHR ''.'') body of
           None \<Rightarrow> None
         | Some (service, grp) \<Rightarrow>
             if pred_option (in_class ''#@'') ae \<and> in_class ''#@.'' service \<and> in_class ''#@.'' grp
                \<and> pred_option (in_class ''#@.'') org
             then Some (ae, service, grp, org) else None)"

text \<open>\<open>AE_FROM_STR_RE\<close>, with the groups \<open>application\<close> and \<open>environment\<close>.\<close>

definition ae_captures :: "string \<Rightarrow> (string \<times> string) option" where
  "ae_captures v =
     (case split_once (CHR ''.'') v of
        None \<Rightarrow> None
      | Some (app, env) \<Rightarrow>
          if in_class ''#.@'' app \<and> in_class ''#.@'' env then Some (app, env) else None)"

section \<open>Application environments\<close>

type_synonym application_environment = string

definition ae_format :: "string \<Rightarrow> string \<Rightarrow> string" where
  "ae_format app env = app @ ''.'' @ env"

definition ae_validate :: "string \<Rightarrow> core_error + unit" where
  "ae_validate v = (case ae_captures v of None \<Rightarrow> Inl (InvalidApplicationEnvironment v) | Some _ \<Rightarrow> Inr ())"

definition ae_new :: "string \<Rightarrow> string \<Rightarrow> core_error + application_environment" where
  "ae_new app env =
     (let formatted = ae_format app env in
      case ae_validate formatted of Inl e \<Rightarrow> Inl e | Inr _ \<Rightarrow> Inr formatted)"

definition ae_application :: "application_environment \<Rightarrow> string option" where
  "ae_application ae = map_option fst (ae_captures ae)"

definition ae_environment :: "application_environment \<Rightarrow> string option" where
  "ae_environment ae = map_option snd (ae_captures ae)"

definition ae_from_str :: "string \<Rightarrow> core_error + application_environment" where
  "ae_from_str v =
     (case ae_captures v of
        None \<Rightarrow> Inl (InvalidApplicationEnvironment v)
      | Some (app, env) \<Rightarrow> Inr (ae_format app env))"

section \<open>Service groups\<close>

type_synonym service_group = string

fun sg_format :: "application_environment option \<Rightarrow> string \<Rightarrow> string \<Rightarrow> string option \<Rightarrow> string" where
  "sg_format (Some app_env) service grp (Some org) = app_env @ ''#'' @ service @ ''.'' @ grp @ ''@'' @ org"
| "sg_format (Some app_env) service grp None = app_env @ ''#'' @ service @ ''.'' @ grp"
| "sg_format None service grp (Some org) = service @ ''.'' @ grp @ ''@'' @ org"
| "sg_format None service grp None = service @ ''.'' @ grp"

definition sg_validate :: "string \<Rightarrow> core_error + unit" where
  "sg_validate v = (case sg_captures v of None \<Rightarrow> Inl (InvalidServiceGroup v) | Some _ \<Rightarrow> Inr ())"

definition sg_new :: "application_environment option \<Rightarrow> string \<Rightarrow> string \<Rightarrow> string option \<Rightarrow> core_error + service_group" where
  "sg_new app_env service grp org =
     (let formatted = sg_format app_env service grp org in
      case sg_validate formatted of Inl e \<Rightarrow> Inl e | Inr _ \<Rightarrow> Inr formatted)"

text \<open>
  The accessors match the stored string again and unwrap: the outer \<open>None\<close> is the panic
  on a string that does not match, or, for the application environment, on a part that is
  not itself an application environment.
\<close>

definition sg_application_environment :: "service_group \<Rightarrow> application_environment option option" where
  "sg_application_environment sg =
     do { (ae, _, _, _) \<leftarrow> sg_captures sg;
          case ae of
            None \<Rightarrow> Some None
          | Some v \<Rightarrow> (case ae_from_str v of Inl _ \<Rightarrow> None | Inr a \<Rightarrow> Some (Some a)) }"

definition sg_service :: "service_group \<Rightarrow> string option" where
  "sg_service sg = do { (_, service, _, _) \<leftarrow> sg_captures sg; Some service }"

definition sg_group :: "service_group \<Rightarrow> string option" where
  "sg_group sg = do { (_, _, grp, _) \<leftarrow> sg_captures sg; Some grp }"

definition sg_org :: "service_group \<Rightarrow> string option option" where
  "sg_org sg = do { (_, _, _, org) \<leftarrow> sg_captures sg; Some org }"

definition sg_set_org :: "string \<Rightarrow> service_group \<Rightarrow> service_group option" where
  "sg_set_org org sg =
     do { app_env \<leftarrow> sg_application_environment sg;
          service \<leftarrow> sg_service sg;
          grp \<leftarrow> sg_group sg;
          Some (sg_format app_env service grp (Some org)) }"

definition sg_from_str :: "string \<Rightarrow> core_error + service_group" where
  "sg_from_str v =
     (case sg_captures v of
        None \<Rightarrow> Inl (InvalidServiceGroup v)
      | Some (ae, service, grp, org) \<Rightarrow>
          (case ae of
             None \<Rightarrow> Inr (sg_format None service grp org)
           | Some a \<Rightarrow>
               (case ae_from_str a of
                  Inl e \<Rightarrow> Inl e
                | Inr app_env \<Rightarrow> Inr (sg_format (Some app_env) service grp org))))"

section \<open>The matchers recognise the languages of the expressions\<close>

lemma in_class_iff: "in_class cs s \<longleftrightarrow> s \<noteq> [] \<and> set s \<inter> set cs = {}"
  by (auto simp: in_class_def list_all_iff)

lemma ae_captures_format:
  "in_class ''#.@'' app \<Longrightarrow> in_class ''#.@'' env \<Longrightarrow> ae_captures (ae_format app env) = Some (app, env)"
  by (simp add: ae_captures_def ae_format_def in_class_iff)

lemma ae_captures_iff:
  "ae_captures v = Some (app, env) \<longleftrightarrow>
     v = ae_format app env \<and> in_class ''#.@'' app \<and> in_class ''#.@'' env"
proof
  assume "ae_captures v = Some (app, env)"
  then show "v = ae_format app env \<and> in_class ''#.@'' app \<and> in_class ''#.@'' env"
    by (auto simp: ae_captures_def ae_format_def split_once_Some split: option.splits if_splits)
qed (auto simp: ae_captures_format)

text \<open>The language of \<open>SG_FROM_STR_RE\<close>, written out as what the groups may hold.\<close>

definition sg_parts_ok :: "string option \<Rightarrow> string \<Rightarrow> string \<Rightarrow> string option \<Rightarrow> bool" where
  "sg_parts_ok ae service grp org \<longleftrightarrow>
     pred_option (in_class ''#@'') ae \<and> in_class ''#@.'' service \<and> in_class ''#@.'' grp \<and>
     pred_option (in_class ''#@.'') org"

lemma sg_captures_format:
  assumes "sg_parts_ok ae service grp org"
  shows "sg_captures (sg_format ae service grp org) = Some (ae, service, grp, org)"
proof -
  have free: "CHR ''#'' \<notin> set service" "CHR ''@'' \<notin> set service" "CHR ''.'' \<notin> set service"
    "CHR ''#'' \<notin> set grp" "CHR ''@'' \<notin> set grp" "CHR ''.'' \<notin> set grp"
    using assms by (auto simp: sg_parts_ok_def in_class_iff)
  have org: "CHR ''#'' \<notin> set x" if "org = Some x" for x
    using assms that by (auto simp: sg_parts_ok_def in_class_iff)
  have ae: "CHR ''#'' \<notin> set x" if "ae = Some x" for x
    using assms that by (auto simp: sg_parts_ok_def in_class_iff)
  have "split_once (CHR ''@'') (service @ CHR ''.'' # grp @ CHR ''@'' # x) = Some (service @ CHR ''.'' # grp, x)" for x
    using free split_once_append [of "CHR ''@''" "service @ CHR ''.'' # grp" x] by simp
  with assms free org ae show ?thesis
    by (cases ae; cases org) (auto simp: sg_captures_def sg_parts_ok_def)
qed

lemma sg_captures_sound:
  assumes "sg_captures v = Some (ae, service, grp, org)"
  shows "v = sg_format ae service grp org" and "sg_parts_ok ae service grp org"
  using assms
  by (auto simp: sg_captures_def sg_parts_ok_def split_once_Some split: option.splits if_splits prod.splits)

lemma sg_captures_iff:
  "sg_captures v = Some (ae, service, grp, org) \<longleftrightarrow>
     v = sg_format ae service grp org \<and> sg_parts_ok ae service grp org"
  using sg_captures_format sg_captures_sound by blast

lemma ae_from_str_cases:
  "ae_from_str v = (if ae_captures v = None then Inl (InvalidApplicationEnvironment v) else Inr v)"
proof (cases "ae_captures v")
  case (Some p)
  obtain app env where p: "p = (app, env)" by (cases p)
  with Some have "v = ae_format app env" by (simp add: ae_captures_iff)
  with Some p show ?thesis by (simp add: ae_from_str_def)
qed (simp add: ae_from_str_def)

lemma sg_from_str_iff:
  "sg_from_str v = Inr sg \<longleftrightarrow>
     sg = v \<and> (\<exists>ae service grp org. sg_captures v = Some (ae, service, grp, org) \<and>
       pred_option (\<lambda>a. ae_captures a \<noteq> None) ae)"
proof (cases "sg_captures v")
  case (Some p)
  obtain ae service grp org where p: "p = (ae, service, grp, org)" by (cases p)
  from Some p have "v = sg_format ae service grp org" by (simp add: sg_captures_iff)
  with Some p show ?thesis
    by (cases ae) (auto simp: sg_from_str_def ae_from_str_cases)
qed (simp add: sg_from_str_def)

lemma sg_from_str_cases:
  "sg_captures v = Some (ae, service, grp, org) \<Longrightarrow>
   sg_from_str v = (case ae of None \<Rightarrow> Inr v
     | Some a \<Rightarrow> if ae_captures a = None then Inl (InvalidApplicationEnvironment a) else Inr v)"
  by (frule sg_captures_sound(1)) (simp add: sg_from_str_def ae_from_str_cases split: option.split)

section \<open>Construction, parsing and the accessors agree\<close>

text \<open>
  Matching the text that \<open>format\<close> produces: for a service and a group without \<open>#\<close>
  and \<open>@\<close> the match gives back exactly the parts, or fails.
\<close>

definition sg_rest :: "string option \<Rightarrow> string \<Rightarrow> (string option \<times> string \<times> string \<times> string option) option" where
  "sg_rest ae rest =
     (let (body, org) = (case split_once (CHR ''@'') rest of Some (b, r) \<Rightarrow> (b, Some r) | None \<Rightarrow> (rest, None))
      in case split_once (CHR ''.'') body of
           None \<Rightarrow> None
         | Some (service, grp) \<Rightarrow>
             if sg_parts_ok ae service grp org then Some (ae, service, grp, org) else None)"

lemma sg_captures_rest:
  "sg_captures v =
     (case split_once (CHR ''#'') v of Some (a, r) \<Rightarrow> sg_rest (Some a) r | None \<Rightarrow> sg_rest None v)"
  by (simp add: sg_captures_def sg_rest_def sg_parts_ok_def split: option.split prod.split)

definition sg_tail :: "string \<Rightarrow> string \<Rightarrow> string option \<Rightarrow> string" where
  "sg_tail service grp org = service @ ''.'' @ grp @ (case org of None \<Rightarrow> [] | Some x \<Rightarrow> CHR ''@'' # x)"

lemma sg_format_tail:
  "sg_format ae service grp org =
     (case ae of None \<Rightarrow> sg_tail service grp org | Some a \<Rightarrow> a @ CHR ''#'' # sg_tail service grp org)"
  by (cases ae; cases org) (simp_all add: sg_tail_def)

lemma split_tail:
  assumes "CHR ''@'' \<notin> set service" "CHR ''@'' \<notin> set grp"
  shows "split_once (CHR ''@'') (sg_tail service grp org) =
    (case org of None \<Rightarrow> None | Some x \<Rightarrow> Some (service @ CHR ''.'' # grp, x))"
  using assms split_once_append [of "CHR ''@''" "service @ CHR ''.'' # grp"]
  by (simp add: sg_tail_def split: option.split)

lemma sg_rest_tail:
  assumes "CHR ''@'' \<notin> set service" "CHR ''@'' \<notin> set grp"
  shows "sg_rest ae (sg_tail service grp org) =
    (if sg_parts_ok ae service grp org then Some (ae, service, grp, org) else None)"
proof (cases "CHR ''.'' \<in> set service")
  case True
  then obtain a c where s: "service = a @ CHR ''.'' # c" "CHR ''.'' \<notin> set a"
    using split_list_first by metis
  have "split_once (CHR ''.'') (service @ CHR ''.'' # grp) = Some (a, c @ CHR ''.'' # grp)"
    using s by simp
  moreover have "\<not> sg_parts_ok ae a (c @ CHR ''.'' # grp) org'" "\<not> sg_parts_ok ae service grp org'" for org'
    using s by (auto simp: sg_parts_ok_def in_class_iff)
  ultimately show ?thesis
    using assms by (cases org) (simp_all add: sg_rest_def split_tail, simp_all add: sg_tail_def)
next
  case False
  with assms show ?thesis
    by (cases org) (simp_all add: sg_rest_def split_tail, simp_all add: sg_tail_def)
qed

lemma sg_captures_of_format:
  assumes free: "set service \<inter> {CHR ''#'', CHR ''@''} = {}" "set grp \<inter> {CHR ''#'', CHR ''@''} = {}"
    and ae: "pred_option (in_class ''#@'') ae"
  shows "sg_captures (sg_format ae service grp org) =
    (if sg_parts_ok ae service grp org then Some (ae, service, grp, org) else None)"
proof (cases "ae = None \<and> (\<exists>x. org = Some x \<and> CHR ''#'' \<in> set x)")
  case True
  then obtain x y where "ae = None" and org: "org = Some (x @ CHR ''#'' # y)" "CHR ''#'' \<notin> set x"
    using split_list_first by metis
  have "split_once (CHR ''#'') (sg_tail service grp org) = Some (service @ CHR ''.'' # grp @ CHR ''@'' # x, y)"
    using free org split_once_append [of "CHR ''#''" "service @ CHR ''.'' # grp @ CHR ''@'' # x" y]
    by (simp add: sg_tail_def)
  moreover have "\<not> sg_parts_ok (Some (service @ CHR ''.'' # grp @ CHR ''@'' # x)) a b c" for a b c
    by (simp add: sg_parts_ok_def in_class_iff)
  moreover have "\<not> sg_parts_ok ae service grp org"
    using org by (auto simp: sg_parts_ok_def in_class_iff)
  ultimately show ?thesis
    using \<open>ae = None\<close> by (simp add: sg_format_tail sg_captures_rest sg_rest_def split: option.split prod.split)
next
  case False
  then show ?thesis
    using free ae sg_rest_tail [of service grp ae org]
    by (cases ae; cases org)
      (auto simp: sg_format_tail sg_captures_rest in_class_iff, auto simp: sg_tail_def)
qed

lemma ae_parsed_class:
  "ae_captures a \<noteq> None \<Longrightarrow> in_class ''#@'' a"
  by (auto simp: ae_captures_iff ae_format_def in_class_iff)

lemma sg_accessors:
  assumes "sg_captures sg = Some (ae, service, grp, org)"
  shows "sg_service sg = Some service" "sg_group sg = Some grp" "sg_org sg = Some org"
    and "pred_option (\<lambda>a. ae_captures a \<noteq> None) ae \<Longrightarrow> sg_application_environment sg = Some ae"
  using assms
  by (auto simp: sg_service_def sg_group_def sg_org_def sg_application_environment_def ae_from_str_cases
      split: option.split)

lemma sg_parsed:
  assumes "sg_from_str sg = Inr sg"
  obtains ae service grp org where "sg_captures sg = Some (ae, service, grp, org)"
    "pred_option (\<lambda>a. ae_captures a \<noteq> None) ae"
  using assms by (auto simp: sg_from_str_iff)

lemma sg_from_str_format:
  assumes "pred_option (\<lambda>a. ae_captures a \<noteq> None) ae" and "in_class ''#@.'' service"
    and "in_class ''#@.'' grp" and "pred_option (in_class ''#@.'') org"
  shows "sg_from_str (sg_format ae service grp org) = Inr (sg_format ae service grp org)"
    and "sg_captures (sg_format ae service grp org) = Some (ae, service, grp, org)"
proof -
  from assms have "sg_parts_ok ae service grp org"
    by (cases ae) (auto simp: sg_parts_ok_def ae_parsed_class)
  then show "sg_captures (sg_format ae service grp org) = Some (ae, service, grp, org)"
    by (rule sg_captures_format)
  with assms(1) show "sg_from_str (sg_format ae service grp org) = Inr (sg_format ae service grp org)"
    by (auto simp: sg_from_str_iff)
qed

text \<open>A service group that \<open>ServiceGroup::new\<close> accepts parses back to itself, and its
  accessors return the parts it was made of. The service and the group are free of \<open>#\<close> and
  \<open>@\<close>, and the application environment is one that parses.\<close>

theorem service_group_roundtrip:
  assumes new: "sg_new ae service grp org = Inr sg"
    and ae: "pred_option (\<lambda>a. ae_from_str a = Inr a) ae"
    and free: "set service \<inter> {CHR ''#'', CHR ''@''} = {}" "set grp \<inter> {CHR ''#'', CHR ''@''} = {}"
  shows "sg_from_str sg = Inr sg \<and> sg_service sg = Some service \<and> sg_group sg = Some grp \<and>
    sg_org sg = Some org \<and> sg_application_environment sg = Some ae"
proof -
  from ae have parsed: "pred_option (\<lambda>a. ae_captures a \<noteq> None) ae"
    by (cases ae) (auto simp: ae_from_str_cases split: if_splits)
  then have "pred_option (in_class ''#@'') ae" by (cases ae) (auto simp: ae_parsed_class)
  from new have sg: "sg = sg_format ae service grp org" and "sg_captures sg \<noteq> None"
    by (auto simp: sg_new_def sg_validate_def Let_def split: option.splits)
  with sg_captures_of_format [OF free \<open>pred_option (in_class ''#@'') ae\<close>]
  have captures: "sg_captures sg = Some (ae, service, grp, org)" by (auto split: if_splits)
  with parsed show ?thesis by (auto simp: sg_from_str_iff sg_accessors)
qed

theorem service_group_roundtrip_witness:
  "sg_new (Some ''oz.prod'') ''foo'' ''bar'' (Some ''baz'') = Inr ''oz.prod#foo.bar@baz'' \<and>
   sg_from_str ''oz.prod#foo.bar@baz'' = Inr ''oz.prod#foo.bar@baz'' \<and>
   sg_org ''oz.prod#foo.bar@baz'' = Some (Some ''baz'')"
proof -
  have new: "sg_new (Some ''oz.prod'') ''foo'' ''bar'' (Some ''baz'') = Inr ''oz.prod#foo.bar@baz''"
    by code_simp
  have ae: "pred_option (\<lambda>a. ae_from_str a = Inr a) (Some ''oz.prod'')" by code_simp
  from service_group_roundtrip [OF new ae] new show ?thesis by simp
qed

text \<open>Setting the organization of a parsed service group to a well-formed name gives a
  service group that parses, has that organization, and keeps the other parts.\<close>

theorem set_org_replaces_organization:
  assumes "sg_from_str sg = Inr sg" and "in_class ''#@.'' org"
  shows "\<exists>sg'. sg_set_org org sg = Some sg' \<and> sg_from_str sg' = Inr sg' \<and> sg_org sg' = Some (Some org) \<and>
    sg_service sg' = sg_service sg \<and> sg_group sg' = sg_group sg \<and>
    sg_application_environment sg' = sg_application_environment sg"
proof -
  from assms(1) obtain ae service grp org0 where sg: "sg_captures sg = Some (ae, service, grp, org0)"
    and ae: "pred_option (\<lambda>a. ae_captures a \<noteq> None) ae" by (rule sg_parsed)
  from sg have ok: "in_class ''#@.'' service" "in_class ''#@.'' grp"
    by (auto simp: sg_captures_iff sg_parts_ok_def)
  let ?sg' = "sg_format ae service grp (Some org)"
  have "sg_set_org org sg = Some ?sg'"
    using ae by (simp add: sg_set_org_def sg_accessors [OF sg])
  with sg_from_str_format [OF ae ok, of "Some org"] assms(2) sg ae show ?thesis
    by (simp add: sg_accessors)
qed

theorem set_org_replaces_organization_witness:
  "sg_from_str ''foo.bar'' = Inr ''foo.bar'' \<and> in_class ''#@.'' ''acme'' \<and>
   (\<exists>sg'. sg_set_org ''acme'' ''foo.bar'' = Some sg' \<and> sg_org sg' = Some (Some ''acme''))"
proof -
  have 1: "sg_from_str ''foo.bar'' = Inr ''foo.bar''" by code_simp
  have 2: "in_class ''#@.'' ''acme''" by code_simp
  from set_org_replaces_organization [OF 1 2] 1 2 show ?thesis by blast
qed

text \<open>\<open>validate\<close> is weaker than \<open>from_str\<close>: a string passes \<open>validate\<close> and is still
  rejected by \<open>from_str\<close> exactly when the part before \<open>#\<close> is not an application
  environment. On such a string \<open>application_environment\<close> panics.\<close>

theorem validate_accepts_unparsable_groups:
  "(sg_validate v = Inr () \<and> sg_from_str v = Inl e) \<longleftrightarrow>
     (\<exists>a service grp org. v = sg_format (Some a) service grp org \<and> sg_parts_ok (Some a) service grp org \<and>
        ae_captures a = None \<and> e = InvalidApplicationEnvironment a \<and> sg_application_environment v = None)"
proof (cases "sg_captures v")
  case None
  then show ?thesis using sg_captures_format by (auto simp: sg_validate_def)
next
  case (Some p)
  obtain ae service grp org where p: "p = (ae, service, grp, org)" by (cases p)
  with Some have v: "v = sg_format ae service grp org" "sg_parts_ok ae service grp org"
    by (simp_all add: sg_captures_iff)
  have unique: "sg_captures v = Some (Some a, s, g, x)"
    if "v = sg_format (Some a) s g x" "sg_parts_ok (Some a) s g x" for a s g x
    using that sg_captures_format by blast
  show ?thesis
  proof (cases "ae")
    case None
    with Some p have captures: "sg_captures v = Some (None, service, grp, org)" by simp
    then have "sg_from_str v = Inr v" by (simp add: sg_from_str_iff)
    with captures unique show ?thesis by (metis Pair_inject option.distinct(1) option.inject sum.distinct(1))
  next
    case (Some a)
    with \<open>sg_captures v = Some p\<close> p have captures: "sg_captures v = Some (Some a, service, grp, org)"
      by simp
    then have only: "b = a" if "v = sg_format (Some b) s g x" "sg_parts_ok (Some b) s g x" for b s g x
      using unique [OF that] by simp
    from captures have val: "sg_validate v = Inr ()" by (simp add: sg_validate_def)
    show ?thesis
    proof (cases "ae_captures a")
      case None
      with captures have "sg_from_str v = Inl (InvalidApplicationEnvironment a)"
        "sg_application_environment v = None"
        by (simp_all add: sg_from_str_cases sg_application_environment_def ae_from_str_cases)
      moreover have "sg_parts_ok (Some a) service grp org" "v = sg_format (Some a) service grp org"
        using v Some by simp_all
      ultimately show ?thesis using val None only by (metis sum.inject(1))
    next
      case (Some q)
      with captures have "sg_from_str v = Inr v" by (simp add: sg_from_str_iff)
      with Some only show ?thesis by (metis option.distinct(1) sum.distinct(1))
    qed
  qed
qed

end
