(* ===== verification/Package_Ident.thy ===== *)
theory Package_Ident
  imports Prelude
begin

text \<open>
  Package identifiers and targets: \<open>components/core/src/package/ident.rs\<close>,
  \<open>components/core/src/package/target.rs\<close> and the enumerations of
  \<open>components/core/src/os/system/mod.rs\<close>. The lemmas show that identifiers and
  targets survive printing and parsing, and that the loop of \<open>version_sort\<close> computes
  the order of a key: the version numbers without trailing zeros, then the extension.
\<close>

section \<open>Targets\<close>

datatype architecture = X86_64
datatype platform = Linux | Windows | Darwin

datatype package_error =
    InvalidPackageIdent string | ParseIntError | InvalidPackageTarget string
  | InvalidArchitecture string | InvalidPlatform string | TargetMatchError string

fun architecture_to_string :: "architecture \<Rightarrow> string" where
  "architecture_to_string X86_64 = ascii_lowercase ''X86_64''"

fun platform_to_string :: "platform \<Rightarrow> string" where
  "platform_to_string Linux = ascii_lowercase ''Linux''"
| "platform_to_string Windows = ascii_lowercase ''Windows''"
| "platform_to_string Darwin = ascii_lowercase ''Darwin''"

definition architecture_from_str :: "string \<Rightarrow> package_error + architecture" where
  "architecture_from_str v =
     (let architecture = ascii_lowercase (ascii_trim v)
      in if architecture = ''x86_64'' then Inr X86_64 else Inl (InvalidArchitecture v))"

definition platform_from_str :: "string \<Rightarrow> package_error + platform" where
  "platform_from_str v =
     (let platform = ascii_lowercase (ascii_trim v)
      in if platform = ''linux'' then Inr Linux
         else if platform = ''windows'' then Inr Windows
         else if platform = ''darwin'' then Inr Darwin
         else Inl (InvalidPlatform v))"

record package_target =
  pt_platform :: platform
  pt_architecture :: architecture

definition package_target_new :: "platform \<Rightarrow> architecture \<Rightarrow> package_target" where
  "package_target_new p a = \<lparr>pt_platform = p, pt_architecture = a\<rparr>"

text \<open>The platform the program was compiled for is the argument \<open>current\<close>.\<close>

definition default_target :: "platform \<Rightarrow> package_target" where
  "default_target current = \<lparr>pt_platform = current, pt_architecture = X86_64\<rparr>"

definition target_to_string :: "package_target \<Rightarrow> string" where
  "target_to_string t =
     architecture_to_string (pt_architecture t) @ ''-'' @ platform_to_string (pt_platform t)"

definition target_validate :: "platform \<Rightarrow> package_target \<Rightarrow> package_error + unit" where
  "target_validate current t =
     (let d = default_target current
      in if pt_architecture t = pt_architecture d \<and> pt_platform t = pt_platform d then Inr ()
         else Inl (TargetMatchError (''Package target ('' @ target_to_string t @
           '') does not match system target ('' @ target_to_string d @ '').'')))"

definition target_from_str :: "string \<Rightarrow> package_error + package_target" where
  "target_from_str v =
     (case split_on (CHR ''-'') v of
        [a, p] \<Rightarrow>
          (case architecture_from_str a of
             Inl e \<Rightarrow> Inl e
           | Inr arch \<Rightarrow>
               (case platform_from_str p of
                  Inl e \<Rightarrow> Inl e
                | Inr plat \<Rightarrow> Inr (package_target_new plat arch)))
      | _ \<Rightarrow> Inl (InvalidPackageTarget v))"

section \<open>Identifiers\<close>

record package_ident =
  pi_origin :: string
  pi_name :: string
  pi_version :: "string option"
  pi_release :: "string option"

definition package_ident_new :: "string \<Rightarrow> string \<Rightarrow> string option \<Rightarrow> string option \<Rightarrow> package_ident" where
  "package_ident_new origin name version release =
     \<lparr>pi_origin = origin, pi_name = name, pi_version = version, pi_release = release\<rparr>"

definition default_ident :: package_ident where
  "default_ident = package_ident_new '''' '''' None None"

definition fully_qualified :: "package_ident \<Rightarrow> bool" where
  "fully_qualified p \<longleftrightarrow> pi_version p \<noteq> None \<and> pi_release p \<noteq> None"

text \<open>The regular expression \<open>^[A-Za-z0-9_-]+$\<close>.\<close>

definition is_lower :: "char \<Rightarrow> bool" where
  "is_lower c \<longleftrightarrow> CHR ''a'' \<le> c \<and> c \<le> CHR ''z''"

definition is_upper :: "char \<Rightarrow> bool" where
  "is_upper c \<longleftrightarrow> CHR ''A'' \<le> c \<and> c \<le> CHR ''Z''"

definition ident_valid :: "package_ident \<Rightarrow> bool" where
  "ident_valid p \<longleftrightarrow> pi_name p \<noteq> [] \<and>
     list_all (\<lambda>c. is_upper c \<or> is_lower c \<or> is_digit c \<or> c = CHR ''_'' \<or> c = CHR ''-'') (pi_name p)"

definition satisfies :: "package_ident \<Rightarrow> package_ident \<Rightarrow> bool" where
  "satisfies self other =
     (if pi_origin self \<noteq> pi_origin other \<or> pi_name self \<noteq> pi_name other then False
      else if pi_version self \<noteq> None \<and> pi_version other = None then True
      else if pi_version self \<noteq> None \<and> the (pi_version self) \<noteq> the (pi_version other) then False
      else if pi_release self \<noteq> None \<and> pi_release other = None then True
      else if pi_release self \<noteq> None \<and> the (pi_release self) \<noteq> the (pi_release other) then False
      else True)"

definition archive_name_impl :: "package_ident \<Rightarrow> package_target \<Rightarrow> string option" where
  "archive_name_impl p target =
     (if fully_qualified p then
        Some (pi_origin p @ ''-'' @ pi_name p @ ''-'' @ the (pi_version p) @ ''-'' @
          the (pi_release p) @ ''-'' @ architecture_to_string (pt_architecture target) @ ''-'' @
          platform_to_string (pt_platform target) @ ''.hart'')
      else None)"

definition archive_name_with_target :: "package_ident \<Rightarrow> package_target \<Rightarrow> string option" where
  "archive_name_with_target p target = archive_name_impl p target"

definition archive_name :: "platform \<Rightarrow> package_ident \<Rightarrow> string option" where
  "archive_name current p = archive_name_impl p (default_target current)"

definition ident_to_string :: "package_ident \<Rightarrow> string" where
  "ident_to_string p =
     (if pi_version p \<noteq> None \<and> pi_release p \<noteq> None then
        pi_origin p @ ''/'' @ pi_name p @ ''/'' @ the (pi_version p) @ ''/'' @ the (pi_release p)
      else if pi_version p \<noteq> None then
        pi_origin p @ ''/'' @ pi_name p @ ''/'' @ the (pi_version p)
      else pi_origin p @ ''/'' @ pi_name p)"

definition ident_from_str :: "string \<Rightarrow> package_error + package_ident" where
  "ident_from_str v =
     (case split_on (CHR ''/'') v of
        [origin, name] \<Rightarrow> Inr (package_ident_new origin name None None)
      | [origin, name, ver] \<Rightarrow> Inr (package_ident_new origin name (Some ver) None)
      | [origin, name, ver, rel] \<Rightarrow> Inr (package_ident_new origin name (Some ver) (Some rel))
      | _ \<Rightarrow> Inl (InvalidPackageIdent v))"

text \<open>The regular expression \<open>\A[a-z0-9][a-z0-9_-]*\z\<close>.\<close>

definition origin_name_re :: "string \<Rightarrow> bool" where
  "origin_name_re s =
     (case s of
        [] \<Rightarrow> False
      | c # cs \<Rightarrow> (is_lower c \<or> is_digit c) \<and>
          list_all (\<lambda>c. is_lower c \<or> is_digit c \<or> c = CHR ''_'' \<or> c = CHR ''-'') cs)"

definition is_valid_origin_name :: "string \<Rightarrow> bool" where
  "is_valid_origin_name origin \<longleftrightarrow> length origin \<le> 255 \<and> origin_name_re origin"

section \<open>Versions\<close>

text \<open>
  The expression \<open>([\d\.]+)(.+)?\<close> is not anchored: the first group is the first longest run
  of digits and dots, the second is the rest of that line.
\<close>

definition version_char :: "char \<Rightarrow> bool" where
  "version_char c \<longleftrightarrow> is_digit c \<or> c = CHR ''.''"

definition split_version :: "string \<Rightarrow> package_error + string list \<times> string option" where
  "split_version version =
     (let from = dropWhile (\<lambda>c. \<not> version_char c) version
      in if from = [] then Inl (InvalidPackageIdent version)
         else
           let version_number = takeWhile version_char from;
               e = takeWhile (\<lambda>c. c \<noteq> CHR ''\<newline>'') (dropWhile version_char from);
               extension = (if e = [] then None
                            else if length e > 1 \<and> hd e = CHR ''-'' then Some (tl e) else Some e)
           in Inr (split_on (CHR ''.'') version_number, extension))"

text \<open>\<open>next\<close> of the iterator over the parts and the parse of its result: number, rest, exhausted.\<close>

fun next_number :: "string list \<Rightarrow> package_error + u64 \<times> string list \<times> bool" where
  "next_number [] = Inr (0, [], True)"
| "next_number (i # is) =
     (case parse_u64 i of Some n \<Rightarrow> Inr (n, is, False) | None \<Rightarrow> Inl ParseIntError)"

lemma next_number_shrinks:
  "next_number ps = Inr (n, qs, ex) \<Longrightarrow> length qs \<le> length ps \<and> (\<not> ex \<longrightarrow> length qs < length ps)"
  by (cases ps) (auto split: option.splits)

function version_loop :: "string list \<Rightarrow> string list \<Rightarrow> package_error + rust_ordering" where
  "version_loop a_iter b_iter =
     (case next_number a_iter of
        Inl e \<Rightarrow> Inl e
      | Inr (a_num, a_rest, a_exhausted) \<Rightarrow>
          (case next_number b_iter of
             Inl e \<Rightarrow> Inl e
           | Inr (b_num, b_rest, b_exhausted) \<Rightarrow>
               if a_exhausted \<and> b_exhausted then Inr Equal
               else (case rust_cmp a_num b_num of
                       Greater \<Rightarrow> Inr Greater
                     | Equal \<Rightarrow> version_loop a_rest b_rest
                     | Less \<Rightarrow> Inr Less)))"
  by pat_completeness auto
termination
  by (relation "measure (\<lambda>(a, b). length a + length b)")
    (auto dest!: next_number_shrinks)

definition compare_extensions :: "string option \<Rightarrow> string option \<Rightarrow> rust_ordering" where
  "compare_extensions a_extension b_extension =
     (if a_extension \<noteq> None \<and> b_extension = None then Less
      else if a_extension = None \<and> b_extension \<noteq> None then Greater
      else if a_extension = None \<and> b_extension = None then Equal
      else rust_cmp (case a_extension of Some a \<Rightarrow> a | None \<Rightarrow> '''')
             (case b_extension of Some b \<Rightarrow> b | None \<Rightarrow> ''''))"

definition version_sort :: "string \<Rightarrow> string \<Rightarrow> package_error + rust_ordering" where
  "version_sort a_version b_version =
     (case split_version a_version of
        Inl e \<Rightarrow> Inl e
      | Inr (a_parts, a_extension) \<Rightarrow>
          (case split_version b_version of
             Inl e \<Rightarrow> Inl e
           | Inr (b_parts, b_extension) \<Rightarrow>
               (case version_loop a_parts b_parts of
                  Inr Equal \<Rightarrow> Inr (compare_extensions a_extension b_extension)
                | r \<Rightarrow> r)))"

definition ident_partial_cmp :: "package_ident \<Rightarrow> package_ident \<Rightarrow> rust_ordering option" where
  "ident_partial_cmp self other =
     (if pi_name self \<noteq> pi_name other then None
      else if pi_version self = None \<and> pi_version other = None then None
      else if pi_version self = None \<and> pi_version other \<noteq> None then Some Less
      else if pi_version self \<noteq> None \<and> pi_version other = None then Some Greater
      else if pi_release self = None \<and> pi_release other = None then None
      else if pi_release self = None \<and> pi_release other \<noteq> None then Some Less
      else if pi_release self \<noteq> None \<and> pi_release other = None then Some Greater
      else
        (case version_sort (the (pi_version self)) (the (pi_version other)) of
           Inr Greater \<Rightarrow> Some Greater
         | Inr Less \<Rightarrow> Some Less
         | Inr Equal \<Rightarrow> Some (rust_cmp (pi_release self) (pi_release other))
         | Inl _ \<Rightarrow>
             (case rust_cmp (the (pi_version self)) (the (pi_version other)) of
                Greater \<Rightarrow> Some Greater
              | Less \<Rightarrow> Some Less
              | Equal \<Rightarrow> Some (rust_cmp (pi_release self) (pi_release other)))))"

text \<open>\<open>Ord::cmp\<close> unwraps both versions: \<open>None\<close> is its panic.\<close>

definition ident_cmp :: "package_ident \<Rightarrow> package_ident \<Rightarrow> rust_ordering option" where
  "ident_cmp self other =
     (if pi_name self \<noteq> pi_name other then Some (rust_cmp (pi_name self) (pi_name other))
      else
        (case (pi_version self, pi_version other) of
           (Some v, Some w) \<Rightarrow>
             (case version_sort v w of
                Inr Greater \<Rightarrow> Some Greater
              | Inr Less \<Rightarrow> Some Less
              | Inr Equal \<Rightarrow> Some (rust_cmp (pi_release self) (pi_release other))
              | Inl _ \<Rightarrow> Some Less)
         | _ \<Rightarrow> None))"

section \<open>The order of versions\<close>

text \<open>
  The reference order: version numbers without trailing zeros, compared lexicographically, then
  the extension, where no extension is larger than any extension.
\<close>

fun strip_zeros :: "u64 list \<Rightarrow> u64 list" where
  "strip_zeros [] = []"
| "strip_zeros (n # ns) = (if n = 0 \<and> strip_zeros ns = [] then [] else n # strip_zeros ns)"

definition extension_rank :: "string option \<Rightarrow> nat \<times> string" where
  "extension_rank e = (case e of None \<Rightarrow> (1, '''') | Some x \<Rightarrow> (0, x))"

definition version_key :: "string \<Rightarrow> (u64 list \<times> nat \<times> string) option" where
  "version_key v =
     (case split_version v of
        Inl _ \<Rightarrow> None
      | Inr (parts, ext) \<Rightarrow>
          map_option (\<lambda>ns. (strip_zeros ns, extension_rank ext)) (those (map parse_u64 parts)))"

lemma rust_cmp_Cons:
  "rust_cmp (x # xs) (y # ys) = (case rust_cmp x y of Equal \<Rightarrow> rust_cmp xs ys | c \<Rightarrow> c)"
  for x y :: "'a::linorder"
  by (auto simp: rust_cmp_def)

lemma rust_cmp_Nil:
  "rust_cmp [] (y # ys) = Less" "rust_cmp (y # ys) [] = Greater"
  for y :: "'a::linorder"
  by (simp_all add: rust_cmp_def)

lemma rust_cmp_Pair:
  "rust_cmp (a, b) (c, d) = (case rust_cmp a c of Equal \<Rightarrow> rust_cmp b d | r \<Rightarrow> r)"
  for a c :: "'a::linorder" and b d :: "'b::linorder"
  by (auto simp: rust_cmp_def)

lemma rust_cmp_zero [simp]:
  "rust_cmp 0 (n :: u64) = (if n = 0 then Equal else Less)"
  "rust_cmp (n :: u64) 0 = (if n = 0 then Equal else Greater)"
  by (auto simp: rust_cmp_def word_gt_0)

lemma rust_cmp_strip_zeros:
  "rust_cmp (strip_zeros (x # xs)) (strip_zeros (y # ys)) =
     (case rust_cmp x y of Equal \<Rightarrow> rust_cmp (strip_zeros xs) (strip_zeros ys) | c \<Rightarrow> c)"
  by (cases "strip_zeros xs"; cases "strip_zeros ys"; cases "x = 0"; cases "y = 0")
    (auto simp: rust_cmp_Cons rust_cmp_Nil split: rust_ordering.split)

lemma rust_cmp_strip_zeros_Nil:
  "rust_cmp [] (strip_zeros (y # ys)) =
     (case rust_cmp 0 y of Equal \<Rightarrow> rust_cmp [] (strip_zeros ys) | c \<Rightarrow> c)"
  "rust_cmp (strip_zeros (y # ys)) [] =
     (case rust_cmp y 0 of Equal \<Rightarrow> rust_cmp (strip_zeros ys) [] | c \<Rightarrow> c)"
  by (cases "strip_zeros ys"; simp add: rust_cmp_Nil)+

lemma compare_extensions_eq: "compare_extensions a b = rust_cmp (extension_rank a) (extension_rank b)"
  by (cases a; cases b) (auto simp: compare_extensions_def extension_rank_def rust_cmp_def)

declare version_loop.simps [simp del]

lemma version_loop_Nil:
  "those (map parse_u64 bs) = Some ys \<Longrightarrow>
     version_loop [] bs = Inr (rust_cmp [] (strip_zeros ys)) \<and>
     version_loop bs [] = Inr (rust_cmp (strip_zeros ys) [])"
proof (induction bs arbitrary: ys)
  case Nil
  then show ?case by (simp add: version_loop.simps)
next
  case (Cons b bs)
  then obtain n ns where n: "parse_u64 b = Some n" "those (map parse_u64 bs) = Some ns" "ys = n # ns"
    by (auto split: option.splits)
  with Cons.IH [of ns] show ?case
    by (simp add: version_loop.simps [of "[]" "b # bs"] version_loop.simps [of "b # bs" "[]"]
        rust_cmp_strip_zeros_Nil del: strip_zeros.simps)
qed

lemma version_loop_eq:
  "those (map parse_u64 as) = Some xs \<Longrightarrow> those (map parse_u64 bs) = Some ys \<Longrightarrow>
     version_loop as bs = Inr (rust_cmp (strip_zeros xs) (strip_zeros ys))"
proof (induction as arbitrary: bs xs ys)
  case Nil
  then show ?case by (simp add: version_loop_Nil)
next
  case (Cons a as)
  then obtain m ms where m: "parse_u64 a = Some m" "those (map parse_u64 as) = Some ms" "xs = m # ms"
    by (auto split: option.splits)
  show ?case
  proof (cases bs)
    case Nil
    with Cons.prems show ?thesis using version_loop_Nil [OF Cons.prems(1)] by simp
  next
    case (Cons b bs')
    with Cons.prems obtain n ns where n: "parse_u64 b = Some n" "those (map parse_u64 bs') = Some ns" "ys = n # ns"
      by (auto split: option.splits)
    with Cons m Cons.IH [of ms bs' ns] show ?thesis
      by (auto simp: version_loop.simps [of "a # as"] rust_cmp_strip_zeros simp del: strip_zeros.simps
          split: rust_ordering.split)
  qed
qed

lemma version_sort_key:
  assumes "version_key v = Some k" and "version_key w = Some l"
  shows "version_sort v w = Inr (rust_cmp k l)"
proof -
  from assms(1) obtain ps e xs where v: "split_version v = Inr (ps, e)" "those (map parse_u64 ps) = Some xs"
    "k = (strip_zeros xs, extension_rank e)"
    by (auto simp: version_key_def split: sum.splits)
  from assms(2) obtain qs f ys where w: "split_version w = Inr (qs, f)" "those (map parse_u64 qs) = Some ys"
    "l = (strip_zeros ys, extension_rank f)"
    by (auto simp: version_key_def split: sum.splits)
  from version_loop_eq [OF v(2) w(2)] v w show ?thesis
    by (auto simp: version_sort_def compare_extensions_eq rust_cmp_Pair split: rust_ordering.split)
qed

section \<open>Properties\<close>

text \<open>C34: On versions whose numbers all fit into 64 bits, \<open>version_sort\<close> returns, without an
  error, the order of the reference key: numbers compared one after the other with missing ones
  read as zero, then the extension, where a version without extension is the larger one.\<close>

theorem version_sort_orders_by_key:
  assumes "version_key v = Some k" and "version_key w = Some l"
  shows "version_sort v w = Inr (rust_cmp k l) \<and> version_sort w v = Inr (flip_ordering (rust_cmp k l))"
  using version_sort_key [OF assms] version_sort_key [OF assms(2) assms(1)] by (simp add: rust_cmp_flip)

theorem version_sort_orders_by_key_witness:
  "version_sort ''1.0.0-alpha6'' ''1.0'' = Inr Less \<and> version_sort ''1.0'' ''1.0.0-alpha6'' = Inr Greater"
proof -
  have v: "version_key ''1.0.0-alpha6'' = Some ([1], 0, ''alpha6'')" by code_simp
  have w: "version_key ''1.0'' = Some ([1], 1, '''')" by code_simp
  from version_sort_orders_by_key [OF v w] show ?thesis by (simp add: rust_cmp_def)
qed

lemma ident_cmp_key:
  assumes "pi_name p = pi_name q" and "pi_version p = Some v" and "pi_version q = Some w"
    and "version_key v = Some k" and "version_key w = Some l"
  shows "ident_cmp p q = Some (rust_cmp (k, pi_release p) (l, pi_release q))"
  using version_sort_key [OF assms(4,5)] assms(1-3)
  by (auto simp: ident_cmp_def rust_cmp_Pair split: rust_ordering.split)

lemma ident_partial_cmp_key:
  assumes "pi_name p = pi_name q" and "pi_version p = Some v" and "pi_version q = Some w"
    and "version_key v = Some k" and "version_key w = Some l"
    and "pi_release p \<noteq> None" and "pi_release q \<noteq> None"
  shows "ident_partial_cmp p q = Some (rust_cmp (k, pi_release p) (l, pi_release q))"
  using version_sort_key [OF assms(4,5)] assms(1-3,6,7)
  by (auto simp: ident_partial_cmp_def rust_cmp_Pair split: rust_ordering.split)

text \<open>Fully qualified identifiers of one package name with numeric versions are compared by
  version and then by release, and the total and the partial comparison agree. Different
  origins compare as equal.\<close>

theorem ident_order_by_version_and_release:
  assumes "pi_name p = pi_name q" and "fully_qualified p" and "fully_qualified q"
    and "version_key (the (pi_version p)) = Some k" and "version_key (the (pi_version q)) = Some l"
  shows "ident_partial_cmp p q = Some (rust_cmp (k, pi_release p) (l, pi_release q)) \<and>
    ident_cmp p q = ident_partial_cmp p q"
proof -
  from assms(2,3) obtain v w where "pi_version p = Some v" "pi_version q = Some w"
    "pi_release p \<noteq> None" "pi_release q \<noteq> None"
    by (auto simp: fully_qualified_def)
  with assms ident_cmp_key [of p q v w k l] ident_partial_cmp_key [of p q v w k l] show ?thesis by simp
qed

theorem ident_order_by_version_and_release_witness:
  "ident_cmp (package_ident_new ''core'' ''redis'' (Some ''3.2.10'') (Some ''2017''))
             (package_ident_new ''acme'' ''redis'' (Some ''3.2.9'') (Some ''2018'')) = Some Greater"
proof -
  let ?p = "package_ident_new ''core'' ''redis'' (Some ''3.2.10'') (Some ''2017'')"
  let ?q = "package_ident_new ''acme'' ''redis'' (Some ''3.2.9'') (Some ''2018'')"
  have p: "version_key (the (pi_version ?p)) = Some ([3, 2, 10], 1, '''')" by code_simp
  have q: "version_key (the (pi_version ?q)) = Some ([3, 2, 9], 1, '''')" by code_simp
  have "pi_name ?p = pi_name ?q" "fully_qualified ?p" "fully_qualified ?q"
    by (simp_all add: package_ident_new_def fully_qualified_def)
  from ident_order_by_version_and_release [OF this p q] show ?thesis by (simp add: rust_cmp_def)
qed

text \<open>The total comparison is not antisymmetric: for two identifiers of one name whose versions
  \<open>version_sort\<close> rejects, each is reported to be less than the other. The partial
  comparison falls back to the order of the version strings there.\<close>

theorem ident_cmp_not_antisymmetric:
  assumes "pi_name p = pi_name q" and "pi_version p = Some v" and "pi_version q = Some w"
    and "split_version v = Inl e"
  shows "ident_cmp p q = Some Less \<and> (\<exists>f. version_sort w v = Inl f \<and> ident_cmp q p = Some Less)"
proof -
  have "\<exists>f. version_sort w v = Inl f" using assms(4) by (auto simp: version_sort_def split: sum.split)
  with assms show ?thesis by (auto simp: ident_cmp_def version_sort_def)
qed

theorem ident_cmp_not_antisymmetric_witness:
  "ident_cmp (package_ident_new ''core'' ''hab'' (Some ''master'') None)
             (package_ident_new ''core'' ''hab'' (Some ''0.1.0'') None) = Some Less \<and>
   ident_cmp (package_ident_new ''core'' ''hab'' (Some ''0.1.0'') None)
             (package_ident_new ''core'' ''hab'' (Some ''master'') None) = Some Less"
proof -
  have "split_version ''master'' = Inl (InvalidPackageIdent ''master'')" by code_simp
  from ident_cmp_not_antisymmetric [OF _ _ _ this,
      of "package_ident_new ''core'' ''hab'' (Some ''master'') None"
         "package_ident_new ''core'' ''hab'' (Some ''0.1.0'') None" "''0.1.0''"]
  show ?thesis by (simp add: package_ident_new_def)
qed

text \<open>The parts an identifier is printed from.\<close>

definition ident_parts :: "package_ident \<Rightarrow> string list" where
  "ident_parts p = [pi_origin p, pi_name p] @
     (case pi_version p of None \<Rightarrow> [] | Some v \<Rightarrow> v # (case pi_release p of None \<Rightarrow> [] | Some r \<Rightarrow> [r]))"

lemma ident_to_string_parts: "ident_to_string p = join_with (CHR ''/'') (ident_parts p)"
  by (cases "pi_version p"; cases "pi_release p") (simp_all add: ident_to_string_def ident_parts_def)

lemma ident_from_str_parts:
  "ident_from_str s = Inr p \<longleftrightarrow>
     split_on (CHR ''/'') s = ident_parts p \<and> (pi_release p \<noteq> None \<longrightarrow> pi_version p \<noteq> None)"
proof (cases p)
  case (fields origin name version release)
  show ?thesis
  proof (cases "split_on (CHR ''/'') s" rule: remdups_adj.cases)
    case (3 a b cs)
    then show ?thesis
      by (cases cs rule: remdups_adj.cases; cases version; cases release)
        (auto simp: fields ident_from_str_def ident_parts_def package_ident_new_def split: list.split)
  qed (auto simp: fields ident_from_str_def ident_parts_def)
qed

lemma ident_from_str_error:
  "ident_from_str s = Inl (InvalidPackageIdent s) \<longleftrightarrow> length (split_on (CHR ''/'') s) \<notin> {2, 3, 4}"
  by (simp add: ident_from_str_def split: list.split)

text \<open>C35: Printing and parsing of identifiers are inverse. Every string that parses prints back to
  itself, every identifier whose parts have no slash and which has a version when it has a
  release is parsed from its printed form, and a string is rejected exactly when it does not have
  two to four parts.\<close>

theorem ident_roundtrip:
  "(ident_from_str s = Inr p \<longrightarrow> ident_to_string p = s) \<and>
   (list_all (\<lambda>x. CHR ''/'' \<notin> set x) (ident_parts p) \<and> (pi_release p \<noteq> None \<longrightarrow> pi_version p \<noteq> None) \<longrightarrow>
      ident_from_str (ident_to_string p) = Inr p) \<and>
   (ident_from_str s = Inl (InvalidPackageIdent s) \<longleftrightarrow> length (split_on (CHR ''/'') s) \<notin> {2, 3, 4})"
proof (intro conjI impI)
  assume "ident_from_str s = Inr p"
  then have "ident_parts p = split_on (CHR ''/'') s" by (simp add: ident_from_str_parts)
  then show "ident_to_string p = s" by (simp add: ident_to_string_parts)
next
  assume ok: "list_all (\<lambda>x. CHR ''/'' \<notin> set x) (ident_parts p) \<and> (pi_release p \<noteq> None \<longrightarrow> pi_version p \<noteq> None)"
  moreover have "ident_parts p \<noteq> []" by (simp add: ident_parts_def)
  ultimately have "split_on (CHR ''/'') (ident_to_string p) = ident_parts p"
    by (simp add: ident_to_string_parts split_join)
  with ok show "ident_from_str (ident_to_string p) = Inr p" by (simp add: ident_from_str_parts)
qed (rule ident_from_str_error)

theorem ident_roundtrip_witness:
  "ident_from_str ''core/redis/3.2.4/2017'' =
     Inr (package_ident_new ''core'' ''redis'' (Some ''3.2.4'') (Some ''2017''))"
  using ident_roundtrip [of "''core/redis/3.2.4/2017''"
      "package_ident_new ''core'' ''redis'' (Some ''3.2.4'') (Some ''2017'')"]
  by (simp add: package_ident_new_def ident_to_string_def ident_parts_def)

text \<open>For a fully qualified package, \<open>satisfies\<close> holds exactly when every part that the
  requirement names is equal to the package's part.\<close>

theorem satisfies_fully_qualified:
  assumes "fully_qualified other"
  shows "satisfies self other \<longleftrightarrow>
    pi_origin self = pi_origin other \<and> pi_name self = pi_name other \<and>
    (pi_version self = None \<or> pi_version self = pi_version other) \<and>
    (pi_release self = None \<or> pi_release self = pi_release other)"
  using assms
  by (cases "pi_version self"; cases "pi_release self") (auto simp: satisfies_def fully_qualified_def)

theorem satisfies_fully_qualified_witness:
  "satisfies (package_ident_new ''core'' ''redis'' None None)
     (package_ident_new ''core'' ''redis'' (Some ''3.2.4'') (Some ''2017''))"
  using satisfies_fully_qualified [of "package_ident_new ''core'' ''redis'' (Some ''3.2.4'') (Some ''2017'')"
    "package_ident_new ''core'' ''redis'' None None"]
  by (simp add: fully_qualified_def package_ident_new_def)

text \<open>A target is parsed from its printed form, and \<open>validate\<close> accepts exactly the target
  of the running system.\<close>

theorem target_roundtrip_and_validate:
  "target_from_str (target_to_string t) = Inr t \<and>
   (target_validate current t = Inr () \<longleftrightarrow> t = default_target current)"
proof -
  have "target_from_str (target_to_string \<lparr>pt_platform = p, pt_architecture = X86_64\<rparr>) =
      Inr \<lparr>pt_platform = p, pt_architecture = X86_64\<rparr>" for p
    by (cases p; simp only:; code_simp)
  moreover have "pt_architecture t = X86_64" by (cases "pt_architecture t") simp
  ultimately show ?thesis
    by (cases t) (auto simp: target_validate_def default_target_def Let_def)
qed

end
