(* ===== verification/Rumors.thy ===== *)
theory Rumors
  imports Member_List Rumor_Store Service_Group Package_Ident
begin

text \<open>
  The rumor message of \<open>components/butterfly/src/message/swim.rs\<close> and four of the rumor types
  built on it: services, service configurations, service files and departures
  (\<open>components/butterfly/src/rumor/service.rs\<close>, \<open>service_config.rs\<close>,
  \<open>service_file.rs\<close>, \<open>departure.rs\<close>). Each type is a newtype of the message; its \<open>Rumor\<close>
  implementation is a record of operations, and an interpretation of \<open>rumor_trait\<close> or
  \<open>versioned_rumor\<close> shows that the store can rely on it.
\<close>

section \<open>The rumor message\<close>

text \<open>
  The messages of \<open>swim.rs\<close> that rumors carry, as the values their getters return: an unset
  field reads as its default. \<open>oneof payload\<close> is the datatype \<open>rumor_payload\<close>.
\<close>

type_synonym bytes = "8 word list"

record sys_info =
  si_ip :: string
  si_hostname :: string
  si_gossip_ip :: string
  si_gossip_port :: "32 word"
  si_http_gateway_ip :: string
  si_http_gateway_port :: "32 word"

record proto_service =
  sv_member_id :: string
  sv_service_group :: string
  sv_incarnation :: u64
  sv_initialized :: bool
  sv_pkg :: string
  sv_cfg :: bytes
  sv_sys :: sys_info

record proto_service_config =
  sc_service_group :: string
  sc_incarnation :: u64
  sc_encrypted :: bool
  sc_config :: bytes

record proto_service_file =
  sf_service_group :: string
  sf_incarnation :: u64
  sf_encrypted :: bool
  sf_filename :: string
  sf_body :: bytes

datatype election_status = Running | NoQuorum | Finished

record proto_election =
  el_member_id :: string
  el_service_group :: string
  el_term :: u64
  el_suitability :: u64
  el_status :: election_status
  el_votes :: "string list"

record proto_departure =
  dp_member_id :: string

datatype rumor_payload =
    PMember membership
  | PService proto_service
  | PServiceConfig proto_service_config
  | PServiceFile proto_service_file
  | PElection proto_election
  | PDeparture proto_departure
  | PUnset

record proto_rumor =
  pr_type :: rumor_type
  pr_from_id :: string
  pr_payload :: rumor_payload

definition default_sys_info :: sys_info where
  "default_sys_info = \<lparr>si_ip = ''127.0.0.1'', si_hostname = ''localhost'', si_gossip_ip = ''127.0.0.1'',
     si_gossip_port = 0, si_http_gateway_ip = ''127.0.0.1'', si_http_gateway_port = 0\<rparr>"

definition default_service :: proto_service where
  "default_service = \<lparr>sv_member_id = '''', sv_service_group = '''', sv_incarnation = 0,
     sv_initialized = False, sv_pkg = '''', sv_cfg = [], sv_sys = default_sys_info\<rparr>"

definition default_service_config :: proto_service_config where
  "default_service_config = \<lparr>sc_service_group = '''', sc_incarnation = 0, sc_encrypted = False,
     sc_config = []\<rparr>"

definition default_service_file :: proto_service_file where
  "default_service_file = \<lparr>sf_service_group = '''', sf_incarnation = 0, sf_encrypted = False,
     sf_filename = '''', sf_body = []\<rparr>"

definition default_election :: proto_election where
  "default_election = \<lparr>el_member_id = '''', el_service_group = '''', el_term = 0, el_suitability = 0,
     el_status = Running, el_votes = []\<rparr>"

definition default_departure :: proto_departure where
  "default_departure = \<lparr>dp_member_id = ''''\<rparr>"

definition default_membership :: membership where
  "default_membership = \<lparr>ms_member = default_member '''', ms_health = ALIVE\<rparr>"

definition default_proto_rumor :: proto_rumor where
  "default_proto_rumor = \<lparr>pr_type = RT_Member, pr_from_id = '''', pr_payload = PUnset\<rparr>"

text \<open>The getters of the payload return the default instance when another kind is set.\<close>

definition get_member :: "proto_rumor \<Rightarrow> membership" where
  "get_member r = (case pr_payload r of PMember m \<Rightarrow> m | _ \<Rightarrow> default_membership)"

definition get_service :: "proto_rumor \<Rightarrow> proto_service" where
  "get_service r = (case pr_payload r of PService s \<Rightarrow> s | _ \<Rightarrow> default_service)"

definition get_service_config :: "proto_rumor \<Rightarrow> proto_service_config" where
  "get_service_config r = (case pr_payload r of PServiceConfig s \<Rightarrow> s | _ \<Rightarrow> default_service_config)"

definition get_service_file :: "proto_rumor \<Rightarrow> proto_service_file" where
  "get_service_file r = (case pr_payload r of PServiceFile s \<Rightarrow> s | _ \<Rightarrow> default_service_file)"

definition get_election :: "proto_rumor \<Rightarrow> proto_election" where
  "get_election r = (case pr_payload r of PElection e \<Rightarrow> e | _ \<Rightarrow> default_election)"

definition get_departure :: "proto_rumor \<Rightarrow> proto_departure" where
  "get_departure r = (case pr_payload r of PDeparture d \<Rightarrow> d | _ \<Rightarrow> default_departure)"

text \<open>
  A write through \<open>mut_election\<close> (and the like) first replaces a payload of another kind by the
  default instance, so it acts on what the getter returns.
\<close>

definition update_service :: "(proto_service \<Rightarrow> proto_service) \<Rightarrow> proto_rumor \<Rightarrow> proto_rumor" where
  "update_service f r = r\<lparr>pr_payload := PService (f (get_service r))\<rparr>"

definition update_service_config :: "(proto_service_config \<Rightarrow> proto_service_config) \<Rightarrow> proto_rumor \<Rightarrow> proto_rumor" where
  "update_service_config f r = r\<lparr>pr_payload := PServiceConfig (f (get_service_config r))\<rparr>"

definition update_service_file :: "(proto_service_file \<Rightarrow> proto_service_file) \<Rightarrow> proto_rumor \<Rightarrow> proto_rumor" where
  "update_service_file f r = r\<lparr>pr_payload := PServiceFile (f (get_service_file r))\<rparr>"

definition update_election :: "(proto_election \<Rightarrow> proto_election) \<Rightarrow> proto_rumor \<Rightarrow> proto_rumor" where
  "update_election f r = r\<lparr>pr_payload := PElection (f (get_election r))\<rparr>"

lemma get_update_payload [simp]:
  "get_service (update_service f r) = f (get_service r)"
  "get_service_config (update_service_config g r) = g (get_service_config r)"
  "get_service_file (update_service_file h r) = h (get_service_file r)"
  "get_election (update_election k r) = k (get_election r)"
  by (simp_all add: get_service_def update_service_def get_service_config_def update_service_config_def
      get_service_file_def update_service_file_def get_election_def update_election_def)

section \<open>Service\<close>

text \<open>
  \<open>Service::new\<close> panics unless the package is fully qualified and named like the service of the
  group. The configuration is serialized by the \<open>toml\<close> library, the argument \<open>to_vec\<close>.
\<close>

definition service_new ::
  "('cfg \<Rightarrow> bytes option) \<Rightarrow> string \<Rightarrow> package_ident \<Rightarrow> string \<Rightarrow> sys_info \<Rightarrow> 'cfg option \<Rightarrow> proto_rumor option" where
  "service_new to_vec member_id package service_group sys cfg =
     do { service \<leftarrow> sg_service service_group;
          if fully_qualified package \<and> service = pi_name package then
            do { bytes \<leftarrow> (case cfg of None \<Rightarrow> Some [] | Some c \<Rightarrow> to_vec c);
                 Some \<lparr>pr_type = RT_Service, pr_from_id = member_id,
                   pr_payload = PService \<lparr>sv_member_id = member_id, sv_service_group = service_group,
                     sv_incarnation = 0, sv_initialized = False, sv_pkg = ident_to_string package,
                     sv_cfg = bytes, sv_sys = sys\<rparr>\<rparr> }
          else None }"

definition service_partial_cmp :: "proto_rumor \<Rightarrow> proto_rumor \<Rightarrow> rust_ordering option" where
  "service_partial_cmp self other =
     (if sv_member_id (get_service self) \<noteq> sv_member_id (get_service other) \<or>
         sv_service_group (get_service self) \<noteq> sv_service_group (get_service other) then None
      else Some (rust_cmp (sv_incarnation (get_service self)) (sv_incarnation (get_service other))))"

definition service_merge :: "proto_rumor \<Rightarrow> proto_rumor \<Rightarrow> proto_rumor \<times> bool" where
  "service_merge self other =
     (if partial_ge (service_partial_cmp self other) then (self, False) else (other, True))"

definition service_ops :: "proto_rumor rumor_ops" where
  "service_ops = \<lparr>r_kind = (\<lambda>_. RT_Service), r_key = (\<lambda>r. sv_service_group (get_service r)),
     r_id = (\<lambda>r. sv_member_id (get_service r)), r_merge = service_merge\<rparr>"

interpretation service: versioned_rumor service_ops "\<lambda>r. sv_incarnation (get_service r)"
  by unfold_locales (auto simp: service_ops_def service_merge_def service_partial_cmp_def)

section \<open>Service configuration\<close>

definition service_config_new :: "string \<Rightarrow> string \<Rightarrow> bytes \<Rightarrow> proto_rumor" where
  "service_config_new member_id service_group config =
     \<lparr>pr_type = RT_ServiceConfig, pr_from_id = member_id,
      pr_payload = PServiceConfig \<lparr>sc_service_group = service_group, sc_incarnation = 0,
        sc_encrypted = False, sc_config = config\<rparr>\<rparr>"

text \<open>
  The cryptography, the UTF-8 decoder and the \<open>toml\<close> parser are arguments. \<open>encrypt\<close> takes the
  configuration out of the rumor before it encrypts it, so an error leaves it empty.
\<close>

definition service_config_encrypt ::
  "(bytes \<Rightarrow> 'e + bytes) \<Rightarrow> proto_rumor \<Rightarrow> proto_rumor \<times> ('e + unit)" where
  "service_config_encrypt encrypt r =
     (let config = sc_config (get_service_config r);
          r = update_service_config (sc_config_update (\<lambda>_. [])) r
      in case encrypt config of
           Inl e \<Rightarrow> (r, Inl e)
         | Inr encrypted_config \<Rightarrow>
             (let r = update_service_config (sc_config_update (\<lambda>_. encrypted_config)) r;
                  r = update_service_config (sc_encrypted_update (\<lambda>_. True)) r
              in (r, Inr ())))"

definition service_config_config ::
  "(bytes \<Rightarrow> 'e + bytes) \<Rightarrow> (string \<Rightarrow> bytes \<Rightarrow> 'e + 's) \<Rightarrow> (string \<Rightarrow> 's \<Rightarrow> 'e + 'toml) \<Rightarrow> proto_rumor \<Rightarrow> 'e + 'toml" where
  "service_config_config decrypt from_utf8 parse_config r =
     (let group_name = sc_service_group (get_service_config r)
      in if sc_encrypted (get_service_config r) then
           (case decrypt (sc_config (get_service_config r)) of
              Inl e \<Rightarrow> Inl e
            | Inr bytes \<Rightarrow>
                (case from_utf8 group_name bytes of
                   Inl e \<Rightarrow> Inl e
                 | Inr encoded \<Rightarrow> parse_config group_name encoded))
         else
           (case from_utf8 group_name (sc_config (get_service_config r)) of
              Inl e \<Rightarrow> Inl e
            | Inr encoded \<Rightarrow> parse_config group_name encoded))"

definition service_config_partial_cmp :: "proto_rumor \<Rightarrow> proto_rumor \<Rightarrow> rust_ordering option" where
  "service_config_partial_cmp self other =
     (if sc_service_group (get_service_config self) \<noteq> sc_service_group (get_service_config other) then None
      else Some (rust_cmp (sc_incarnation (get_service_config self)) (sc_incarnation (get_service_config other))))"

definition service_config_merge :: "proto_rumor \<Rightarrow> proto_rumor \<Rightarrow> proto_rumor \<times> bool" where
  "service_config_merge self other =
     (if partial_ge (service_config_partial_cmp self other) then (self, False) else (other, True))"

definition service_config_ops :: "proto_rumor rumor_ops" where
  "service_config_ops = \<lparr>r_kind = (\<lambda>_. RT_ServiceConfig),
     r_key = (\<lambda>r. sc_service_group (get_service_config r)), r_id = (\<lambda>_. ''service_config''),
     r_merge = service_config_merge\<rparr>"

interpretation service_config: versioned_rumor service_config_ops "\<lambda>r. sc_incarnation (get_service_config r)"
  by unfold_locales (auto simp: service_config_ops_def service_config_merge_def service_config_partial_cmp_def)

section \<open>Service files\<close>

definition service_file_new :: "string \<Rightarrow> string \<Rightarrow> string \<Rightarrow> bytes \<Rightarrow> proto_rumor" where
  "service_file_new member_id service_group filename body =
     \<lparr>pr_type = RT_ServiceFile, pr_from_id = member_id,
      pr_payload = PServiceFile \<lparr>sf_service_group = service_group, sf_incarnation = 0,
        sf_encrypted = False, sf_filename = filename, sf_body = body\<rparr>\<rparr>"

definition service_file_encrypt ::
  "(bytes \<Rightarrow> 'e + bytes) \<Rightarrow> proto_rumor \<Rightarrow> proto_rumor \<times> ('e + unit)" where
  "service_file_encrypt encrypt r =
     (let body = sf_body (get_service_file r);
          r = update_service_file (sf_body_update (\<lambda>_. [])) r
      in case encrypt body of
           Inl e \<Rightarrow> (r, Inl e)
         | Inr encrypted_body \<Rightarrow>
             (let r = update_service_file (sf_body_update (\<lambda>_. encrypted_body)) r;
                  r = update_service_file (sf_encrypted_update (\<lambda>_. True)) r
              in (r, Inr ())))"

definition service_file_body :: "(bytes \<Rightarrow> 'e + bytes) \<Rightarrow> proto_rumor \<Rightarrow> 'e + bytes" where
  "service_file_body decrypt r =
     (if sf_encrypted (get_service_file r) then decrypt (sf_body (get_service_file r))
      else Inr (sf_body (get_service_file r)))"

definition service_file_partial_cmp :: "proto_rumor \<Rightarrow> proto_rumor \<Rightarrow> rust_ordering option" where
  "service_file_partial_cmp self other =
     (if sf_service_group (get_service_file self) \<noteq> sf_service_group (get_service_file other) then None
      else Some (rust_cmp (sf_incarnation (get_service_file self)) (sf_incarnation (get_service_file other))))"

definition service_file_merge :: "proto_rumor \<Rightarrow> proto_rumor \<Rightarrow> proto_rumor \<times> bool" where
  "service_file_merge self other =
     (if partial_ge (service_file_partial_cmp self other) then (self, False) else (other, True))"

definition service_file_ops :: "proto_rumor rumor_ops" where
  "service_file_ops = \<lparr>r_kind = (\<lambda>_. RT_ServiceFile),
     r_key = (\<lambda>r. sf_service_group (get_service_file r)), r_id = (\<lambda>r. sf_filename (get_service_file r)),
     r_merge = service_file_merge\<rparr>"

interpretation service_file: versioned_rumor service_file_ops "\<lambda>r. sf_incarnation (get_service_file r)"
  by unfold_locales (auto simp: service_file_ops_def service_file_merge_def service_file_partial_cmp_def)

section \<open>Departure\<close>

definition departure_new :: "string \<Rightarrow> proto_rumor" where
  "departure_new member_id =
     \<lparr>pr_type = RT_Departure, pr_from_id = ''butterflyclient'',
      pr_payload = PDeparture \<lparr>dp_member_id = member_id\<rparr>\<rparr>"

definition departure_partial_cmp :: "proto_rumor \<Rightarrow> proto_rumor \<Rightarrow> rust_ordering option" where
  "departure_partial_cmp self other =
     (if dp_member_id (get_departure self) \<noteq> dp_member_id (get_departure other) then None
      else Some (rust_cmp (dp_member_id (get_departure self)) (dp_member_id (get_departure other))))"

definition departure_merge :: "proto_rumor \<Rightarrow> proto_rumor \<Rightarrow> proto_rumor \<times> bool" where
  "departure_merge self other =
     (self, if partial_ge (departure_partial_cmp self other) then False else True)"

definition departure_ops :: "proto_rumor rumor_ops" where
  "departure_ops = \<lparr>r_kind = (\<lambda>_. RT_Departure), r_key = (\<lambda>_. ''departure''),
     r_id = (\<lambda>r. dp_member_id (get_departure r)), r_merge = departure_merge\<rparr>"

interpretation departure: versioned_rumor departure_ops "\<lambda>_. ()"
  by unfold_locales (auto simp: departure_ops_def departure_merge_def departure_partial_cmp_def)

section \<open>Properties\<close>

text \<open>Service rumors converge. Two supervisors that receive the same service rumors, in any
  order and each any number of times, end with the same rumor for every member of every service
  group, provided no two different rumors of a member and group carry the same incarnation.\<close>

theorem service_rumors_converge:
  assumes "set rs = set rs'"
    and "inj_on (\<lambda>r. (rs_file service_ops r, sv_incarnation (get_service r))) (set rs)"
  shows "\<exists>s s'. fold_opt (rs_put service_ops) rs rs_default = Some s \<and>
    fold_opt (rs_put service_ops) rs' rs_default = Some s' \<and> with_rumor s = with_rumor s'"
  using assms by (rule service.put_all_same_rumors)

definition example_service :: "string \<Rightarrow> u64 \<Rightarrow> proto_rumor" where
  "example_service mid inc = \<lparr>pr_type = RT_Service, pr_from_id = mid,
     pr_payload = PService (default_service\<lparr>sv_member_id := mid, sv_service_group := ''foo.bar'',
       sv_incarnation := inc\<rparr>)\<rparr>"

theorem service_rumors_converge_witness:
  "\<exists>s s'. fold_opt (rs_put service_ops) [example_service ''a'' 1, example_service ''a'' 2] rs_default = Some s \<and>
     fold_opt (rs_put service_ops) [example_service ''a'' 2, example_service ''a'' 1, example_service ''a'' 2] rs_default = Some s' \<and>
     with_rumor s = with_rumor s'"
  by (rule service_rumors_converge) (auto simp: example_service_def get_service_def)

text \<open>Service configurations and service files converge in the same way, one configuration
  per service group and one file per service group and file name.\<close>

theorem service_config_and_file_rumors_converge:
  assumes "set rs = set rs'"
    and "inj_on (\<lambda>r. (rs_file service_config_ops r, sc_incarnation (get_service_config r))) (set rs)"
    and "set fs = set fs'"
    and "inj_on (\<lambda>r. (rs_file service_file_ops r, sf_incarnation (get_service_file r))) (set fs)"
  shows "(\<exists>s s'. fold_opt (rs_put service_config_ops) rs rs_default = Some s \<and>
      fold_opt (rs_put service_config_ops) rs' rs_default = Some s' \<and> with_rumor s = with_rumor s') \<and>
    (\<exists>s s'. fold_opt (rs_put service_file_ops) fs rs_default = Some s \<and>
      fold_opt (rs_put service_file_ops) fs' rs_default = Some s' \<and> with_rumor s = with_rumor s')"
  using service_config.put_all_same_rumors [OF assms(1,2)] service_file.put_all_same_rumors [OF assms(3,4)]
  by blast

definition example_config :: "u64 \<Rightarrow> proto_rumor" where
  "example_config inc = update_service_config (sc_incarnation_update (\<lambda>_. inc)) (service_config_new ''a'' ''foo.bar'' [])"

definition example_file :: "u64 \<Rightarrow> proto_rumor" where
  "example_file inc = update_service_file (sf_incarnation_update (\<lambda>_. inc)) (service_file_new ''a'' ''foo.bar'' ''f'' [])"

theorem service_config_and_file_rumors_converge_witness:
  "\<exists>s s'. fold_opt (rs_put service_config_ops) [example_config 1, example_config 2] rs_default = Some s \<and>
      fold_opt (rs_put service_config_ops) [example_config 2, example_config 1] rs_default = Some s' \<and>
      with_rumor s = with_rumor s'"
  by (rule conjunct1 [OF service_config_and_file_rumors_converge
        [of _ _ "[example_file 1, example_file 2]" "[example_file 2, example_file 1]"]])
    (auto simp: example_config_def example_file_def)

text \<open>A service file that was encrypted is read back as it was, when decryption inverts
  encryption. When encryption fails, the error is returned and the body is lost.\<close>

theorem service_file_encrypt_roundtrip:
  assumes "\<And>b c. encrypt b = Inr c \<Longrightarrow> decrypt c = Inr b" and "\<not> sf_encrypted (get_service_file r)"
  shows "case service_file_encrypt encrypt r of
      (r', Inr _) \<Rightarrow> service_file_body decrypt r' = service_file_body decrypt r \<and> sf_encrypted (get_service_file r')
    | (r', Inl e) \<Rightarrow> encrypt (sf_body (get_service_file r)) = Inl e \<and> service_file_body decrypt r' = Inr []"
  using assms
  by (cases "encrypt (sf_body (get_service_file r))")
    (auto simp: service_file_encrypt_def service_file_body_def Let_def)

theorem service_file_encrypt_roundtrip_witness:
  "(case service_file_encrypt (\<lambda>b. if b = [] then Inl () else Inr (map (\<lambda>x. x + 1) b)) (service_file_new ''a'' ''foo.bar'' ''f'' [1, 2]) of
      (r', Inr _) \<Rightarrow> service_file_body (\<lambda>b. Inr (map (\<lambda>x. x - 1) b) :: unit + bytes) r' = Inr [1, 2]
    | (r', Inl e) \<Rightarrow> False)"
  using service_file_encrypt_roundtrip [of "\<lambda>b. if b = [] then Inl () else Inr (map (\<lambda>x. x + 1) b)"
    "\<lambda>b. Inr (map (\<lambda>x. x - 1) b)" "service_file_new ''a'' ''foo.bar'' ''f'' [1, 2]"]
  by (auto simp: service_file_new_def get_service_file_def service_file_encrypt_def service_file_body_def
      update_service_file_def Let_def comp_def split: if_splits)

end
