(* ===== verification/Election.thy ===== *)
theory Election
  imports Rumors
begin

text \<open>
  Leader election rumors, \<open>components/butterfly/src/rumor/election.rs\<close>: the election of a
  service group and its variant for rolling updates. The lemmas show how \<open>merge\<close> combines
  elections: terms only grow, a decided election stays decided in its term, and undecided
  elections of one term form a semilattice whose join is the most suitable candidate with the
  union of the votes.
\<close>

section \<open>Operations\<close>

definition election_new :: "string \<Rightarrow> string \<Rightarrow> u64 \<Rightarrow> proto_rumor" where
  "election_new member_id service_group suitability =
     \<lparr>pr_type = RT_Election, pr_from_id = member_id,
      pr_payload = PElection \<lparr>el_member_id = member_id, el_service_group = service_group, el_term = 0,
        el_suitability = suitability, el_status = Running, el_votes = [member_id]\<rparr>\<rparr>"

definition insert_vote :: "string \<Rightarrow> proto_rumor \<Rightarrow> proto_rumor" where
  "insert_vote member_id r =
     (if member_id \<notin> set (el_votes (get_election r))
      then update_election (el_votes_update (\<lambda>vs. vs @ [member_id])) r else r)"

definition steal_votes :: "proto_rumor \<Rightarrow> proto_rumor \<Rightarrow> proto_rumor" where
  "steal_votes other self = fold insert_vote (el_votes (get_election other)) self"

definition election_running :: "proto_rumor \<Rightarrow> proto_rumor" where
  "election_running r = update_election (el_status_update (\<lambda>_. Running)) r"

definition election_finish :: "proto_rumor \<Rightarrow> proto_rumor" where
  "election_finish r = update_election (el_status_update (\<lambda>_. Finished)) r"

definition election_no_quorum :: "proto_rumor \<Rightarrow> proto_rumor" where
  "election_no_quorum r = update_election (el_status_update (\<lambda>_. NoQuorum)) r"

definition is_finished :: "proto_rumor \<Rightarrow> bool" where
  "is_finished r \<longleftrightarrow> el_status (get_election r) = Finished"

definition election_eq :: "proto_rumor \<Rightarrow> proto_rumor \<Rightarrow> bool" where
  "election_eq self other \<longleftrightarrow>
     el_service_group (get_election self) = el_service_group (get_election other) \<and>
     el_member_id (get_election self) = el_member_id (get_election other) \<and>
     el_suitability (get_election self) = el_suitability (get_election other) \<and>
     el_votes (get_election self) = el_votes (get_election other) \<and>
     el_status (get_election self) = el_status (get_election other) \<and>
     el_term (get_election self) = el_term (get_election other)"

definition election_merge :: "proto_rumor \<Rightarrow> proto_rumor \<Rightarrow> proto_rumor \<times> bool" where
  "election_merge self other =
     (let s = get_election self; o' = get_election other
      in if election_eq self other then (self, False)
         else if el_term o' \<ge> el_term s \<and> el_status o' = Finished then (other, True)
         else if el_term o' = el_term s \<and> el_status s = Finished then (self, False)
         else if el_term s > el_term o' then (self, True)
         else if el_suitability s > el_suitability o' then (steal_votes other self, True)
         else if el_suitability o' > el_suitability s then (steal_votes self other, True)
         else if el_member_id s \<ge> el_member_id o' then (steal_votes other self, True)
         else (steal_votes self other, True))"

definition election_ops :: "proto_rumor rumor_ops" where
  "election_ops = \<lparr>r_kind = (\<lambda>_. RT_Election), r_key = (\<lambda>r. el_service_group (get_election r)),
     r_id = (\<lambda>_. ''election''), r_merge = election_merge\<rparr>"

text \<open>\<open>ElectionUpdate\<close> wraps an election and differs in its kind only.\<close>

definition election_update_new :: "string \<Rightarrow> string \<Rightarrow> u64 \<Rightarrow> proto_rumor" where
  "election_update_new member_id service_group suitability =
     (election_new member_id service_group suitability)\<lparr>pr_type := RT_ElectionUpdate\<rparr>"

definition election_update_from :: "proto_rumor \<Rightarrow> proto_rumor" where
  "election_update_from pr = pr\<lparr>pr_type := RT_ElectionUpdate\<rparr>"

definition election_update_ops :: "proto_rumor rumor_ops" where
  "election_update_ops = \<lparr>r_kind = (\<lambda>_. RT_ElectionUpdate), r_key = r_key election_ops,
     r_id = (\<lambda>_. ''election''), r_merge = (\<lambda>self other. election_merge self other)\<rparr>"

section \<open>Votes\<close>

lemma insert_vote_simps [simp]:
  "set (el_votes (get_election (insert_vote v r))) = insert v (set (el_votes (get_election r)))"
  "distinct (el_votes (get_election (insert_vote v r))) = distinct (el_votes (get_election r))"
  "el_member_id (get_election (insert_vote v r)) = el_member_id (get_election r)"
  "el_service_group (get_election (insert_vote v r)) = el_service_group (get_election r)"
  "el_term (get_election (insert_vote v r)) = el_term (get_election r)"
  "el_suitability (get_election (insert_vote v r)) = el_suitability (get_election r)"
  "el_status (get_election (insert_vote v r)) = el_status (get_election r)"
  "pr_type (insert_vote v r) = pr_type r"
  "pr_from_id (insert_vote v r) = pr_from_id r"
  by (auto simp: insert_vote_def update_election_def [symmetric])
    (simp_all add: update_election_def)

lemma fold_insert_vote [simp]:
  "set (el_votes (get_election (fold insert_vote vs r))) = set vs \<union> set (el_votes (get_election r))"
  "distinct (el_votes (get_election (fold insert_vote vs r))) = distinct (el_votes (get_election r))"
  "el_member_id (get_election (fold insert_vote vs r)) = el_member_id (get_election r)"
  "el_service_group (get_election (fold insert_vote vs r)) = el_service_group (get_election r)"
  "el_term (get_election (fold insert_vote vs r)) = el_term (get_election r)"
  "el_suitability (get_election (fold insert_vote vs r)) = el_suitability (get_election r)"
  "el_status (get_election (fold insert_vote vs r)) = el_status (get_election r)"
  "pr_type (fold insert_vote vs r) = pr_type r"
  "pr_from_id (fold insert_vote vs r) = pr_from_id r"
  by (induction vs arbitrary: r) auto

interpretation election: rumor_trait election_ops
  by unfold_locales
    (auto simp: election_ops_def election_merge_def steal_votes_def Let_def)

interpretation election_update: rumor_trait election_update_ops
  by unfold_locales
    (auto simp: election_update_ops_def election_ops_def election_merge_def steal_votes_def Let_def)

section \<open>Merging\<close>

definition candidate :: "proto_rumor \<Rightarrow> u64 \<times> string" where
  "candidate r = (el_suitability (get_election r), el_member_id (get_election r))"

definition vote_set :: "proto_rumor \<Rightarrow> string set" where
  "vote_set r = set (el_votes (get_election r))"

definition election_term :: "proto_rumor \<Rightarrow> u64" where
  "election_term r = el_term (get_election r)"

lemma merge_term_mono: "election_term a \<le> election_term (fst (election_merge a b))"
  by (auto simp: election_term_def election_merge_def steal_votes_def Let_def)

lemma merge_term_max: "election_term (fst (election_merge a b)) \<le> max (election_term a) (election_term b)"
  by (auto simp: election_term_def election_merge_def steal_votes_def Let_def)

lemma merge_finished_stays:
  "is_finished a \<Longrightarrow> election_term (fst (election_merge a b)) = election_term a \<Longrightarrow> is_finished (fst (election_merge a b))"
  by (auto simp: election_term_def is_finished_def election_merge_def steal_votes_def Let_def split: if_splits)

text \<open>Two undecided elections of one term: the join.\<close>

lemma merge_undecided:
  assumes "election_term a = election_term b" and "\<not> is_finished a" and "\<not> is_finished b"
  shows "candidate (fst (election_merge a b)) = max (candidate a) (candidate b)"
    and "vote_set (fst (election_merge a b)) = vote_set a \<union> vote_set b"
    and "election_term (fst (election_merge a b)) = election_term a"
    and "\<not> is_finished (fst (election_merge a b))"
    and "distinct (el_votes (get_election a)) \<Longrightarrow> distinct (el_votes (get_election b)) \<Longrightarrow>
      distinct (el_votes (get_election (fst (election_merge a b))))"
  using assms
  by (auto simp: candidate_def vote_set_def election_term_def is_finished_def election_merge_def
      election_eq_def steal_votes_def max_def Let_def)

section \<open>Gossiped elections\<close>

text \<open>The elections a store merges when they are delivered one after the other.\<close>

definition merge_all :: "proto_rumor \<Rightarrow> proto_rumor list \<Rightarrow> proto_rumor" where
  "merge_all a bs = fold (\<lambda>b a. fst (election_merge a b)) bs a"

definition undecided_in :: "string \<Rightarrow> u64 \<Rightarrow> proto_rumor \<Rightarrow> bool" where
  "undecided_in g t r \<longleftrightarrow> el_service_group (get_election r) = g \<and> election_term r = t \<and> \<not> is_finished r"

lemma merge_group: "el_service_group (get_election a) = g \<Longrightarrow> el_service_group (get_election b) = g \<Longrightarrow>
    el_service_group (get_election (fst (election_merge a b))) = g"
  by (auto simp: election_merge_def steal_votes_def Let_def)

lemma merge_undecided_in:
  assumes "undecided_in g t a" and "undecided_in g t b"
  shows "undecided_in g t (fst (election_merge a b))"
  using assms merge_group [of a g b] merge_undecided [of a b] by (simp add: undecided_in_def)

lemma merge_all_undecided:
  assumes "undecided_in g t a" and "list_all (undecided_in g t) bs"
  shows "candidate (merge_all a bs) = Max (candidate ` set (a # bs)) \<and>
    vote_set (merge_all a bs) = (\<Union>b \<in> set (a # bs). vote_set b) \<and> undecided_in g t (merge_all a bs)"
  using assms
proof (induction bs arbitrary: a)
  case Nil
  then show ?case by (simp add: merge_all_def)
next
  case (Cons b bs)
  let ?m = "fst (election_merge a b)"
  from Cons.prems have m: "candidate ?m = max (candidate a) (candidate b)" "vote_set ?m = vote_set a \<union> vote_set b"
    using merge_undecided [of a b] by (simp_all add: undecided_in_def)
  from Cons have IH: "candidate (merge_all ?m bs) = Max (candidate ` set (?m # bs)) \<and>
    vote_set (merge_all ?m bs) = (\<Union>b \<in> set (?m # bs). vote_set b) \<and> undecided_in g t (merge_all ?m bs)"
    by (intro Cons.IH merge_undecided_in) auto
  have "merge_all a (b # bs) = merge_all ?m bs" by (simp add: merge_all_def)
  with IH m show ?case by (auto simp: Max_insert_max simp del: Max_insert)
qed

lemma election_store:
  assumes "list_all (\<lambda>r. el_service_group (get_election r) = g) (b # bs)"
  shows "\<exists>s. fold_opt (rs_put election_ops) (b # bs) rs_default = Some s \<and>
    with_rumor s g ''election'' = Some (merge_all b bs)"
proof -
  have step: "\<exists>s'. fold_opt (rs_put election_ops) bs s = Some s' \<and> with_rumor s' g ''election'' = Some (merge_all a bs)"
    if "with_rumor s g ''election'' = Some a" "list_all (\<lambda>r. el_service_group (get_election r) = g) bs" for s a bs
    using that
  proof (induction bs arbitrary: s a)
    case Nil
    then show ?case by (simp add: merge_all_def)
  next
    case (Cons b bs)
    have "with_rumor (fst (rs_insert election_ops b s)) g ''election'' = Some (fst (election_merge a b))"
      using Cons.prems election.with_rumor_insert [of b s g "''election''"] by (simp add: election_ops_def)
    from Cons.IH [OF this] Cons.prems show ?case by (simp add: rs_put_def merge_all_def)
  qed
  have "with_rumor (fst (rs_insert election_ops b rs_default)) g ''election'' = Some b"
    using assms election.with_rumor_insert [of b rs_default g "''election''"]
    by (simp add: election_ops_def with_rumor_def rs_default_def)
  from step [OF this, of bs] assms show ?thesis by (simp add: rs_put_def)
qed

section \<open>Properties\<close>

text \<open>C1: The highlander property. However the undecided elections of a service group and a
  term are gossiped, every supervisor that has received them holds the same candidate, the one
  with the largest pair of suitability and member id, and the union of all their votes. The order of
  the rumors and repetitions do not matter.\<close>

theorem undecided_elections_converge:
  assumes "list_all (undecided_in g t) bs" and "bs \<noteq> []" and "set bs = set bs'"
  shows "\<exists>s s' r r'. fold_opt (rs_put election_ops) bs rs_default = Some s \<and>
    fold_opt (rs_put election_ops) bs' rs_default = Some s' \<and>
    with_rumor s g ''election'' = Some r \<and> with_rumor s' g ''election'' = Some r' \<and>
    candidate r = Max (candidate ` set bs) \<and> candidate r' = candidate r \<and>
    vote_set r = (\<Union>b \<in> set bs. vote_set b) \<and> vote_set r' = vote_set r \<and> \<not> is_finished r"
proof -
  have held: "\<exists>s r. fold_opt (rs_put election_ops) cs rs_default = Some s \<and> with_rumor s g ''election'' = Some r \<and>
      candidate r = Max (candidate ` set bs) \<and> vote_set r = (\<Union>b \<in> set bs. vote_set b) \<and> \<not> is_finished r"
    if "set cs = set bs" for cs
  proof -
    from that assms(2) obtain c cs' where c: "cs = c # cs'" by (cases cs) auto
    from assms(1) that have all: "list_all (undecided_in g t) cs" by (simp add: list_all_iff)
    then have "list_all (\<lambda>r. el_service_group (get_election r) = g) cs" by (auto simp: list_all_iff undecided_in_def)
    from election_store [OF this [unfolded c]] obtain s where "fold_opt (rs_put election_ops) cs rs_default = Some s"
      "with_rumor s g ''election'' = Some (merge_all c cs')" by (auto simp: c)
    moreover have "candidate (merge_all c cs') = Max (candidate ` set bs) \<and>
      vote_set (merge_all c cs') = (\<Union>b \<in> set bs. vote_set b) \<and> \<not> is_finished (merge_all c cs')"
      using merge_all_undecided [of g t c cs'] all by (simp add: c that [symmetric] undecided_in_def)
    ultimately show ?thesis by blast
  qed
  from held [OF refl] held [OF assms(3) [symmetric]] show ?thesis by metis
qed

theorem undecided_elections_converge_witness:
  "\<exists>s r. fold_opt (rs_put election_ops)
      [election_new ''a'' ''foo.bar'' 1, election_new ''b'' ''foo.bar'' 1, election_new ''c'' ''foo.bar'' 0] rs_default = Some s \<and>
    with_rumor s ''foo.bar'' ''election'' = Some r \<and> candidate r = (1, ''b'') \<and> vote_set r = {''a'', ''b'', ''c''}"
proof -
  let ?bs = "[election_new ''a'' ''foo.bar'' 1, election_new ''b'' ''foo.bar'' 1, election_new ''c'' ''foo.bar'' 0]"
  have und: "list_all (undecided_in ''foo.bar'' 0) ?bs" by code_simp
  have cand: "candidate ` set ?bs = {(1, ''a''), (1, ''b''), (0, ''c'')}"
    by (simp add: candidate_def election_new_def get_election_def)
  have "max (1 :: u64, ''a'') (max (1, ''b'') (0, ''c'')) = (1, ''b'')" by code_simp
  with cand have best: "Max (candidate ` set ?bs) = (1, ''b'')" by simp
  have votes: "(\<Union>b \<in> set ?bs. vote_set b) = {''a'', ''b'', ''c''}"
    by (auto simp: vote_set_def election_new_def get_election_def)
  show ?thesis using undecided_elections_converge [OF und list.simps(3) refl] unfolding best votes by blast
qed

text \<open>Merging an election into another never lowers the term, never raises it above both,
  and an election that is decided stays decided as long as its term stays.\<close>

theorem election_term_and_decision_are_stable:
  "election_term a \<le> election_term (fst (election_merge a b)) \<and>
   election_term (fst (election_merge a b)) \<le> max (election_term a) (election_term b) \<and>
   (is_finished a \<longrightarrow> election_term (fst (election_merge a b)) = election_term a \<longrightarrow> is_finished (fst (election_merge a b)))"
  using merge_term_mono merge_term_max merge_finished_stays by blast

definition example_election :: "string \<Rightarrow> u64 \<Rightarrow> u64 \<Rightarrow> election_status \<Rightarrow> proto_rumor" where
  "example_election mid suit trm st =
     update_election (\<lambda>e. e\<lparr>el_term := trm, el_status := st\<rparr>) (election_new mid ''foo.bar'' suit)"

theorem election_term_and_decision_are_stable_witness:
  "is_finished (example_election ''a'' 0 1 Finished) \<and>
   is_finished (fst (election_merge (example_election ''a'' 0 1 Finished) (example_election ''b'' 5 1 Running)))"
proof -
  have "is_finished (example_election ''a'' 0 1 Finished)"
    "election_term (fst (election_merge (example_election ''a'' 0 1 Finished) (example_election ''b'' 5 1 Running))) =
     election_term (example_election ''a'' 0 1 Finished)" by code_simp+
  with election_term_and_decision_are_stable [of "example_election ''a'' 0 1 Finished" "example_election ''b'' 5 1 Running"]
  show ?thesis by blast
qed

text \<open>A supervisor whose election is held by a more suitable candidate does not move to a
  newer term: an undecided election of a later term is absorbed, with its votes, into the old
  one, even when the old election is already decided.\<close>

theorem newer_term_absorbed_by_suitable_candidate:
  assumes "election_term a < election_term b" and "\<not> is_finished b"
    and "el_suitability (get_election b) < el_suitability (get_election a)"
  shows "let m = fst (election_merge a b) in
    election_term m = election_term a \<and> is_finished m = is_finished a \<and>
    candidate m = candidate a \<and> vote_set m = vote_set a \<union> vote_set b"
  using assms
  by (auto simp: candidate_def vote_set_def election_term_def is_finished_def election_merge_def
      election_eq_def steal_votes_def Let_def)

theorem newer_term_absorbed_by_suitable_candidate_witness:
  "is_finished (fst (election_merge (example_election ''a'' 5 1 Finished) (example_election ''b'' 0 2 Running))) \<and>
   election_term (fst (election_merge (example_election ''a'' 5 1 Finished) (example_election ''b'' 0 2 Running))) = 1"
proof -
  let ?a = "example_election ''a'' 5 1 Finished" and ?b = "example_election ''b'' 0 2 Running"
  have "election_term ?a < election_term ?b" "\<not> is_finished ?b"
    "el_suitability (get_election ?b) < el_suitability (get_election ?a)" by code_simp+
  from newer_term_absorbed_by_suitable_candidate [OF this] show ?thesis
    by (simp add: Let_def is_finished_def election_term_def example_election_def)
qed

end
