(* ===== verification/Rumor_Heat.thy ===== *)
theory Rumor_Heat
  imports Rumor_Store
begin

text \<open>
  The heat of rumors, \<open>components/butterfly/src/rumor/heat.rs\<close>: for every tracked rumor
  the number of times it was sent to each member. The lemmas show that a rumor is sent to a
  member while it was sent less than \<open>RUMOR_COOL_DOWN_LIMIT\<close> times since it was last
  started, independently of what was sent to other members.
\<close>

section \<open>Operations\<close>

definition RUMOR_COOL_DOWN_LIMIT :: usize where
  "RUMOR_COOL_DOWN_LIMIT = 2"

type_synonym rumor_heat = "(rumor_key, (string, usize) hmap) hmap"

definition heat_default :: rumor_heat where
  "heat_default = hm_new"

definition start_hot_rumor :: "rumor_key \<Rightarrow> rumor_heat \<Rightarrow> rumor_heat" where
  "start_hot_rumor rk rumors = hm_insert rk hm_new rumors"

definition heat_for :: "string \<Rightarrow> (string, usize) hmap \<Rightarrow> usize" where
  "heat_for mid heat_map = (case hm_get heat_map mid of Some h \<Rightarrow> h | None \<Rightarrow> 0)"

text \<open>\<open>sort_by\<close> is a stable sort; the comparison is reversed, so the largest count comes first.\<close>

definition currently_hot_rumors :: "string \<Rightarrow> rumor_heat \<Rightarrow> rumor_key list" where
  "currently_hot_rumors mid rumors =
     (let rumor_heat = filter (\<lambda>(k, heat). heat < RUMOR_COOL_DOWN_LIMIT)
            (map (\<lambda>(k, heat_map). (k, heat_for mid heat_map)) rumors)
      in map fst (sort_key (\<lambda>(k, heat). - uint heat) rumor_heat))"

definition cool_rumor :: "string \<Rightarrow> rumor_key \<Rightarrow> rumor_heat \<Rightarrow> rumor_heat" where
  "cool_rumor mid rk rumor_map =
     (case hm_get rumor_map rk of
        Some heat_map \<Rightarrow>
          (case hm_get heat_map mid of
             Some heat \<Rightarrow> hm_insert rk (hm_insert mid (heat + 1) heat_map) rumor_map
           | None \<Rightarrow> hm_insert rk (hm_insert mid 1 heat_map) rumor_map)
      | None \<Rightarrow> rumor_map)"

definition cool_rumors :: "string \<Rightarrow> rumor_key list \<Rightarrow> rumor_heat \<Rightarrow> rumor_heat" where
  "cool_rumors mid rumors rumor_map =
     (if length rumors > 0 then fold (cool_rumor mid) rumors rumor_map else rumor_map)"

section \<open>The count of a rumor for a member\<close>

definition heat_of :: "rumor_heat \<Rightarrow> rumor_key \<Rightarrow> string \<Rightarrow> usize option" where
  "heat_of h rk mid = map_option (heat_for mid) (hm_get h rk)"

lemma cool_rumors_fold: "cool_rumors mid rks h = fold (cool_rumor mid) rks h"
  by (simp add: cool_rumors_def)

lemma heat_inv_start [simp]: "hm_inv h \<Longrightarrow> hm_inv (start_hot_rumor rk h)"
  by (simp add: start_hot_rumor_def)

lemma heat_inv_cool_one: "hm_inv h \<Longrightarrow> hm_inv (cool_rumor mid rk h)"
  by (simp add: cool_rumor_def split: option.split)

lemma heat_inv_cool [simp]: "hm_inv h \<Longrightarrow> hm_inv (cool_rumors mid rks h)"
  unfolding cool_rumors_fold by (induction rks arbitrary: h) (simp_all add: heat_inv_cool_one)

lemma heat_of_start:
  "heat_of (start_hot_rumor rk h) rk' mid = (if rk' = rk then Some 0 else heat_of h rk' mid)"
  by (simp add: heat_of_def start_hot_rumor_def heat_for_def)

lemma heat_of_cool_one:
  "heat_of (cool_rumor mid rk h) rk' mid' =
     map_option (\<lambda>c. if rk' = rk \<and> mid' = mid then c + 1 else c) (heat_of h rk' mid')"
  by (cases "hm_get h rk'"; cases "hm_get h rk")
    (auto simp: heat_of_def cool_rumor_def heat_for_def split: option.splits)

lemma heat_of_cool:
  "heat_of (cool_rumors mid rks h) rk mid' =
     map_option (\<lambda>c. if mid' = mid then c + of_nat (count_list rks rk) else c) (heat_of h rk mid')"
  unfolding cool_rumors_fold
proof (induction rks arbitrary: h)
  case Nil
  then show ?case by (cases "heat_of h rk mid'") simp_all
next
  case (Cons a rks)
  then show ?case by (cases "heat_of h rk mid'") (simp_all add: heat_of_cool_one)
qed

lemma hot_rumors_iff:
  assumes "hm_inv h"
  shows "rk \<in> set (currently_hot_rumors mid h) \<longleftrightarrow> (\<exists>c. heat_of h rk mid = Some c \<and> c < RUMOR_COOL_DOWN_LIMIT)"
  using assms
  by (force simp: currently_hot_rumors_def heat_of_def hm_mem_iff [symmetric])

lemma hot_rumors_distinct:
  assumes "hm_inv h"
  shows "distinct (currently_hot_rumors mid h)"
proof -
  have "map fst (map (\<lambda>(k, heat_map). (k, heat_for mid heat_map)) h) = map fst h"
    by (simp add: case_prod_beta o_def)
  with assms have "distinct (map fst (filter (\<lambda>(k, heat). heat < RUMOR_COOL_DOWN_LIMIT)
      (map (\<lambda>(k, heat_map). (k, heat_for mid heat_map)) h)))"
    by (intro distinct_map_filter) (simp only: hm_inv_def)
  then show ?thesis
    by (simp add: currently_hot_rumors_def distinct_map)
qed

lemma hot_rumors_sorted:
  assumes "hm_inv h"
  shows "sorted_wrt (\<lambda>a b. the (heat_of h b mid) \<le> the (heat_of h a mid)) (currently_hot_rumors mid h)"
proof -
  let ?ps = "filter (\<lambda>(k, heat). heat < RUMOR_COOL_DOWN_LIMIT)
    (map (\<lambda>(k, heat_map). (k, heat_for mid heat_map)) h)"
  have heat: "heat_of h (fst p) mid = Some (snd p)" if "p \<in> set ?ps" for p
    using that assms by (auto simp: heat_of_def hm_mem_get)
  have "sorted (map (\<lambda>(k, heat). - uint heat) (sort_key (\<lambda>(k, heat). - uint heat) ?ps))"
    by (rule sorted_sort_key)
  then have "sorted_wrt (\<lambda>p q. snd q \<le> snd p) (sort_key (\<lambda>(k, heat). - uint heat) ?ps)"
    by (simp add: sorted_map case_prod_beta word_le_def)
  then have "sorted_wrt (\<lambda>p q. the (heat_of h (fst q) mid) \<le> the (heat_of h (fst p) mid))
      (sort_key (\<lambda>(k, heat). - uint heat) ?ps)"
    using heat by (elim sorted_wrt_mono_rel [rotated]) simp
  then show ?thesis by (simp add: currently_hot_rumors_def sorted_wrt_map)
qed

section \<open>Properties\<close>

text \<open>A run of the gossip layer as the heat sees it: batches of rumors sent to members.\<close>

definition send_all :: "(string \<times> rumor_key list) list \<Rightarrow> rumor_heat \<Rightarrow> rumor_heat" where
  "send_all sends h = fold (\<lambda>(mid, rks). cool_rumors mid rks) sends h"

definition times_sent :: "string \<Rightarrow> rumor_key \<Rightarrow> (string \<times> rumor_key list) list \<Rightarrow> nat" where
  "times_sent mid rk sends = sum_list (map (\<lambda>(m, rks). if m = mid then count_list rks rk else 0) sends)"

lemma heat_inv_send_all: "hm_inv h \<Longrightarrow> hm_inv (send_all sends h)"
  unfolding send_all_def by (induction sends arbitrary: h) auto

lemma heat_of_send_all:
  "heat_of (send_all sends h) rk mid = map_option (\<lambda>c. c + of_nat (times_sent mid rk sends)) (heat_of h rk mid)"
  unfolding send_all_def
proof (induction sends arbitrary: h)
  case Nil
  then show ?case by (cases "heat_of h rk mid") (simp_all add: times_sent_def)
next
  case (Cons s sends)
  then show ?case
    by (cases "heat_of h rk mid"; cases s) (auto simp: times_sent_def heat_of_cool)
qed

lemma below_limit_iff: "n < 2 ^ 64 \<Longrightarrow> (of_nat n :: usize) < RUMOR_COOL_DOWN_LIMIT \<longleftrightarrow> n < 2"
  by (simp add: RUMOR_COOL_DOWN_LIMIT_def word_less_nat_alt unsigned_of_nat take_bit_nat_eq_self)

text \<open>C33: After a rumor is started, and whatever batches of rumors are sent to whichever members
  since, it is still offered to a member exactly when it was sent to this member fewer than two
  times. Sends to other members and of other rumors do not cool it.\<close>

theorem rumor_hot_until_sent_twice:
  assumes "hm_inv h" and "times_sent mid rk sends < 2 ^ 64"
  shows "rk \<in> set (currently_hot_rumors mid (send_all sends (start_hot_rumor rk h))) \<longleftrightarrow>
    times_sent mid rk sends < 2"
proof -
  have "heat_of (send_all sends (start_hot_rumor rk h)) rk mid = Some (of_nat (times_sent mid rk sends))"
    by (simp add: heat_of_send_all heat_of_start)
  with assms show ?thesis by (simp add: hot_rumors_iff heat_inv_send_all below_limit_iff)
qed

definition example_rumor :: "string \<Rightarrow> rumor_key" where
  "example_rumor i = rumor_key_new RT_Service i ''foo.bar''"

theorem rumor_hot_until_sent_twice_witness:
  "example_rumor ''x'' \<in> set (currently_hot_rumors ''a''
     (send_all [(''a'', [example_rumor ''x'']), (''b'', [example_rumor ''x'', example_rumor ''x''])]
       (start_hot_rumor (example_rumor ''x'') heat_default)))"
proof -
  have inv: "hm_inv heat_default" by code_simp
  have "times_sent ''a'' (example_rumor ''x'')
      [(''a'', [example_rumor ''x'']), (''b'', [example_rumor ''x'', example_rumor ''x''])] = 1"
    by code_simp
  then show ?thesis
    using rumor_hot_until_sent_twice [OF inv, of "''a''" "example_rumor ''x''"
      "[(''a'', [example_rumor ''x'']), (''b'', [example_rumor ''x'', example_rumor ''x''])]"] by simp
qed

text \<open>The rumors offered to a member are different from each other, they are exactly the
  tracked rumors below the limit for this member, and those that were sent more often come first.\<close>

theorem hot_rumors_coldest_first:
  assumes "hm_inv h"
  shows "distinct (currently_hot_rumors mid h) \<and>
    set (currently_hot_rumors mid h) = {rk. \<exists>c. heat_of h rk mid = Some c \<and> c < RUMOR_COOL_DOWN_LIMIT} \<and>
    sorted_wrt (\<lambda>a b. the (heat_of h b mid) \<le> the (heat_of h a mid)) (currently_hot_rumors mid h)"
  using hot_rumors_distinct [OF assms] hot_rumors_iff [OF assms] hot_rumors_sorted [OF assms] by blast

theorem hot_rumors_coldest_first_witness:
  "\<exists>h. hm_inv h \<and> currently_hot_rumors ''a'' h = [example_rumor ''x'', example_rumor ''y''] \<and>
     distinct (currently_hot_rumors ''a'' h)"
proof (intro exI conjI)
  let ?h = "cool_rumors ''a'' [example_rumor ''x'']
    (start_hot_rumor (example_rumor ''x'') (start_hot_rumor (example_rumor ''y'') heat_default))"
  show inv: "hm_inv ?h" by (simp add: heat_default_def)
  show "currently_hot_rumors ''a'' ?h = [example_rumor ''x'', example_rumor ''y'']" by code_simp
  show "distinct (currently_hot_rumors ''a'' ?h)" using hot_rumors_coldest_first [OF inv] by blast
qed

end
