(* ===== verification/Butterfly_Server.thy ===== *)
theory Butterfly_Server
  imports Election Rumor_Heat
begin

text \<open>
  The gossip server, \<open>components/butterfly/src/server/mod.rs\<close>: its state, the insertion of
  every kind of rumor, quorum, and the start and restart of elections. Every method is a function on
  the record \<open>server\<close>. What a server is given once and never changes (the ring key, the
  addresses, the suitability lookup, the data path) is an argument of the definitions that use it;
  tracing and logging are left out. A method runs as one step: the locks of the fields are not
  modelled.
\<close>

section \<open>State\<close>

record server =
  srv_name :: string
  srv_member_id :: string
  srv_member :: member
  srv_member_list :: member_list
  srv_rumor_heat :: rumor_heat
  srv_service_store :: "proto_rumor rumor_store"
  srv_service_config_store :: "proto_rumor rumor_store"
  srv_service_file_store :: "proto_rumor rumor_store"
  srv_election_store :: "proto_rumor rumor_store"
  srv_update_store :: "proto_rumor rumor_store"
  srv_departure_store :: "proto_rumor rumor_store"
  srv_has_socket :: bool
  srv_departed :: bool
  srv_pause :: bool
  srv_swim_rounds :: "64 word"
  srv_gossip_rounds :: "64 word"
  srv_blacklist :: "string set"

datatype 'e server_error = CannotBind 'e | NoAddressDiscovered

text \<open>
  \<open>Server::new\<close>, with the outcome of the two address lookups as arguments: an error, no address,
  or an address, of which the port is kept.
\<close>

definition server_new ::
  "'e + int option \<Rightarrow> 'e + int option \<Rightarrow> member \<Rightarrow> string option \<Rightarrow> 'e server_error + server" where
  "server_new maybe_swim maybe_gossip member name =
     (case (maybe_swim, maybe_gossip) of
        (Inr (Some swim_port), Inr (Some gossip_port)) \<Rightarrow>
          (let member = member\<lparr>mb_swim_port := swim_port, mb_gossip_port := gossip_port\<rparr>
           in Inr \<lparr>srv_name = (case name of Some n \<Rightarrow> n | None \<Rightarrow> mb_id member),
                srv_member_id = mb_id member, srv_member = member, srv_member_list = ml_new,
                srv_rumor_heat = heat_default, srv_service_store = rs_default,
                srv_service_config_store = rs_default, srv_service_file_store = rs_default,
                srv_election_store = rs_default, srv_update_store = rs_default,
                srv_departure_store = rs_default, srv_has_socket = False, srv_departed = False,
                srv_pause = False, srv_swim_rounds = 0, srv_gossip_rounds = 0, srv_blacklist = {}\<rparr>)
      | (Inl e, _) \<Rightarrow> Inl (CannotBind e)
      | (_, Inl e) \<Rightarrow> Inl (CannotBind e)
      | _ \<Rightarrow> Inl NoAddressDiscovered)"

text \<open>The round counters are signed; \<open>checked_add\<close> fails at the largest \<open>isize\<close>.\<close>

definition isize_checked_add1 :: "64 word \<Rightarrow> 64 word option" where
  "isize_checked_add1 n = (if n = 0x7FFFFFFFFFFFFFFF then None else Some (n + 1))"

definition update_swim_round :: "server \<Rightarrow> server" where
  "update_swim_round srv =
     (case isize_checked_add1 (srv_swim_rounds srv) of
        Some _ \<Rightarrow> srv\<lparr>srv_swim_rounds := srv_swim_rounds srv + 1\<rparr>
      | None \<Rightarrow> srv\<lparr>srv_swim_rounds := 0\<rparr>)"

definition update_gossip_round :: "server \<Rightarrow> server" where
  "update_gossip_round srv =
     (case isize_checked_add1 (srv_gossip_rounds srv) of
        Some _ \<Rightarrow> srv\<lparr>srv_gossip_rounds := srv_gossip_rounds srv + 1\<rparr>
      | None \<Rightarrow> srv\<lparr>srv_gossip_rounds := 0\<rparr>)"

definition need_peer_seeding :: "server \<Rightarrow> bool" where
  "need_peer_seeding srv = (ml_members (srv_member_list srv) = [])"

definition add_to_blacklist :: "string \<Rightarrow> server \<Rightarrow> server" where
  "add_to_blacklist member_id srv = srv\<lparr>srv_blacklist := insert member_id (srv_blacklist srv)\<rparr>"

definition remove_from_blacklist :: "string \<Rightarrow> server \<Rightarrow> server" where
  "remove_from_blacklist member_id srv = srv\<lparr>srv_blacklist := srv_blacklist srv - {member_id}\<rparr>"

definition check_blacklist :: "string \<Rightarrow> server \<Rightarrow> bool" where
  "check_blacklist member_id srv = (member_id \<in> srv_blacklist srv)"

definition server_pause :: "server \<Rightarrow> server" where
  "server_pause srv = (if srv_pause srv = False then srv\<lparr>srv_pause := True\<rparr> else srv)"

definition paused :: "server \<Rightarrow> bool" where
  "paused srv = srv_pause srv"

definition is_departed :: "server \<Rightarrow> bool" where
  "is_departed srv = srv_departed srv"

section \<open>Inserting rumors\<close>

definition member_rumor_key :: "string \<Rightarrow> rumor_key" where
  "member_rumor_key member_id = rumor_key_new RT_Member member_id ''''"

definition start_hot :: "rumor_key \<Rightarrow> server \<Rightarrow> server" where
  "start_hot rk srv = srv\<lparr>srv_rumor_heat := start_hot_rumor rk (srv_rumor_heat srv)\<rparr>"

definition insert_member :: "steady_time \<Rightarrow> member \<Rightarrow> health \<Rightarrow> server \<Rightarrow> server option" where
  "insert_member now member health srv =
     do { (ml, changed) \<leftarrow> ml_insert now member health (srv_member_list srv);
          let srv = srv\<lparr>srv_member_list := ml\<rparr>;
          Some (if changed then start_hot (member_rumor_key (mb_id member)) srv else srv) }"

definition insert_health :: "steady_time \<Rightarrow> member \<Rightarrow> health \<Rightarrow> server \<Rightarrow> server" where
  "insert_health now member health srv =
     (let (ml, changed) = ml_insert_health now member health (srv_member_list srv);
          srv = srv\<lparr>srv_member_list := ml\<rparr>
      in if changed then start_hot (member_rumor_key (mb_id member)) srv else srv)"

definition insert_member_from_rumor :: "steady_time \<Rightarrow> member \<Rightarrow> health \<Rightarrow> server \<Rightarrow> server option" where
  "insert_member_from_rumor now member health srv =
     (let refute = (mb_id member = srv_member_id srv \<and> health \<noteq> Alive);
          srv = (if refute then srv\<lparr>srv_member := (srv_member srv)\<lparr>mb_incarnation := mb_incarnation (srv_member srv) + 1\<rparr>\<rparr>
                 else srv);
          health = (if refute then Alive else health);
          incremented_incarnation = refute
      in do { (ml, changed) \<leftarrow> ml_insert now member health (srv_member_list srv);
              let srv = srv\<lparr>srv_member_list := ml\<rparr>;
              Some (if changed \<or> incremented_incarnation
                    then start_hot (member_rumor_key (mb_id member)) srv else srv) })"

definition insert_member_from_rumors :: "steady_time \<Rightarrow> (member \<times> health) list \<Rightarrow> server \<Rightarrow> server option" where
  "insert_member_from_rumors now members srv =
     fold_opt (\<lambda>(member, health). insert_member_from_rumor now member health) members srv"

definition depart_member :: "steady_time \<Rightarrow> string \<Rightarrow> server \<Rightarrow> server" where
  "depart_member now member_id srv =
     (let (ml, changed) = insert_health_by_id now member_id Departed (srv_member_list srv)
      in if changed
         then start_hot (member_rumor_key member_id) (srv\<lparr>srv_member_list := depart_remove member_id ml\<rparr>)
         else srv\<lparr>srv_member_list := ml\<rparr>)"

definition insert_service :: "steady_time \<Rightarrow> proto_rumor \<Rightarrow> server \<Rightarrow> server" where
  "insert_service now service srv =
     (let rk = rumor_key_of service_ops service;
          srv =
            (if \<not> contains_rumor (srv_service_store srv) (rk_key rk) (rk_id rk) then
               let service_entries =
                     filter (\<lambda>s. check_health_of_by_id (sv_member_id (get_service s)) Confirmed (srv_member_list srv))
                       (with_rumors (srv_service_store srv) (rk_key rk));
                   service_entries = sort_key (\<lambda>s. sv_member_id (get_service s)) service_entries
               in fold (\<lambda>s. depart_member now (sv_member_id (get_service s))) (take 1 service_entries) srv
             else srv);
          (store, changed) = rs_insert service_ops service (srv_service_store srv);
          srv = srv\<lparr>srv_service_store := store\<rparr>
      in if changed then start_hot rk srv else srv)"

definition insert_service_config :: "proto_rumor \<Rightarrow> server \<Rightarrow> server" where
  "insert_service_config service_config srv =
     (let rk = rumor_key_of service_config_ops service_config;
          (store, changed) = rs_insert service_config_ops service_config (srv_service_config_store srv);
          srv = srv\<lparr>srv_service_config_store := store\<rparr>
      in if changed then start_hot rk srv else srv)"

definition insert_service_file :: "proto_rumor \<Rightarrow> server \<Rightarrow> server" where
  "insert_service_file service_file srv =
     (let rk = rumor_key_of service_file_ops service_file;
          (store, changed) = rs_insert service_file_ops service_file (srv_service_file_store srv);
          srv = srv\<lparr>srv_service_file_store := store\<rparr>
      in if changed then start_hot rk srv else srv)"

definition insert_departure :: "steady_time \<Rightarrow> proto_rumor \<Rightarrow> server \<Rightarrow> server" where
  "insert_departure now departure srv =
     (let rk = rumor_key_of departure_ops departure;
          member_id = dp_member_id (get_departure departure);
          srv = (if srv_member_id srv = member_id \<and> srv_departed srv = False then srv\<lparr>srv_departed := True\<rparr> else srv);
          srv = depart_member now member_id srv;
          (store, changed) = rs_insert departure_ops departure (srv_departure_store srv);
          srv = srv\<lparr>srv_departure_store := store\<rparr>
      in if changed then start_hot rk srv else srv)"

section \<open>Quorum\<close>

definition get_electorate :: "string \<Rightarrow> server \<Rightarrow> string list" where
  "get_electorate k srv =
     map (\<lambda>s. sv_member_id (get_service s))
       (filter (\<lambda>s. check_health_of_by_id (sv_member_id (get_service s)) Alive (srv_member_list srv))
         (with_rumors (srv_service_store srv) k))"

definition get_total_population :: "string \<Rightarrow> server \<Rightarrow> nat" where
  "get_total_population k srv =
     length (filter (\<lambda>s. check_in_voting_population_by_id (sv_member_id (get_service s)) (srv_member_list srv))
       (with_rumors (srv_service_store srv) k))"

definition check_quorum :: "string \<Rightarrow> server \<Rightarrow> bool" where
  "check_quorum k srv =
     (let electorate = get_electorate k srv;
          total_population = get_total_population k srv;
          alive_population = length electorate
      in if total_population < 3 then False
         else alive_population \<ge> total_population div 2 + 1)"

section \<open>Elections\<close>

text \<open>
  The source has every election method twice, for leaders and for rolling updates, over two stores.
  The kind selects the store, the operations and the constructor.
\<close>

datatype election_kind = LeaderElection | UpdateElection

fun el_ops :: "election_kind \<Rightarrow> proto_rumor rumor_ops" where
  "el_ops LeaderElection = election_ops"
| "el_ops UpdateElection = election_update_ops"

fun el_store :: "election_kind \<Rightarrow> server \<Rightarrow> proto_rumor rumor_store" where
  "el_store LeaderElection srv = srv_election_store srv"
| "el_store UpdateElection srv = srv_update_store srv"

fun set_el_store :: "election_kind \<Rightarrow> proto_rumor rumor_store \<Rightarrow> server \<Rightarrow> server" where
  "set_el_store LeaderElection s srv = srv\<lparr>srv_election_store := s\<rparr>"
| "set_el_store UpdateElection s srv = srv\<lparr>srv_update_store := s\<rparr>"

fun el_new :: "election_kind \<Rightarrow> string \<Rightarrow> string \<Rightarrow> u64 \<Rightarrow> proto_rumor" where
  "el_new LeaderElection = election_new"
| "el_new UpdateElection = election_update_new"

definition start_election_kind :: "election_kind \<Rightarrow> string \<Rightarrow> u64 \<Rightarrow> u64 \<Rightarrow> server \<Rightarrow> server" where
  "start_election_kind kind sg suitability trm srv =
     (let e = el_new kind (srv_member_id srv) sg suitability;
          e = update_election (el_term_update (\<lambda>_. trm)) e;
          ek = rumor_key_of (el_ops kind) e;
          e = (if \<not> check_quorum (r_key (el_ops kind) e) srv then election_no_quorum e else e);
          srv = set_el_store kind (fst (rs_insert (el_ops kind) e (el_store kind srv))) srv
      in start_hot ek srv)"

definition start_election :: "(string \<Rightarrow> u64) \<Rightarrow> string \<Rightarrow> u64 \<Rightarrow> server \<Rightarrow> server" where
  "start_election suitability_lookup sg trm srv =
     start_election_kind LeaderElection sg (suitability_lookup sg) trm srv"

definition start_update_election :: "string \<Rightarrow> u64 \<Rightarrow> u64 \<Rightarrow> server \<Rightarrow> server" where
  "start_update_election sg suitability trm srv =
     start_election_kind UpdateElection sg suitability trm srv"

text \<open>What \<open>with_keys\<close> collects for restart; \<open>None\<close> is the panic on a group without an election.\<close>

definition needs_restart :: "proto_rumor \<Rightarrow> server \<Rightarrow> bool" where
  "needs_restart election srv =
     (if is_finished election \<and> el_member_id (get_election election) = srv_member_id srv
      then check_quorum (el_service_group (get_election election)) srv = False
      else if is_finished election
      then check_health_of_by_id (el_member_id (get_election election)) Confirmed (srv_member_list srv)
      else False)"

definition collect_restart ::
  "server \<Rightarrow> string \<times> (string, proto_rumor) hmap \<Rightarrow> (string \<times> u64) list \<Rightarrow> (string \<times> u64) list option" where
  "collect_restart srv entry acc =
     (case entry of (service_group, rumors) \<Rightarrow>
        if contains_rumor (srv_service_store srv) service_group (srv_member_id srv) then
          (case hm_get rumors ''election'' of
             None \<Rightarrow> None
           | Some election \<Rightarrow>
               Some (if needs_restart election srv
                     then acc @ [(service_group, el_term (get_election election))] else acc))
        else Some acc)"

definition elections_to_restart :: "election_kind \<Rightarrow> server \<Rightarrow> (string \<times> u64) list option" where
  "elections_to_restart kind srv = fold_opt (collect_restart srv) (with_keys (el_store kind srv)) []"

text \<open>The restart loops. The Boolean is false when the loop returned from the whole method.\<close>

fun restart_loop :: "election_kind \<Rightarrow> (string \<Rightarrow> u64) \<Rightarrow> (string \<times> u64) list \<Rightarrow> server \<Rightarrow> server \<times> bool" where
  "restart_loop kind suitability [] srv = (srv, True)"
| "restart_loop kind suitability ((service_group, old_term) # rest) srv =
     (case sg_from_str service_group of
        Inl _ \<Rightarrow> (srv, False)
      | Inr sg \<Rightarrow>
          (let srv = set_el_store kind (rs_remove service_group ''election'' (el_store kind srv)) srv
           in restart_loop kind suitability rest (start_election_kind kind sg (suitability sg) (old_term + 1) srv)))"

definition restart_elections :: "(string \<Rightarrow> u64) \<Rightarrow> server \<Rightarrow> server option" where
  "restart_elections suitability_lookup srv =
     do { to_restart \<leftarrow> elections_to_restart LeaderElection srv;
          update_to_restart \<leftarrow> elections_to_restart UpdateElection srv;
          let (srv, go_on) = restart_loop LeaderElection suitability_lookup to_restart srv;
          Some (if go_on then fst (restart_loop UpdateElection (\<lambda>_. 0) update_to_restart srv) else srv) }"

definition close_election :: "election_kind \<Rightarrow> proto_rumor \<Rightarrow> server \<Rightarrow> proto_rumor" where
  "close_election kind election srv =
     (if srv_member_id srv = el_member_id (get_election election) then
        if check_quorum (r_key (el_ops kind) election) srv then
          let electorate = get_electorate (r_key (el_ops kind) election) srv;
              num_votes = length (filter (\<lambda>vote. vote \<in> set electorate) (el_votes (get_election election)))
          in if num_votes = length electorate then election_finish election else election
        else election_no_quorum election
      else election)"

definition set_quorum_status :: "election_kind \<Rightarrow> proto_rumor \<Rightarrow> server \<Rightarrow> proto_rumor" where
  "set_quorum_status kind election srv =
     (if \<not> is_finished election then
        if check_quorum (r_key (el_ops kind) election) srv then election_running election
        else election_no_quorum election
      else election)"

text \<open>
  The part of \<open>insert_election\<close> before the final store insert. \<open>Inl\<close> is the early return on a
  malformed service group, with the state reached by then.
\<close>

definition join_election ::
  "election_kind \<Rightarrow> (string \<Rightarrow> u64) \<Rightarrow> proto_rumor \<Rightarrow> server \<Rightarrow> server + server \<times> proto_rumor" where
  "join_election kind suitability election srv =
     (let k = r_key (el_ops kind) election; i = r_id (el_ops kind) election;
          sg_string = el_service_group (get_election election); trm = el_term (get_election election)
      in if contains_rumor (el_store kind srv) k i then
           (if trm > el_term (get_election (the (with_rumor (el_store kind srv) k i))) then
              let srv = set_el_store kind (rs_remove k i (el_store kind srv)) srv
              in case sg_from_str sg_string of
                   Inl _ \<Rightarrow> Inl srv
                 | Inr sg \<Rightarrow>
                     (let srv = start_election_kind kind sg (suitability sg) trm srv
                      in Inr (srv, close_election kind election srv))
            else Inr (srv, close_election kind election srv))
         else
           (case sg_from_str sg_string of
              Inl _ \<Rightarrow> Inl srv
            | Inr sg \<Rightarrow> Inr (start_election_kind kind sg (suitability sg) trm srv, election)))"

definition store_election :: "election_kind \<Rightarrow> rumor_key \<Rightarrow> proto_rumor \<Rightarrow> server \<Rightarrow> server" where
  "store_election kind rk election srv =
     (let (store, changed) = rs_insert (el_ops kind) election (el_store kind srv);
          srv = set_el_store kind store srv
      in if changed then start_hot rk srv else srv)"

definition insert_election_kind ::
  "election_kind \<Rightarrow> (string \<Rightarrow> u64) \<Rightarrow> proto_rumor \<Rightarrow> server \<Rightarrow> server" where
  "insert_election_kind kind suitability election srv =
     (let rk = rumor_key_of (el_ops kind) election
      in if contains_rumor (srv_service_store srv) (el_service_group (get_election election)) (srv_member_id srv) then
           (case join_election kind suitability election srv of
              Inl srv \<Rightarrow> srv
            | Inr (srv, election) \<Rightarrow>
                store_election kind rk (set_quorum_status kind election srv) srv)
         else store_election kind rk election srv)"

definition insert_election :: "(string \<Rightarrow> u64) \<Rightarrow> proto_rumor \<Rightarrow> server \<Rightarrow> server" where
  "insert_election suitability_lookup election srv =
     insert_election_kind LeaderElection suitability_lookup election srv"

definition insert_update_election :: "proto_rumor \<Rightarrow> server \<Rightarrow> server" where
  "insert_update_election election srv = insert_election_kind UpdateElection (\<lambda>_. 0) election srv"

section \<open>Well-formed servers\<close>

lemma el_ops_simps [simp]:
  "r_key (el_ops kind) r = el_service_group (get_election r)"
  "r_id (el_ops kind) r = ''election''"
  "r_merge (el_ops kind) = election_merge"
  by (cases kind; simp add: election_ops_def election_update_ops_def)+

lemma el_store_simps [simp]:
  "el_store kind (set_el_store kind s srv) = s"
  "kind' \<noteq> kind \<Longrightarrow> el_store kind' (set_el_store kind s srv) = el_store kind' srv"
  "srv_member_id (set_el_store kind s srv) = srv_member_id srv"
  "srv_member (set_el_store kind s srv) = srv_member srv"
  "srv_member_list (set_el_store kind s srv) = srv_member_list srv"
  "srv_service_store (set_el_store kind s srv) = srv_service_store srv"
  "srv_service_config_store (set_el_store kind s srv) = srv_service_config_store srv"
  "srv_service_file_store (set_el_store kind s srv) = srv_service_file_store srv"
  "srv_departure_store (set_el_store kind s srv) = srv_departure_store srv"
  "srv_rumor_heat (set_el_store kind s srv) = srv_rumor_heat srv"
  "srv_departed (set_el_store kind s srv) = srv_departed srv"
  by (cases kind; cases kind'; simp)+

lemma start_hot_simps [simp]:
  "el_store kind (start_hot rk srv) = el_store kind srv"
  "srv_member_id (start_hot rk srv) = srv_member_id srv"
  "srv_member (start_hot rk srv) = srv_member srv"
  "srv_member_list (start_hot rk srv) = srv_member_list srv"
  "srv_service_store (start_hot rk srv) = srv_service_store srv"
  "srv_service_config_store (start_hot rk srv) = srv_service_config_store srv"
  "srv_service_file_store (start_hot rk srv) = srv_service_file_store srv"
  "srv_departure_store (start_hot rk srv) = srv_departure_store srv"
  "srv_departed (start_hot rk srv) = srv_departed srv"
  by (cases kind; simp add: start_hot_def)+

lemma el_store_update [simp]:
  "el_store kind (srv\<lparr>srv_member_list := ml\<rparr>) = el_store kind srv"
  "el_store kind (srv\<lparr>srv_service_store := s\<rparr>) = el_store kind srv"
  "el_store kind (srv\<lparr>srv_service_config_store := s\<rparr>) = el_store kind srv"
  "el_store kind (srv\<lparr>srv_service_file_store := s\<rparr>) = el_store kind srv"
  "el_store kind (srv\<lparr>srv_departure_store := s\<rparr>) = el_store kind srv"
  "el_store kind (srv\<lparr>srv_member := m\<rparr>) = el_store kind srv"
  "el_store kind (srv\<lparr>srv_departed := d\<rparr>) = el_store kind srv"
  by (cases kind; simp)+

interpretation el: rumor_trait "el_ops kind" for kind
  by unfold_locales (auto simp: election_merge_def steal_votes_def Let_def)

text \<open>
  All components are well formed, and the member record of the server carries its identifier.
\<close>

definition server_inv :: "server \<Rightarrow> bool" where
  "server_inv srv \<longleftrightarrow>
     ml_inv (srv_member_list srv) \<and> hm_inv (srv_rumor_heat srv) \<and>
     rs_inv service_ops (srv_service_store srv) \<and>
     rs_inv service_config_ops (srv_service_config_store srv) \<and>
     rs_inv service_file_ops (srv_service_file_store srv) \<and>
     rs_inv departure_ops (srv_departure_store srv) \<and>
     rs_inv (el_ops LeaderElection) (srv_election_store srv) \<and>
     rs_inv (el_ops UpdateElection) (srv_update_store srv) \<and>
     mb_id (srv_member srv) = srv_member_id srv"

lemma server_inv_iff:
  "server_inv srv \<longleftrightarrow>
     ml_inv (srv_member_list srv) \<and> hm_inv (srv_rumor_heat srv) \<and>
     rs_inv service_ops (srv_service_store srv) \<and>
     rs_inv service_config_ops (srv_service_config_store srv) \<and>
     rs_inv service_file_ops (srv_service_file_store srv) \<and>
     rs_inv departure_ops (srv_departure_store srv) \<and>
     (\<forall>kind. rs_inv (el_ops kind) (el_store kind srv)) \<and>
     mb_id (srv_member srv) = srv_member_id srv"
  unfolding server_inv_def by (metis (full_types) el_store.simps election_kind.exhaust)

lemma server_inv_parts:
  assumes "server_inv srv"
  shows "ml_inv (srv_member_list srv)" "hm_inv (srv_rumor_heat srv)"
    "rs_inv service_ops (srv_service_store srv)" "rs_inv (el_ops kind) (el_store kind srv)"
    "mb_id (srv_member srv) = srv_member_id srv"
  using assms by (simp_all add: server_inv_iff)

named_theorems server_inv_intro \<open>operations that keep servers well formed\<close>

lemma server_inv_new: "server_new a b m n = Inr srv \<Longrightarrow> server_inv srv"
  by (auto simp: server_new_def server_inv_def heat_default_def Let_def split: sum.splits option.splits)

lemma server_inv_start_hot [server_inv_intro]: "server_inv srv \<Longrightarrow> server_inv (start_hot rk srv)"
  by (simp add: server_inv_iff, simp add: start_hot_def)

lemma server_inv_member_list [server_inv_intro]:
  "server_inv srv \<Longrightarrow> ml_inv ml \<Longrightarrow> server_inv (srv\<lparr>srv_member_list := ml\<rparr>)"
  by (simp add: server_inv_iff)

lemma server_inv_el_store [server_inv_intro]:
  "server_inv srv \<Longrightarrow> rs_inv (el_ops kind) s \<Longrightarrow> server_inv (set_el_store kind s srv)"
  by (cases kind) (simp_all add: server_inv_def)

lemma server_inv_refute [server_inv_intro]:
  "server_inv srv \<Longrightarrow> server_inv (srv\<lparr>srv_member := (srv_member srv)\<lparr>mb_incarnation := i\<rparr>\<rparr>)"
  by (simp add: server_inv_iff)

lemma server_inv_round [server_inv_intro]:
  "server_inv srv \<Longrightarrow> server_inv (update_swim_round srv)"
  "server_inv srv \<Longrightarrow> server_inv (update_gossip_round srv)"
  by (simp_all add: server_inv_def update_swim_round_def update_gossip_round_def split: option.split)

lemma insert_member_total:
  assumes "server_inv srv"
  shows "\<exists>srv'. insert_member now m h srv = Some srv' \<and> server_inv srv'"
  by (rule ml_insert_spec [OF server_inv_parts(1) [OF assms], of now m h])
    (auto simp: insert_member_def Let_def intro!: server_inv_intro assms)

lemma server_inv_insert_health [server_inv_intro]:
  assumes "server_inv srv" and "h \<noteq> Suspect \<or> contains_member (mb_id m) (srv_member_list srv)"
  shows "server_inv (insert_health now m h srv)"
  using assms ml_inv_insert_health [OF server_inv_parts(1) [OF assms(1)] assms(2), of now]
  by (auto simp: insert_health_def ml_insert_health_def case_prod_beta Let_def intro!: server_inv_intro)

lemma insert_member_from_rumor_total:
  assumes "server_inv srv"
  shows "\<exists>srv'. insert_member_from_rumor now m h srv = Some srv' \<and> server_inv srv'"
proof -
  let ?refute = "mb_id m = srv_member_id srv \<and> h \<noteq> Alive"
  let ?h = "if ?refute then Alive else h"
  show ?thesis
    by (rule ml_insert_spec [OF server_inv_parts(1) [OF assms], of now m ?h])
      (cases ?refute; auto simp: insert_member_from_rumor_def Let_def intro!: server_inv_intro assms)
qed

lemma insert_member_from_rumors_total:
  assumes "server_inv srv"
  shows "\<exists>srv'. insert_member_from_rumors now ms srv = Some srv' \<and> server_inv srv'"
  unfolding insert_member_from_rumors_def
  by (rule fold_opt_invariant [where P = server_inv])
    (auto simp: assms insert_member_from_rumor_total split: prod.split)

lemma server_inv_depart_member [server_inv_intro]:
  assumes "server_inv srv"
  shows "server_inv (depart_member now mid srv)"
proof -
  have "ml_inv (fst (insert_health_by_id now mid Departed (srv_member_list srv)))"
    using ml_inv_insert_health [OF server_inv_parts(1) [OF assms], of Departed mid now] by simp
  then show ?thesis
    by (auto simp: depart_member_def case_prod_beta Let_def intro!: server_inv_intro ml_inv_intro assms)
qed

lemma server_inv_fold:
  assumes "server_inv srv" and "\<And>x srv. server_inv srv \<Longrightarrow> server_inv (f x srv)"
  shows "server_inv (fold f xs srv)"
  using assms(1) by (induction xs arbitrary: srv) (auto intro: assms(2))

lemma server_inv_insert_service [server_inv_intro]:
  assumes "server_inv srv"
  shows "server_inv (insert_service now r srv)"
proof -
  have store: "server_inv (let (store, changed) = rs_insert service_ops r (srv_service_store t); t' = t\<lparr>srv_service_store := store\<rparr>
      in if changed then start_hot rk t' else t')" if "server_inv t" for t rk
  proof -
    from that have "server_inv (t\<lparr>srv_service_store := fst (rs_insert service_ops r (srv_service_store t))\<rparr>)"
      by (simp add: server_inv_iff service.inv_insert)
    then show ?thesis by (auto simp: case_prod_beta Let_def intro: server_inv_start_hot)
  qed
  show ?thesis
    unfolding insert_service_def Let_def [of "rumor_key_of service_ops r"]
    by (subst Let_def, rule store) (auto simp: Let_def intro!: server_inv_fold server_inv_depart_member assms)
qed

lemma server_inv_stores [server_inv_intro]:
  assumes "server_inv srv"
  shows "server_inv (insert_service_config r srv)" "server_inv (insert_service_file r srv)"
    "server_inv (insert_departure now r srv)"
proof -
  have config: "server_inv (srv\<lparr>srv_service_config_store := fst (rs_insert service_config_ops r (srv_service_config_store srv))\<rparr>)"
    and sfile: "server_inv (srv\<lparr>srv_service_file_store := fst (rs_insert service_file_ops r (srv_service_file_store srv))\<rparr>)"
    using assms by (simp_all add: server_inv_iff service_config.inv_insert service_file.inv_insert)
  have departure: "server_inv (t\<lparr>srv_departure_store := fst (rs_insert departure_ops r (srv_departure_store t))\<rparr>)"
    if "server_inv t" for t
    using that by (simp add: server_inv_iff departure.inv_insert)
  have departed: "server_inv (srv\<lparr>srv_departed := d\<rparr>)" for d using assms by (simp add: server_inv_iff)
  show "server_inv (insert_service_config r srv)"
    using config by (auto simp: insert_service_config_def case_prod_beta Let_def intro: server_inv_start_hot)
  show "server_inv (insert_service_file r srv)"
    using sfile by (auto simp: insert_service_file_def case_prod_beta Let_def intro: server_inv_start_hot)
  show "server_inv (insert_departure now r srv)"
    using departed assms
    by (auto simp: insert_departure_def case_prod_beta Let_def intro!: server_inv_start_hot departure server_inv_depart_member)
qed

lemma server_inv_start_election [server_inv_intro]:
  assumes "server_inv srv"
  shows "server_inv (start_election_kind kind sg suit trm srv)"
  using assms by (auto simp: start_election_kind_def Let_def intro!: server_inv_intro el.inv_insert server_inv_parts(4))

lemma server_inv_remove [server_inv_intro]:
  "server_inv srv \<Longrightarrow> server_inv (set_el_store kind (rs_remove k i (el_store kind srv)) srv)"
  by (auto intro!: server_inv_intro rs_inv_remove server_inv_parts(4))

lemma server_inv_store_election [server_inv_intro]:
  "server_inv srv \<Longrightarrow> server_inv (store_election kind rk e srv)"
  by (auto simp: store_election_def case_prod_beta Let_def intro!: server_inv_intro el.inv_insert server_inv_parts(4))

lemma server_inv_restart_loop:
  "server_inv srv \<Longrightarrow> server_inv (fst (restart_loop kind suit xs srv))"
  by (induction kind suit xs srv rule: restart_loop.induct)
    (auto simp: Let_def split: sum.split intro!: server_inv_intro)

lemma server_inv_restart_elections:
  "server_inv srv \<Longrightarrow> restart_elections suit srv = Some srv' \<Longrightarrow> server_inv srv'"
  by (auto simp: restart_elections_def Let_def case_prod_beta bind_eq_Some_conv
      intro!: server_inv_restart_loop split: if_splits)

lemma server_inv_join_election:
  "server_inv srv \<Longrightarrow> case join_election kind suit e srv of Inl t \<Rightarrow> server_inv t | Inr (t, e') \<Rightarrow> server_inv t"
  by (auto simp: join_election_def Let_def split: sum.split intro!: server_inv_intro)

lemma server_inv_insert_election [server_inv_intro]:
  assumes "server_inv srv"
  shows "server_inv (insert_election_kind kind suit e srv)"
  using server_inv_join_election [OF assms, of kind suit e] assms
  by (auto simp: insert_election_kind_def Let_def split: sum.split intro!: server_inv_intro)

section \<open>Quorum is a majority\<close>

lemma electorate_distinct:
  assumes "server_inv srv"
  shows "distinct (get_electorate k srv)"
proof -
  have "distinct (map (r_id service_ops) (with_rumors (srv_service_store srv) k))"
    by (rule with_rumors_ids_distinct [OF server_inv_parts(3) [OF assms]])
  then have "distinct (map (\<lambda>s. sv_member_id (get_service s)) (with_rumors (srv_service_store srv) k))"
    by (simp add: service_ops_def)
  then show ?thesis unfolding get_electorate_def by (rule distinct_map_filter)
qed

lemma electorate_subset:
  "set (get_electorate k srv) \<subseteq> {i. check_in_voting_population_by_id i (srv_member_list srv)}"
  by (auto simp: get_electorate_def check_health_of_by_id_def split: option.splits)

lemma electorate_le_population: "length (get_electorate k srv) \<le> get_total_population k srv"
proof -
  have "length (filter P xs) \<le> length (filter Q xs)" if "\<And>x. P x \<Longrightarrow> Q x" for P Q :: "proto_rumor \<Rightarrow> bool" and xs
    by (induction xs) (auto dest: that)
  then show ?thesis
    unfolding get_electorate_def get_total_population_def length_map
    by (simp add: check_health_of_by_id_def split: option.splits)
qed

lemma check_quorum_iff:
  "check_quorum k srv \<longleftrightarrow> 3 \<le> get_total_population k srv \<and> get_total_population k srv < 2 * length (get_electorate k srv)"
  by (auto simp: check_quorum_def Let_def)

text \<open>The members of a service group that count towards quorum.\<close>

definition voting_population :: "string \<Rightarrow> server \<Rightarrow> string list" where
  "voting_population k srv =
     map (\<lambda>s. sv_member_id (get_service s))
       (filter (\<lambda>s. check_in_voting_population_by_id (sv_member_id (get_service s)) (srv_member_list srv))
         (with_rumors (srv_service_store srv) k))"

lemma voting_population_distinct:
  assumes "server_inv srv"
  shows "distinct (voting_population k srv)"
proof -
  have "distinct (map (r_id service_ops) (with_rumors (srv_service_store srv) k))"
    by (rule with_rumors_ids_distinct [OF server_inv_parts(3) [OF assms]])
  then have "distinct (map (\<lambda>s. sv_member_id (get_service s)) (with_rumors (srv_service_store srv) k))"
    by (simp add: service_ops_def)
  then show ?thesis unfolding voting_population_def by (rule distinct_map_filter)
qed

lemma electorate_votes: "set (get_electorate k srv) \<subseteq> set (voting_population k srv)"
  by (auto simp: get_electorate_def voting_population_def check_health_of_by_id_def split: option.splits)

text \<open>C4: Two servers that count the same members towards quorum and both have quorum see a common
  member alive: a quorum is more than half of at least three members. So no two disjoint halves of a
  partitioned group can both complete an election.\<close>

theorem quorums_intersect:
  assumes "server_inv srv1" and "server_inv srv2"
    and "set (voting_population k srv1) = set (voting_population k srv2)"
    and "check_quorum k srv1" and "check_quorum k srv2"
  shows "set (get_electorate k srv1) \<inter> set (get_electorate k srv2) \<noteq> {}"
proof
  let ?V = "set (voting_population k srv1)" and ?A = "set (get_electorate k srv1)" and ?B = "set (get_electorate k srv2)"
  assume disjoint: "?A \<inter> ?B = {}"
  have pop: "get_total_population k srv = card (set (voting_population k srv))" if "server_inv srv" for srv
    using distinct_card [OF voting_population_distinct [OF that, of k]]
    by (simp add: get_total_population_def voting_population_def)
  have el: "length (get_electorate k srv) = card (set (get_electorate k srv))" if "server_inv srv" for srv
    using distinct_card [OF electorate_distinct [OF that, of k]] by simp
  have "card ?V < 2 * card ?A" "card ?V < 2 * card ?B"
    using assms pop el by (simp_all add: check_quorum_iff)
  moreover have "card ?A + card ?B \<le> card ?V"
    using disjoint electorate_votes [of k srv1] electorate_votes [of k srv2] assms(3)
    by (metis List.finite_set card_Un_disjoint card_mono Un_least)
  ultimately show False by simp
qed

text \<open>A server with the given services of one group and healths.\<close>

definition example_server :: "string \<Rightarrow> (string \<times> health) list \<Rightarrow> server" where
  "example_server self hs =
     (case server_new (Inr (Some 9638)) (Inr (Some 9638) :: unit + int option) (default_member self) None of
        Inr srv \<Rightarrow>
          srv\<lparr>srv_member_list := ml_new\<lparr>ml_members := map (\<lambda>(i, h). (i, default_member i)) hs, ml_health := hs\<rparr>,
              srv_service_store := rs_default\<lparr>rs_list := [(''foo.bar'', map (\<lambda>(i, h). (i, example_service i 0)) hs)]\<rparr>\<rparr>)"

theorem quorums_intersect_witness:
  "set (get_electorate ''foo.bar'' (example_server ''a'' [(''a'', Alive), (''b'', Alive), (''c'', Confirmed)])) \<inter>
   set (get_electorate ''foo.bar'' (example_server ''b'' [(''a'', Suspect), (''b'', Alive), (''c'', Alive)])) \<noteq> {}"
  by (rule quorums_intersect; code_simp)

section \<open>Closing an election\<close>

lemma start_election_keeps [simp]:
  "srv_member_id (start_election_kind kind sg suit trm srv) = srv_member_id srv"
  "srv_member_list (start_election_kind kind sg suit trm srv) = srv_member_list srv"
  "srv_service_store (start_election_kind kind sg suit trm srv) = srv_service_store srv"
  by (simp_all add: start_election_kind_def Let_def)

lemma quorum_cong:
  assumes "srv_member_list srv = srv_member_list srv'" and "srv_service_store srv = srv_service_store srv'"
  shows "get_electorate k srv = get_electorate k srv'" and "check_quorum k srv = check_quorum k srv'"
  using assms by (simp_all add: check_quorum_def get_electorate_def get_total_population_def)

lemma quorum_start_election [simp]:
  "get_electorate k (start_election_kind kind sg suit trm srv) = get_electorate k srv"
  "check_quorum k (start_election_kind kind sg suit trm srv) = check_quorum k srv"
  by (intro quorum_cong; simp)+

lemma quorum_set_el_store [simp]:
  "get_electorate k (set_el_store kind s srv) = get_electorate k srv"
  "check_quorum k (set_el_store kind s srv) = check_quorum k srv"
  by (intro quorum_cong; simp)+

definition own_election :: "election_kind \<Rightarrow> string \<Rightarrow> u64 \<Rightarrow> u64 \<Rightarrow> server \<Rightarrow> proto_rumor" where
  "own_election kind sg suit trm srv =
     (let e = update_election (el_term_update (\<lambda>_. trm)) (el_new kind (srv_member_id srv) sg suit)
      in if check_quorum sg srv then e else election_no_quorum e)"

lemma own_election_simps [simp]:
  "el_service_group (get_election (own_election kind sg suit trm srv)) = sg"
  "el_member_id (get_election (own_election kind sg suit trm srv)) = srv_member_id srv"
  "el_votes (get_election (own_election kind sg suit trm srv)) = [srv_member_id srv]"
  "el_term (get_election (own_election kind sg suit trm srv)) = trm"
  "el_suitability (get_election (own_election kind sg suit trm srv)) = suit"
  "is_finished (own_election kind sg suit trm srv) \<longleftrightarrow> False"
  by (cases kind; simp add: own_election_def Let_def election_no_quorum_def is_finished_def
      election_new_def election_update_new_def get_election_def update_election_def)+

lemma with_rumor_start_election:
  "with_rumor (el_store kind (start_election_kind kind sg suit trm srv)) k i =
     (if k = sg \<and> i = ''election''
      then Some (case with_rumor (el_store kind srv) k i of
          None \<Rightarrow> own_election kind sg suit trm srv
        | Some e \<Rightarrow> fst (election_merge e (own_election kind sg suit trm srv)))
      else with_rumor (el_store kind srv) k i)"
proof -
  have "el_service_group (get_election (update_election (el_term_update (\<lambda>_. trm)) (el_new kind (srv_member_id srv) sg suit))) = sg"
    by (cases kind) (simp_all add: election_new_def election_update_new_def get_election_def update_election_def)
  then have "el_store kind (start_election_kind kind sg suit trm srv) =
      fst (rs_insert (el_ops kind) (own_election kind sg suit trm srv) (el_store kind srv))"
    by (simp add: start_election_kind_def own_election_def Let_def)
  then show ?thesis by (simp add: el.with_rumor_insert cong: option.case_cong)
qed

lemma with_rumor_store_election:
  "with_rumor (el_store kind (store_election kind rk e srv)) k i =
     (if k = el_service_group (get_election e) \<and> i = ''election''
      then Some (case with_rumor (el_store kind srv) k i of None \<Rightarrow> e | Some e' \<Rightarrow> fst (election_merge e' e))
      else with_rumor (el_store kind srv) k i)"
  by (simp add: store_election_def case_prod_beta Let_def el.with_rumor_insert cong: option.case_cong)

lemma merge_finishes:
  assumes "\<not> is_finished a" and "is_finished (fst (election_merge a b))"
  shows "is_finished b \<and> fst (election_merge a b) = b"
  using assms
  by (auto simp: is_finished_def election_merge_def election_eq_def steal_votes_def Let_def split: if_splits)

lemma status_simps [simp]:
  "is_finished (election_finish e)" "\<not> is_finished (election_running e)" "\<not> is_finished (election_no_quorum e)"
  "el_service_group (get_election (election_finish e)) = el_service_group (get_election e)"
  "el_service_group (get_election (election_running e)) = el_service_group (get_election e)"
  "el_service_group (get_election (election_no_quorum e)) = el_service_group (get_election e)"
  "el_member_id (get_election (election_finish e)) = el_member_id (get_election e)"
  "el_votes (get_election (election_finish e)) = el_votes (get_election e)"
  "el_term (get_election (election_finish e)) = el_term (get_election e)"
  by (simp_all add: is_finished_def election_finish_def election_running_def election_no_quorum_def)

lemma unanimous:
  assumes "distinct votes" and "distinct electorate"
  shows "length (filter (\<lambda>v. v \<in> set electorate) votes) = length electorate \<longleftrightarrow> set electorate \<subseteq> set votes"
proof -
  have "length (filter (\<lambda>v. v \<in> set electorate) votes) = card (set votes \<inter> set electorate)"
    using assms(1) by (simp add: distinct_length_filter Int_commute)
  moreover have "length electorate = card (set electorate)" using assms(2) by (simp add: distinct_card)
  moreover have "card (set votes \<inter> set electorate) = card (set electorate) \<longleftrightarrow> set electorate \<subseteq> set votes"
    by (metis Int_commute Int_lower1 List.finite_set card_subset_eq inf.absorb_iff1)
  ultimately show ?thesis by simp
qed

lemma close_election_finishes:
  assumes "server_inv srv" and "distinct (el_votes (get_election e))" and "\<not> is_finished e"
  shows "is_finished (close_election kind e srv) \<longleftrightarrow>
    srv_member_id srv = el_member_id (get_election e) \<and> check_quorum (el_service_group (get_election e)) srv \<and>
    set (get_electorate (el_service_group (get_election e)) srv) \<subseteq> set (el_votes (get_election e))"
  using assms(3) unanimous [OF assms(2) electorate_distinct [OF assms(1), of "el_service_group (get_election e)"]]
  by (simp add: close_election_def Let_def)

lemma close_election_keeps [simp]:
  "el_service_group (get_election (close_election kind e srv)) = el_service_group (get_election e)"
  "el_member_id (get_election (close_election kind e srv)) = el_member_id (get_election e)"
  "el_votes (get_election (close_election kind e srv)) = el_votes (get_election e)"
  "el_term (get_election (close_election kind e srv)) = el_term (get_election e)"
  by (simp_all add: close_election_def Let_def election_finish_def election_no_quorum_def)

lemma set_quorum_status_keeps [simp]:
  "is_finished (set_quorum_status kind e srv) = is_finished e"
  "el_service_group (get_election (set_quorum_status kind e srv)) = el_service_group (get_election e)"
  "el_member_id (get_election (set_quorum_status kind e srv)) = el_member_id (get_election e)"
  "el_votes (get_election (set_quorum_status kind e srv)) = el_votes (get_election e)"
  "el_term (get_election (set_quorum_status kind e srv)) = el_term (get_election e)"
  by (simp_all add: set_quorum_status_def election_running_def election_no_quorum_def is_finished_def)

lemma join_election_cases:
  assumes "join_election kind suit e srv = Inr (srv', e')"
  shows "(e' = e \<or> e' = close_election kind e srv) \<and>
    get_electorate k srv' = get_electorate k srv \<and> check_quorum k srv' = check_quorum k srv"
proof -
  have close: "close_election kind e t = close_election kind e srv"
    if "srv_member_id t = srv_member_id srv" "\<And>k. get_electorate k t = get_electorate k srv" "\<And>k. check_quorum k t = check_quorum k srv" for t
    using that by (simp add: close_election_def)
  show ?thesis
    using assms
    by (auto simp: join_election_def Let_def split: if_splits sum.splits intro!: close)
qed

lemma join_election_unfinished:
  assumes "join_election kind suit e srv = Inr (srv', e')"
    and "\<And>r. with_rumor (el_store kind srv) (el_service_group (get_election e)) ''election'' = Some r \<Longrightarrow> \<not> is_finished r"
    and "with_rumor (el_store kind srv') (el_service_group (get_election e)) ''election'' = Some r'"
  shows "\<not> is_finished r'"
  using assms
  by (auto simp: join_election_def Let_def with_rumor_start_election with_rumor_remove sg_from_str_iff
      split: if_splits sum.splits option.splits)

lemma merge_into_undecided:
  assumes "\<And>a. stored = Some a \<Longrightarrow> \<not> is_finished a"
    and "r' = (case stored of None \<Rightarrow> e | Some a \<Rightarrow> fst (election_merge a e))" and "is_finished r'"
  shows "r' = e" and "is_finished e"
proof -
  have "r' = e \<and> is_finished e"
  proof (cases stored)
    case None
    with assms(2,3) show ?thesis by simp
  next
    case (Some a)
    with assms(2,3) have "is_finished (fst (election_merge a e))" by simp
    from merge_finishes [OF assms(1) [OF Some] this] assms(2) Some show ?thesis by simp
  qed
  then show "r' = e" "is_finished e" by simp_all
qed

text \<open>C3: A server turns an undecided election into a decided one only when it is itself the
  candidate, its service group has quorum, and every alive member of the group has voted for it.\<close>

theorem election_decided_by_unanimous_quorum:
  assumes "server_inv srv" and "distinct (el_votes (get_election e))" and "\<not> is_finished e"
    and "g = el_service_group (get_election e)"
    and "\<And>r. with_rumor (el_store kind srv) g ''election'' = Some r \<Longrightarrow> \<not> is_finished r"
    and "with_rumor (el_store kind (insert_election_kind kind suit e srv)) g ''election'' = Some r'"
    and "is_finished r'"
  shows "el_member_id (get_election r') = srv_member_id srv \<and> check_quorum g srv \<and>
    set (get_electorate g srv) \<subseteq> set (el_votes (get_election r'))"
proof (cases "contains_rumor (srv_service_store srv) g (srv_member_id srv)")
  case False
  with assms have "r' = (case with_rumor (el_store kind srv) g ''election'' of None \<Rightarrow> e | Some e' \<Rightarrow> fst (election_merge e' e))"
    by (simp add: insert_election_kind_def with_rumor_store_election)
  from merge_into_undecided(2) [OF assms(5) this assms(7)] assms(3) show ?thesis by simp
next
  case True
  show ?thesis
  proof (cases "join_election kind suit e srv")
    case (Inl t)
    with True assms(4,6) have "with_rumor (el_store kind t) g ''election'' = Some r'"
      by (simp add: insert_election_kind_def)
    moreover from Inl assms(4) have "with_rumor (el_store kind t) g ''election'' = None \<or> t = srv"
      by (auto simp: join_election_def Let_def with_rumor_remove split: if_splits sum.splits)
    ultimately show ?thesis using assms(5) [of r'] assms(7) by auto
  next
    case (Inr p)
    then obtain t e' where p: "join_election kind suit e srv = Inr (t, e')" by (cases p) auto
    note e' = join_election_cases [OF p, of g]
    then have group: "el_service_group (get_election e') = g" using assms(4) by auto
    let ?e = "set_quorum_status kind e' t"
    from True p assms(4,6) group
    have r': "r' = (case with_rumor (el_store kind t) g ''election'' of None \<Rightarrow> ?e | Some a \<Rightarrow> fst (election_merge a ?e))"
      by (simp add: insert_election_kind_def with_rumor_store_election)
    have old: "\<not> is_finished a" if "with_rumor (el_store kind t) g ''election'' = Some a" for a
      using join_election_unfinished [OF p _ that [unfolded assms(4)]] assms(4,5) by blast
    from merge_into_undecided [OF old r' assms(7)] have "r' = ?e" "is_finished e'" by simp_all
    with e' assms(3) have "e' = close_election kind e srv" by auto
    with \<open>is_finished e'\<close> \<open>r' = ?e\<close> close_election_finishes [OF assms(1-3), of kind] assms(4) show ?thesis
      by simp
  qed
qed

text \<open>C6: An election that every alive member of a group with quorum has voted for is decided as
  soon as its rumor, of the current term, reaches the candidate.\<close>

theorem unanimous_election_is_decided:
  assumes "server_inv srv" and "distinct (el_votes (get_election e))"
    and "g = el_service_group (get_election e)"
    and "contains_rumor (srv_service_store srv) g (srv_member_id srv)"
    and "with_rumor (el_store kind srv) g ''election'' = Some c"
    and "election_term c = election_term e"
    and "el_member_id (get_election e) = srv_member_id srv" and "check_quorum g srv"
    and "set (get_electorate g srv) \<subseteq> set (el_votes (get_election e))"
  shows "\<exists>r. with_rumor (el_store kind (insert_election_kind kind suit e srv)) g ''election'' = Some r \<and>
    is_finished r \<and> el_member_id (get_election r) = srv_member_id srv \<and> election_term r = election_term e"
proof -
  have join: "join_election kind suit e srv = Inr (srv, close_election kind e srv)"
    using assms(3-6) by (simp add: join_election_def Let_def election_term_def)
  let ?e = "set_quorum_status kind (close_election kind e srv) srv"
  have "close_election kind e srv = election_finish e"
    using unanimous [OF assms(2) electorate_distinct [OF assms(1), of g]] assms(3,7-9)
    by (simp add: close_election_def Let_def)
  then have fin: "?e = election_finish e" by (simp add: set_quorum_status_def)
  have "with_rumor (el_store kind (insert_election_kind kind suit e srv)) g ''election'' = Some (fst (election_merge c (election_finish e)))"
    using assms(3-5) join by (simp add: insert_election_kind_def with_rumor_store_election fin)
  moreover have "fst (election_merge c (election_finish e)) = election_finish e \<or>
      (election_eq c (election_finish e) \<and> fst (election_merge c (election_finish e)) = c)"
    using assms(6) by (auto simp: election_merge_def Let_def election_term_def election_finish_def)
  ultimately show ?thesis
    using assms(6,7) by (auto simp: election_term_def election_eq_def is_finished_def election_finish_def)
qed

definition example_group :: "server" where
  "example_group = (example_server ''a'' [(''a'', Alive), (''b'', Alive), (''c'', Confirmed)])
     \<lparr>srv_election_store := fst (rs_insert election_ops (example_election ''a'' 0 1 Running) rs_default)\<rparr>"

definition example_votes :: "string list \<Rightarrow> proto_rumor" where
  "example_votes vs = update_election (el_votes_update (\<lambda>_. vs)) (example_election ''a'' 0 1 Running)"

theorem election_decided_by_unanimous_quorum_witness:
  "\<exists>r. with_rumor (el_store LeaderElection (insert_election_kind LeaderElection (\<lambda>_. 0) (example_votes [''a'', ''b'']) example_group))
     ''foo.bar'' ''election'' = Some r \<and> is_finished r \<and> el_member_id (get_election r) = ''a'' \<and>
     check_quorum ''foo.bar'' example_group"
proof -
  let ?e = "example_votes [''a'', ''b'']"
  let ?s = "el_store LeaderElection (insert_election_kind LeaderElection (\<lambda>_. 0) ?e example_group)"
  have 1: "server_inv example_group" "distinct (el_votes (get_election ?e))" "\<not> is_finished ?e"
    "''foo.bar'' = el_service_group (get_election ?e)" by code_simp+
  have 2: "with_rumor (el_store LeaderElection example_group) ''foo.bar'' ''election'' = Some (example_election ''a'' 0 1 Running)"
    "\<not> is_finished (example_election ''a'' 0 1 Running)" by code_simp+
  have 3: "with_rumor ?s ''foo.bar'' ''election'' = Some (election_finish ?e)" "is_finished (election_finish ?e)"
    by code_simp+
  have "el_member_id (get_election (election_finish ?e)) = srv_member_id example_group \<and> check_quorum ''foo.bar'' example_group \<and>
    set (get_electorate ''foo.bar'' example_group) \<subseteq> set (el_votes (get_election (election_finish ?e)))"
    by (rule election_decided_by_unanimous_quorum [OF 1 _ 3]) (use 2 in auto)
  moreover have "srv_member_id example_group = ''a''" by code_simp
  ultimately show ?thesis using 3 by metis
qed

theorem unanimous_election_is_decided_witness:
  "\<exists>r. with_rumor (el_store LeaderElection (insert_election_kind LeaderElection (\<lambda>_. 0) (example_votes [''b'', ''a'']) example_group))
     ''foo.bar'' ''election'' = Some r \<and> is_finished r \<and> el_member_id (get_election r) = srv_member_id example_group \<and>
     election_term r = election_term (example_votes [''b'', ''a''])"
  by (rule unanimous_election_is_decided [where c = "example_election ''a'' 0 1 Running"]; code_simp)

end
