(* ===== verification/Server_Facts.thy ===== *)
theory Server_Facts
  imports Butterfly_Server
begin

text \<open>
  What the methods of the gossip server achieve: the restart of elections whose leader is lost, the
  replacement of dead members by new ones of the same service, and the refutation of rumors about
  the server itself.
\<close>

section \<open>Restarting elections\<close>

lemma sg_from_str_id: "sg_from_str g = Inr sg \<Longrightarrow> sg = g"
  by (simp add: sg_from_str_iff)

lemma restart_loop_other_group:
  assumes "g \<notin> fst ` set xs"
  shows "with_rumor (el_store kind (fst (restart_loop kind suit xs srv))) g i = with_rumor (el_store kind srv) g i"
  using assms
proof (induction kind suit xs srv rule: restart_loop.induct)
  case (2 kind suit h old rest srv)
  then show ?case
    by (cases "sg_from_str h")
      (auto simp: Let_def with_rumor_start_election with_rumor_remove dest: sg_from_str_id)
qed simp

lemma restart_loop_keeps [simp]:
  "srv_member_id (fst (restart_loop kind suit xs srv)) = srv_member_id srv"
  "srv_member_list (fst (restart_loop kind suit xs srv)) = srv_member_list srv"
  "srv_service_store (fst (restart_loop kind suit xs srv)) = srv_service_store srv"
  by (induction kind suit xs srv rule: restart_loop.induct) (auto simp: Let_def split: sum.split)

lemma start_election_other_kind:
  "kind' \<noteq> kind \<Longrightarrow> el_store kind' (start_election_kind kind sg suit trm srv) = el_store kind' srv"
  by (simp add: start_election_kind_def Let_def)

lemma restart_loop_other_kind:
  "kind' \<noteq> kind \<Longrightarrow> el_store kind' (fst (restart_loop kind suit xs srv)) = el_store kind' srv"
  by (induction kind suit xs srv rule: restart_loop.induct)
    (auto simp: Let_def start_election_other_kind split: sum.split)

lemma restart_loop_group:
  assumes "distinct (map fst xs)" and "list_all (\<lambda>(g, _). sg_from_str g = Inr g) xs" and "(g, old) \<in> set xs"
  shows "with_rumor (el_store kind (fst (restart_loop kind suit xs srv))) g ''election'' =
      Some (own_election kind g (suit g) (old + 1) srv)"
  using assms
proof (induction kind suit xs srv rule: restart_loop.induct)
  case (2 kind suit h old' rest srv)
  let ?srv1 = "set_el_store kind (rs_remove h ''election'' (el_store kind srv)) srv"
  let ?srv2 = "start_election_kind kind h (suit h) (old' + 1) ?srv1"
  have parse: "sg_from_str h = Inr h" using "2.prems" by simp
  then have step: "restart_loop kind suit ((h, old') # rest) srv = restart_loop kind suit rest ?srv2"
    by (simp add: Let_def)
  have own: "own_election kind g s t ?srv2 = own_election kind g s t srv" for s t
    by (simp add: own_election_def)
  show ?case
  proof (cases "g = h")
    case True
    then have "g \<notin> fst ` set rest" "old' = old" using "2.prems" by force+
    with True show ?thesis
      unfolding step
      by (simp add: restart_loop_other_group with_rumor_start_election with_rumor_remove own_election_def)
  next
    case False
    then have "(g, old) \<in> set rest" using "2.prems" by auto
    then have "with_rumor (el_store kind (fst (restart_loop kind suit rest ?srv2))) g ''election'' =
        Some (own_election kind g (suit g) (old + 1) ?srv2)"
      using "2.IH" [OF parse refl] "2.prems" by simp
    then show ?thesis unfolding step own .
  qed
qed simp

lemma restart_loop_completes:
  "list_all (\<lambda>(g, _). sg_from_str g = Inr g) xs \<Longrightarrow> snd (restart_loop kind suit xs srv)"
  by (induction kind suit xs srv rule: restart_loop.induct) (auto simp: Let_def)

text \<open>What the collection of elections to restart needs: readable groups that hold an election.\<close>

definition elections_ok :: "server \<Rightarrow> bool" where
  "elections_ok srv \<longleftrightarrow>
     list_all (\<lambda>kind. list_all (\<lambda>(g, rumors). sg_from_str g = Inr g \<and> hm_contains rumors ''election'')
       (with_keys (el_store kind srv))) [LeaderElection, UpdateElection]"

lemma elections_ok_store:
  "elections_ok srv \<Longrightarrow> list_all (\<lambda>(g, rumors). sg_from_str g = Inr g \<and> hm_contains rumors ''election'')
     (with_keys (el_store kind srv))"
  by (cases kind) (simp_all add: elections_ok_def)

lemma collect_restart_all:
  assumes "list_all (\<lambda>(g, rumors). hm_contains rumors ''election'') entries"
  shows "fold_opt (collect_restart srv) entries acc =
    Some (acc @ map (\<lambda>(g, rumors). (g, el_term (get_election (the (hm_get rumors ''election'')))))
      (filter (\<lambda>(g, rumors). contains_rumor (srv_service_store srv) g (srv_member_id srv) \<and>
         needs_restart (the (hm_get rumors ''election'')) srv) entries))"
  using assms
proof (induction entries arbitrary: acc)
  case (Cons entry entries)
  obtain g rumors where entry: "entry = (g, rumors)" by (cases entry)
  with Cons.prems obtain e where e: "hm_get rumors ''election'' = Some e" by auto
  from Cons.prems have "list_all (\<lambda>(g, rumors). hm_contains rumors ''election'') entries" by simp
  note IH = Cons.IH [OF this]
  show ?case
    by (cases "contains_rumor (srv_service_store srv) g (srv_member_id srv)"; cases "needs_restart e srv")
      (simp_all add: entry e collect_restart_def [of srv "(g, rumors)"] IH del: contains_rumor_iff)
qed simp

lemma elections_to_restart_eq:
  assumes "elections_ok srv"
  shows "elections_to_restart kind srv =
    Some (map (\<lambda>(g, rumors). (g, el_term (get_election (the (hm_get rumors ''election'')))))
      (filter (\<lambda>(g, rumors). contains_rumor (srv_service_store srv) g (srv_member_id srv) \<and>
         needs_restart (the (hm_get rumors ''election'')) srv) (with_keys (el_store kind srv))))"
proof -
  have "list_all (\<lambda>(g, rumors). hm_contains rumors ''election'') (with_keys (el_store kind srv))"
    using elections_ok_store [OF assms, of kind] by (auto simp: list_all_iff)
  from collect_restart_all [OF this] show ?thesis by (simp add: elections_to_restart_def del: contains_rumor_iff)
qed

lemma elections_to_restart_ok:
  assumes "server_inv srv" and "elections_ok srv"
  obtains xs where "elections_to_restart kind srv = Some xs" "distinct (map fst xs)"
    "list_all (\<lambda>(g, _). sg_from_str g = Inr g) xs"
    "\<And>g old. (g, old) \<in> set xs \<longleftrightarrow> (\<exists>e. with_rumor (el_store kind srv) g ''election'' = Some e \<and>
       old = el_term (get_election e) \<and> contains_rumor (srv_service_store srv) g (srv_member_id srv) \<and> needs_restart e srv)"
proof -
  let ?P = "\<lambda>(g, rumors). contains_rumor (srv_service_store srv) g (srv_member_id srv) \<and>
         needs_restart (the (hm_get rumors ''election'')) srv"
  let ?f = "\<lambda>(g, rumors :: (string, proto_rumor) hmap). (g, el_term (get_election (the (hm_get rumors ''election''))))"
  let ?ks = "with_keys (el_store kind srv)"
  note inv = server_inv_parts(4) [OF assms(1), of kind]
  have hm: "hm_inv ?ks" using inv by (simp add: rs_inv_iff with_keys_def)
  have fst: "map fst (map ?f zs) = map fst zs" for zs by (induction zs) auto
  have "distinct (map fst (map ?f (filter ?P ?ks)))"
    unfolding fst using hm by (intro distinct_map_filter) (simp add: hm_inv_def)
  moreover have "list_all (\<lambda>(g, _). sg_from_str g = Inr g) (map ?f (filter ?P ?ks))"
    using elections_ok_store [OF assms(2), of kind] by (auto simp: list_all_iff)
  moreover have "(g, old) \<in> set (map ?f (filter ?P ?ks)) \<longleftrightarrow> (\<exists>e. with_rumor (el_store kind srv) g ''election'' = Some e \<and>
       old = el_term (get_election e) \<and> contains_rumor (srv_service_store srv) g (srv_member_id srv) \<and> needs_restart e srv)" for g old
  proof -
    have "(g, rumors) \<in> set ?ks \<longleftrightarrow> hm_get (rs_list (el_store kind srv)) g = Some rumors" for rumors
      using hm_mem_iff [OF hm] by (simp add: with_keys_def)
    moreover have "hm_contains rumors ''election''" if "(g, rumors) \<in> set ?ks" for rumors
      using elections_ok_store [OF assms(2), of kind] that by (auto simp: list_all_iff)
    ultimately have entry: "(g, rumors) \<in> set ?ks \<longleftrightarrow> (\<exists>e. hm_get (rs_list (el_store kind srv)) g = Some rumors \<and>
        hm_get rumors ''election'' = Some e)" for rumors
      by auto
    have "(g, old) \<in> set (map ?f (filter ?P ?ks)) \<longleftrightarrow> (\<exists>rumors. (g, rumors) \<in> set ?ks \<and>
        old = el_term (get_election (the (hm_get rumors ''election''))) \<and>
        contains_rumor (srv_service_store srv) g (srv_member_id srv) \<and> needs_restart (the (hm_get rumors ''election'')) srv)"
      by force
    also have "\<dots> \<longleftrightarrow> (\<exists>rumors e. hm_get (rs_list (el_store kind srv)) g = Some rumors \<and> hm_get rumors ''election'' = Some e \<and>
        old = el_term (get_election e) \<and>
        contains_rumor (srv_service_store srv) g (srv_member_id srv) \<and> needs_restart e srv)"
      unfolding entry by (metis option.sel)
    also have "\<dots> \<longleftrightarrow> (\<exists>e. with_rumor (el_store kind srv) g ''election'' = Some e \<and> old = el_term (get_election e) \<and>
        contains_rumor (srv_service_store srv) g (srv_member_id srv) \<and> needs_restart e srv)"
      unfolding with_rumor_def bind_eq_Some_conv by blast
    finally show ?thesis .
  qed
  ultimately show ?thesis using that [OF elections_to_restart_eq [OF assms(2)]] by blast
qed

lemma restart_elections_eq:
  assumes "server_inv srv" and "elections_ok srv"
    and "elections_to_restart LeaderElection srv = Some xs" and "elections_to_restart UpdateElection srv = Some ys"
  shows "restart_elections suit srv =
    Some (fst (restart_loop UpdateElection (\<lambda>_. 0) ys (fst (restart_loop LeaderElection suit xs srv))))"
proof -
  obtain xs' where "elections_to_restart LeaderElection srv = Some xs'" "list_all (\<lambda>(g, _). sg_from_str g = Inr g) xs'"
    by (rule elections_to_restart_ok [OF assms(1,2), of LeaderElection]) blast
  with assms(3) have "list_all (\<lambda>(g, _). sg_from_str g = Inr g) xs" by simp
  from restart_loop_completes [OF this] assms(3,4) show ?thesis
    by (simp add: restart_elections_def Let_def case_prod_beta)
qed


definition example_decided :: "server" where
  "example_decided = (example_server ''a'' [(''a'', Alive), (''b'', Confirmed), (''c'', Alive)])
     \<lparr>srv_election_store := fst (rs_insert election_ops (example_election ''b'' 0 1 Finished) rs_default)\<rparr>"


section \<open>A malformed service group stops the server\<close>

text \<open>
  A new term for an election of a group that does not parse leaves the group without an election;
  the next restart then looks it up and panics. The rumors below can all arrive from the network.
\<close>

definition malformed_service :: "proto_rumor" where
  "malformed_service = \<lparr>pr_type = RT_Service, pr_from_id = ''b'',
     pr_payload = PService (default_service\<lparr>sv_member_id := ''a'', sv_service_group := ''bad''\<rparr>)\<rparr>"

definition malformed_election :: "u64 \<Rightarrow> proto_rumor" where
  "malformed_election trm = update_election (el_term_update (\<lambda>_. trm)) (election_new ''b'' ''bad'' 0)"

text \<open>The claim in the source that the lookup of an election during a restart is safe does not
  hold: after an election, a service and a newer election of a service group that does not
  parse have arrived, \<open>restart_elections\<close> panics.\<close>

theorem restart_panics_on_malformed_group:
  "case server_new (Inr (Some 9638)) (Inr (Some 9638) :: unit + int option) (default_member ''a'') None of
     Inl _ \<Rightarrow> False
   | Inr srv \<Rightarrow>
       restart_elections (\<lambda>_. 0)
         (insert_election (\<lambda>_. 0) (malformed_election 1)
           (insert_service 0 malformed_service
             (insert_election (\<lambda>_. 0) (malformed_election 0) srv))) = None"
  by code_simp

section \<open>New members replace dead ones\<close>

lemma depart_member_health:
  "health_of_by_id k (srv_member_list (depart_member now mid srv)) =
     (if k = mid then Some Departed else health_of_by_id k (srv_member_list srv))"
  by (auto simp: depart_member_def insert_health_by_id_def depart_remove_def health_of_by_id_def
      ml_increment_update_counter_def Let_def)

lemma depart_member_service_store [simp]:
  "srv_service_store (depart_member now mid srv) = srv_service_store srv"
  by (simp add: depart_member_def case_prod_beta Let_def)

definition dead_members :: "string \<Rightarrow> server \<Rightarrow> string list" where
  "dead_members g srv = sort (map (\<lambda>s. sv_member_id (get_service s))
     (filter (\<lambda>s. check_health_of_by_id (sv_member_id (get_service s)) Confirmed (srv_member_list srv))
       (with_rumors (srv_service_store srv) g)))"

lemma dead_members_iff:
  assumes "server_inv srv"
  shows "c \<in> set (dead_members g srv) \<longleftrightarrow>
    contains_rumor (srv_service_store srv) g c \<and> health_of_by_id c (srv_member_list srv) = Some Confirmed"
proof -
  note inv = server_inv_parts(3) [OF assms]
  have "sv_member_id (get_service s) = c" if "with_rumor (srv_service_store srv) g c = Some s" for c s
    using rs_inv_lookup(2) [OF inv that] by (simp add: service_ops_def)
  then show ?thesis
    by (force simp: dead_members_def with_rumors_iff [OF inv] check_health_of_by_id_def health_of_by_id_def
        split: option.splits)
qed

lemma insert_service_member_list:
  "srv_member_list (insert_service now r srv) =
     srv_member_list (if contains_rumor (srv_service_store srv) (sv_service_group (get_service r)) (sv_member_id (get_service r))
       then srv else fold (depart_member now) (take 1 (dead_members (sv_service_group (get_service r)) srv)) srv)"
proof -
  have sorted: "map (\<lambda>s. sv_member_id (get_service s)) (sort_key (\<lambda>s. sv_member_id (get_service s)) xs) =
      sort (map (\<lambda>s. sv_member_id (get_service s)) xs)" for xs
    by (rule properties_for_sort [symmetric]) simp_all
  have "fold (\<lambda>s. depart_member now (sv_member_id (get_service s))) (take (Suc 0) xs) srv =
      fold (depart_member now) (take (Suc 0) (map (\<lambda>s. sv_member_id (get_service s)) xs)) srv" for xs
    by (cases xs) simp_all
  note depart = this [of "sort_key (\<lambda>s. sv_member_id (get_service s)) xs" for xs, unfolded sorted]
  show ?thesis
    by (simp add: insert_service_def rumor_key_of_def rumor_key_new_def service_ops_def case_prod_beta Let_def
        depart dead_members_def [symmetric] del: contains_rumor_iff)
qed

text \<open>When the first rumor of a member for a service arrives and members of this service are
  confirmed dead, the one of them with the smallest identifier is marked as departed and so no longer
  counts towards quorum; no other member's health changes. Later rumors of the same member and
  service change no health.\<close>

theorem new_service_replaces_one_dead_member:
  assumes "server_inv srv" and "g = sv_service_group (get_service r)" and "i = sv_member_id (get_service r)"
  shows "health_of_by_id k (srv_member_list (insert_service now r srv)) =
    (if \<not> contains_rumor (srv_service_store srv) g i \<and> dead_members g srv \<noteq> [] \<and> k = Min (set (dead_members g srv))
     then Some Departed else health_of_by_id k (srv_member_list srv))"
proof (cases "dead_members g srv")
  case Nil
  then show ?thesis using assms(2,3) by (simp add: insert_service_member_list del: contains_rumor_iff)
next
  case (Cons c cs)
  have "sorted (dead_members g srv)" by (simp add: dead_members_def)
  with Cons have "Min (set (dead_members g srv)) = c" by (auto intro!: Min_eqI)
  with Cons show ?thesis
    using assms(2,3)
    by (simp add: insert_service_member_list depart_member_health del: contains_rumor_iff Min_insert)
qed

theorem new_service_replaces_one_dead_member_witness:
  "health_of_by_id ''b'' (srv_member_list (insert_service 0 (example_service ''d'' 0)
     (example_server ''a'' [(''a'', Alive), (''c'', Confirmed), (''b'', Confirmed)]))) = Some Departed \<and>
   health_of_by_id ''c'' (srv_member_list (insert_service 0 (example_service ''d'' 0)
     (example_server ''a'' [(''a'', Alive), (''c'', Confirmed), (''b'', Confirmed)]))) = Some Confirmed"
proof -
  let ?srv = "example_server ''a'' [(''a'', Alive), (''c'', Confirmed), (''b'', Confirmed)]"
  have inv: "server_inv ?srv" by code_simp
  have facts: "dead_members ''foo.bar'' ?srv = [''b'', ''c'']" "\<not> contains_rumor (srv_service_store ?srv) ''foo.bar'' ''d''"
    "health_of_by_id ''c'' (srv_member_list ?srv) = Some Confirmed" by code_simp+
  have args: "''foo.bar'' = sv_service_group (get_service (example_service ''d'' 0))"
    "''d'' = sv_member_id (get_service (example_service ''d'' 0))" by code_simp+
  have "Min (set [''b'', ''c'']) = ''b''" by code_simp
  with new_service_replaces_one_dead_member [OF inv args, of _ 0] facts show ?thesis by (simp del: contains_rumor_iff)
qed

section \<open>Refutation\<close>

lemma insert_member_from_rumor_eq:
  assumes "server_inv srv" and "mb_id m = srv_member_id srv" and "h \<noteq> Alive"
  obtains ml' where
    "insert_member_from_rumor now m h srv =
       Some (start_hot (member_rumor_key (srv_member_id srv))
         (srv\<lparr>srv_member := (srv_member srv)\<lparr>mb_incarnation := mb_incarnation (srv_member srv) + 1\<rparr>, srv_member_list := ml'\<rparr>))"
    "\<And>k. ml_view ml' k = (if k = srv_member_id srv then max (ml_view (srv_member_list srv) k) (Some (mb_incarnation m, Alive))
       else ml_view (srv_member_list srv) k)"
proof -
  obtain ml' where ml': "ml_insert now m Alive (srv_member_list srv) =
      Some (ml', ml_view (srv_member_list srv) (mb_id m) < Some (mb_incarnation m, Alive))"
    "\<And>k. ml_view ml' k = (if k = mb_id m then max (ml_view (srv_member_list srv) k) (Some (mb_incarnation m, Alive))
       else ml_view (srv_member_list srv) k)"
    by (rule ml_insert_spec [OF server_inv_parts(1) [OF assms(1)], of now m Alive]) blast
  show ?thesis
    by (rule that [of ml']) (use assms ml' in \<open>simp_all add: insert_member_from_rumor_def Let_def\<close>)
qed


definition example_suspicious :: member_list where
  "example_suspicious = ml_new\<lparr>ml_members := [(''a'', example_member ''a'' 0)], ml_health := [(''a'', Suspect)]\<rparr>"


end
