(* ===== verification/Expire.thy ===== *)
theory Expire
  imports Server_Facts
begin

text \<open>
  Timing and expiry, \<open>components/butterfly/src/server/timing.rs\<close> and
  \<open>components/butterfly/src/server/expire.rs\<close>: a suspected member whose timer has run out
  becomes confirmed dead, a confirmed member becomes departed after the departure timeout. One
  pass of the loop of \<open>Expire::run\<close> is the function \<open>expire_pass\<close>, which reads the clock
  once per list.
\<close>

section \<open>Timing\<close>

definition PING_TIMING_DEFAULT_MS :: int where "PING_TIMING_DEFAULT_MS = 1000"
definition PINGREQ_TIMING_DEFAULT_MS :: int where "PINGREQ_TIMING_DEFAULT_MS = 2100"
definition SUSPICION_TIMEOUT_DEFAULT_PROTOCOL_PERIODS :: int where
  "SUSPICION_TIMEOUT_DEFAULT_PROTOCOL_PERIODS = 3"
definition GOSSIP_PERIOD_DEFAULT_MS :: int where "GOSSIP_PERIOD_DEFAULT_MS = 1000"
definition DEPARTURE_TIMEOUT_DEFAULT_MS :: int where "DEPARTURE_TIMEOUT_DEFAULT_MS = 259200000"

record timing =
  ping_ms :: int
  pingreq_ms :: int
  gossip_period_ms :: int
  suspicion_timeout_protocol_periods :: int
  departure_timeout_ms :: int

definition default_timing :: timing where
  "default_timing = \<lparr>ping_ms = PING_TIMING_DEFAULT_MS, pingreq_ms = PINGREQ_TIMING_DEFAULT_MS,
     gossip_period_ms = GOSSIP_PERIOD_DEFAULT_MS,
     suspicion_timeout_protocol_periods = SUSPICION_TIMEOUT_DEFAULT_PROTOCOL_PERIODS,
     departure_timeout_ms = DEPARTURE_TIMEOUT_DEFAULT_MS\<rparr>"

definition timing_new :: "int \<Rightarrow> int \<Rightarrow> int \<Rightarrow> int \<Rightarrow> int \<Rightarrow> timing" where
  "timing_new ping pingreq gossip suspicion departure =
     \<lparr>ping_ms = ping, pingreq_ms = pingreq, gossip_period_ms = gossip,
      suspicion_timeout_protocol_periods = suspicion, departure_timeout_ms = departure\<rparr>"

definition gossip_timeout :: "timing \<Rightarrow> steady_time \<Rightarrow> steady_time" where
  "gossip_timeout t now = now + gossip_period_ms t"

definition protocol_period_ms :: "timing \<Rightarrow> int" where
  "protocol_period_ms t = ping_ms t + pingreq_ms t"

definition ping_timeout :: "timing \<Rightarrow> steady_time \<Rightarrow> steady_time" where
  "ping_timeout t now = now + ping_ms t"

definition pingreq_timeout :: "timing \<Rightarrow> steady_time \<Rightarrow> steady_time" where
  "pingreq_timeout t now = now + pingreq_ms t"

definition next_protocol_period :: "timing \<Rightarrow> steady_time \<Rightarrow> steady_time" where
  "next_protocol_period t now = now + (ping_ms t + pingreq_ms t)"

definition suspicion_timeout_duration :: "timing \<Rightarrow> int" where
  "suspicion_timeout_duration t = protocol_period_ms t * suspicion_timeout_protocol_periods t"

definition departure_timeout_duration :: "timing \<Rightarrow> int" where
  "departure_timeout_duration t = departure_timeout_ms t"

section \<open>One pass of the expiry loop\<close>

text \<open>
  The closure on a timer: once it has run out the health is written and the member looked up, and
  \<open>None\<close> is the panic for a timer of an unknown member.
\<close>

definition expire_one ::
  "steady_time \<Rightarrow> int \<Rightarrow> health \<Rightarrow> string \<times> steady_time \<Rightarrow> string list \<times> server \<Rightarrow> (string list \<times> server) option" where
  "expire_one now timeout health timer acc =
     (case (timer, acc) of ((mid, since), (expired, srv)) \<Rightarrow>
        if now \<ge> since + timeout then
          let srv = srv\<lparr>srv_member_list := fst (insert_health_by_id now mid health (srv_member_list srv))\<rparr>
          in (case with_member mid (srv_member_list srv) of
                None \<Rightarrow> None
              | Some _ \<Rightarrow> Some (expired @ [mid], srv))
        else Some (expired, srv))"

definition expire_suspects :: "timing \<Rightarrow> steady_time \<Rightarrow> server \<Rightarrow> server option" where
  "expire_suspects t now srv =
     do { (expired_list, srv) \<leftarrow> fold_opt (expire_one now (suspicion_timeout_duration t) Confirmed)
            (with_suspects (srv_member_list srv)) ([], srv);
          Some (fold (\<lambda>mid srv. start_hot (member_rumor_key mid)
            (srv\<lparr>srv_member_list := ml_depart_at now mid (ml_expire mid (srv_member_list srv))\<rparr>))
            expired_list srv) }"

definition expire_departures :: "timing \<Rightarrow> steady_time \<Rightarrow> server \<Rightarrow> server option" where
  "expire_departures t now srv =
     do { (departed_list, srv) \<leftarrow> fold_opt (expire_one now (departure_timeout_duration t) Departed)
            (with_departures (srv_member_list srv)) ([], srv);
          Some (fold (\<lambda>mid srv. start_hot (member_rumor_key mid)
            (srv\<lparr>srv_member_list := depart_remove mid (srv_member_list srv)\<rparr>))
            departed_list srv) }"

definition expire_pass :: "timing \<Rightarrow> steady_time \<Rightarrow> server \<Rightarrow> server option" where
  "expire_pass t now srv = do { srv \<leftarrow> expire_suspects t now srv; expire_departures t now srv }"

section \<open>Effect of a pass\<close>

definition timed_out :: "steady_time \<Rightarrow> int \<Rightarrow> (string \<times> steady_time) list \<Rightarrow> string list" where
  "timed_out now timeout timers = map fst (filter (\<lambda>(mid, since). now \<ge> since + timeout) timers)"

lemma with_member_insert_health [simp]:
  "with_member k (fst (insert_health_by_id now mid h ml)) = with_member k ml"
  by (simp add: with_member_def insert_health_by_id_def ml_increment_update_counter_def Let_def)

lemma insert_health_timers:
  "h \<noteq> Suspect \<Longrightarrow> ml_suspect (fst (insert_health_by_id now mid h ml)) = ml_suspect ml"
  "ml_depart (fst (insert_health_by_id now mid h ml)) = ml_depart ml"
  "ml_members (fst (insert_health_by_id now mid h ml)) = ml_members ml"
  by (auto simp: insert_health_by_id_def ml_increment_update_counter_def Let_def)

lemma insert_health_view:
  "health_of_by_id k (fst (insert_health_by_id now mid h ml)) = (if k = mid then Some h else health_of_by_id k ml)"
  by (auto simp: health_of_by_id_def insert_health_by_id_def ml_increment_update_counter_def Let_def)

text \<open>All timers of known members: the pass marks exactly those that ran out.\<close>

lemma expire_all:
  assumes "server_inv srv" and "h \<noteq> Suspect" and "\<And>mid. mid \<in> fst ` set timers \<Longrightarrow> with_member mid (srv_member_list srv) \<noteq> None"
  shows "\<exists>srv'. fold_opt (expire_one now timeout h) timers (acc, srv) = Some (acc @ timed_out now timeout timers, srv') \<and>
    server_inv srv' \<and>
    (\<forall>k. health_of_by_id k (srv_member_list srv') =
       (if k \<in> set (timed_out now timeout timers) then Some h else health_of_by_id k (srv_member_list srv))) \<and>
    (\<exists>hl c. srv' = srv\<lparr>srv_member_list := (srv_member_list srv)\<lparr>ml_health := hl, ml_update_counter := c\<rparr>\<rparr>)"
  using assms
proof (induction timers arbitrary: acc srv)
  case Nil
  have "\<exists>hl c. srv = srv\<lparr>srv_member_list := (srv_member_list srv)\<lparr>ml_health := hl, ml_update_counter := c\<rparr>\<rparr>"
    by (rule exI [of _ "ml_health (srv_member_list srv)"], rule exI [of _ "ml_update_counter (srv_member_list srv)"]) simp
  with Nil show ?case by (simp add: timed_out_def)
next
  case (Cons timer timers)
  obtain mid since where timer: "timer = (mid, since)" by (cases timer)
  show ?case
  proof (cases "now \<ge> since + timeout")
    case False
    then have step: "fold_opt (expire_one now timeout h) (timer # timers) (acc, srv) =
        fold_opt (expire_one now timeout h) timers (acc, srv)"
      and out: "timed_out now timeout (timer # timers) = timed_out now timeout timers"
      by (simp_all add: timer expire_one_def timed_out_def)
    show ?thesis unfolding step out by (rule Cons.IH [OF Cons.prems(1,2)]) (rule Cons.prems(3), auto)
  next
    case True
    let ?ml = "fst (insert_health_by_id now mid h (srv_member_list srv))"
    let ?srv = "srv\<lparr>srv_member_list := ?ml\<rparr>"
    have known: "with_member mid (srv_member_list srv) \<noteq> None"
      by (rule Cons.prems(3)) (simp add: timer)
    have step: "fold_opt (expire_one now timeout h) (timer # timers) (acc, srv) =
        fold_opt (expire_one now timeout h) timers (acc @ [mid], ?srv)"
      using True known by (auto simp: timer expire_one_def Let_def)
    have out: "timed_out now timeout (timer # timers) = mid # timed_out now timeout timers"
      using True by (simp add: timer timed_out_def)
    have inv: "server_inv ?srv"
      using Cons.prems(1,2) by (intro server_inv_intro ml_inv_intro server_inv_parts(1)) auto
    have rest: "with_member k (srv_member_list ?srv) \<noteq> None" if "k \<in> fst ` set timers" for k
      using Cons.prems(3) [of k] that by simp
    obtain srv' hl c where srv': "fold_opt (expire_one now timeout h) timers (acc @ [mid], ?srv) =
        Some ((acc @ [mid]) @ timed_out now timeout timers, srv')" "server_inv srv'"
      "\<And>k. health_of_by_id k (srv_member_list srv') =
         (if k \<in> set (timed_out now timeout timers) then Some h else health_of_by_id k ?ml)"
      "srv' = ?srv\<lparr>srv_member_list := ?ml\<lparr>ml_health := hl, ml_update_counter := c\<rparr>\<rparr>"
      using Cons.IH [where acc = "acc @ [mid]", OF inv Cons.prems(2) rest] by auto
    have "?ml\<lparr>ml_health := hl, ml_update_counter := c\<rparr> = (srv_member_list srv)\<lparr>ml_health := hl, ml_update_counter := c\<rparr>"
      using Cons.prems(2) by (simp add: insert_health_by_id_def ml_increment_update_counter_def Let_def)
    with srv'(4) have "srv' = srv\<lparr>srv_member_list := (srv_member_list srv)\<lparr>ml_health := hl, ml_update_counter := c\<rparr>\<rparr>"
      by simp
    moreover have "\<forall>k. health_of_by_id k (srv_member_list srv') = (if k \<in> set (timed_out now timeout (timer # timers))
        then Some h else health_of_by_id k (srv_member_list srv))"
      by (simp only: srv'(3) out insert_health_view list.set insert_iff) auto
    moreover have "fold_opt (expire_one now timeout h) (timer # timers) (acc, srv) =
        Some (acc @ timed_out now timeout (timer # timers), srv')"
      unfolding step srv'(1) out by simp
    ultimately show ?thesis using srv'(2) by blast
  qed
qed

definition finish_expiry :: "steady_time \<Rightarrow> string list \<Rightarrow> server \<Rightarrow> server" where
  "finish_expiry now mids srv = fold (\<lambda>mid srv. start_hot (member_rumor_key mid)
     (srv\<lparr>srv_member_list := ml_depart_at now mid (ml_expire mid (srv_member_list srv))\<rparr>)) mids srv"

lemma finish_expiry_member_list:
  "srv_member_list (finish_expiry now mids srv) = (srv_member_list srv)
     \<lparr>ml_suspect := fold hm_remove mids (ml_suspect (srv_member_list srv)),
      ml_depart := fold (\<lambda>k. hm_insert k now) mids (ml_depart (srv_member_list srv))\<rparr>"
  unfolding finish_expiry_def
  by (induction mids arbitrary: srv) (simp_all add: ml_expire_def ml_depart_at_def)

lemma finish_expiry_heat:
  "srv_rumor_heat (finish_expiry now mids srv) =
     fold start_hot_rumor (map member_rumor_key mids) (srv_rumor_heat srv)"
  unfolding finish_expiry_def by (induction mids arbitrary: srv) (simp_all add: start_hot_def)

lemma finish_expiry_inv:
  assumes "server_inv srv" and "\<And>mid. mid \<in> set mids \<Longrightarrow> contains_member mid (srv_member_list srv)"
  shows "server_inv (finish_expiry now mids srv)"
  using assms unfolding finish_expiry_def
proof (induction mids arbitrary: srv)
  case (Cons mid mids)
  have "server_inv (start_hot (member_rumor_key mid)
     (srv\<lparr>srv_member_list := ml_depart_at now mid (ml_expire mid (srv_member_list srv))\<rparr>))"
    using Cons.prems
    by (intro server_inv_intro ml_inv_intro server_inv_parts(1)) (auto simp: contains_member_def ml_expire_def)
  with Cons show ?case by (simp add: contains_member_def ml_depart_at_def ml_expire_def)
qed simp

lemma heat_of_fold_start:
  "heat_of (fold start_hot_rumor rks h) rk mid = (if rk \<in> set rks then Some 0 else heat_of h rk mid)"
  by (induction rks arbitrary: h) (auto simp: heat_of_start)

lemma timed_out_iff:
  "hm_inv timers \<Longrightarrow> mid \<in> set (timed_out now timeout timers) \<longleftrightarrow>
     (\<exists>since. hm_get timers mid = Some since \<and> since + timeout \<le> now)"
  by (force simp: timed_out_def hm_mem_iff [symmetric])

lemma expire_suspects_eq:
  fixes t :: timing and now :: steady_time
  assumes "server_inv srv"
  defines "late \<equiv> timed_out now (suspicion_timeout_duration t) (ml_suspect (srv_member_list srv))"
  obtains srv' where "expire_suspects t now srv = Some (finish_expiry now late srv')" "server_inv srv'"
    "server_inv (finish_expiry now late srv')"
    "\<And>k. health_of_by_id k (srv_member_list srv') =
       (if k \<in> set late then Some Confirmed else health_of_by_id k (srv_member_list srv))"
    "\<exists>hl c. srv' = srv\<lparr>srv_member_list := (srv_member_list srv)\<lparr>ml_health := hl, ml_update_counter := c\<rparr>\<rparr>"
proof -
  note inv = server_inv_parts(1) [OF assms(1)]
  have known: "with_member mid (srv_member_list srv) \<noteq> None" if "mid \<in> fst ` set (ml_suspect (srv_member_list srv))" for mid
    using inv that by (auto simp: ml_inv_def list_all_iff with_member_def)
  obtain srv' where srv': "fold_opt (expire_one now (suspicion_timeout_duration t) Confirmed)
      (ml_suspect (srv_member_list srv)) ([], srv) = Some (late, srv')" "server_inv srv'"
    "\<And>k. health_of_by_id k (srv_member_list srv') =
       (if k \<in> set late then Some Confirmed else health_of_by_id k (srv_member_list srv))"
    "\<exists>hl c. srv' = srv\<lparr>srv_member_list := (srv_member_list srv)\<lparr>ml_health := hl, ml_update_counter := c\<rparr>\<rparr>"
    using expire_all [where h = Confirmed and now = now and timeout = "suspicion_timeout_duration t" and acc = "[]" and timers = "ml_suspect (srv_member_list srv)", OF assms(1) _ known]
    unfolding late_def by auto
  have "contains_member mid (srv_member_list srv')" if "mid \<in> set late" for mid
  proof -
    from that have "mid \<in> fst ` set (ml_suspect (srv_member_list srv))" by (auto simp: late_def timed_out_def)
    from known [OF this] srv'(4) show ?thesis by (auto simp: contains_member_def with_member_def)
  qed
  from that [OF _ srv'(2) finish_expiry_inv [OF srv'(2) this] srv'(3,4)] srv'(1) show ?thesis
    by (simp add: expire_suspects_def with_suspects_def finish_expiry_def)
qed

lemma expire_departures_total:
  assumes "server_inv srv"
  shows "\<exists>srv'. expire_departures t now srv = Some srv' \<and> server_inv srv'"
proof -
  note inv = server_inv_parts(1) [OF assms]
  have known: "with_member mid (srv_member_list srv) \<noteq> None" if "mid \<in> fst ` set (ml_depart (srv_member_list srv))" for mid
    using inv that by (auto simp: ml_inv_def list_all_iff with_member_def)
  obtain late srv' where srv': "fold_opt (expire_one now (departure_timeout_duration t) Departed)
      (ml_depart (srv_member_list srv)) ([], srv) = Some (late, srv')" "server_inv srv'"
    using expire_all [where h = Departed and now = now and timeout = "departure_timeout_duration t" and acc = "[]" and timers = "ml_depart (srv_member_list srv)", OF assms _ known] by auto
  have "server_inv (fold (\<lambda>mid srv. start_hot (member_rumor_key mid)
            (srv\<lparr>srv_member_list := depart_remove mid (srv_member_list srv)\<rparr>)) late srv')"
    by (rule server_inv_fold [OF srv'(2)]) (intro server_inv_intro ml_inv_intro server_inv_parts(1))
  with srv'(1) show ?thesis by (simp add: expire_departures_def with_departures_def)
qed

lemma expire_suspects_effect:
  assumes "server_inv srv"
  shows "\<exists>srv'. expire_suspects t now srv = Some srv' \<and>
    (\<forall>k. let late = (\<exists>since. hm_get (ml_suspect (srv_member_list srv)) k = Some since \<and>
                      since + suspicion_timeout_duration t \<le> now)
         in health_of_by_id k (srv_member_list srv') =
              (if late then Some Confirmed else health_of_by_id k (srv_member_list srv)) \<and>
            hm_get (ml_suspect (srv_member_list srv')) k =
              (if late then None else hm_get (ml_suspect (srv_member_list srv)) k) \<and>
            (late \<longrightarrow> hm_get (ml_depart (srv_member_list srv')) k = Some now \<and>
               member_rumor_key k \<in> set (currently_hot_rumors peer (srv_rumor_heat srv'))))"
proof -
  let ?late = "timed_out now (suspicion_timeout_duration t) (ml_suspect (srv_member_list srv))"
  obtain srv1 hl c where srv1: "expire_suspects t now srv = Some (finish_expiry now ?late srv1)"
    "server_inv (finish_expiry now ?late srv1)"
    "\<And>k. health_of_by_id k (srv_member_list srv1) =
       (if k \<in> set ?late then Some Confirmed else health_of_by_id k (srv_member_list srv))"
    "srv1 = srv\<lparr>srv_member_list := (srv_member_list srv)\<lparr>ml_health := hl, ml_update_counter := c\<rparr>\<rparr>"
    by (rule expire_suspects_eq [OF assms, where t = t and now = now]) blast
  have hm: "hm_inv (ml_suspect (srv_member_list srv))"
    using server_inv_parts(1) [OF assms] by (simp add: ml_inv_iff)
  note late = timed_out_iff [OF hm, of _ now "suspicion_timeout_duration t"]
  have "health_of_by_id k (srv_member_list (finish_expiry now ?late srv1)) = health_of_by_id k (srv_member_list srv1)" for k
    by (simp add: finish_expiry_member_list health_of_by_id_def)
  moreover have "hm_get (ml_suspect (srv_member_list (finish_expiry now ?late srv1))) k =
      (if k \<in> set ?late then None else hm_get (ml_suspect (srv_member_list srv)) k)" for k
    by (simp add: finish_expiry_member_list srv1(4) hm.get_fold_rem [OF hm])
  moreover have "hm_get (ml_depart (srv_member_list (finish_expiry now ?late srv1))) k = Some now" if "k \<in> set ?late" for k
    using that by (simp add: finish_expiry_member_list hm.get_fold_ins_const)
  moreover have "member_rumor_key k \<in> set (currently_hot_rumors peer (srv_rumor_heat (finish_expiry now ?late srv1)))"
    if "k \<in> set ?late" for k
    using that hot_rumors_iff [OF server_inv_parts(2) [OF srv1(2)]]
    by (simp add: finish_expiry_heat heat_of_fold_start RUMOR_COOL_DOWN_LIMIT_def)
  ultimately show ?thesis
    by (intro exI [of _ "finish_expiry now ?late srv1"])
      (simp add: srv1(1,3) Let_def late [symmetric] del: if_split_asm)
qed

section \<open>Properties\<close>

text \<open>The expiry pass never panics, whatever timers are running, and keeps the server well formed.\<close>

theorem expire_pass_never_panics:
  assumes "server_inv srv"
  shows "\<exists>srv'. expire_pass t now srv = Some srv' \<and> server_inv srv'"
proof -
  obtain srv1 where "expire_suspects t now srv = Some srv1" "server_inv srv1"
    by (rule expire_suspects_eq [OF assms, where t = t and now = now]) blast
  with expire_departures_total [of srv1 t now] show ?thesis by (simp add: expire_pass_def)
qed

definition example_expiry :: "server" where
  "example_expiry = (let srv = example_server ''a'' [(''b'', Suspect), (''c'', Suspect)]
     in srv\<lparr>srv_member_list := (srv_member_list srv)\<lparr>ml_suspect := [(''b'', 0), (''c'', 9000)]\<rparr>\<rparr>)"

theorem expire_pass_never_panics_witness:
  "server_inv example_expiry \<and> (\<exists>srv'. expire_pass default_timing 10000 example_expiry = Some srv')"
proof -
  have "server_inv example_expiry" by code_simp
  with expire_pass_never_panics [OF this, of default_timing 10000] show ?thesis by blast
qed

text \<open>C32: Suspicion times out. A pass confirms the death of exactly those suspected members whose timer
  is at least the suspicion timeout old; their suspicion timers end, their departure timers start,
  and their membership is gossiped anew. The health of every other member and its suspicion
  timer stay as they are.\<close>

theorem suspects_are_confirmed_on_timeout:
  assumes "server_inv srv"
  shows "\<exists>srv'. expire_suspects t now srv = Some srv' \<and>
    (\<forall>k. let late = (\<exists>since. hm_get (ml_suspect (srv_member_list srv)) k = Some since \<and>
                      since + suspicion_timeout_duration t \<le> now)
         in health_of_by_id k (srv_member_list srv') =
              (if late then Some Confirmed else health_of_by_id k (srv_member_list srv)) \<and>
            hm_get (ml_suspect (srv_member_list srv')) k =
              (if late then None else hm_get (ml_suspect (srv_member_list srv)) k) \<and>
            (late \<longrightarrow> hm_get (ml_depart (srv_member_list srv')) k = Some now \<and>
               member_rumor_key k \<in> set (currently_hot_rumors peer (srv_rumor_heat srv'))))"
  by (rule expire_suspects_effect [OF assms])

theorem suspects_are_confirmed_on_timeout_witness:
  "\<exists>srv'. expire_suspects default_timing 10000 example_expiry = Some srv' \<and>
     health_of_by_id ''b'' (srv_member_list srv') = Some Confirmed \<and>
     hm_get (ml_depart (srv_member_list srv')) ''b'' = Some 10000"
proof -
  have inv: "server_inv example_expiry" by code_simp
  have late: "hm_get (ml_suspect (srv_member_list example_expiry)) ''b'' = Some 0"
    "0 + suspicion_timeout_duration default_timing \<le> 10000" by code_simp+
  then have "\<exists>since. hm_get (ml_suspect (srv_member_list example_expiry)) ''b'' = Some since \<and>
      since + suspicion_timeout_duration default_timing \<le> 10000" by blast
  with suspects_are_confirmed_on_timeout [OF inv, of default_timing 10000 "''c''"] show ?thesis
    unfolding Let_def by metis
qed

text \<open>C40: A member that recovers is still expired. The rumor with a higher incarnation that makes a suspected
  member alive again leaves its suspicion timer running, so the pass after the timeout
  confirms the death of the member although it is alive.\<close>

theorem recovered_member_is_still_expired:
  assumes "server_inv srv" and "hm_get (ml_suspect (srv_member_list srv)) (mb_id m) = Some since"
    and "with_member (mb_id m) (srv_member_list srv) = Some old" and "mb_incarnation old < mb_incarnation m"
    and "insert_member now m Alive srv = Some srv1"
    and "since + suspicion_timeout_duration t \<le> now'" and "expire_suspects t now' srv1 = Some srv2"
  shows "health_of_by_id (mb_id m) (srv_member_list srv1) = Some Alive \<and>
    health_of_by_id (mb_id m) (srv_member_list srv2) = Some Confirmed"
proof -
  have fl: "insert_decision m Alive (srv_member_list srv) = Some (no_flags\<lparr>share_rumor := True\<rparr>)"
    using assms(3,4) by (simp add: insert_decision_def with_member_def no_flags_def)
  have srv1: "srv_member_list srv1 = apply_insert now m Alive (no_flags\<lparr>share_rumor := True\<rparr>) (srv_member_list srv)"
    using assms(5) by (auto simp: insert_member_def ml_insert_def fl Let_def no_flags_def)
  have alive: "health_of_by_id (mb_id m) (srv_member_list srv1) = Some Alive"
    and timer: "hm_get (ml_suspect (srv_member_list srv1)) (mb_id m) = Some since"
    using assms(2) by (simp_all add: srv1 apply_insert_def no_flags_def health_of_by_id_def ml_increment_update_counter_def Let_def)
  obtain srv1' where "insert_member now m Alive srv = Some srv1'" "server_inv srv1'"
    using insert_member_total [OF assms(1)] by blast
  with assms(5) have "server_inv srv1" by simp
  from expire_suspects_effect [OF this, of t now'] timer assms(6,7)
  have "health_of_by_id (mb_id m) (srv_member_list srv2) = Some Confirmed"
    unfolding Let_def by (metis option.inject)
  with alive show ?thesis by blast
qed

theorem recovered_member_is_still_expired_witness:
  "\<exists>srv1 srv2. insert_member 1000 (example_member ''b'' 1) Alive example_expiry = Some srv1 \<and>
     expire_suspects default_timing 10000 srv1 = Some srv2 \<and>
     health_of_by_id ''b'' (srv_member_list srv1) = Some Alive \<and>
     health_of_by_id ''b'' (srv_member_list srv2) = Some Confirmed"
proof -
  have inv: "server_inv example_expiry" by code_simp
  obtain srv1 where srv1: "insert_member 1000 (example_member ''b'' 1) Alive example_expiry = Some srv1" "server_inv srv1"
    using insert_member_total [OF inv] by blast
  obtain srv2 where srv2: "expire_suspects default_timing 10000 srv1 = Some srv2"
    using expire_suspects_effect [OF srv1(2)] by blast
  have facts: "hm_get (ml_suspect (srv_member_list example_expiry)) (mb_id (example_member ''b'' 1)) = Some 0"
    "with_member (mb_id (example_member ''b'' 1)) (srv_member_list example_expiry) = Some (default_member ''b'')"
    "mb_incarnation (default_member ''b'') < mb_incarnation (example_member ''b'' 1)"
    "0 + suspicion_timeout_duration default_timing \<le> 10000" "mb_id (example_member ''b'' 1) = ''b''" by code_simp+
  from recovered_member_is_still_expired [OF inv facts(1-3) srv1(1) facts(4) srv2] srv1(1) srv2 facts(5)
  show ?thesis by auto
qed

text \<open>A departure is undone by a running suspicion timer: when a departure rumor for a suspected member
  arrives, the member is marked as departed, but the pass after the suspicion timeout sets it
  back to confirmed, so that it counts towards quorum again.\<close>

theorem departure_is_undone_by_expiry:
  assumes "server_inv srv" and "mid = dp_member_id (get_departure d)"
    and "hm_get (ml_suspect (srv_member_list srv)) mid = Some since"
    and "since + suspicion_timeout_duration t \<le> now'"
    and "expire_suspects t now' (insert_departure now d srv) = Some srv2"
  shows "health_of_by_id mid (srv_member_list (insert_departure now d srv)) = Some Departed \<and>
    health_of_by_id mid (srv_member_list srv2) = Some Confirmed"
proof -
  let ?srv1 = "insert_departure now d srv"
  have "srv_member_list ?srv1 = srv_member_list (depart_member now mid (srv\<lparr>srv_departed := b\<rparr>))" for b
    using assms(2) by (simp add: insert_departure_def case_prod_beta Let_def depart_member_def)
  note ml = this [of "srv_departed srv"]
  have departed: "health_of_by_id mid (srv_member_list ?srv1) = Some Departed"
    by (simp add: ml depart_member_health)
  have timer: "hm_get (ml_suspect (srv_member_list ?srv1)) mid = Some since"
    using assms(3) insert_health_timers(1) [of Departed now mid "srv_member_list srv"]
    by (simp add: ml depart_member_def case_prod_beta Let_def depart_remove_def)
  from expire_suspects_effect [OF server_inv_stores(3) [OF assms(1), of now d], of t now'] timer assms(4,5)
  have "health_of_by_id mid (srv_member_list srv2) = Some Confirmed"
    unfolding Let_def by (metis option.inject)
  with departed show ?thesis by blast
qed

theorem departure_is_undone_by_expiry_witness:
  "\<exists>srv2. expire_suspects default_timing 10000 (insert_departure 1000 (departure_new ''b'') example_expiry) = Some srv2 \<and>
     health_of_by_id ''b'' (srv_member_list (insert_departure 1000 (departure_new ''b'') example_expiry)) = Some Departed \<and>
     health_of_by_id ''b'' (srv_member_list srv2) = Some Confirmed"
proof -
  have inv: "server_inv example_expiry" by code_simp
  have facts: "''b'' = dp_member_id (get_departure (departure_new ''b''))"
    "hm_get (ml_suspect (srv_member_list example_expiry)) ''b'' = Some 0"
    "0 + suspicion_timeout_duration default_timing \<le> 10000" by code_simp+
  obtain srv2 where "expire_suspects default_timing 10000 (insert_departure 1000 (departure_new ''b'') example_expiry) = Some srv2"
    using expire_suspects_effect [OF server_inv_stores(3) [OF inv]] by blast
  with departure_is_undone_by_expiry [OF inv facts this] show ?thesis by blast
qed

end
