(* ===== verification/Swim.thy ===== *)
theory Swim
  imports Expire
begin

text \<open>
  The SWIM messages of \<open>components/butterfly/src/message/swim.rs\<close>, the wire format of
  \<open>components/butterfly/src/message/mod.rs\<close>, and the sending side of the failure detector,
  \<open>components/butterfly/src/server/outbound.rs\<close>. A function that sends returns the packets it
  hands to the socket; a packet may be lost, so encoding and socket errors, which only drop it, are
  not told apart from loss. The parser of socket addresses, the shuffle and the clock are
  arguments.
\<close>

section \<open>Messages\<close>

text \<open>\<open>Ping\<close> and \<open>Ack\<close> have the same fields; an unset \<open>from\<close> reads as the default member.\<close>

record probe_msg =
  pm_from :: member
  pm_forward_to :: "member option"

record pingreq_msg =
  pq_from :: member
  pq_target :: member

datatype swim_payload = SwPing probe_msg | SwAck probe_msg | SwPingReq pingreq_msg | SwUnset

datatype swim_type = PING | ACK | PINGREQ

record swim =
  sw_type :: swim_type
  sw_payload :: swim_payload
  sw_membership :: "membership list"

definition default_probe_msg :: probe_msg where
  "default_probe_msg = \<lparr>pm_from = default_member '''', pm_forward_to = None\<rparr>"

definition default_pingreq_msg :: pingreq_msg where
  "default_pingreq_msg = \<lparr>pq_from = default_member '''', pq_target = default_member ''''\<rparr>"

definition get_ping :: "swim \<Rightarrow> probe_msg" where
  "get_ping s = (case sw_payload s of SwPing p \<Rightarrow> p | _ \<Rightarrow> default_probe_msg)"

definition get_ack :: "swim \<Rightarrow> probe_msg" where
  "get_ack s = (case sw_payload s of SwAck p \<Rightarrow> p | _ \<Rightarrow> default_probe_msg)"

definition get_pingreq :: "swim \<Rightarrow> pingreq_msg" where
  "get_pingreq s = (case sw_payload s of SwPingReq p \<Rightarrow> p | _ \<Rightarrow> default_pingreq_msg)"

text \<open>A socket address: the text of its IP address, and its port.\<close>

type_synonym sock_addr = "string \<times> int"
type_synonym packet = "sock_addr \<times> swim"
type_synonym addr_parser = "string \<Rightarrow> int \<Rightarrow> sock_addr option"

section \<open>The wire\<close>

record wire =
  wr_encrypted :: bool
  wr_nonce :: bytes
  wr_payload :: bytes

definition default_wire :: wire where
  "default_wire = \<lparr>wr_encrypted = False, wr_nonce = [], wr_payload = []\<rparr>"

text \<open>The encoding of the message and the cryptography of the ring key are arguments.\<close>

definition generate_wire ::
  "(wire \<Rightarrow> 'e + bytes) \<Rightarrow> ('key \<Rightarrow> bytes \<Rightarrow> 'e + bytes \<times> bytes) \<Rightarrow> bytes \<Rightarrow> 'key option \<Rightarrow> 'e + bytes" where
  "generate_wire write_to_bytes encrypt payload ring_key =
     (case ring_key of
        Some key \<Rightarrow>
          (case encrypt key payload of
             Inl e \<Rightarrow> Inl e
           | Inr (nonce, encrypted_payload) \<Rightarrow>
               write_to_bytes (default_wire\<lparr>wr_encrypted := True, wr_nonce := nonce, wr_payload := encrypted_payload\<rparr>))
      | None \<Rightarrow> write_to_bytes (default_wire\<lparr>wr_payload := payload\<rparr>))"

definition unwrap_wire ::
  "(bytes \<Rightarrow> 'e + wire) \<Rightarrow> ('key \<Rightarrow> bytes \<Rightarrow> bytes \<Rightarrow> 'e + bytes) \<Rightarrow> bytes \<Rightarrow> 'key option \<Rightarrow> 'e + bytes" where
  "unwrap_wire parse_from_bytes decrypt payload ring_key =
     (case parse_from_bytes payload of
        Inl e \<Rightarrow> Inl e
      | Inr w \<Rightarrow>
          (case ring_key of
             Some key \<Rightarrow> decrypt key (wr_nonce w) (wr_payload w)
           | None \<Rightarrow> Inr (wr_payload w)))"

section \<open>Sending\<close>

definition membership_rumors :: "member \<Rightarrow> server \<Rightarrow> rumor_key list" where
  "membership_rumors target srv =
     take 5 (filter (\<lambda>r. rk_kind r = RT_Member) (currently_hot_rumors (mb_id target) (srv_rumor_heat srv)))"

definition populate_membership_rumors :: "member \<Rightarrow> swim \<Rightarrow> server \<Rightarrow> swim \<times> server" where
  "populate_membership_rumors target swim srv =
     (let ml = srv_member_list srv;
          membership_entries =
            (if contains_member (mb_id target) ml
             then (case membership_for (mb_id target) ml of Some always_target \<Rightarrow> [always_target] | None \<Rightarrow> [])
             else []);
          rumors = membership_rumors target srv;
          membership_entries = membership_entries @
            List.map_filter (\<lambda>rkey. membership_for (rumor_key_key rkey) ml) rumors;
          srv = (if \<not> persistent_and_confirmed target ml
                 then srv\<lparr>srv_rumor_heat := cool_rumors (mb_id target) rumors (srv_rumor_heat srv)\<rparr> else srv)
      in (swim\<lparr>sw_membership := membership_entries\<rparr>, srv))"

text \<open>\<open>pingreq\<close> resolves the address of the relay first; \<open>None\<close> is the panic when it does not parse.\<close>

definition pingreq :: "addr_parser \<Rightarrow> member \<Rightarrow> member \<Rightarrow> server \<Rightarrow> (server \<times> packet) option" where
  "pingreq parse_addr pingreq_target target srv =
     do { addr \<leftarrow> swim_socket_address parse_addr pingreq_target;
          let swim = \<lparr>sw_type = PINGREQ,
            sw_payload = SwPingReq \<lparr>pq_from = srv_member srv, pq_target = target\<rparr>, sw_membership = []\<rparr>;
          let (swim, srv) = populate_membership_rumors target swim srv;
          Some (srv, (addr, swim)) }"

definition ping :: "member \<Rightarrow> sock_addr \<Rightarrow> member option \<Rightarrow> server \<Rightarrow> server \<times> packet" where
  "ping target addr forward_to srv =
     (let swim = \<lparr>sw_type = PING,
            sw_payload = SwPing \<lparr>pm_from = srv_member srv, pm_forward_to = forward_to\<rparr>, sw_membership = []\<rparr>;
          (swim, srv) = populate_membership_rumors target swim srv
      in (srv, (addr, swim)))"

definition forward_ack :: "sock_addr \<Rightarrow> swim \<Rightarrow> server \<Rightarrow> server \<times> packet" where
  "forward_ack addr swim srv = (srv, (addr, swim))"

definition send_ack :: "member \<Rightarrow> sock_addr \<Rightarrow> member option \<Rightarrow> server \<Rightarrow> server \<times> packet" where
  "send_ack target addr forward_to srv =
     (let swim = \<lparr>sw_type = ACK,
            sw_payload = SwAck \<lparr>pm_from = srv_member srv, pm_forward_to = forward_to\<rparr>, sw_membership = []\<rparr>;
          (swim, srv) = populate_membership_rumors target swim srv
      in (srv, (addr, swim)))"

section \<open>Probing\<close>

text \<open>What the loop of \<open>recv_ack\<close> sees on the channel, with the clock reading used then.\<close>

datatype recv_event = AckReceived steady_time sock_addr swim | QueueEmpty steady_time | Disconnected

datatype ack_from = FromPing | FromPingReq

definition ack_deadline :: "timing \<Rightarrow> ack_from \<Rightarrow> steady_time \<Rightarrow> steady_time" where
  "ack_deadline t from now = (case from of FromPing \<Rightarrow> ping_timeout t now | FromPingReq \<Rightarrow> pingreq_timeout t now)"

definition insert_acker :: "steady_time \<Rightarrow> sock_addr \<Rightarrow> swim \<Rightarrow> server \<Rightarrow> (server \<times> string) option" where
  "insert_acker now real_addr swim srv =
     (let ack_from = pm_from (get_ack swim);
          ack_from = (if pm_forward_to (get_ack swim) = None then ack_from\<lparr>mb_address := fst real_addr\<rparr> else ack_from);
          is_departed = mb_departed ack_from
      in do { srv \<leftarrow> insert_member now ack_from (if is_departed then Departed else Alive) srv;
              Some (srv, mb_id ack_from) })"

text \<open>
  The loop over the events that occur. Its outcome is \<open>Some True\<close> when the expected ack came,
  \<open>Some False\<close> on a timeout, and \<open>None\<close> while it still waits; a disconnected channel panics.
\<close>

fun recv_ack ::
  "member \<Rightarrow> steady_time \<Rightarrow> recv_event list \<Rightarrow> server \<Rightarrow> (server \<times> bool option \<times> recv_event list) option" where
  "recv_ack member timeout [] srv = Some (srv, None, [])"
| "recv_ack member timeout (AckReceived now real_addr swim # events) srv =
     do { (srv, acker) \<leftarrow> insert_acker now real_addr swim srv;
          if mb_id member \<noteq> acker then recv_ack member timeout events srv
          else Some (srv, Some True, events) }"
| "recv_ack member timeout (QueueEmpty now # events) srv =
     (if now > timeout then Some (srv, Some False, events)
      else recv_ack member timeout events srv)"
| "recv_ack member timeout (Disconnected # events) srv = None"

text \<open>
  \<open>probe\<close>, with the clock readings at the start of the two waits and at the end, and the events of
  the channel. The outcome is \<open>None\<close> while it waits, and else whether an ack came.
\<close>

record probe_input =
  pb_ping_sent :: steady_time
  pb_pingreq_sent :: steady_time
  pb_finished :: steady_time
  pb_events :: "recv_event list"

fun pingreq_all :: "addr_parser \<Rightarrow> member list \<Rightarrow> member \<Rightarrow> server \<Rightarrow> (server \<times> packet list) option" where
  "pingreq_all parse_addr [] target srv = Some (srv, [])"
| "pingreq_all parse_addr (m # ms) target srv =
     do { (srv, p) \<leftarrow> pingreq parse_addr m target srv;
          (srv, ps) \<leftarrow> pingreq_all parse_addr ms target srv;
          Some (srv, p # ps) }"

definition probe ::
  "addr_parser \<Rightarrow> (member list \<Rightarrow> member list) \<Rightarrow> timing \<Rightarrow> probe_input \<Rightarrow> member \<Rightarrow> server \<Rightarrow>
   (server \<times> packet list \<times> bool option) option" where
  "probe parse_addr shuffle t inp member srv =
     do { addr \<leftarrow> swim_socket_address parse_addr member;
          let (srv, p) = ping member addr None srv;
          (srv, result, events) \<leftarrow> recv_ack member (ack_deadline t FromPing (pb_ping_sent inp)) (pb_events inp) srv;
          case result of
            None \<Rightarrow> Some (srv, [p], None)
          | Some True \<Rightarrow> Some (srv, [p], Some True)
          | Some False \<Rightarrow>
              do { (srv, ps) \<leftarrow> pingreq_all parse_addr
                     (pingreq_targets shuffle (srv_member_id srv) (mb_id member) (srv_member_list srv)) member srv;
                   (srv, result, events) \<leftarrow>
                     recv_ack member (ack_deadline t FromPingReq (pb_pingreq_sent inp)) events srv;
                   case result of
                     None \<Rightarrow> Some (srv, p # ps, None)
                   | Some True \<Rightarrow> Some (srv, p # ps, Some True)
                   | Some False \<Rightarrow>
                       do { srv \<leftarrow> insert_member (pb_finished inp) member Suspect srv;
                            Some (srv, p # ps, Some False) } } }"

text \<open>
  The loop of \<open>Outbound::run\<close>, one round: contacting the initial members until more than half of
  their number is known, the round counter, and the probes of the members to check.
\<close>

definition ping_initial :: "addr_parser \<Rightarrow> member \<Rightarrow> server \<times> packet list \<Rightarrow> (server \<times> packet list) option" where
  "ping_initial parse_addr member acc =
     (case acc of (srv, sent) \<Rightarrow>
        do { addr \<leftarrow> swim_socket_address parse_addr member;
             let (srv, p) = ping member addr None srv;
             Some (srv, sent @ [p]) })"

definition seed_initial :: "addr_parser \<Rightarrow> bool \<Rightarrow> server \<Rightarrow> (bool \<times> server \<times> packet list) option" where
  "seed_initial parse_addr have_members srv =
     (let num_initial = len_initial_members (srv_member_list srv)
      in if \<not> have_members \<and> num_initial \<noteq> 0 then
           if ml_len (srv_member_list srv) \<ge> num_initial div 2 + 1 then Some (True, srv, [])
           else do { (srv, sent) \<leftarrow> fold_opt (ping_initial parse_addr) (ml_initial_members (srv_member_list srv)) (srv, []);
                     Some (False, srv, sent) }
         else Some (have_members, srv, []))"

fun probe_all ::
  "addr_parser \<Rightarrow> (member list \<Rightarrow> member list) \<Rightarrow> timing \<Rightarrow> (string \<Rightarrow> probe_input) \<Rightarrow> member list \<Rightarrow> server \<Rightarrow>
   (server \<times> packet list) option" where
  "probe_all parse_addr shuffle t inp [] srv = Some (srv, [])"
| "probe_all parse_addr shuffle t inp (m # ms) srv =
     (if pingable m (srv_member_list srv) then
        do { (srv, ps, result) \<leftarrow> probe parse_addr shuffle t (inp (mb_id m)) m srv;
             if result = None then Some (srv, ps)
             else do { (srv, qs) \<leftarrow> probe_all parse_addr shuffle t inp ms srv; Some (srv, ps @ qs) } }
      else probe_all parse_addr shuffle t inp ms srv)"

definition outbound_round ::
  "addr_parser \<Rightarrow> (member list \<Rightarrow> member list) \<Rightarrow> timing \<Rightarrow> (string \<Rightarrow> probe_input) \<Rightarrow> bool \<Rightarrow> server \<Rightarrow>
   (bool \<times> server \<times> packet list) option" where
  "outbound_round parse_addr shuffle t inp have_members srv =
     do { (have_members, srv, seeds) \<leftarrow> seed_initial parse_addr have_members srv;
          if srv_pause srv then Some (have_members, srv, seeds)
          else
            do { let srv = update_swim_round srv;
                 (srv, sent) \<leftarrow> probe_all parse_addr shuffle t inp
                   (check_list shuffle (mb_id (srv_member srv)) (srv_member_list srv)) srv;
                 Some (have_members, srv, seeds @ sent) } }"

text \<open>\<open>Server::set_departed\<close>: the server leaves the ring and tells up to ten members.\<close>

definition ack_to :: "addr_parser \<Rightarrow> member \<Rightarrow> server \<times> packet list \<Rightarrow> (server \<times> packet list) option" where
  "ack_to parse_addr member acc =
     (case acc of (srv, sent) \<Rightarrow>
        do { addr \<leftarrow> swim_socket_address parse_addr member;
             let (srv, p) = send_ack member addr None srv;
             Some (srv, sent @ [p]) })"

definition set_departed ::
  "addr_parser \<Rightarrow> (member list \<Rightarrow> member list) \<Rightarrow> steady_time \<Rightarrow> server \<Rightarrow> (server \<times> packet list) option" where
  "set_departed parse_addr shuffle now srv =
     (if srv_has_socket srv then
        let me = (srv_member srv)\<lparr>mb_incarnation := mb_incarnation (srv_member srv) + 1, mb_departed := True\<rparr>;
            srv = srv\<lparr>srv_member := me\<rparr>;
            srv = srv\<lparr>srv_member_list := fst (insert_health_by_id now (mb_id me) Departed (srv_member_list srv))\<rparr>
        in fold_opt (ack_to parse_addr) (take 10 (check_list shuffle (mb_id me) (srv_member_list srv))) (srv, [])
      else Some (srv, []))"

end
