(* ===== verification/Inbound.thy ===== *)
theory Inbound
  imports Swim
begin

text \<open>
  The receiving threads of the gossip server and the gossip sender:
  \<open>components/butterfly/src/server/inbound.rs\<close> for SWIM messages, \<open>pull.rs\<close> and
  \<open>push.rs\<close> for rumors. A handler takes the decoded message and returns the new server, the
  packets it sends, and what it hands to the outbound thread. The sockets and the decoding of
  the bytes are arguments or left out.
\<close>

section \<open>SWIM messages\<close>

record handled =
  hd_server :: server
  hd_packets :: "packet list"
  hd_to_outbound :: "(sock_addr \<times> swim) list"

definition handled_only :: "server \<Rightarrow> handled" where
  "handled_only srv = \<lparr>hd_server = srv, hd_packets = [], hd_to_outbound = []\<rparr>"

definition memberships :: "swim \<Rightarrow> (member \<times> health) list" where
  "memberships msg = map (\<lambda>m. (ms_member m, health_from_proto (ms_health m))) (sw_membership msg)"

definition process_pingreq :: "addr_parser \<Rightarrow> sock_addr \<Rightarrow> swim \<Rightarrow> server \<Rightarrow> handled option" where
  "process_pingreq parse_addr addr msg srv =
     (case with_member (mb_id (pq_target (get_pingreq msg))) (srv_member_list srv) of
        None \<Rightarrow> Some (handled_only srv)
      | Some target \<Rightarrow>
          (let from = (pq_from (get_pingreq msg))\<lparr>mb_address := fst addr\<rparr>
           in do { target_addr \<leftarrow> swim_socket_address parse_addr target;
                   let (srv, p) = ping target target_addr (Some from) srv;
                   Some ((handled_only srv)\<lparr>hd_packets := [p]\<rparr>) }))"

definition process_ack :: "addr_parser \<Rightarrow> steady_time \<Rightarrow> sock_addr \<Rightarrow> swim \<Rightarrow> server \<Rightarrow> handled option" where
  "process_ack parse_addr now addr msg srv =
     (case pm_forward_to (get_ack msg) of
        Some forward_to \<Rightarrow>
          if srv_member_id srv \<noteq> mb_id forward_to then
            (case parse_addr (mb_address forward_to) (mb_swim_port forward_to) of
               None \<Rightarrow> Some (handled_only srv)
             | Some forward_to_addr \<Rightarrow>
                 (let a = get_ack msg;
                      msg = msg\<lparr>sw_payload := SwAck (a\<lparr>pm_from := (pm_from a)\<lparr>mb_address := fst addr\<rparr>\<rparr>)\<rparr>;
                      (srv, p) = forward_ack forward_to_addr msg srv
                  in Some ((handled_only srv)\<lparr>hd_packets := [p]\<rparr>)))
          else
            do { srv \<leftarrow> insert_member_from_rumors now (memberships msg) srv;
                 Some ((handled_only srv)\<lparr>hd_to_outbound := [(addr, msg\<lparr>sw_membership := []\<rparr>)]\<rparr>) }
      | None \<Rightarrow>
          do { srv \<leftarrow> insert_member_from_rumors now (memberships msg) srv;
               Some ((handled_only srv)\<lparr>hd_to_outbound := [(addr, msg\<lparr>sw_membership := []\<rparr>)]\<rparr>) })"

definition process_ping :: "steady_time \<Rightarrow> sock_addr \<Rightarrow> swim \<Rightarrow> server \<Rightarrow> handled option" where
  "process_ping now addr msg srv =
     (let target = pm_from (get_ping msg);
          (srv, p) = send_ack target addr (pm_forward_to (get_ping msg)) srv;
          from = target\<lparr>mb_address := fst addr\<rparr>
      in do { srv \<leftarrow> insert_member now from (if mb_departed from then Departed else Alive) srv;
              srv \<leftarrow> insert_member_from_rumors now (memberships msg) srv;
              Some ((handled_only srv)\<lparr>hd_packets := [p]\<rparr>) })"

text \<open>One message in the loop of \<open>Inbound::run\<close>; an undecodable message is an \<open>Inl\<close>.\<close>

definition inbound_step ::
  "addr_parser \<Rightarrow> steady_time \<Rightarrow> sock_addr \<Rightarrow> 'e + swim \<Rightarrow> server \<Rightarrow> handled option" where
  "inbound_step parse_addr now addr received srv =
     (if srv_pause srv then Some (handled_only srv)
      else
        case received of
          Inl _ \<Rightarrow> Some (handled_only srv)
        | Inr msg \<Rightarrow>
            (case sw_type msg of
               PING \<Rightarrow>
                 if check_blacklist (mb_id (pm_from (get_ping msg))) srv then Some (handled_only srv)
                 else process_ping now addr msg srv
             | ACK \<Rightarrow>
                 if check_blacklist (mb_id (pm_from (get_ack msg))) srv \<and> pm_forward_to (get_ack msg) = None
                 then Some (handled_only srv)
                 else process_ack parse_addr now addr msg srv
             | PINGREQ \<Rightarrow>
                 if check_blacklist (mb_id (pq_from (get_pingreq msg))) srv then Some (handled_only srv)
                 else process_pingreq parse_addr addr msg srv))"

section \<open>Receiving rumors\<close>

text \<open>One message in the loop of \<open>Pull::run\<close>.\<close>

definition pull_step ::
  "(string \<Rightarrow> u64) \<Rightarrow> steady_time \<Rightarrow> 'e + proto_rumor \<Rightarrow> server \<Rightarrow> server option" where
  "pull_step suitability_lookup now received srv =
     (if srv_pause srv then Some srv
      else
        case received of
          Inl _ \<Rightarrow> Some srv
        | Inr proto \<Rightarrow>
            if check_blacklist (pr_from_id proto) srv then Some srv
            else
              (case pr_type proto of
                 RT_Member \<Rightarrow>
                   insert_member_from_rumor now (ms_member (get_member proto))
                     (health_from_proto (ms_health (get_member proto))) srv
               | RT_Service \<Rightarrow> Some (insert_service now proto srv)
               | RT_ServiceConfig \<Rightarrow> Some (insert_service_config proto srv)
               | RT_ServiceFile \<Rightarrow> Some (insert_service_file proto srv)
               | RT_Election \<Rightarrow> Some (insert_election suitability_lookup proto srv)
               | RT_ElectionUpdate \<Rightarrow> Some (insert_update_election (election_update_from proto) srv)
               | RT_Departure \<Rightarrow> Some (insert_departure now proto srv)
               | RT_Fake \<Rightarrow> Some srv
               | RT_Fake2 \<Rightarrow> Some srv))"

section \<open>Sending rumors\<close>

text \<open>\<open>create_member_rumor\<close>: the outer option is the panic of \<open>unwrap\<close> on a member without health.\<close>

definition create_member_rumor :: "rumor_key \<Rightarrow> server \<Rightarrow> proto_rumor option option" where
  "create_member_rumor rk srv =
     (case with_member (rumor_key_key rk) (srv_member_list srv) of
        None \<Rightarrow> Some None
      | Some m \<Rightarrow>
          do { h \<leftarrow> health_of_by_id (rumor_key_key rk) (srv_member_list srv);
               Some (Some \<lparr>pr_type = RT_Member, pr_from_id = srv_member_id srv,
                 pr_payload = PMember \<lparr>ms_member = m, ms_health = proto_from_health h\<rparr>\<rparr>) })"

definition stored_rumor :: "proto_rumor rumor_store \<Rightarrow> rumor_key \<Rightarrow> proto_rumor option" where
  "stored_rumor store rk =
     (case rs_write_to_bytes Inr store (rk_key rk) (rk_id rk) of Inr r \<Rightarrow> Some r | Inl _ \<Rightarrow> None)"

text \<open>The rumor sent for a key; \<open>Some None\<close> is the \<open>continue\<close> for a rumor that is gone.\<close>

definition rumor_for_key :: "rumor_key \<Rightarrow> server \<Rightarrow> proto_rumor option option" where
  "rumor_for_key rk srv =
     (case rk_kind rk of
        RT_Member \<Rightarrow> create_member_rumor rk srv
      | RT_Service \<Rightarrow> Some (stored_rumor (srv_service_store srv) rk)
      | RT_ServiceConfig \<Rightarrow> Some (stored_rumor (srv_service_config_store srv) rk)
      | RT_ServiceFile \<Rightarrow> Some (stored_rumor (srv_service_file_store srv) rk)
      | RT_Departure \<Rightarrow> Some (stored_rumor (srv_departure_store srv) rk)
      | RT_Election \<Rightarrow> Some (stored_rumor (srv_election_store srv) rk)
      | RT_ElectionUpdate \<Rightarrow> Some (stored_rumor (srv_update_store srv) rk)
      | RT_Fake \<Rightarrow> Some None
      | RT_Fake2 \<Rightarrow> Some None)"

fun rumors_for_keys :: "rumor_key list \<Rightarrow> server \<Rightarrow> proto_rumor list option" where
  "rumors_for_keys [] srv = Some []"
| "rumors_for_keys (rk # rks) srv =
     do { r \<leftarrow> rumor_for_key rk srv;
          rs \<leftarrow> rumors_for_keys rks srv;
          Some (case r of Some r \<Rightarrow> r # rs | None \<Rightarrow> rs) }"

text \<open>
  \<open>send_rumors\<close>: the rumors handed to the socket. When the socket cannot connect nothing is sent and
  nothing cools.
\<close>

definition send_rumors :: "bool \<Rightarrow> member \<Rightarrow> rumor_key list \<Rightarrow> server \<Rightarrow> (server \<times> proto_rumor list) option" where
  "send_rumors connected member rumors srv =
     (if connected then
        do { sent \<leftarrow> rumors_for_keys rumors srv;
             Some (srv\<lparr>srv_rumor_heat := cool_rumors (mb_id member) rumors (srv_rumor_heat srv)\<rparr>, sent) }
      else Some (srv, []))"

definition push_to :: "bool \<Rightarrow> member \<Rightarrow> server \<Rightarrow> (server \<times> proto_rumor list) option" where
  "push_to connected member srv =
     (if check_blacklist (mb_id member) srv then Some (srv, [])
      else if pingable member (srv_member_list srv) \<and> \<not> persistent_and_confirmed member (srv_member_list srv) then
        let rumors = currently_hot_rumors (mb_id member) (srv_rumor_heat srv)
        in if length rumors > 0 then send_rumors connected member rumors srv else Some (srv, [])
      else Some (srv, []))"

definition FANOUT :: nat where
  "FANOUT = 5"

text \<open>
  The members of a gossip round are drained in chunks. The workers of a chunk run in parallel, but
  each touches only the heat of its own member, so their order does not matter.
\<close>

fun push_chunk ::
  "(string \<Rightarrow> bool) \<Rightarrow> member list \<Rightarrow> server \<Rightarrow> (server \<times> (string \<times> proto_rumor list) list) option" where
  "push_chunk connected [] srv = Some (srv, [])"
| "push_chunk connected (m # ms) srv =
     do { (srv, sent) \<leftarrow> push_to (connected (mb_id m)) m srv;
          (srv, rest) \<leftarrow> push_chunk connected ms srv;
          Some (srv, (mb_id m, sent) # rest) }"

function push_fanout ::
  "(string \<Rightarrow> bool) \<Rightarrow> member list \<Rightarrow> server \<Rightarrow> (server \<times> (string \<times> proto_rumor list) list) option" where
  "push_fanout connected members srv =
     (if length members = 0 then Some (srv, [])
      else
        let drain_length = (if length members \<ge> FANOUT then FANOUT else length members)
        in do { (srv, sent) \<leftarrow> push_chunk connected (take drain_length members) srv;
                (srv, rest) \<leftarrow> push_fanout connected (drop drain_length members) srv;
                Some (srv, sent @ rest) })"
  by pat_completeness auto
termination
  by (relation "measure (\<lambda>(_, ms, _). length ms)") (auto simp: FANOUT_def)

definition push_round ::
  "(string \<Rightarrow> bool) \<Rightarrow> (member list \<Rightarrow> member list) \<Rightarrow> server \<Rightarrow> (server \<times> (string \<times> proto_rumor list) list) option" where
  "push_round connected shuffle srv =
     (if srv_pause srv then Some (srv, [])
      else
        let srv = update_gossip_round srv
        in push_fanout connected (check_list shuffle (srv_member_id srv) (srv_member_list srv)) srv)"

end
