(* ===== verification/Ring.thy ===== *)
theory Ring
  imports Inbound
begin

text \<open>
  The gossip server as a state machine: one step is one pass of one of its threads or one call of
  its interface. The invariants hold in every state that can be reached from a new server,
  whatever messages arrive, in whatever order the threads run.
\<close>

section \<open>Sending keeps servers well formed\<close>

lemma server_inv_heat:
  "server_inv srv \<Longrightarrow> server_inv (srv\<lparr>srv_rumor_heat := cool_rumors mid rks (srv_rumor_heat srv)\<rparr>)"
  by (simp add: server_inv_def)

lemma populate_heat_only:
  "\<exists>h. snd (populate_membership_rumors target swim srv) = srv\<lparr>srv_rumor_heat := h\<rparr> \<and> (hm_inv (srv_rumor_heat srv) \<longrightarrow> hm_inv h)"
  by (cases "persistent_and_confirmed target (srv_member_list srv)")
    (auto simp: populate_membership_rumors_def Let_def intro: exI [of _ "srv_rumor_heat srv"])

text \<open>What sending may change: the heat of the rumors.\<close>

definition same_but_heat :: "server \<Rightarrow> server \<Rightarrow> bool" where
  "same_but_heat srv srv' \<longleftrightarrow> (\<exists>h. srv' = srv\<lparr>srv_rumor_heat := h\<rparr> \<and> (hm_inv (srv_rumor_heat srv) \<longrightarrow> hm_inv h))"

lemma same_but_heat_refl [simp]: "same_but_heat srv srv"
  unfolding same_but_heat_def by (rule exI [of _ "srv_rumor_heat srv"]) simp

lemma same_but_heat_cool [simp]:
  "same_but_heat srv (srv\<lparr>srv_rumor_heat := cool_rumors mid rks (srv_rumor_heat srv)\<rparr>)"
  unfolding same_but_heat_def by (rule exI [of _ "cool_rumors mid rks (srv_rumor_heat srv)"]) simp

lemma same_but_heat_trans [trans]:
  assumes "same_but_heat a b" and "same_but_heat b c"
  shows "same_but_heat a c"
proof -
  from assms obtain h h' where "b = a\<lparr>srv_rumor_heat := h\<rparr>" "hm_inv (srv_rumor_heat a) \<longrightarrow> hm_inv h"
    "c = b\<lparr>srv_rumor_heat := h'\<rparr>" "hm_inv (srv_rumor_heat b) \<longrightarrow> hm_inv h'"
    unfolding same_but_heat_def by blast
  then show ?thesis unfolding same_but_heat_def by (intro exI [of _ h']) simp
qed

lemma same_but_heat_inv: "server_inv srv \<Longrightarrow> same_but_heat srv srv' \<Longrightarrow> server_inv srv'"
  by (auto simp: same_but_heat_def server_inv_def)

lemma same_but_heat_keeps:
  assumes "same_but_heat srv srv'"
  shows "srv_member_list srv' = srv_member_list srv" "srv_member_id srv' = srv_member_id srv"
    "srv_member srv' = srv_member srv" "srv_departed srv' = srv_departed srv"
    "srv_service_store srv' = srv_service_store srv"
  using assms by (auto simp: same_but_heat_def)

lemma same_but_heat_send:
  "same_but_heat srv (fst (ping target addr fwd srv))"
  "same_but_heat srv (fst (send_ack target addr fwd srv))"
  "pingreq parse_addr relay target srv = Some (srv', p) \<Longrightarrow> same_but_heat srv srv'"
  using populate_heat_only
  by (auto simp: same_but_heat_def ping_def send_ack_def pingreq_def case_prod_beta Let_def bind_eq_Some_conv)

lemma same_but_heat_pingreq_all:
  "pingreq_all parse_addr ms target srv = Some (srv', ps) \<Longrightarrow> same_but_heat srv srv'"
  by (induction ms arbitrary: srv ps)
    (auto simp: bind_eq_Some_conv intro: same_but_heat_trans same_but_heat_send(3))

lemma pingreq_all_total:
  assumes "\<And>m. m \<in> set ms \<Longrightarrow> swim_socket_address parse_addr m \<noteq> None"
  shows "\<exists>srv' ps. pingreq_all parse_addr ms target srv = Some (srv', ps)"
  using assms
proof (induction ms arbitrary: srv)
  case (Cons m ms)
  from Cons.prems [of m] obtain a where "swim_socket_address parse_addr m = Some a" by auto
  then obtain srv1 p where "pingreq parse_addr m target srv = Some (srv1, p)"
    by (simp add: pingreq_def Let_def case_prod_beta)
  moreover obtain srv2 ps where "pingreq_all parse_addr ms target srv1 = Some (srv2, ps)"
    using Cons.IH [of srv1] Cons.prems by auto
  ultimately show ?case by simp
qed simp

section \<open>Panics\<close>

text \<open>The addresses of all members of the list parse.\<close>

definition addresses_ok :: "addr_parser \<Rightarrow> server \<Rightarrow> bool" where
  "addresses_ok parse_addr srv \<longleftrightarrow>
     list_all (\<lambda>m. swim_socket_address parse_addr m \<noteq> None)
       (hm_values (ml_members (srv_member_list srv)) @ ml_initial_members (srv_member_list srv))"

lemma addresses_ok_member:
  assumes "addresses_ok parse_addr srv" and "with_member mid (srv_member_list srv) = Some m"
  shows "swim_socket_address parse_addr m \<noteq> None"
proof -
  from assms(2) have "m \<in> set (hm_values (ml_members (srv_member_list srv)))"
    by (force simp: with_member_def hm_values_def dest!: hm_get_mem)
  with assms(1) show ?thesis unfolding addresses_ok_def list_all_iff by auto
qed

lemma process_ping_total:
  assumes "server_inv srv"
  shows "\<exists>h. process_ping now addr msg srv = Some h \<and> server_inv (hd_server h)"
proof -
  let ?target = "pm_from (get_ping msg)"
  let ?ack = "send_ack ?target addr (pm_forward_to (get_ping msg)) srv"
  let ?from = "?target\<lparr>mb_address := fst addr\<rparr>"
  have "server_inv (fst ?ack)" using same_but_heat_inv [OF assms same_but_heat_send(2)] .
  from insert_member_total [OF this, of now ?from "if mb_departed ?from then Departed else Alive"]
  obtain srv1 where srv1: "insert_member now ?from (if mb_departed ?from then Departed else Alive) (fst ?ack) = Some srv1" "server_inv srv1"
    by blast
  from insert_member_from_rumors_total [OF srv1(2), of now "memberships msg"]
  obtain srv2 where "insert_member_from_rumors now (memberships msg) srv1 = Some srv2" "server_inv srv2" by blast
  with srv1 show ?thesis
    by (simp add: process_ping_def Let_def case_prod_beta handled_only_def)
qed

lemma process_ack_total:
  assumes "server_inv srv"
  shows "\<exists>h. process_ack parse_addr now addr msg srv = Some h \<and> server_inv (hd_server h)"
  using insert_member_from_rumors_total [OF assms, of now "memberships msg"] assms
  by (auto simp: process_ack_def Let_def forward_ack_def handled_only_def split: option.split)

lemma process_pingreq_inv:
  assumes "server_inv srv" and "process_pingreq parse_addr addr msg srv = Some h"
  shows "server_inv (hd_server h)"
  using assms same_but_heat_inv [OF assms(1) same_but_heat_send(1)]
  by (auto simp: process_pingreq_def Let_def case_prod_beta handled_only_def bind_eq_Some_conv split: option.splits)

lemma process_pingreq_total:
  assumes "server_inv srv" and "addresses_ok parse_addr srv"
  shows "\<exists>h. process_pingreq parse_addr addr msg srv = Some h"
proof (cases "with_member (mb_id (pq_target (get_pingreq msg))) (srv_member_list srv)")
  case (Some target)
  from addresses_ok_member [OF assms(2) Some] obtain a where "swim_socket_address parse_addr target = Some a" by blast
  with Some show ?thesis by (simp add: process_pingreq_def Let_def case_prod_beta)
qed (simp add: process_pingreq_def)

lemma inbound_step_cases:
  obtains "inbound_step parse_addr now addr received srv = Some (handled_only srv)"
  | msg where "received = Inr msg" "sw_type msg = PING" "inbound_step parse_addr now addr received srv = process_ping now addr msg srv"
  | msg where "received = Inr msg" "sw_type msg = ACK" "inbound_step parse_addr now addr received srv = process_ack parse_addr now addr msg srv"
  | msg where "received = Inr msg" "sw_type msg = PINGREQ" "inbound_step parse_addr now addr received srv = process_pingreq parse_addr addr msg srv"
proof (cases "srv_pause srv")
  case True
  then show ?thesis by (intro that(1)) (simp add: inbound_step_def)
next
  case False
  show ?thesis
  proof (cases received)
    case (Inl e)
    then show ?thesis by (intro that(1)) (simp add: inbound_step_def)
  next
    case (Inr msg)
    show ?thesis
    proof (cases "sw_type msg")
      case PING
      with Inr False that(1) that(2) [OF Inr] show ?thesis
        unfolding inbound_step_def by (cases "check_blacklist (mb_id (pm_from (get_ping msg))) srv") simp_all
    next
      case ACK
      with Inr False that(1) that(3) [OF Inr] show ?thesis
        unfolding inbound_step_def
        by (cases "check_blacklist (mb_id (pm_from (get_ack msg))) srv \<and> pm_forward_to (get_ack msg) = None") simp_all
    next
      case PINGREQ
      with Inr False that(1) that(4) [OF Inr] show ?thesis
        unfolding inbound_step_def by (cases "check_blacklist (mb_id (pq_from (get_pingreq msg))) srv") simp_all
    qed
  qed
qed

lemma inbound_step_inv:
  assumes "server_inv srv" and "inbound_step parse_addr now addr received srv = Some h"
  shows "server_inv (hd_server h)"
proof (cases rule: inbound_step_cases [of parse_addr now addr received srv])
  case 1
  with assms show ?thesis by (auto simp: handled_only_def)
next
  case (2 msg)
  with assms process_ping_total [OF assms(1), of now addr msg] show ?thesis by auto
next
  case (3 msg)
  with assms process_ack_total [OF assms(1), of parse_addr now addr msg] show ?thesis by auto
next
  case (4 msg)
  with assms process_pingreq_inv [OF assms(1)] show ?thesis by simp
qed

lemma inbound_step_total:
  assumes "server_inv srv" and "addresses_ok parse_addr srv"
  shows "\<exists>h. inbound_step parse_addr now addr received srv = Some h"
proof (cases rule: inbound_step_cases [of parse_addr now addr received srv])
  case (2 msg)
  with process_ping_total [OF assms(1), of now addr msg] show ?thesis by auto
next
  case (3 msg)
  with process_ack_total [OF assms(1), of parse_addr now addr msg] show ?thesis by auto
next
  case (4 msg)
  with process_pingreq_total [OF assms, of addr msg] show ?thesis by auto
qed simp

lemma pull_step_total:
  assumes "server_inv srv"
  shows "\<exists>srv'. pull_step suit now received srv = Some srv' \<and> server_inv srv'"
  using insert_member_from_rumor_total [OF assms] assms
  by (auto simp: pull_step_def insert_election_def insert_update_election_def
      split: sum.split rumor_type.split intro: server_inv_intro)

lemma rumor_for_key_total:
  assumes "server_inv srv"
  shows "\<exists>r. rumor_for_key rk srv = Some r"
proof -
  have "\<exists>r. create_member_rumor rk srv = Some r"
    using ml_inv_health [OF server_inv_parts(1) [OF assms], of "rumor_key_key rk"]
    by (auto simp: create_member_rumor_def with_member_def health_of_by_id_def split: option.split)
  then show ?thesis by (simp add: rumor_for_key_def split: rumor_type.split)
qed

lemma rumors_for_keys_total:
  assumes "server_inv srv"
  shows "\<exists>rs. rumors_for_keys rks srv = Some rs"
proof (induction rks)
  case (Cons rk rks)
  with rumor_for_key_total [OF assms, of rk] show ?case by auto
qed simp

lemma push_to_total:
  assumes "server_inv srv"
  shows "\<exists>srv' sent. push_to connected m srv = Some (srv', sent) \<and> same_but_heat srv srv'"
proof -
  have "\<exists>srv' sent. send_rumors connected m rks srv = Some (srv', sent) \<and> same_but_heat srv srv'" for rks
    using rumors_for_keys_total [OF assms, of rks] by (auto simp: send_rumors_def)
  then show ?thesis by (auto simp: push_to_def Let_def)
qed

lemma push_chunk_total:
  assumes "server_inv srv"
  shows "\<exists>srv' sent. push_chunk connected ms srv = Some (srv', sent) \<and> same_but_heat srv srv' \<and> map fst sent = map mb_id ms"
  using assms
proof (induction ms arbitrary: srv)
  case (Cons m ms)
  from push_to_total [OF Cons.prems] obtain srv1 sent where 1: "push_to (connected (mb_id m)) m srv = Some (srv1, sent)"
    "same_but_heat srv srv1" by blast
  from Cons.IH [OF same_but_heat_inv [OF Cons.prems 1(2)]] obtain srv2 rest where
    "push_chunk connected ms srv1 = Some (srv2, rest)" "same_but_heat srv1 srv2" "map fst rest = map mb_id ms" by blast
  with 1 show ?case by (auto intro: same_but_heat_trans)
qed simp

declare push_fanout.simps [simp del]

lemma push_fanout_total:
  assumes "server_inv srv"
  shows "\<exists>srv' sent. push_fanout connected ms srv = Some (srv', sent) \<and> same_but_heat srv srv' \<and> map fst sent = map mb_id ms"
  using assms
proof (induction "length ms" arbitrary: ms srv rule: less_induct)
  case less
  let ?n = "if length ms \<ge> FANOUT then FANOUT else length ms"
  show ?case
  proof (cases "ms = []")
    case True
    then show ?thesis by (simp add: push_fanout.simps)
  next
    case False
    from push_chunk_total [OF less.prems, of connected "take ?n ms"] obtain srv1 sent where
      1: "push_chunk connected (take ?n ms) srv = Some (srv1, sent)" "same_but_heat srv srv1" "map fst sent = map mb_id (take ?n ms)"
      by blast
    have "length (drop ?n ms) < length ms" using False by (auto simp: FANOUT_def)
    from less.hyps [OF this same_but_heat_inv [OF less.prems 1(2)]] obtain srv2 rest where
      2: "push_fanout connected (drop ?n ms) srv1 = Some (srv2, rest)" "same_but_heat srv1 srv2" "map fst rest = map mb_id (drop ?n ms)"
      by blast
    have "map fst (sent @ rest) = map mb_id ms" using 1(3) 2(3) by (metis append_take_drop_id map_append)
    with False 1 2 show ?thesis
      by (subst push_fanout.simps) (auto simp: Let_def intro: same_but_heat_trans)
  qed
qed

lemma push_round_total:
  assumes "server_inv srv"
  shows "\<exists>srv' sent. push_round connected shuffle srv = Some (srv', sent) \<and> server_inv srv'"
proof -
  have "server_inv (update_gossip_round srv)" using assms by (rule server_inv_round)
  from push_fanout_total [OF this] same_but_heat_inv [OF this] assms show ?thesis
    unfolding push_round_def Let_def by (metis (no_types, lifting))
qed

section \<open>The outbound thread\<close>

text \<open>
  What the outbound thread relies on: an invariant of servers that sending keeps and that
  inserting an admitted member keeps. Which members are admitted depends on the identifier of the
  server only.
\<close>

locale server_invariant =
  fixes I :: "server \<Rightarrow> bool" and admitted :: "string \<Rightarrow> string \<Rightarrow> bool"
  assumes heat: "I srv \<Longrightarrow> same_but_heat srv srv' \<Longrightarrow> I srv'"
    and member: "I srv \<Longrightarrow> admitted (srv_member_id srv) (mb_id m) \<Longrightarrow> insert_member now m h srv = Some srv' \<Longrightarrow> I srv'"
    and round: "I srv \<Longrightarrow> I (update_swim_round srv)"

fun acker_of :: "recv_event \<Rightarrow> string option" where
  "acker_of (AckReceived now addr s) = Some (mb_id (pm_from (get_ack s)))"
| "acker_of (QueueEmpty now) = None"
| "acker_of Disconnected = None"

lemma insert_member_keeps:
  "insert_member now m h srv = Some srv' \<Longrightarrow> srv_member_id srv' = srv_member_id srv \<and>
     srv_member srv' = srv_member srv \<and> srv_departed srv' = srv_departed srv"
  by (auto simp: insert_member_def Let_def bind_eq_Some_conv split: if_splits)

lemma insert_acker_eq_Some:
  "insert_acker now addr s srv = Some (srv', k) \<longleftrightarrow>
     k = mb_id (pm_from (get_ack s)) \<and>
     insert_member now (if pm_forward_to (get_ack s) = None then (pm_from (get_ack s))\<lparr>mb_address := fst addr\<rparr> else pm_from (get_ack s))
       (if mb_departed (pm_from (get_ack s)) then Departed else Alive) srv = Some srv'"
  by (auto simp: insert_acker_def Let_def bind_eq_Some_conv split: if_splits)

lemma recv_ack_received:
  assumes "recv_ack m timeout (AckReceived now addr s # events) srv = Some (srv', result, rest)"
  obtains srv1 where "insert_acker now addr s srv = Some (srv1, mb_id (pm_from (get_ack s)))"
    and "srv_member_id srv1 = srv_member_id srv"
    and "mb_id m \<noteq> mb_id (pm_from (get_ack s)) \<and> recv_ack m timeout events srv1 = Some (srv', result, rest) \<or>
      mb_id m = mb_id (pm_from (get_ack s)) \<and> srv' = srv1 \<and> result = Some True \<and> rest = events"
proof -
  from assms obtain srv1 k where acker: "insert_acker now addr s srv = Some (srv1, k)" by (auto simp: bind_eq_Some_conv)
  moreover have "k = mb_id (pm_from (get_ack s))" "srv_member_id srv1 = srv_member_id srv"
    using acker insert_member_keeps by (auto simp: insert_acker_eq_Some)
  ultimately show ?thesis using that assms by (auto split: if_splits)
qed

lemma recv_ack_keeps_id:
  assumes "recv_ack m timeout events srv = Some (srv', result, rest)"
  shows "srv_member_id srv' = srv_member_id srv \<and> set rest \<subseteq> set events"
  using assms
proof (induction m timeout events srv rule: recv_ack.induct)
  case (2 m timeout now addr s events srv)
  from "2.prems" show ?case
  proof (rule recv_ack_received)
    fix srv1
    assume srv1: "insert_acker now addr s srv = Some (srv1, mb_id (pm_from (get_ack s)))"
      "srv_member_id srv1 = srv_member_id srv"
      "mb_id m \<noteq> mb_id (pm_from (get_ack s)) \<and> recv_ack m timeout events srv1 = Some (srv', result, rest) \<or>
        mb_id m = mb_id (pm_from (get_ack s)) \<and> srv' = srv1 \<and> result = Some True \<and> rest = events"
    with "2.IH" [OF srv1(1) refl] show ?thesis by auto
  qed
qed (auto split: if_splits)

lemma same_but_heat_fold:
  assumes "\<And>m acc acc'. f m acc = Some acc' \<Longrightarrow> same_but_heat (fst acc) (fst acc')"
    and "fold_opt f ms acc = Some acc'"
  shows "same_but_heat (fst acc) (fst acc')"
  by (rule fold_opt_preserves [OF assms(2), where P = "\<lambda>a. same_but_heat (fst acc) (fst a)"])
    (auto intro: same_but_heat_trans assms(1))

lemma same_but_heat_seed:
  assumes "seed_initial parse_addr have_members srv = Some (have_members', srv', ps)"
  shows "same_but_heat srv srv'"
proof -
  have "same_but_heat (fst acc) (fst acc')" if "ping_initial parse_addr m acc = Some acc'" for m acc acc'
    using that same_but_heat_send(1)
    by (auto simp: ping_initial_def Let_def case_prod_beta bind_eq_Some_conv)
  from same_but_heat_fold [of "ping_initial parse_addr", OF this] assms show ?thesis
    by (fastforce simp: seed_initial_def Let_def bind_eq_Some_conv split: if_splits)
qed

context server_invariant
begin

lemma insert_acker_invariant:
  "I srv \<Longrightarrow> admitted (srv_member_id srv) k \<Longrightarrow> insert_acker now addr s srv = Some (srv', k) \<Longrightarrow> I srv'"
  by (auto simp: insert_acker_eq_Some elim!: member [rotated 2])

lemma recv_ack_invariant:
  assumes "I srv" and "\<And>e k. e \<in> set events \<Longrightarrow> acker_of e = Some k \<Longrightarrow> admitted (srv_member_id srv) k"
    and "recv_ack m timeout events srv = Some (srv', result, rest)"
  shows "I srv'"
  using assms
proof (induction m timeout events srv rule: recv_ack.induct)
  case (2 m timeout now addr s events srv)
  from "2.prems"(3) show ?case
  proof (rule recv_ack_received)
    fix srv1
    assume srv1: "insert_acker now addr s srv = Some (srv1, mb_id (pm_from (get_ack s)))"
      "srv_member_id srv1 = srv_member_id srv"
      "mb_id m \<noteq> mb_id (pm_from (get_ack s)) \<and> recv_ack m timeout events srv1 = Some (srv', result, rest) \<or>
        mb_id m = mb_id (pm_from (get_ack s)) \<and> srv' = srv1 \<and> result = Some True \<and> rest = events"
    have "I srv1" by (rule insert_acker_invariant [OF "2.prems"(1) _ srv1(1)]) (auto intro: "2.prems"(2))
    with srv1 "2.IH" [OF srv1(1) refl] "2.prems"(2) show ?thesis by auto
  qed
qed (auto split: if_splits)

lemma probe_invariant:
  assumes "I srv" and "admitted (srv_member_id srv) (mb_id m)"
    and "\<And>e k. e \<in> set (pb_events inp) \<Longrightarrow> acker_of e = Some k \<Longrightarrow> admitted (srv_member_id srv) k"
    and "probe parse_addr shuffle t inp m srv = Some (srv', ps, result)"
  shows "I srv' \<and> srv_member_id srv' = srv_member_id srv"
proof -
  from assms(4) obtain addr srv1 r1 ev1 where
    addr: "swim_socket_address parse_addr m = Some addr"
    and recv1: "recv_ack m (ack_deadline t FromPing (pb_ping_sent inp)) (pb_events inp) (fst (ping m addr None srv)) = Some (srv1, r1, ev1)"
    by (auto simp: probe_def Let_def case_prod_beta bind_eq_Some_conv)
  have ping: "srv_member_id (fst (ping m addr None srv)) = srv_member_id srv"
    by (rule same_but_heat_keeps(2) [OF same_but_heat_send(1)])
  have srv1: "I srv1"
    by (rule recv_ack_invariant [OF heat [OF assms(1) same_but_heat_send(1)] _ recv1]) (simp add: ping assms(3))
  have id1: "srv_member_id srv1 = srv_member_id srv" and ev1: "set ev1 \<subseteq> set (pb_events inp)"
    using recv_ack_keeps_id [OF recv1] ping by auto
  show ?thesis
  proof (cases "r1 = Some False")
    case False
    with assms(4) addr recv1 srv1 id1 show ?thesis
      by (auto simp: probe_def Let_def case_prod_beta split: option.splits bool.splits)
  next
    case True
    with assms(4) addr recv1 obtain srv2 qs srv3 r3 ev3 where
      all: "pingreq_all parse_addr (pingreq_targets shuffle (srv_member_id srv1) (mb_id m) (srv_member_list srv1)) m srv1 = Some (srv2, qs)"
      and recv3: "recv_ack m (ack_deadline t FromPingReq (pb_pingreq_sent inp)) ev1 srv2 = Some (srv3, r3, ev3)"
      and res: "srv' = srv3 \<or> insert_member (pb_finished inp) m Suspect srv3 = Some srv'"
      by (auto simp: probe_def Let_def case_prod_beta bind_eq_Some_conv split: option.splits bool.splits)
    have id2: "srv_member_id srv2 = srv_member_id srv"
      using same_but_heat_keeps(2) [OF same_but_heat_pingreq_all [OF all]] id1 by simp
    have "I srv3"
      by (rule recv_ack_invariant [OF heat [OF srv1 same_but_heat_pingreq_all [OF all]] _ recv3])
        (use id2 ev1 assms(3) in auto)
    moreover have "srv_member_id srv3 = srv_member_id srv" using recv_ack_keeps_id [OF recv3] id2 by simp
    ultimately show ?thesis using res assms(2) insert_member_keeps by (auto elim!: member [rotated 2])
  qed
qed

lemma probe_all_invariant:
  assumes "I srv" and "\<And>m. m \<in> set ms \<Longrightarrow> admitted (srv_member_id srv) (mb_id m)"
    and "\<And>m e k. m \<in> set ms \<Longrightarrow> e \<in> set (pb_events (inp (mb_id m))) \<Longrightarrow> acker_of e = Some k \<Longrightarrow> admitted (srv_member_id srv) k"
    and "probe_all parse_addr shuffle t inp ms srv = Some (srv', ps)"
  shows "I srv' \<and> srv_member_id srv' = srv_member_id srv"
  using assms
proof (induction ms arbitrary: srv ps)
  case (Cons m ms)
  show ?case
  proof (cases "pingable m (srv_member_list srv)")
    case False
    show ?thesis by (rule Cons.IH) (use False Cons.prems in auto)
  next
    case True
    with Cons.prems(4) obtain srv1 qs r where
      probe: "probe parse_addr shuffle t (inp (mb_id m)) m srv = Some (srv1, qs, r)"
      and rest: "srv' = srv1 \<or> (\<exists>qs'. probe_all parse_addr shuffle t inp ms srv1 = Some (srv', qs'))"
      by (auto simp: bind_eq_Some_conv split: if_splits)
    have srv1: "I srv1 \<and> srv_member_id srv1 = srv_member_id srv"
      by (rule probe_invariant [OF Cons.prems(1) _ _ probe]) (auto intro: Cons.prems(2, 3))
    from rest show ?thesis
    proof (elim disjE exE)
      fix qs' assume "probe_all parse_addr shuffle t inp ms srv1 = Some (srv', qs')"
      then have "I srv' \<and> srv_member_id srv' = srv_member_id srv1"
        by (rule Cons.IH [rotated 3]) (use srv1 Cons.prems(2, 3) in auto)
      with srv1 show ?thesis by simp
    qed (use srv1 in simp)
  qed
qed simp

lemma outbound_round_invariant:
  assumes "I srv" and "mb_id (srv_member srv) = srv_member_id srv" and "\<And>xs. set (shuffle xs) \<subseteq> set xs"
    and "\<And>k. k \<noteq> srv_member_id srv \<Longrightarrow> admitted (srv_member_id srv) k"
    and "\<And>mid e k. e \<in> set (pb_events (inp mid)) \<Longrightarrow> acker_of e = Some k \<Longrightarrow> admitted (srv_member_id srv) k"
    and "outbound_round parse_addr shuffle t inp have_members srv = Some (have_members', srv', ps)"
  shows "I srv'"
proof -
  from assms(6) obtain hv srv1 seeds where seed: "seed_initial parse_addr have_members srv = Some (hv, srv1, seeds)"
    and rest: "srv' = srv1 \<or> (\<exists>qs. probe_all parse_addr shuffle t inp
       (check_list shuffle (mb_id (srv_member srv1)) (srv_member_list (update_swim_round srv1))) (update_swim_round srv1) = Some (srv', qs))"
    by (auto simp: outbound_round_def Let_def bind_eq_Some_conv update_swim_round_def split: if_splits option.splits)
  have heated: "same_but_heat srv srv1" by (rule same_but_heat_seed [OF seed])
  let ?srv = "update_swim_round srv1"
  have id: "srv_member_id ?srv = srv_member_id srv" "mb_id (srv_member srv1) = srv_member_id srv"
    using same_but_heat_keeps [OF heated] assms(2) by (auto simp: update_swim_round_def split: option.splits)
  have others: "mb_id m \<noteq> srv_member_id srv" if "m \<in> set (check_list shuffle (srv_member_id srv) ml)" for m ml
    using that assms(3) by (force simp: check_list_def)
  have "I srv1" using assms(1) heated by (rule heat)
  then have "I ?srv" by (rule round)
  from rest show ?thesis
  proof (elim disjE exE)
    fix qs
    assume "probe_all parse_addr shuffle t inp
      (check_list shuffle (mb_id (srv_member srv1)) (srv_member_list ?srv)) ?srv = Some (srv', qs)"
    then have "I srv' \<and> srv_member_id srv' = srv_member_id ?srv"
      by (rule probe_all_invariant [OF \<open>I ?srv\<close>, rotated 2]) (use id assms(4, 5) in \<open>auto dest: others\<close>)
    then show ?thesis ..
  qed (use \<open>I srv1\<close> in simp)
qed

end

lemma insert_acker_total:
  assumes "server_inv srv"
  shows "\<exists>srv'. insert_acker now addr s srv = Some (srv', mb_id (pm_from (get_ack s))) \<and> server_inv srv'"
proof -
  let ?from = "if pm_forward_to (get_ack s) = None then (pm_from (get_ack s))\<lparr>mb_address := fst addr\<rparr> else pm_from (get_ack s)"
  from insert_member_total [OF assms, of now ?from "if mb_departed ?from then Departed else Alive"]
  obtain srv' where "insert_member now ?from (if mb_departed ?from then Departed else Alive) srv = Some srv'" "server_inv srv'"
    by blast
  then show ?thesis by (simp add: insert_acker_def Let_def split: if_splits)
qed

lemma recv_ack_total:
  assumes "server_inv srv" and "Disconnected \<notin> set events"
  shows "\<exists>srv' result rest. recv_ack m timeout events srv = Some (srv', result, rest) \<and> set rest \<subseteq> set events"
  using assms
proof (induction m timeout events srv rule: recv_ack.induct)
  case (2 m timeout now addr s events srv)
  from insert_acker_total [OF "2.prems"(1), of now addr s] obtain srv1 where
    srv1: "insert_acker now addr s srv = Some (srv1, mb_id (pm_from (get_ack s)))" "server_inv srv1" by blast
  show ?case
  proof (cases "mb_id m = mb_id (pm_from (get_ack s))")
    case True
    with srv1 show ?thesis by auto
  next
    case False
    with "2.IH" [OF srv1(1) refl False srv1(2)] "2.prems"(2) srv1(1) show ?thesis by auto
  qed
next
  case (3 m timeout now events srv)
  then show ?case by (cases "now > timeout") auto
qed auto

end
