(* ===== verification/Ring_Run.thy ===== *)
theory Ring_Run
  imports Ring
begin

text \<open>
  Runs of the gossip server. An event is one message for one of its receiving threads, one round of
  one of its sending threads, one pass of the expiry thread, or one call of the supervisor; the
  threads interleave in any order. The parser of addresses, the suitability lookup and
  the shuffle are fixed for a run.
\<close>

section \<open>Events\<close>

datatype server_event =
    SocketBound
  | SwimReceived steady_time sock_addr "unit + swim"
  | RumorReceived steady_time "unit + proto_rumor"
  | OutboundRound timing "string \<Rightarrow> probe_input" bool
  | PushRound "string \<Rightarrow> bool"
  | ExpirePass timing steady_time
  | RestartElections
  | LocalService steady_time proto_rumor
  | LocalConfig proto_rumor
  | LocalFile proto_rumor
  | LocalDeparture steady_time proto_rumor
  | StartElection string u64
  | StartUpdateElection string u64 u64
  | SetDeparted steady_time
  | InitialMembers "member list"
  | Pause
  | Blacklist string
  | Unblacklist string

text \<open>\<open>Server::start\<close> stores the socket it bound.\<close>

definition socket_bound :: "server \<Rightarrow> server" where
  "socket_bound srv = srv\<lparr>srv_has_socket := True\<rparr>"

fun server_exec ::
  "addr_parser \<Rightarrow> (string \<Rightarrow> u64) \<Rightarrow> (member list \<Rightarrow> member list) \<Rightarrow> server_event \<Rightarrow> server \<Rightarrow> server option" where
  "server_exec parse suit shuffle SocketBound srv = Some (socket_bound srv)"
| "server_exec parse suit shuffle (SwimReceived now addr received) srv =
     map_option hd_server (inbound_step parse now addr received srv)"
| "server_exec parse suit shuffle (RumorReceived now received) srv = pull_step suit now received srv"
| "server_exec parse suit shuffle (OutboundRound t inp have_members) srv =
     map_option (\<lambda>(_, srv, _). srv) (outbound_round parse shuffle t inp have_members srv)"
| "server_exec parse suit shuffle (PushRound connected) srv = map_option fst (push_round connected shuffle srv)"
| "server_exec parse suit shuffle (ExpirePass t now) srv = expire_pass t now srv"
| "server_exec parse suit shuffle RestartElections srv = restart_elections suit srv"
| "server_exec parse suit shuffle (LocalService now r) srv = Some (insert_service now r srv)"
| "server_exec parse suit shuffle (LocalConfig r) srv = Some (insert_service_config r srv)"
| "server_exec parse suit shuffle (LocalFile r) srv = Some (insert_service_file r srv)"
| "server_exec parse suit shuffle (LocalDeparture now r) srv = Some (insert_departure now r srv)"
| "server_exec parse suit shuffle (StartElection g trm) srv = Some (start_election suit g trm srv)"
| "server_exec parse suit shuffle (StartUpdateElection g s trm) srv = Some (start_update_election g s trm srv)"
| "server_exec parse suit shuffle (SetDeparted now) srv = map_option fst (set_departed parse shuffle now srv)"
| "server_exec parse suit shuffle (InitialMembers ms) srv =
     Some (srv\<lparr>srv_member_list := set_initial_members ms (srv_member_list srv)\<rparr>)"
| "server_exec parse suit shuffle Pause srv = Some (server_pause srv)"
| "server_exec parse suit shuffle (Blacklist k) srv = Some (add_to_blacklist k srv)"
| "server_exec parse suit shuffle (Unblacklist k) srv = Some (remove_from_blacklist k srv)"

inductive reachable ::
  "addr_parser \<Rightarrow> (string \<Rightarrow> u64) \<Rightarrow> (member list \<Rightarrow> member list) \<Rightarrow> (string \<Rightarrow> server_event \<Rightarrow> bool) \<Rightarrow> server \<Rightarrow> bool"
  for parse suit shuffle allowed where
  start: "server_new (Inr (Some p) :: unit + int option) (Inr (Some q)) m name = Inr srv \<Longrightarrow>
    reachable parse suit shuffle allowed srv"
| step: "reachable parse suit shuffle allowed srv \<Longrightarrow> allowed (srv_member_id srv) ev \<Longrightarrow>
    server_exec parse suit shuffle ev srv = Some srv' \<Longrightarrow> reachable parse suit shuffle allowed srv'"

text \<open>Running a list of events, stopping at a panic.\<close>

abbreviation run_events ::
  "addr_parser \<Rightarrow> (string \<Rightarrow> u64) \<Rightarrow> (member list \<Rightarrow> member list) \<Rightarrow> server_event list \<Rightarrow> server \<Rightarrow> server option" where
  "run_events parse suit shuffle \<equiv> fold_opt (server_exec parse suit shuffle)"

section \<open>Reachable servers are well formed\<close>

lemma server_inv_switches [server_inv_intro]:
  assumes "server_inv srv"
  shows "server_inv (socket_bound srv)" "server_inv (server_pause srv)"
    "server_inv (add_to_blacklist k srv)" "server_inv (remove_from_blacklist k srv)"
  using assms
  by (simp_all add: server_inv_def socket_bound_def server_pause_def add_to_blacklist_def remove_from_blacklist_def)

interpretation well_formed: server_invariant server_inv "\<lambda>_ _. True"
proof unfold_locales
  fix srv srv' m now h
  show "server_inv srv \<Longrightarrow> same_but_heat srv srv' \<Longrightarrow> server_inv srv'" by (rule same_but_heat_inv)
  show "server_inv srv \<Longrightarrow> insert_member now m h srv = Some srv' \<Longrightarrow> server_inv srv'"
    by (metis insert_member_total option.inject)
  show "server_inv srv \<Longrightarrow> server_inv (update_swim_round srv)" by (rule server_inv_round)
qed

lemma same_but_heat_ack_to:
  "ack_to parse m acc = Some acc' \<Longrightarrow> same_but_heat (fst acc) (fst acc')"
  using same_but_heat_send(2)
  by (auto simp: ack_to_def Let_def case_prod_beta bind_eq_Some_conv)

text \<open>Departing: what changes before the goodbyes are sent.\<close>

definition departing :: "steady_time \<Rightarrow> server \<Rightarrow> server" where
  "departing now srv =
     srv\<lparr>srv_member := (srv_member srv)\<lparr>mb_incarnation := mb_incarnation (srv_member srv) + 1, mb_departed := True\<rparr>,
         srv_member_list := fst (insert_health_by_id now (mb_id (srv_member srv)) Departed (srv_member_list srv))\<rparr>"

lemma set_departed_cases:
  assumes "set_departed parse shuffle now srv = Some (srv', ps)"
  shows "if srv_has_socket srv then same_but_heat (departing now srv) srv' else srv' = srv"
proof (cases "srv_has_socket srv")
  case True
  with assms obtain ms where "fold_opt (ack_to parse) ms (departing now srv, []) = Some (srv', ps)"
    by (auto simp: set_departed_def departing_def Let_def)
  from same_but_heat_fold [OF same_but_heat_ack_to this] True show ?thesis by simp
qed (use assms in \<open>simp add: set_departed_def\<close>)

lemma server_inv_departing: "server_inv srv \<Longrightarrow> server_inv (departing now srv)"
  by (auto simp: server_inv_iff departing_def intro!: ml_inv_intro)

lemma server_exec_inv:
  assumes "server_inv srv" and "\<And>xs. set (shuffle xs) \<subseteq> set xs" and "server_exec parse suit shuffle ev srv = Some srv'"
  shows "server_inv srv'"
proof (cases ev)
  case (SwimReceived now addr received)
  with assms(3) show ?thesis by (auto intro: inbound_step_inv [OF assms(1)])
next
  case (RumorReceived now received)
  with assms(3) pull_step_total [OF assms(1), of suit now received] show ?thesis by auto
next
  case (OutboundRound t inp have_members)
  with assms(3) show ?thesis
    by (auto intro: well_formed.outbound_round_invariant [OF assms(1) server_inv_parts(5) [OF assms(1)] assms(2)])
next
  case (PushRound connected)
  with assms(3) push_round_total [OF assms(1), of connected shuffle] show ?thesis by auto
next
  case (ExpirePass t now)
  from expire_suspects_eq [OF assms(1), of t now] obtain srv1 where "expire_suspects t now srv = Some srv1" "server_inv srv1"
    by metis
  with ExpirePass assms(3) expire_departures_total [of srv1 t now] show ?thesis by (auto simp: expire_pass_def)
next
  case (SetDeparted now)
  with assms(3) obtain ps where "set_departed parse shuffle now srv = Some (srv', ps)" by auto
  from set_departed_cases [OF this] assms(1) show ?thesis
    by (auto intro: same_but_heat_inv [OF server_inv_departing] split: if_splits)
qed (use assms(1, 3) in \<open>auto simp: start_election_def start_update_election_def
    intro!: server_inv_intro ml_inv_intro server_inv_parts(1) intro: server_inv_restart_elections\<close>)

section \<open>Where a server can panic\<close>

definition parses_all :: "addr_parser \<Rightarrow> bool" where
  "parses_all parse \<longleftrightarrow> (\<forall>a n. parse a n \<noteq> None)"

lemma parses_all_member:
  assumes "parses_all parse"
  obtains addr where "swim_socket_address parse m = Some addr"
  using assms unfolding parses_all_def swim_socket_address_def by (metis option.exhaust)

lemma parses_all_addresses: "parses_all parse \<Longrightarrow> addresses_ok parse srv"
  by (auto simp: addresses_ok_def list_all_iff parses_all_def swim_socket_address_def)

lemma parses_all_fold:
  assumes "\<And>m acc. \<exists>acc'. f m acc = Some acc'"
  shows "\<exists>acc'. fold_opt f ms acc = Some acc'"
  using fold_opt_invariant [of "\<lambda>_. True" acc ms f] assms by auto

lemma seed_initial_total:
  assumes "parses_all parse"
  shows "\<exists>hv srv' ps. seed_initial parse have_members srv = Some (hv, srv', ps)"
proof -
  have "\<exists>acc'. ping_initial parse m acc = Some acc'" for m acc
    by (rule parses_all_member [OF assms, of m]) (auto simp: ping_initial_def Let_def case_prod_beta)
  from parses_all_fold [of "ping_initial parse" "ml_initial_members (srv_member_list srv)" "(srv, [])", OF this]
  show ?thesis by (auto simp: seed_initial_def Let_def)
qed

lemma set_departed_total:
  assumes "parses_all parse"
  shows "\<exists>srv' ps. set_departed parse shuffle now srv = Some (srv', ps)"
proof -
  have "\<exists>acc'. ack_to parse m acc = Some acc'" for m acc
    by (rule parses_all_member [OF assms, of m]) (auto simp: ack_to_def Let_def case_prod_beta)
  note fold = parses_all_fold [of "ack_to parse", OF this]
  show ?thesis
  proof (cases "srv_has_socket srv")
    case True
    then show ?thesis unfolding set_departed_def Let_def using fold by (metis surj_pair)
  qed (simp add: set_departed_def)
qed

lemma probe_total:
  assumes "server_inv srv" and "parses_all parse" and "Disconnected \<notin> set (pb_events inp)"
  shows "\<exists>srv' ps r. probe parse shuffle t inp m srv = Some (srv', ps, r)"
proof -
  obtain addr where addr: "swim_socket_address parse m = Some addr" by (rule parses_all_member [OF assms(2)])
  have ping: "server_inv (fst (ping m addr None srv))" by (rule same_but_heat_inv [OF assms(1) same_but_heat_send(1)])
  obtain srv1 r1 ev1 where recv1: "recv_ack m (ack_deadline t FromPing (pb_ping_sent inp)) (pb_events inp)
      (fst (ping m addr None srv)) = Some (srv1, r1, ev1)" "set ev1 \<subseteq> set (pb_events inp)"
    using recv_ack_total [OF ping assms(3)] by blast
  have srv1: "server_inv srv1" by (rule well_formed.recv_ack_invariant [OF ping _ recv1(1)]) simp
  obtain srv2 qs where all: "pingreq_all parse (pingreq_targets shuffle (srv_member_id srv1) (mb_id m) (srv_member_list srv1)) m srv1 = Some (srv2, qs)"
    using pingreq_all_total [of _ parse m srv1] parses_all_member [OF assms(2)] by (metis option.simps(3))
  have srv2: "server_inv srv2" by (rule same_but_heat_inv [OF srv1 same_but_heat_pingreq_all [OF all]])
  obtain srv3 r3 ev3 where recv3: "recv_ack m (ack_deadline t FromPingReq (pb_pingreq_sent inp)) ev1 srv2 = Some (srv3, r3, ev3)"
    using recv_ack_total [OF srv2, of ev1] recv1(2) assms(3) by blast
  have "server_inv srv3" by (rule well_formed.recv_ack_invariant [OF srv2 _ recv3]) simp
  with insert_member_total [OF this, of "pb_finished inp" m Suspect] addr recv1(1) all recv3 show ?thesis
    by (auto simp: probe_def Let_def case_prod_beta split: option.split bool.split)
qed

lemma probe_all_total:
  assumes "server_inv srv" and "parses_all parse" and "\<And>k. Disconnected \<notin> set (pb_events (inp k))"
  shows "\<exists>srv' ps. probe_all parse shuffle t inp ms srv = Some (srv', ps)"
  using assms(1)
proof (induction ms arbitrary: srv)
  case (Cons m ms)
  obtain srv1 ps r where probe: "probe parse shuffle t (inp (mb_id m)) m srv = Some (srv1, ps, r)"
    using probe_total [OF Cons.prems assms(2, 3)] by blast
  then have "server_inv srv1" using well_formed.probe_invariant [OF Cons.prems _ _ probe] by simp
  from Cons.IH [OF this] Cons.IH [OF Cons.prems] probe show ?case by auto
qed simp

lemma outbound_round_total:
  assumes "server_inv srv" and "parses_all parse" and "\<And>k. Disconnected \<notin> set (pb_events (inp k))"
  shows "\<exists>r. outbound_round parse shuffle t inp have_members srv = Some r"
proof -
  obtain hv srv1 ps where seed: "seed_initial parse have_members srv = Some (hv, srv1, ps)"
    using seed_initial_total [OF assms(2)] by blast
  have "server_inv (update_swim_round srv1)"
    by (intro server_inv_round same_but_heat_inv [OF assms(1) same_but_heat_seed [OF seed]])
  from probe_all_total [OF this assms(2), where inp = inp and shuffle = shuffle and t = t and ms =
      "check_list shuffle (mb_id (srv_member (update_swim_round srv1))) (srv_member_list (update_swim_round srv1))"] assms(3) seed
  show ?thesis by (auto simp: outbound_round_def Let_def)
qed

lemma server_exec_panic:
  assumes "server_inv srv" and "parses_all parse" and "server_exec parse suit shuffle ev srv = None"
  shows "(\<exists>t inp hv k. ev = OutboundRound t inp hv \<and> Disconnected \<in> set (pb_events (inp k))) \<or>
    ev = RestartElections \<and> \<not> elections_ok srv"
proof (cases ev)
  case (SwimReceived now addr received)
  with inbound_step_total [OF assms(1) parses_all_addresses [OF assms(2)], of now addr received] assms(3)
  show ?thesis by auto
next
  case (RumorReceived now received)
  with assms(3) pull_step_total [OF assms(1), of suit now received] show ?thesis by auto
next
  case (OutboundRound t inp have_members)
  have "\<exists>k. Disconnected \<in> set (pb_events (inp k))"
  proof (rule ccontr)
    assume "\<nexists>k. Disconnected \<in> set (pb_events (inp k))"
    then obtain r where "outbound_round parse shuffle t inp have_members srv = Some r"
      using outbound_round_total [OF assms(1, 2), of inp] by blast
    with OutboundRound assms(3) show False by simp
  qed
  with OutboundRound show ?thesis by blast
next
  case (PushRound connected)
  with assms(3) push_round_total [OF assms(1), of connected shuffle] show ?thesis by auto
next
  case (ExpirePass t now)
  from expire_suspects_eq [OF assms(1), of t now] obtain srv1 where "expire_suspects t now srv = Some srv1" "server_inv srv1"
    by metis
  with ExpirePass assms(3) expire_departures_total [of srv1 t now] show ?thesis by (auto simp: expire_pass_def)
next
  case RestartElections
  have "restart_elections suit srv \<noteq> None" if ok: "elections_ok srv"
  proof -
    obtain xs where xs: "elections_to_restart LeaderElection srv = Some xs"
      by (rule elections_to_restart_ok [OF assms(1) ok])
    obtain ys where ys: "elections_to_restart UpdateElection srv = Some ys"
      by (rule elections_to_restart_ok [OF assms(1) ok])
    show ?thesis by (simp add: restart_elections_eq [OF assms(1) ok xs ys])
  qed
  with RestartElections assms(3) show ?thesis by auto
next
  case (SetDeparted now)
  with assms(3) set_departed_total [OF assms(2), of shuffle now srv] show ?thesis by auto
qed (use assms(3) in auto)

section \<open>A server trusts itself\<close>

text \<open>
  What a server knows about itself: its health in its own list and the timers running for it.
  Unless it has left the ring it does not believe itself suspect, dead or departed.
\<close>

definition about :: "string \<Rightarrow> member_list \<Rightarrow> health option \<times> steady_time option \<times> steady_time option" where
  "about k ml = (health_of_by_id k ml, hm_get (ml_suspect ml) k, hm_get (ml_depart ml) k)"

definition own_part :: "server \<Rightarrow> string \<times> bool \<times> bool \<times> health option \<times> steady_time option \<times> steady_time option" where
  "own_part srv = (srv_member_id srv, mb_departed (srv_member srv), srv_departed srv,
     about (srv_member_id srv) (srv_member_list srv))"

definition trusted :: "server \<Rightarrow> bool" where
  "trusted srv \<longleftrightarrow> srv_departed srv \<or> mb_departed (srv_member srv) \<or>
     about (srv_member_id srv) (srv_member_list srv) \<in> {(None, None, None), (Some Alive, None, None)}"

lemma trusted_own_part: "trusted srv \<Longrightarrow> own_part srv' = own_part srv \<Longrightarrow> trusted srv'"
  by (auto simp: trusted_def own_part_def)

lemma about_insert_other:
  "ml_insert now m h ml = Some (ml', c) \<Longrightarrow> k \<noteq> mb_id m \<Longrightarrow> about k ml' = about k ml"
  by (auto simp: ml_insert_def bind_eq_Some_conv apply_insert_def about_def health_of_by_id_def
      ml_increment_update_counter_def Let_def)

lemma about_insert_alive:
  assumes "ml_insert now m Alive ml = Some (ml', c)" and "about k ml \<in> {(None, None, None), (Some Alive, None, None)}"
  shows "about k ml' \<in> {(None, None, None), (Some Alive, None, None)}"
proof (cases "k = mb_id m")
  case True
  from assms(1) obtain fl where fl: "insert_decision m Alive ml = Some fl" and ml': "ml' = apply_insert now m Alive fl ml"
    by (auto simp: ml_insert_def bind_eq_Some_conv)
  from fl have "\<not> start_suspicion fl"
    by (auto simp: insert_decision_def same_incarnation_flags_def no_flags_def split: option.splits if_splits)
  with ml' assms(2) True show ?thesis
    by (auto simp: apply_insert_def about_def health_of_by_id_def ml_increment_update_counter_def Let_def)
qed (use assms about_insert_other in auto)

lemma about_insert_health_other [simp]:
  "k \<noteq> mid \<Longrightarrow> about k (fst (insert_health_by_id now mid h ml)) = about k ml"
  by (auto simp: insert_health_by_id_def about_def health_of_by_id_def ml_increment_update_counter_def Let_def)

lemma own_part_simps [simp]:
  "own_part (start_hot rk srv) = own_part srv"
  "own_part (set_el_store kind s srv) = own_part srv"
  "own_part (srv\<lparr>srv_service_store := ss\<rparr>) = own_part srv"
  "own_part (srv\<lparr>srv_service_config_store := ss\<rparr>) = own_part srv"
  "own_part (srv\<lparr>srv_service_file_store := ss\<rparr>) = own_part srv"
  "own_part (srv\<lparr>srv_departure_store := ss\<rparr>) = own_part srv"
  "own_part (update_swim_round srv) = own_part srv"
  "own_part (update_gossip_round srv) = own_part srv"
  "own_part (socket_bound srv) = own_part srv"
  "own_part (server_pause srv) = own_part srv"
  "own_part (add_to_blacklist k srv) = own_part srv"
  "own_part (remove_from_blacklist k srv) = own_part srv"
  by (simp_all add: own_part_def update_swim_round_def update_gossip_round_def socket_bound_def server_pause_def
      add_to_blacklist_def remove_from_blacklist_def split: option.split)

lemma own_part_same_but_heat: "same_but_heat srv srv' \<Longrightarrow> own_part srv' = own_part srv"
  by (auto simp: same_but_heat_def own_part_def)

lemma own_part_insert_member:
  "insert_member now m h srv = Some srv' \<Longrightarrow> mb_id m \<noteq> srv_member_id srv \<Longrightarrow> own_part srv' = own_part srv"
  using about_insert_other [of now m h "srv_member_list srv" _ _ "srv_member_id srv"]
  by (auto simp: insert_member_def Let_def bind_eq_Some_conv own_part_def split: if_splits)

lemma own_part_depart_member:
  "k \<noteq> srv_member_id srv \<Longrightarrow> own_part (depart_member now k srv) = own_part srv"
  by (auto simp: depart_member_def Let_def case_prod_beta own_part_def)
    (auto simp: depart_remove_def about_def health_of_by_id_def insert_health_by_id_def ml_increment_update_counter_def Let_def)

lemma own_part_start_election [simp]: "own_part (start_election_kind kind sg s trm srv) = own_part srv"
  by (simp add: start_election_kind_def Let_def)

lemma own_part_store_election [simp]: "own_part (store_election kind rk e srv) = own_part srv"
  by (simp add: store_election_def Let_def case_prod_beta)

lemma own_part_restart_loop [simp]: "own_part (fst (restart_loop kind suit xs srv)) = own_part srv"
  by (induction kind suit xs srv rule: restart_loop.induct) (auto simp: Let_def split: sum.split)

lemma own_part_restart:
  "restart_elections suit srv = Some srv' \<Longrightarrow> own_part srv' = own_part srv"
  by (auto simp: restart_elections_def Let_def case_prod_beta bind_eq_Some_conv split: if_splits)

lemma own_part_insert_election [simp]: "own_part (insert_election_kind kind suit e srv) = own_part srv"
  by (auto simp: insert_election_kind_def join_election_def Let_def split: sum.split)

lemma trusted_insert_member_from_rumor:
  assumes "trusted srv" and "insert_member_from_rumor now m h srv = Some srv'"
  shows "trusted srv' \<and> srv_member_id srv' = srv_member_id srv"
proof -
  let ?h = "if mb_id m = srv_member_id srv \<and> h \<noteq> Alive then Alive else h"
  from assms(2) obtain ml' c where ins: "ml_insert now m ?h (srv_member_list srv) = Some (ml', c)"
    and srv': "srv_member_list srv' = ml'" "srv_member_id srv' = srv_member_id srv"
      "mb_departed (srv_member srv') = mb_departed (srv_member srv)" "srv_departed srv' = srv_departed srv"
    by (auto simp: insert_member_from_rumor_def Let_def bind_eq_Some_conv split: if_splits)
  show ?thesis
  proof (cases "mb_id m = srv_member_id srv")
    case True
    with ins have "ml_insert now m Alive (srv_member_list srv) = Some (ml', c)" by (auto split: if_splits)
    from about_insert_alive [OF this] assms(1) srv' show ?thesis by (auto simp: trusted_def)
  next
    case False
    with about_insert_other [OF ins, of "srv_member_id srv"] assms(1) srv' show ?thesis by (auto simp: trusted_def)
  qed
qed

lemma trusted_insert_member_from_rumors:
  assumes "trusted srv" and "insert_member_from_rumors now ms srv = Some srv'"
  shows "trusted srv'"
  by (rule fold_opt_preserves [OF assms(2) [unfolded insert_member_from_rumors_def]])
    (use assms(1) trusted_insert_member_from_rumor in \<open>auto split: prod.splits\<close>)

lemma depart_member_keeps [simp]:
  "srv_member_id (depart_member now k srv) = srv_member_id srv"
  "srv_member (depart_member now k srv) = srv_member srv"
  "srv_departed (depart_member now k srv) = srv_departed srv"
  by (simp_all add: depart_member_def Let_def case_prod_beta)

lemma insert_service_keeps [simp]:
  "srv_member_id (insert_service now r srv) = srv_member_id srv"
  "srv_member (insert_service now r srv) = srv_member srv"
  "srv_departed (insert_service now r srv) = srv_departed srv"
  by (simp_all add: insert_service_def Let_def case_prod_beta
      fold_keeps [of srv_member_id] fold_keeps [of srv_member] fold_keeps [of srv_departed])

lemma trusted_insert_service:
  assumes "trusted srv"
  shows "trusted (insert_service now r srv)"
proof (cases "srv_departed srv \<or> mb_departed (srv_member srv)")
  case False
  let ?self = "srv_member_id srv"
  let ?g = "sv_service_group (get_service r)"
  have own: "about ?self (srv_member_list srv) \<in> {(None, None, None), (Some Alive, None, None)}"
    using assms False by (simp add: trusted_def)
  then have "?self \<notin> set (dead_members ?g srv)"
    by (auto simp: dead_members_def check_health_of_by_id_def about_def health_of_by_id_def)
  then have "about ?self (srv_member_list (fold (depart_member now) (take 1 (dead_members ?g srv)) srv)) =
      about ?self (srv_member_list srv)"
    using own_part_depart_member [of _ srv now]
    by (cases "dead_members ?g srv") (auto simp: own_part_def)
  with own show ?thesis by (simp add: trusted_def insert_service_member_list del: contains_rumor_iff)
qed (auto simp: trusted_def)

lemma trusted_insert_departure:
  assumes "trusted srv"
  shows "trusted (insert_departure now r srv)"
proof (cases "dp_member_id (get_departure r) = srv_member_id srv")
  case True
  then show ?thesis by (auto simp: trusted_def insert_departure_def Let_def case_prod_beta)
next
  case False
  then have "own_part (insert_departure now r srv) = own_part srv"
    by (simp add: insert_departure_def Let_def case_prod_beta own_part_depart_member)
  with assms show ?thesis by (rule trusted_own_part)
qed

text \<open>Expiring the timers of other members.\<close>

lemma expire_one_other:
  assumes "expire_one now timeout h timer (late, srv) = Some (late', srv')" and "k \<noteq> fst timer"
  shows "set late' \<subseteq> insert (fst timer) (set late) \<and> about k (srv_member_list srv') = about k (srv_member_list srv) \<and>
    srv_member_id srv' = srv_member_id srv \<and> srv_member srv' = srv_member srv \<and> srv_departed srv' = srv_departed srv"
  using assms by (auto simp: expire_one_def Let_def split: prod.splits if_splits option.splits)

lemma expire_all_other:
  assumes "fold_opt (expire_one now timeout h) timers (late, srv) = Some (late', srv')" and "k \<notin> fst ` set timers"
  shows "set late' \<subseteq> set late \<union> fst ` set timers \<and> about k (srv_member_list srv') = about k (srv_member_list srv) \<and>
    srv_member_id srv' = srv_member_id srv \<and> srv_member srv' = srv_member srv \<and> srv_departed srv' = srv_departed srv"
  using assms
proof (induction timers arbitrary: late srv)
  case (Cons timer timers)
  from Cons.prems(1) obtain late1 srv1 where
    one: "expire_one now timeout h timer (late, srv) = Some (late1, srv1)"
    and rest: "fold_opt (expire_one now timeout h) timers (late1, srv1) = Some (late', srv')"
    by (auto simp: bind_eq_Some_conv)
  from expire_one_other [OF one, of k] Cons.IH [OF rest] Cons.prems(2) show ?case by auto
qed simp

lemma about_expired_other:
  "k \<noteq> mid \<Longrightarrow> about k (ml_depart_at now mid (ml_expire mid ml)) = about k ml"
  "k \<noteq> mid \<Longrightarrow> about k (depart_remove mid ml) = about k ml"
  by (simp_all add: about_def health_of_by_id_def ml_depart_at_def ml_expire_def depart_remove_def)

lemma own_part_fold_other:
  assumes "\<And>mid ml. k \<noteq> mid \<Longrightarrow> about k (f mid ml) = about k ml" and "k \<notin> set late" and "k = srv_member_id srv"
  shows "own_part (fold (\<lambda>mid srv. start_hot (member_rumor_key mid) (srv\<lparr>srv_member_list := f mid (srv_member_list srv)\<rparr>)) late srv) =
    own_part srv"
  using assms(2, 3)
proof (induction late arbitrary: srv)
  case (Cons mid late)
  have "own_part (start_hot (member_rumor_key mid) (srv\<lparr>srv_member_list := f mid (srv_member_list srv)\<rparr>)) = own_part srv"
    using Cons.prems assms(1) by (simp add: own_part_def)
  with Cons.IH [of "start_hot (member_rumor_key mid) (srv\<lparr>srv_member_list := f mid (srv_member_list srv)\<rparr>)"] Cons.prems
  show ?case by simp
qed simp

lemma not_a_timer: "hm_get ts k = None \<Longrightarrow> k \<notin> fst ` set ts"
  by (auto simp: hm_get_def map_of_eq_None_iff)

lemma own_part_expire_suspects:
  assumes "expire_suspects t now srv = Some srv'" and "hm_get (ml_suspect (srv_member_list srv)) (srv_member_id srv) = None"
  shows "own_part srv' = own_part srv"
proof -
  from assms(1) obtain late srv1 where
    fold: "fold_opt (expire_one now (suspicion_timeout_duration t) Confirmed) (ml_suspect (srv_member_list srv)) ([], srv) = Some (late, srv1)"
    and srv': "srv' = fold (\<lambda>mid srv. start_hot (member_rumor_key mid)
      (srv\<lparr>srv_member_list := ml_depart_at now mid (ml_expire mid (srv_member_list srv))\<rparr>)) late srv1"
    by (auto simp: expire_suspects_def with_suspects_def bind_eq_Some_conv)
  from expire_all_other [OF fold not_a_timer [OF assms(2)]] not_a_timer [OF assms(2)]
  have "own_part srv1 = own_part srv" "srv_member_id srv \<notin> set late" "srv_member_id srv = srv_member_id srv1"
    by (auto simp: own_part_def)
  with own_part_fold_other [of "srv_member_id srv" "\<lambda>mid ml. ml_depart_at now mid (ml_expire mid ml)", OF about_expired_other(1)] srv'
  show ?thesis by simp
qed

lemma own_part_expire_departures:
  assumes "expire_departures t now srv = Some srv'" and "hm_get (ml_depart (srv_member_list srv)) (srv_member_id srv) = None"
  shows "own_part srv' = own_part srv"
proof -
  from assms(1) obtain late srv1 where
    fold: "fold_opt (expire_one now (departure_timeout_duration t) Departed) (ml_depart (srv_member_list srv)) ([], srv) = Some (late, srv1)"
    and srv': "srv' = fold (\<lambda>mid srv. start_hot (member_rumor_key mid)
      (srv\<lparr>srv_member_list := depart_remove mid (srv_member_list srv)\<rparr>)) late srv1"
    by (auto simp: expire_departures_def with_departures_def bind_eq_Some_conv)
  from expire_all_other [OF fold not_a_timer [OF assms(2)]] not_a_timer [OF assms(2)]
  have "own_part srv1 = own_part srv" "srv_member_id srv \<notin> set late" "srv_member_id srv = srv_member_id srv1"
    by (auto simp: own_part_def)
  with own_part_fold_other [of "srv_member_id srv" depart_remove, OF about_expired_other(2)] srv'
  show ?thesis by simp
qed

definition departed_flags :: "server \<Rightarrow> string \<times> bool \<times> bool" where
  "departed_flags srv = (srv_member_id srv, mb_departed (srv_member srv), srv_departed srv)"

lemma departed_flags_expire:
  assumes "expire_pass t now srv = Some srv'"
  shows "departed_flags srv' = departed_flags srv"
proof -
  have one: "departed_flags (snd acc') = departed_flags (snd acc)"
    if "expire_one now timeout h timer acc = Some acc'" for timeout h timer acc acc'
    using that by (auto simp: expire_one_def departed_flags_def Let_def split: prod.splits if_splits option.splits)
  have all: "departed_flags srv2 = departed_flags srv1"
    if "fold_opt (expire_one now timeout h) timers (late1, srv1) = Some (late2, srv2)" for timeout h timers late1 late2 srv1 srv2
    using fold_opt_preserves [OF that, of "\<lambda>acc. departed_flags (snd acc) = departed_flags srv1"] one by auto
  have finish: "departed_flags (start_hot rk (s\<lparr>srv_member_list := ml\<rparr>)) = departed_flags s" for rk s ml
    by (simp add: departed_flags_def)
  from assms show ?thesis
    by (auto simp: expire_pass_def expire_suspects_def expire_departures_def bind_eq_Some_conv
        fold_keeps [of departed_flags] finish dest!: all)
qed

lemma trusted_expire_pass:
  assumes "trusted srv" and "expire_pass t now srv = Some srv'"
  shows "trusted srv'"
proof (cases "srv_departed srv \<or> mb_departed (srv_member srv)")
  case True
  with departed_flags_expire [OF assms(2)] show ?thesis by (auto simp: departed_flags_def trusted_def)
next
  case False
  with assms(1) have own: "about (srv_member_id srv) (srv_member_list srv) \<in> {(None, None, None), (Some Alive, None, None)}"
    by (simp add: trusted_def)
  from assms(2) obtain srv1 where srv1: "expire_suspects t now srv = Some srv1" "expire_departures t now srv1 = Some srv'"
    by (auto simp: expire_pass_def bind_eq_Some_conv)
  have eq1: "own_part srv1 = own_part srv"
    by (rule own_part_expire_suspects [OF srv1(1)]) (use own in \<open>auto simp: about_def\<close>)
  moreover have "own_part srv' = own_part srv1"
    by (rule own_part_expire_departures [OF srv1(2)]) (use own eq1 in \<open>auto simp: about_def own_part_def\<close>)
  ultimately show ?thesis using trusted_own_part [OF assms(1)] by simp
qed

interpretation self_trust: server_invariant trusted "\<lambda>self k. k \<noteq> self"
proof unfold_locales
  fix srv srv' m now h
  show "trusted srv \<Longrightarrow> same_but_heat srv srv' \<Longrightarrow> trusted srv'"
    by (rule trusted_own_part [OF _ own_part_same_but_heat])
  show "trusted srv \<Longrightarrow> mb_id m \<noteq> srv_member_id srv \<Longrightarrow> insert_member now m h srv = Some srv' \<Longrightarrow> trusted srv'"
    by (rule trusted_own_part [OF _ own_part_insert_member])
  show "trusted srv \<Longrightarrow> trusted (update_swim_round srv)" by (rule trusted_own_part) simp_all
qed

text \<open>No ping and no acknowledgement claims to come from the server itself.\<close>

fun not_impersonated :: "string \<Rightarrow> server_event \<Rightarrow> bool" where
  "not_impersonated self (SwimReceived now addr (Inr msg)) \<longleftrightarrow>
     sw_type msg = PING \<longrightarrow> mb_id (pm_from (get_ping msg)) \<noteq> self"
| "not_impersonated self (OutboundRound t inp have_members) \<longleftrightarrow>
     (\<forall>k. Some self \<notin> acker_of ` set (pb_events (inp k)))"
| "not_impersonated self ev \<longleftrightarrow> True"

lemma trusted_inbound_step:
  assumes "trusted srv" and "not_impersonated (srv_member_id srv) (SwimReceived now addr received)"
    and "inbound_step parse now addr received srv = Some h"
  shows "trusted (hd_server h)"
proof (cases rule: inbound_step_cases [of parse now addr received srv])
  case 1
  with assms show ?thesis by (auto simp: handled_only_def)
next
  case (2 msg)
  let ?srv = "fst (send_ack (pm_from (get_ping msg)) addr (pm_forward_to (get_ping msg)) srv)"
  have srv: "trusted ?srv" "srv_member_id ?srv = srv_member_id srv"
    using self_trust.heat [OF assms(1) same_but_heat_send(2)] same_but_heat_keeps(2) [OF same_but_heat_send(2)] by auto
  from 2 assms(3) obtain srv1 where ins: "insert_member now ((pm_from (get_ping msg))\<lparr>mb_address := fst addr\<rparr>)
      (if mb_departed (pm_from (get_ping msg)) then Departed else Alive) ?srv = Some srv1"
    and "insert_member_from_rumors now (memberships msg) srv1 = Some (hd_server h)"
    by (auto simp: process_ping_def Let_def case_prod_beta bind_eq_Some_conv handled_only_def)
  moreover have "trusted srv1"
    by (rule self_trust.member [OF srv(1) _ ins]) (use 2 assms(2) srv(2) in auto)
  ultimately show ?thesis using trusted_insert_member_from_rumors by blast
next
  case (3 msg)
  with assms(3) have "process_ack parse now addr msg srv = Some h" by simp
  with assms(1) trusted_insert_member_from_rumors [OF assms(1), of now "memberships msg"] show ?thesis
    by (auto simp: process_ack_def Let_def forward_ack_def handled_only_def bind_eq_Some_conv split: option.splits if_splits)
next
  case (4 msg)
  with assms(3) have "process_pingreq parse addr msg srv = Some h" by simp
  with assms(1) self_trust.heat [OF assms(1) same_but_heat_send(1)] show ?thesis
    by (auto simp: process_pingreq_def Let_def case_prod_beta handled_only_def bind_eq_Some_conv split: option.splits)
qed

lemma own_part_stores [simp]:
  "own_part (insert_service_config r srv) = own_part srv"
  "own_part (insert_service_file r srv) = own_part srv"
  by (simp_all add: insert_service_config_def insert_service_file_def Let_def case_prod_beta)

lemma trusted_pull_step:
  assumes "trusted srv" and "pull_step suit now received srv = Some srv'"
  shows "trusted srv'"
  using assms(2) trusted_insert_member_from_rumor [OF assms(1)] assms(1)
  by (auto simp: pull_step_def insert_election_def insert_update_election_def
      intro: trusted_insert_service trusted_insert_departure trusted_own_part [OF assms(1)]
      split: sum.splits rumor_type.splits if_splits)

lemma trusted_set_departed:
  assumes "trusted srv" and "set_departed parse shuffle now srv = Some (srv', ps)"
  shows "trusted srv'"
proof (cases "srv_has_socket srv")
  case True
  with set_departed_cases [OF assms(2)] have "same_but_heat (departing now srv) srv'" by simp
  then show ?thesis by (simp add: trusted_def same_but_heat_keeps) (simp add: departing_def)
qed (use set_departed_cases [OF assms(2)] assms(1) in simp)

lemma own_part_push_round:
  assumes "server_inv srv" and "push_round connected shuffle srv = Some (srv', ps)"
  shows "own_part srv' = own_part srv"
proof -
  have inv: "server_inv (update_gossip_round srv)" using assms(1) by (rule server_inv_round)
  have "own_part srv2 = own_part srv" if "push_fanout connected ms (update_gossip_round srv) = Some (srv2, qs)" for ms srv2 qs
    using push_fanout_total [OF inv, of connected ms] own_part_same_but_heat that by fastforce
  with assms(2) show ?thesis by (auto simp: push_round_def Let_def split: if_splits)
qed

lemma trusted_exec:
  assumes "server_inv srv" and "trusted srv" and "\<And>xs. set (shuffle xs) \<subseteq> set xs"
    and "not_impersonated (srv_member_id srv) ev" and "server_exec parse suit shuffle ev srv = Some srv'"
  shows "trusted srv'"
proof (cases ev)
  case (SwimReceived now addr received)
  with assms(5) obtain h where "inbound_step parse now addr received srv = Some h" "srv' = hd_server h" by auto
  with trusted_inbound_step [OF assms(2) assms(4) [unfolded SwimReceived]] show ?thesis by simp
next
  case (RumorReceived now received)
  with assms(5) trusted_pull_step [OF assms(2)] show ?thesis by simp
next
  case (OutboundRound t inp have_members)
  with assms(5) obtain hv ps where "outbound_round parse shuffle t inp have_members srv = Some (hv, srv', ps)" by auto
  then show ?thesis
    by (rule self_trust.outbound_round_invariant [OF assms(2) server_inv_parts(5) [OF assms(1)] assms(3), rotated 2])
      (use OutboundRound assms(4) in \<open>force+\<close>)
next
  case (PushRound connected)
  with assms(5) obtain ps where "push_round connected shuffle srv = Some (srv', ps)" by auto
  from own_part_push_round [OF assms(1) this] show ?thesis by (rule trusted_own_part [OF assms(2)])
next
  case (ExpirePass t now)
  with assms(5) trusted_expire_pass [OF assms(2)] show ?thesis by simp
next
  case (SetDeparted now)
  with assms(5) trusted_set_departed [OF assms(2)] show ?thesis by auto
next
  case (LocalService now r)
  with assms(5) trusted_insert_service [OF assms(2)] show ?thesis by auto
next
  case (LocalDeparture now r)
  with assms(5) trusted_insert_departure [OF assms(2)] show ?thesis by auto
next
  case (InitialMembers ms)
  with assms(2, 5) show ?thesis
    by (auto simp: trusted_def set_initial_members_def about_def health_of_by_id_def)
qed (use assms(5) in \<open>auto simp: start_election_def start_update_election_def
    intro: trusted_own_part [OF assms(2)] own_part_restart\<close>)

end
