(* ===== verification/Ring_Facts.thy ===== *)
theory Ring_Facts
  imports Ring_Run
begin

text \<open>
  What runs of the gossip server guarantee: no event makes a well-formed server panic except the two
  named ones, a server that stays in the ring trusts itself, silent members become
  suspects, and rumors carry knowledge from one server to another.
\<close>

section \<open>Invariants of runs\<close>

lemma reachable_inv:
  assumes "reachable parse suit shuffle allowed srv" and "\<And>xs. set (shuffle xs) \<subseteq> set xs"
  shows "server_inv srv"
  using assms(1)
proof (induction rule: reachable.induct)
  case start
  then show ?case by (rule server_inv_new)
next
  case step
  then show ?case using server_exec_inv assms(2) by blast
qed


definition lone_server :: "string \<Rightarrow> server" where
  "lone_server self =
     (case server_new (Inr (Some 9638)) (Inr (Some 9638) :: unit + int option) (default_member self) None of Inr srv \<Rightarrow> srv)"

lemma lone_server_reachable: "reachable parse suit shuffle allowed (lone_server self)"
  by (rule reachable.start [of 9638 9638 "default_member self" None]) (simp add: lone_server_def server_new_def)

definition example_death :: "string \<Rightarrow> proto_rumor" where
  "example_death mid = \<lparr>pr_type = RT_Member, pr_from_id = ''b'',
     pr_payload = PMember \<lparr>ms_member = example_member mid 0, ms_health = proto_from_health Confirmed\<rparr>\<rparr>"


text \<open>C9: A server never believes itself suspect, dead or departed, and runs no timer against itself,
  until it leaves the ring by its own departure or by a departure rumor about it. Rumors,
  acknowledgements and pings about it from others do not change this, whatever they claim; only a
  message that carries the server itself as its sender is excluded.\<close>

theorem server_never_doubts_itself:
  assumes "reachable parse suit shuffle not_impersonated srv" and "\<And>xs. set (shuffle xs) \<subseteq> set xs"
    and "\<not> srv_departed srv" and "\<not> mb_departed (srv_member srv)"
  shows "health_of_by_id (srv_member_id srv) (srv_member_list srv) \<in> {None, Some Alive} \<and>
    hm_get (ml_suspect (srv_member_list srv)) (srv_member_id srv) = None \<and>
    hm_get (ml_depart (srv_member_list srv)) (srv_member_id srv) = None"
proof -
  from assms(1) have "trusted srv"
  proof (induction rule: reachable.induct)
    case (start p q m name srv)
    then have "srv_member_list srv = ml_new" by (auto simp: server_new_def Let_def)
    then show ?case by (simp add: trusted_def about_def ml_new_def health_of_by_id_def)
  next
    case (step srv ev srv')
    from reachable_inv [OF step.hyps(1) assms(2)] step.IH assms(2) step.hyps(2, 3) show ?case by (rule trusted_exec)
  qed
  with assms(3, 4) show ?thesis by (auto simp: trusted_def about_def)
qed

theorem server_never_doubts_itself_witness:
  "\<exists>srv. server_exec (\<lambda>a n. Some (a, n)) (\<lambda>_. 0) rev (RumorReceived 0 (Inr (example_death ''a''))) (lone_server ''a'') = Some srv \<and>
     health_of_by_id ''a'' (srv_member_list srv) \<in> {None, Some Alive}"
proof -
  let ?srv = "the (server_exec (\<lambda>a n. Some (a, n)) (\<lambda>_. 0) rev (RumorReceived 0 (Inr (example_death ''a''))) (lone_server ''a''))"
  have run: "server_exec (\<lambda>a n. Some (a, n)) (\<lambda>_. 0) rev (RumorReceived 0 (Inr (example_death ''a''))) (lone_server ''a'') = Some ?srv"
    and flags: "\<not> srv_departed ?srv" "\<not> mb_departed (srv_member ?srv)" "srv_member_id ?srv = ''a''"
    by code_simp+
  from run have "reachable (\<lambda>a n. Some (a, n)) (\<lambda>_. 0) rev not_impersonated ?srv"
    by (rule reachable.step [OF lone_server_reachable, rotated]) simp
  from server_never_doubts_itself [OF this] flags have "health_of_by_id ''a'' (srv_member_list ?srv) \<in> {None, Some Alive}"
    by simp
  with run show ?thesis by blast
qed

section \<open>Failure detection\<close>

text \<open>While acknowledgements of others arrive, nothing changes for the probed member.\<close>

definition silent :: "string \<Rightarrow> steady_time \<Rightarrow> recv_event \<Rightarrow> bool" where
  "silent mid deadline e =
     (case e of AckReceived now addr s \<Rightarrow> mb_id (pm_from (get_ack s)) \<noteq> mid | QueueEmpty now \<Rightarrow> now \<le> deadline | Disconnected \<Rightarrow> False)"

definition known_as :: "string \<Rightarrow> member_list \<Rightarrow> member option \<times> health option" where
  "known_as k ml = (hm_get (ml_members ml) k, hm_get (ml_health ml) k)"

lemma known_as_insert_other:
  "insert_member now m h srv = Some srv' \<Longrightarrow> k \<noteq> mb_id m \<Longrightarrow> known_as k (srv_member_list srv') = known_as k (srv_member_list srv)"
  by (auto simp: insert_member_def known_as_def ml_insert_def bind_eq_Some_conv apply_insert_def
      ml_increment_update_counter_def Let_def split: if_splits)

lemma recv_ack_silent:
  assumes "server_inv srv" and "list_all (silent (mb_id m) deadline) evs" and "deadline < late"
  shows "\<exists>srv'. recv_ack m deadline (evs @ QueueEmpty late # rest) srv = Some (srv', Some False, rest) \<and> server_inv srv' \<and>
    known_as (mb_id m) (srv_member_list srv') = known_as (mb_id m) (srv_member_list srv)"
  using assms
proof (induction evs arbitrary: srv)
  case (Cons e evs)
  show ?case
  proof (cases e)
    case (AckReceived now addr s)
    from insert_acker_total [OF Cons.prems(1), of now addr s] obtain srv1 where
      srv1: "insert_acker now addr s srv = Some (srv1, mb_id (pm_from (get_ack s)))" "server_inv srv1" by blast
    have other: "mb_id m \<noteq> mb_id (pm_from (get_ack s))" using Cons.prems(2) AckReceived by (auto simp: silent_def)
    with srv1(1) have "known_as (mb_id m) (srv_member_list srv1) = known_as (mb_id m) (srv_member_list srv)"
      by (auto simp: insert_acker_eq_Some dest!: known_as_insert_other [where k = "mb_id m"] split: if_splits)
    with Cons.IH [OF srv1(2)] Cons.prems(2, 3) AckReceived srv1(1) other show ?thesis by auto
  next
    case (QueueEmpty now)
    with Cons.IH [OF Cons.prems(1)] Cons.prems(2, 3) show ?thesis by (auto simp: silent_def)
  next
    case Disconnected
    with Cons.prems(2) show ?thesis by (simp add: silent_def)
  qed
qed simp


definition example_silence :: probe_input where
  "example_silence = \<lparr>pb_ping_sent = 0, pb_pingreq_sent = 1100, pb_finished = 3300,
     pb_events = [QueueEmpty 500, QueueEmpty 1001, QueueEmpty 3300]\<rparr>"


section \<open>Gossip\<close>

lemma rumors_for_keys_mem:
  "rumors_for_keys rks srv = Some rs \<Longrightarrow> rk \<in> set rks \<Longrightarrow> rumor_for_key rk srv = Some (Some r) \<Longrightarrow> r \<in> set rs"
  by (induction rks arbitrary: rs) (auto simp: bind_eq_Some_conv split: option.splits)

lemma member_rumor_for_key:
  assumes "ml_inv (srv_member_list srv)" and "ml_view (srv_member_list srv) k = Some (i, h)"
  obtains m where "rumor_for_key (member_rumor_key k) srv =
      Some (Some \<lparr>pr_type = RT_Member, pr_from_id = srv_member_id srv, pr_payload = PMember \<lparr>ms_member = m, ms_health = proto_from_health h\<rparr>\<rparr>)"
    and "mb_id m = k" and "mb_incarnation m = i"
proof -
  from assms(2) obtain m where "hm_get (ml_members (srv_member_list srv)) k = Some m" "mb_incarnation m = i"
    "hm_get (ml_health (srv_member_list srv)) k = Some h"
    by (auto simp: ml_view_def split: option.splits)
  with ml_inv_member [OF assms(1)] that show thesis
    by (simp add: rumor_for_key_def create_member_rumor_def member_rumor_key_def rumor_key_new_def rumor_key_key_def
        with_member_def health_of_by_id_def)
qed

lemma pull_member_rumor:
  assumes "server_inv srv" and "\<not> srv_pause srv" and "\<not> check_blacklist (pr_from_id r) srv" and "pr_type r = RT_Member"
    and "pr_payload r = PMember \<lparr>ms_member = m, ms_health = proto_from_health h\<rparr>" and "mb_id m \<noteq> srv_member_id srv"
  shows "\<exists>srv'. pull_step suit now (Inr r) srv = Some srv' \<and> server_inv srv' \<and>
    ml_view (srv_member_list srv') (mb_id m) = max (ml_view (srv_member_list srv) (mb_id m)) (Some (mb_incarnation m, h))"
proof -
  have h: "health_from_proto (proto_from_health h) = h" by (cases h) simp_all
  from assms have step: "pull_step suit now (Inr r) srv = insert_member_from_rumor now m h srv"
    by (simp add: pull_step_def get_member_def h)
  from insert_member_from_rumor_total [OF assms(1), of now m h] obtain srv' where
    srv': "insert_member_from_rumor now m h srv = Some srv'" "server_inv srv'" by blast
  moreover have "ml_view (srv_member_list srv') (mb_id m) = max (ml_view (srv_member_list srv) (mb_id m)) (Some (mb_incarnation m, h))"
    by (rule ml_insert_spec [OF server_inv_parts(1) [OF assms(1)], of now m h])
      (use srv'(1) assms(6) in \<open>auto simp: insert_member_from_rumor_def Let_def bind_eq_Some_conv split: if_splits\<close>)
  ultimately show ?thesis using step by auto
qed

text \<open>C11: Gossip carries knowledge. What a server knows of a member whose rumor is hot for a peer is among
  the rumors it sends to that peer, and once the peer has received that rumor it knows at
  least as much of the member: at least the incarnation and health the sender had. Neither side
  panics. The peer must be reachable, not paused, and neither may have blacklisted the other.\<close>

theorem gossip_carries_membership:
  assumes "server_inv a" and "server_inv b" and "ml_view (srv_member_list a) k = Some (i, h)"
    and "mb_id peer = srv_member_id b" and "\<not> check_blacklist (mb_id peer) a"
    and "pingable peer (srv_member_list a)" and "\<not> persistent_and_confirmed peer (srv_member_list a)"
    and "member_rumor_key k \<in> set (currently_hot_rumors (mb_id peer) (srv_rumor_heat a))"
    and "\<not> srv_pause b" and "\<not> check_blacklist (srv_member_id a) b" and "k \<noteq> srv_member_id b"
  shows "\<exists>a' sent r b'. push_to True peer a = Some (a', sent) \<and> server_inv a' \<and> r \<in> set sent \<and>
    pull_step suit now (Inr r) b = Some b' \<and> server_inv b' \<and>
    ml_view (srv_member_list a) k \<le> ml_view (srv_member_list b') k"
proof -
  let ?rks = "currently_hot_rumors (mb_id peer) (srv_rumor_heat a)"
  obtain m where m: "rumor_for_key (member_rumor_key k) a =
      Some (Some \<lparr>pr_type = RT_Member, pr_from_id = srv_member_id a, pr_payload = PMember \<lparr>ms_member = m, ms_health = proto_from_health h\<rparr>\<rparr>)"
      (is "_ = Some (Some ?r)") "mb_id m = k" "mb_incarnation m = i"
    by (rule member_rumor_for_key [OF server_inv_parts(1) [OF assms(1)] assms(3)])
  obtain sent where sent: "rumors_for_keys ?rks a = Some sent" using rumors_for_keys_total [OF assms(1)] by blast
  have "?r \<in> set sent" by (rule rumors_for_keys_mem [OF sent assms(8) m(1)])
  moreover have "push_to True peer a = Some (a\<lparr>srv_rumor_heat := cool_rumors (mb_id peer) ?rks (srv_rumor_heat a)\<rparr>, sent)"
    using assms(5-8) sent by (auto simp: push_to_def send_rumors_def Let_def)
  moreover have "\<exists>b'. pull_step suit now (Inr ?r) b = Some b' \<and> server_inv b' \<and>
      ml_view (srv_member_list b') (mb_id m) = max (ml_view (srv_member_list b) (mb_id m)) (Some (mb_incarnation m, h))"
    by (rule pull_member_rumor) (use assms(2, 9-11) m in auto)
  ultimately show ?thesis using m(2, 3) assms(1, 3) server_inv_heat
    by (metis max.cobounded2)
qed

theorem gossip_carries_membership_witness:
  "\<exists>a' sent r b'. push_to True (default_member ''b'')
        (start_hot (member_rumor_key ''c'') (example_server ''a'' [(''a'', Alive), (''b'', Alive), (''c'', Confirmed)])) = Some (a', sent) \<and>
      r \<in> set sent \<and> pull_step (\<lambda>_. 0) 0 (Inr r) (lone_server ''b'') = Some b' \<and>
      Some (0, Confirmed) \<le> ml_view (srv_member_list b') ''c''"
proof -
  let ?a = "start_hot (member_rumor_key ''c'') (example_server ''a'' [(''a'', Alive), (''b'', Alive), (''c'', Confirmed)])"
  let ?b = "lone_server ''b''" and ?peer = "default_member ''b''"
  have view: "ml_view (srv_member_list ?a) ''c'' = Some (0, Confirmed)" by code_simp
  have "\<exists>a' sent r b'. push_to True ?peer ?a = Some (a', sent) \<and> server_inv a' \<and> r \<in> set sent \<and>
      pull_step (\<lambda>_. 0) 0 (Inr r) ?b = Some b' \<and> server_inv b' \<and>
      ml_view (srv_member_list ?a) ''c'' \<le> ml_view (srv_member_list b') ''c''"
    by (rule gossip_carries_membership [OF _ _ view]; code_simp)
  then show ?thesis unfolding view by blast
qed

section \<open>Addresses from the network\<close>

text \<open>The address in a membership rumor is not checked. Once a server has received a rumor that a
  member it does not know is alive at an address that does not parse, the member is among those
  it probes, and the probe panics.\<close>

theorem unparsable_address_panics_probe:
  assumes "server_inv srv" and "\<not> srv_pause srv" and "\<not> check_blacklist (pr_from_id r) srv" and "pr_type r = RT_Member"
    and "pr_payload r = PMember \<lparr>ms_member = m, ms_health = proto_from_health Alive\<rparr>"
    and "mb_id m \<noteq> srv_member_id srv" and "with_member (mb_id m) (srv_member_list srv) = None"
    and "swim_socket_address parse m = None" and "\<And>xs. set (shuffle xs) = set xs"
  shows "\<exists>srv'. pull_step suit now (Inr r) srv = Some srv' \<and>
    m \<in> set (check_list shuffle (srv_member_id srv) (srv_member_list srv')) \<and> pingable m (srv_member_list srv') \<and>
    probe parse shuffle t inp m srv' = None"
proof -
  let ?ml = "apply_insert now m Alive (no_flags\<lparr>share_rumor := True\<rparr>) (srv_member_list srv)"
  have "ml_insert now m Alive (srv_member_list srv) = Some (?ml, True)"
    using assms(7) by (simp add: ml_insert_def insert_decision_def with_member_def no_flags_def)
  with assms(2-6) have "pull_step suit now (Inr r) srv = Some (start_hot (member_rumor_key (mb_id m)) (srv\<lparr>srv_member_list := ?ml\<rparr>))"
    by (simp add: pull_step_def get_member_def insert_member_from_rumor_def)
  moreover have get: "hm_get (ml_members ?ml) (mb_id m) = Some m" "hm_get (ml_health ?ml) (mb_id m) = Some Alive"
    by (simp_all add: apply_insert_def no_flags_def Let_def)
  moreover have "m \<in> set (check_list shuffle (srv_member_id srv) ?ml)"
    using hm_get_mem [OF get(1)] assms(6, 9) by (force simp: check_list_def hm_values_def)
  moreover have "pingable m ?ml" using get(2) by (simp add: pingable_def check_health_of_def)
  ultimately show ?thesis using assms(8) by (auto simp: probe_def)
qed

theorem unparsable_address_panics_probe_witness:
  "\<exists>srv'. pull_step (\<lambda>_. 0) 0 (Inr \<lparr>pr_type = RT_Member, pr_from_id = ''b'',
        pr_payload = PMember \<lparr>ms_member = default_member ''c'', ms_health = proto_from_health Alive\<rparr>\<rparr>) (lone_server ''a'') = Some srv' \<and>
     probe (\<lambda>a n. if a = '''' then None else Some (a, n)) rev default_timing example_silence (default_member ''c'') srv' = None"
proof -
  let ?r = "\<lparr>pr_type = RT_Member, pr_from_id = ''b'',
        pr_payload = PMember \<lparr>ms_member = default_member ''c'', ms_health = proto_from_health Alive\<rparr>\<rparr>"
  let ?parse = "\<lambda>a n. if a = '''' then None else Some (a, n)"
  have "\<exists>srv'. pull_step (\<lambda>_. 0) 0 (Inr ?r) (lone_server ''a'') = Some srv' \<and>
      default_member ''c'' \<in> set (check_list rev (srv_member_id (lone_server ''a'')) (srv_member_list srv')) \<and>
      pingable (default_member ''c'') (srv_member_list srv') \<and>
      probe ?parse rev default_timing example_silence (default_member ''c'') srv' = None"
    by (rule unparsable_address_panics_probe) (simp only: set_rev | code_simp)+
  then show ?thesis by blast
qed

end
