(* ===== verification/Census.thy ===== *)
theory Census
  imports Server_Facts
begin

text \<open>
  The census of the supervisor, \<open>components/sup/src/census.rs\<close>: the view of the services of the ring
  that is rebuilt from the rumor stores whenever one of them has changed. The parsers of
  configurations and the decryption of rumors are arguments, collected in a record. A \<open>BTreeMap\<close>
  is a map whose values are visited in the order of its keys; \<open>None\<close> is a panic.
\<close>

section \<open>Data\<close>

definition bt_values :: "('k::linorder, 'v) hmap \<Rightarrow> 'v list" where
  "bt_values m = map snd (sort_key fst m)"

datatype census_election_status = ElectionNone | ElectionInProgress | ElectionNoQuorum | ElectionFinished

fun census_status_to_string :: "census_election_status \<Rightarrow> string" where
  "census_status_to_string ElectionInProgress = ''in-progress''"
| "census_status_to_string ElectionNoQuorum = ''no-quorum''"
| "census_status_to_string ElectionFinished = ''finished''"
| "census_status_to_string ElectionNone = ''none''"

datatype census_error = BadElectionStatus string

definition census_status_from_str :: "string \<Rightarrow> census_error + census_election_status" where
  "census_status_from_str value =
     (let v = ascii_lowercase value
      in if v = ''in-progress'' then Inr ElectionInProgress
         else if v = ''no-quorum'' then Inr ElectionNoQuorum
         else if v = ''finished'' then Inr ElectionFinished
         else if v = ''none'' then Inr ElectionNone
         else Inl (BadElectionStatus value))"

fun census_status :: "election_status \<Rightarrow> census_election_status" where
  "census_status Running = ElectionInProgress"
| "census_status NoQuorum = ElectionNoQuorum"
| "census_status Finished = ElectionFinished"

record census_file =
  cf_filename :: string
  cf_incarnation :: u64
  cf_body :: bytes

record 't census_config =
  cc_incarnation :: u64
  cc_value :: 't

record 't census_member =
  cm_member_id :: string
  cm_pkg :: "package_ident option"
  cm_application :: "string option"
  cm_environment :: "string option"
  cm_service :: string
  cm_group :: string
  cm_org :: "string option"
  cm_persistent :: bool
  cm_leader :: bool
  cm_follower :: bool
  cm_update_leader :: bool
  cm_update_follower :: bool
  cm_election_is_running :: bool
  cm_election_is_no_quorum :: bool
  cm_election_is_finished :: bool
  cm_update_election_is_running :: bool
  cm_update_election_is_no_quorum :: bool
  cm_update_election_is_finished :: bool
  cm_sys :: sys_info
  cm_alive :: bool
  cm_suspect :: bool
  cm_confirmed :: bool
  cm_departed :: bool
  cm_cfg :: 't

record 't census_group =
  cg_service_group :: service_group
  cg_election_status :: census_election_status
  cg_update_election_status :: census_election_status
  cg_leader_id :: "string option"
  cg_service_config :: "'t census_config option"
  cg_local_member_id :: string
  cg_population :: "(string, 't census_member) hmap"
  cg_update_leader_id :: "string option"
  cg_changed_service_files :: "string list"
  cg_service_files :: "(string, census_file) hmap"

record 't census_ring =
  cr_changed :: bool
  cr_census_groups :: "(service_group, 't census_group) hmap"
  cr_local_member_id :: string
  cr_last_service_counter :: usize
  cr_last_election_counter :: usize
  cr_last_election_update_counter :: usize
  cr_last_membership_counter :: usize
  cr_last_service_config_counter :: usize
  cr_last_service_file_counter :: usize

text \<open>What reads the contents of rumors: tables of a service, configurations, and file bodies.\<close>

record ('e, 't) census_env =
  ce_read_cfg :: "bytes \<Rightarrow> 't"
  ce_no_cfg :: 't
  ce_config :: "proto_rumor \<Rightarrow> 'e + 't"
  ce_body :: "proto_rumor \<Rightarrow> 'e + bytes"

definition default_census_member :: "'t \<Rightarrow> 't census_member" where
  "default_census_member no_cfg =
     \<lparr>cm_member_id = '''', cm_pkg = None, cm_application = None, cm_environment = None, cm_service = '''',
      cm_group = '''', cm_org = None, cm_persistent = False, cm_leader = False, cm_follower = False,
      cm_update_leader = False, cm_update_follower = False, cm_election_is_running = False,
      cm_election_is_no_quorum = False, cm_election_is_finished = False, cm_update_election_is_running = False,
      cm_update_election_is_no_quorum = False, cm_update_election_is_finished = False, cm_sys = default_sys_info,
      cm_alive = False, cm_suspect = False, cm_confirmed = False, cm_departed = False, cm_cfg = no_cfg\<rparr>"

definition default_census_file :: census_file where
  "default_census_file = \<lparr>cf_filename = '''', cf_incarnation = 0, cf_body = []\<rparr>"

definition census_group_new :: "service_group \<Rightarrow> string \<Rightarrow> 't census_group" where
  "census_group_new sg local_member_id =
     \<lparr>cg_service_group = sg, cg_election_status = ElectionNone, cg_update_election_status = ElectionNone,
      cg_leader_id = None, cg_service_config = None, cg_local_member_id = local_member_id, cg_population = hm_new,
      cg_update_leader_id = None, cg_changed_service_files = [], cg_service_files = hm_new\<rparr>"

definition census_ring_new :: "string \<Rightarrow> 't census_ring" where
  "census_ring_new local_member_id =
     \<lparr>cr_changed = False, cr_census_groups = hm_new, cr_local_member_id = local_member_id,
      cr_last_service_counter = 0, cr_last_election_counter = 0, cr_last_election_update_counter = 0,
      cr_last_membership_counter = 0, cr_last_service_config_counter = 0, cr_last_service_file_counter = 0\<rparr>"

section \<open>Members\<close>

definition cm_update_from_service_rumor ::
  "('e, 't) census_env \<Rightarrow> service_group \<Rightarrow> proto_rumor \<Rightarrow> 't census_member \<Rightarrow> 't census_member option" where
  "cm_update_from_service_rumor env sg rumor cm =
     do { service \<leftarrow> sg_service sg;
          grp \<leftarrow> sg_group sg;
          org \<leftarrow> sg_org sg;
          appenv \<leftarrow> sg_application_environment sg;
          let s = get_service rumor;
          let cm = cm\<lparr>cm_member_id := sv_member_id s, cm_service := service, cm_group := grp\<rparr>;
          let cm = (case org of Some org \<Rightarrow> cm\<lparr>cm_org := Some org\<rparr> | None \<Rightarrow> cm);
          cm \<leftarrow> (case appenv of
             Some ae \<Rightarrow> do { app \<leftarrow> ae_application ae; envr \<leftarrow> ae_environment ae;
                             Some (cm\<lparr>cm_application := Some app, cm_environment := Some envr\<rparr>) }
           | None \<Rightarrow> Some cm);
          let cm = (case ident_from_str (sv_pkg s) of Inr ident \<Rightarrow> cm\<lparr>cm_pkg := Some ident\<rparr> | Inl _ \<Rightarrow> cm);
          Some (cm\<lparr>cm_sys := sv_sys s, cm_cfg := ce_read_cfg env (sv_cfg s)\<rparr>) }"

definition cm_update_from_election_rumor :: "proto_rumor \<Rightarrow> 't census_member \<Rightarrow> 't census_member" where
  "cm_update_from_election_rumor election cm =
     (let e = get_election election;
          cm = cm\<lparr>cm_election_is_running := (el_status e = Running),
                  cm_election_is_no_quorum := (el_status e = NoQuorum),
                  cm_election_is_finished := (el_status e = Finished)\<rparr>
      in if cm_election_is_finished cm then
           if cm_member_id cm = el_member_id e then cm\<lparr>cm_leader := True, cm_follower := False\<rparr>
           else cm\<lparr>cm_leader := False, cm_follower := True\<rparr>
         else cm)"

definition cm_update_from_election_update_rumor :: "proto_rumor \<Rightarrow> 't census_member \<Rightarrow> 't census_member" where
  "cm_update_from_election_update_rumor election cm =
     (let e = get_election election;
          cm = cm\<lparr>cm_update_election_is_running := (el_status e = Running),
                  cm_update_election_is_no_quorum := (el_status e = NoQuorum),
                  cm_update_election_is_finished := (el_status e = Finished)\<rparr>
      in if cm_update_election_is_finished cm then
           if cm_member_id cm = el_member_id e then cm\<lparr>cm_update_leader := True, cm_update_follower := False\<rparr>
           else cm\<lparr>cm_update_leader := False, cm_update_follower := True\<rparr>
         else cm)"

definition cm_update_from_member :: "member \<Rightarrow> 't census_member \<Rightarrow> 't census_member" where
  "cm_update_from_member m cm =
     cm\<lparr>cm_sys := (cm_sys cm)\<lparr>si_gossip_ip := mb_address m, si_gossip_port := word_of_int (mb_gossip_port m)\<rparr>,
        cm_persistent := True\<rparr>"

definition cm_update_from_health :: "health \<Rightarrow> 't census_member \<Rightarrow> 't census_member" where
  "cm_update_from_health h cm =
     cm\<lparr>cm_alive := (h = Alive), cm_suspect := (h = Suspect), cm_confirmed := (h = Confirmed), cm_departed := (h = Departed)\<rparr>"

section \<open>Groups\<close>

definition cg_me :: "'t census_group \<Rightarrow> 't census_member option" where
  "cg_me cg = hm_get (cg_population cg) (cg_local_member_id cg)"

definition cg_leader :: "'t census_group \<Rightarrow> 't census_member option" where
  "cg_leader cg = (case cg_leader_id cg of Some k \<Rightarrow> hm_get (cg_population cg) k | None \<Rightarrow> None)"

definition cg_update_leader :: "'t census_group \<Rightarrow> 't census_member option" where
  "cg_update_leader cg = (case cg_update_leader_id cg of Some k \<Rightarrow> hm_get (cg_population cg) k | None \<Rightarrow> None)"

definition cg_members :: "'t census_group \<Rightarrow> 't census_member list" where
  "cg_members cg = bt_values (cg_population cg)"

text \<open>The files that changed with the last update; \<open>None\<close> is the panic for a name without a file.\<close>

fun lookup_all :: "('k, 'v) hmap \<Rightarrow> 'k list \<Rightarrow> 'v list option" where
  "lookup_all m [] = Some []"
| "lookup_all m (k # ks) = do { v \<leftarrow> hm_get m k; vs \<leftarrow> lookup_all m ks; Some (v # vs) }"

definition changed_service_files :: "'t census_group \<Rightarrow> census_file list option" where
  "changed_service_files cg = lookup_all (cg_service_files cg) (cg_changed_service_files cg)"

fun position :: "('a \<Rightarrow> bool) \<Rightarrow> 'a list \<Rightarrow> nat option" where
  "position p [] = None"
| "position p (x # xs) = (if p x then Some 0 else map_option Suc (position p xs))"

definition previous_peer :: "'t census_group \<Rightarrow> 't census_member option" where
  "previous_peer cg =
     (let alive_members = filter cm_alive (bt_values (cg_population cg))
      in case cg_me cg of
           None \<Rightarrow> None
         | Some me \<Rightarrow>
             if length alive_members \<le> 1 then None
             else (case position (\<lambda>cm. cm_member_id cm = cm_member_id me) alive_members of
                     Some idx \<Rightarrow>
                       if idx \<le> 0 then Some (alive_members ! (length alive_members - 1))
                       else Some (alive_members ! (idx - 1))
                   | None \<Rightarrow> None))"

definition cg_update_member ::
  "('e, 't) census_env \<Rightarrow> string \<times> proto_rumor \<Rightarrow> 't census_group \<Rightarrow> 't census_group option" where
  "cg_update_member env entry cg =
     (case entry of (member_id, rumor) \<Rightarrow>
        let cm = (case hm_get (cg_population cg) member_id of
                    Some cm \<Rightarrow> cm
                  | None \<Rightarrow> (default_census_member (ce_no_cfg env))\<lparr>cm_alive := (member_id = cg_local_member_id cg)\<rparr>)
        in do { cm \<leftarrow> cm_update_from_service_rumor env (cg_service_group cg) rumor cm;
                Some (cg\<lparr>cg_population := hm_insert member_id cm (cg_population cg)\<rparr>) })"

definition cg_update_from_service_rumors ::
  "('e, 't) census_env \<Rightarrow> (string, proto_rumor) hmap \<Rightarrow> 't census_group \<Rightarrow> 't census_group option" where
  "cg_update_from_service_rumors env rumors cg = fold_opt (cg_update_member env) rumors cg"

definition update_population ::
  "('t census_member \<Rightarrow> 't census_member) \<Rightarrow> (string, 't census_member) hmap \<Rightarrow> (string, 't census_member) hmap" where
  "update_population f pop = map (\<lambda>(k, cm). (k, f cm)) pop"

text \<open>The last member in key order that the flag holds of.\<close>

definition flagged_id :: "('t census_member \<Rightarrow> bool) \<Rightarrow> (string, 't census_member) hmap \<Rightarrow> string option" where
  "flagged_id p pop = fold (\<lambda>cm found. if p cm then Some (cm_member_id cm) else found) (bt_values pop) None"

definition cg_update_from_election_rumor :: "proto_rumor \<Rightarrow> 't census_group \<Rightarrow> 't census_group" where
  "cg_update_from_election_rumor election cg =
     (let pop = update_population (cm_update_from_election_rumor election) (cg_population cg)
      in cg\<lparr>cg_population := pop, cg_leader_id := flagged_id cm_leader pop,
            cg_election_status := census_status (el_status (get_election election))\<rparr>)"

definition cg_update_from_election_update_rumor :: "proto_rumor \<Rightarrow> 't census_group \<Rightarrow> 't census_group" where
  "cg_update_from_election_update_rumor election cg =
     (let pop = update_population (cm_update_from_election_update_rumor election) (cg_population cg)
      in cg\<lparr>cg_population := pop, cg_update_leader_id := flagged_id cm_update_leader pop,
            cg_update_election_status := census_status (el_status (get_election election))\<rparr>)"

definition cg_update_from_service_config_rumor ::
  "('e, 't) census_env \<Rightarrow> proto_rumor \<Rightarrow> 't census_group \<Rightarrow> 't census_group" where
  "cg_update_from_service_config_rumor env rumor cg =
     (case ce_config env rumor of
        Inr config \<Rightarrow>
          if (case cg_service_config cg of
                None \<Rightarrow> True
              | Some c \<Rightarrow> sc_incarnation (get_service_config rumor) > cc_incarnation c)
          then cg\<lparr>cg_service_config := Some \<lparr>cc_incarnation = sc_incarnation (get_service_config rumor), cc_value = config\<rparr>\<rparr>
          else cg
      | Inl _ \<Rightarrow> cg)"

definition cg_update_file :: "('e, 't) census_env \<Rightarrow> string \<times> proto_rumor \<Rightarrow> 't census_group \<Rightarrow> 't census_group" where
  "cg_update_file env entry cg =
     (let rumor = get_service_file (snd entry);
          filename = sf_filename rumor;
          f = (case hm_get (cg_service_files cg) filename of Some f \<Rightarrow> f | None \<Rightarrow> default_census_file);
          cg = cg\<lparr>cg_service_files := hm_insert filename f (cg_service_files cg)\<rparr>
      in if sf_incarnation rumor > cf_incarnation f then
           (case ce_body env (snd entry) of
              Inr body \<Rightarrow>
                cg\<lparr>cg_changed_service_files := cg_changed_service_files cg @ [filename],
                   cg_service_files := hm_insert filename
                     \<lparr>cf_filename = filename, cf_incarnation = sf_incarnation rumor, cf_body = body\<rparr> (cg_service_files cg)\<rparr>
            | Inl _ \<Rightarrow> cg)
         else cg)"

definition cg_update_from_service_file_rumors ::
  "('e, 't) census_env \<Rightarrow> (string, proto_rumor) hmap \<Rightarrow> 't census_group \<Rightarrow> 't census_group" where
  "cg_update_from_service_file_rumors env rumors cg =
     fold (cg_update_file env) rumors (cg\<lparr>cg_changed_service_files := []\<rparr>)"

section \<open>The ring\<close>

definition cr_group_entry :: "service_group \<Rightarrow> 't census_ring \<Rightarrow> 't census_group" where
  "cr_group_entry sg cr =
     (case hm_get (cr_census_groups cr) sg of Some cg \<Rightarrow> cg | None \<Rightarrow> census_group_new sg (cr_local_member_id cr))"

definition cr_put_group :: "service_group \<Rightarrow> 't census_group \<Rightarrow> 't census_ring \<Rightarrow> 't census_ring" where
  "cr_put_group sg cg cr = cr\<lparr>cr_census_groups := hm_insert sg cg (cr_census_groups cr)\<rparr>"

definition cr_update_group_services ::
  "('e, 't) census_env \<Rightarrow> string \<times> (string, proto_rumor) hmap \<Rightarrow> 't census_ring \<Rightarrow> 't census_ring option" where
  "cr_update_group_services env entry cr =
     (case sg_from_str (fst entry) of
        Inr sg \<Rightarrow>
          do { cg \<leftarrow> cg_update_from_service_rumors env (snd entry) (cr_group_entry sg cr);
               Some (cr_put_group sg cg cr) }
      | Inl _ \<Rightarrow> Some cr)"

definition cg_update_from_membership :: "member \<Rightarrow> health \<Rightarrow> 't census_group \<Rightarrow> 't census_group" where
  "cg_update_from_membership m h cg =
     (case hm_get (cg_population cg) (mb_id m) of
        Some cm \<Rightarrow>
          cg\<lparr>cg_population := hm_insert (mb_id m) (cm_update_from_health h (cm_update_from_member m cm)) (cg_population cg)\<rparr>
      | None \<Rightarrow> cg)"

definition cr_update_membership :: "member_list \<Rightarrow> member \<Rightarrow> 't census_ring \<Rightarrow> 't census_ring option" where
  "cr_update_membership ml m cr =
     do { h \<leftarrow> health_of m ml;
          Some (cr\<lparr>cr_census_groups := map (\<lambda>(sg, cg). (sg, cg_update_from_membership m h cg)) (cr_census_groups cr)\<rparr>) }"

definition populate_census ::
  "('e, 't) census_env \<Rightarrow> proto_rumor rumor_store \<Rightarrow> member_list \<Rightarrow> 't census_ring \<Rightarrow> 't census_ring option" where
  "populate_census env service_rumors ml cr =
     do { cr \<leftarrow> fold_opt (cr_update_group_services env) (with_keys service_rumors) cr;
          fold_opt (cr_update_membership ml) (with_members ml) cr }"

definition cr_modify_group ::
  "service_group \<Rightarrow> ('t census_group \<Rightarrow> 't census_group) \<Rightarrow> 't census_ring \<Rightarrow> 't census_ring" where
  "cr_modify_group sg f cr =
     (case hm_get (cr_census_groups cr) sg of Some cg \<Rightarrow> cr_put_group sg (f cg) cr | None \<Rightarrow> cr)"

definition cr_update_election :: "string \<times> (string, proto_rumor) hmap \<Rightarrow> 't census_ring \<Rightarrow> 't census_ring option" where
  "cr_update_election entry cr =
     do { election \<leftarrow> hm_get (snd entry) ''election'';
          Some (case sg_from_str (fst entry) of
                  Inr sg \<Rightarrow> cr_modify_group sg (cg_update_from_election_rumor election) cr
                | Inl _ \<Rightarrow> cr) }"

definition update_from_election_store :: "proto_rumor rumor_store \<Rightarrow> 't census_ring \<Rightarrow> 't census_ring option" where
  "update_from_election_store store cr = fold_opt cr_update_election (with_keys store) cr"

definition cr_update_election_update :: "string \<times> (string, proto_rumor) hmap \<Rightarrow> 't census_ring \<Rightarrow> 't census_ring option" where
  "cr_update_election_update entry cr =
     (case sg_from_str (fst entry) of
        Inr sg \<Rightarrow>
          (case hm_get (cr_census_groups cr) sg of
             Some cg \<Rightarrow>
               do { election \<leftarrow> hm_get (snd entry) ''election'';
                    Some (cr_put_group sg (cg_update_from_election_update_rumor election cg) cr) }
           | None \<Rightarrow> Some cr)
      | Inl _ \<Rightarrow> Some cr)"

definition update_from_election_update_store :: "proto_rumor rumor_store \<Rightarrow> 't census_ring \<Rightarrow> 't census_ring option" where
  "update_from_election_update_store store cr = fold_opt cr_update_election_update (with_keys store) cr"

definition cr_update_config ::
  "('e, 't) census_env \<Rightarrow> string \<times> (string, proto_rumor) hmap \<Rightarrow> 't census_ring \<Rightarrow> 't census_ring" where
  "cr_update_config env entry cr =
     (case sg_from_str (fst entry) of
        Inr sg \<Rightarrow>
          (case hm_get (snd entry) ''service_config'' of
             Some rumor \<Rightarrow> cr_modify_group sg (cg_update_from_service_config_rumor env rumor) cr
           | None \<Rightarrow> cr)
      | Inl _ \<Rightarrow> cr)"

definition update_from_service_config ::
  "('e, 't) census_env \<Rightarrow> proto_rumor rumor_store \<Rightarrow> 't census_ring \<Rightarrow> 't census_ring" where
  "update_from_service_config env store cr = fold (cr_update_config env) (with_keys store) cr"

definition cr_update_files ::
  "('e, 't) census_env \<Rightarrow> string \<times> (string, proto_rumor) hmap \<Rightarrow> 't census_ring \<Rightarrow> 't census_ring" where
  "cr_update_files env entry cr =
     (case sg_from_str (fst entry) of
        Inr sg \<Rightarrow> cr_put_group sg (cg_update_from_service_file_rumors env (snd entry) (cr_group_entry sg cr)) cr
      | Inl _ \<Rightarrow> cr)"

definition update_from_service_files ::
  "('e, 't) census_env \<Rightarrow> proto_rumor rumor_store \<Rightarrow> 't census_ring \<Rightarrow> 't census_ring" where
  "update_from_service_files env store cr = fold (cr_update_files env) (with_keys store) cr"

text \<open>\<open>update_from_rumors\<close>, on the stores and the member list of a gossip server.\<close>

definition rumors_are_new :: "server \<Rightarrow> 't census_ring \<Rightarrow> bool" where
  "rumors_are_new srv cr \<longleftrightarrow>
     rs_update_counter (srv_service_store srv) > cr_last_service_counter cr \<or>
     ml_update_counter (srv_member_list srv) > cr_last_membership_counter cr \<or>
     rs_update_counter (srv_election_store srv) > cr_last_election_counter cr \<or>
     rs_update_counter (srv_update_store srv) > cr_last_election_update_counter cr \<or>
     rs_update_counter (srv_service_config_store srv) > cr_last_service_config_counter cr \<or>
     rs_update_counter (srv_service_file_store srv) > cr_last_service_file_counter cr"

definition update_from_rumors :: "('e, 't) census_env \<Rightarrow> server \<Rightarrow> 't census_ring \<Rightarrow> 't census_ring option" where
  "update_from_rumors env srv cr =
     (if rumors_are_new srv cr then
        do { let cr = cr\<lparr>cr_changed := True\<rparr>;
             cr \<leftarrow> populate_census env (srv_service_store srv) (srv_member_list srv) cr;
             cr \<leftarrow> update_from_election_store (srv_election_store srv) cr;
             cr \<leftarrow> update_from_election_update_store (srv_update_store srv) cr;
             let cr = update_from_service_config env (srv_service_config_store srv) cr;
             let cr = update_from_service_files env (srv_service_file_store srv) cr;
             Some (cr\<lparr>cr_last_membership_counter := ml_update_counter (srv_member_list srv),
                      cr_last_service_counter := rs_update_counter (srv_service_store srv),
                      cr_last_election_counter := rs_update_counter (srv_election_store srv),
                      cr_last_election_update_counter := rs_update_counter (srv_update_store srv),
                      cr_last_service_config_counter := rs_update_counter (srv_service_config_store srv),
                      cr_last_service_file_counter := rs_update_counter (srv_service_file_store srv)\<rparr>) }
      else Some (cr\<lparr>cr_changed := False\<rparr>))"

definition census_group_for :: "service_group \<Rightarrow> 't census_ring \<Rightarrow> 't census_group option" where
  "census_group_for sg cr = hm_get (cr_census_groups cr) sg"

definition census_groups :: "'t census_ring \<Rightarrow> 't census_group list" where
  "census_groups cr = hm_values (cr_census_groups cr)"

end
