(* ===== verification/Census_Facts.thy ===== *)
theory Census_Facts
  imports Census
begin

text \<open>
  The census reflects the rumors: an update does not panic on a well-formed server, every service of
  a parsable group appears with the health of its member, the leader of a group is the
  winner of its finished election, and the peer to the left is the alive predecessor in the ring of members.
\<close>

section \<open>Well-formed censuses\<close>

definition one_flagged :: "('t census_member \<Rightarrow> bool) \<Rightarrow> (string, 't census_member) hmap \<Rightarrow> bool" where
  "one_flagged p pop \<longleftrightarrow>
     (\<forall>k cm k' cm'. hm_get pop k = Some cm \<and> p cm \<and> hm_get pop k' = Some cm' \<and> p cm' \<longrightarrow> k = k')"

definition group_inv :: "service_group \<Rightarrow> 't census_group \<Rightarrow> bool" where
  "group_inv g cg \<longleftrightarrow>
     cg_service_group cg = g \<and> sg_from_str g = Inr g \<and> hm_inv (cg_population cg) \<and>
     (\<forall>k cm. hm_get (cg_population cg) k = Some cm \<longrightarrow> cm_member_id cm = k) \<and>
     one_flagged cm_leader (cg_population cg) \<and> one_flagged cm_update_leader (cg_population cg) \<and>
     (\<forall>k \<in> set (cg_changed_service_files cg). hm_get (cg_service_files cg) k \<noteq> None)"

definition census_inv :: "'t census_ring \<Rightarrow> bool" where
  "census_inv cr \<longleftrightarrow> hm_inv (cr_census_groups cr) \<and> (\<forall>g cg. hm_get (cr_census_groups cr) g = Some cg \<longrightarrow> group_inv g cg)"

lemma census_inv_new [simp]: "census_inv (census_ring_new self)"
  by (simp add: census_inv_def census_ring_new_def)

lemma group_inv_new: "sg_from_str g = Inr g \<Longrightarrow> group_inv g (census_group_new g self)"
  by (simp add: group_inv_def census_group_new_def one_flagged_def)

lemma census_inv_put: "census_inv cr \<Longrightarrow> group_inv g cg \<Longrightarrow> census_inv (cr_put_group g cg cr)"
  by (simp add: census_inv_def cr_put_group_def)

lemma census_inv_entry: "census_inv cr \<Longrightarrow> sg_from_str g = Inr g \<Longrightarrow> group_inv g (cr_group_entry g cr)"
  by (auto simp: cr_group_entry_def census_inv_def group_inv_new split: option.split)

lemma census_inv_group: "census_inv cr \<Longrightarrow> hm_get (cr_census_groups cr) g = Some cg \<Longrightarrow> group_inv g cg"
  by (simp add: census_inv_def)

lemma put_group_simps [simp]:
  "hm_get (cr_census_groups (cr_put_group g cg cr)) k = (if k = g then Some cg else hm_get (cr_census_groups cr) k)"
  "cr_local_member_id (cr_put_group g cg cr) = cr_local_member_id cr"
  by (simp_all add: cr_put_group_def)

text \<open>The accessors of a parsed service group do not panic.\<close>

lemma parsed_group_update:
  assumes "sg_from_str g = Inr g"
  obtains cm' where "cm_update_from_service_rumor env g r cm = Some cm'"
    and "cm_member_id cm' = sv_member_id (get_service r)" and "cm_leader cm' = cm_leader cm"
    and "cm_update_leader cm' = cm_update_leader cm" and "cm_alive cm' = cm_alive cm" and "cm_suspect cm' = cm_suspect cm"
    and "cm_confirmed cm' = cm_confirmed cm" and "cm_departed cm' = cm_departed cm"
    and "cm_follower cm' = cm_follower cm"
    and "\<And>ident. ident_from_str (sv_pkg (get_service r)) = Inr ident \<Longrightarrow> cm_pkg cm' = Some ident"
    and "Some (cm_service cm') = sg_service g" and "Some (cm_group cm') = sg_group g"
proof -
  from assms obtain ae service grp org where sg: "sg_captures g = Some (ae, service, grp, org)"
    and ae: "pred_option (\<lambda>a. ae_captures a \<noteq> None) ae" by (rule sg_parsed)
  note acc = sg_accessors [OF sg]
  show thesis
  proof (cases ae)
    case None
    with that sg acc show thesis
      by (simp add: cm_update_from_service_rumor_def Let_def split: sum.split option.split)
  next
    case (Some a)
    with ae obtain app envr where "ae_captures a = Some (app, envr)" by auto
    with Some that sg acc show thesis
      by (simp add: cm_update_from_service_rumor_def ae_application_def ae_environment_def Let_def split: sum.split option.split)
  qed
qed

section \<open>Services\<close>

definition member_entry :: "('e, 't) census_env \<Rightarrow> 't census_group \<Rightarrow> string \<Rightarrow> 't census_member" where
  "member_entry env cg i =
     (case hm_get (cg_population cg) i of
        Some cm \<Rightarrow> cm
      | None \<Rightarrow> (default_census_member (ce_no_cfg env))\<lparr>cm_alive := (i = cg_local_member_id cg)\<rparr>)"

lemma cg_update_member_eq:
  "cg_update_member env (i, r) cg =
     do { cm \<leftarrow> cm_update_from_service_rumor env (cg_service_group cg) r (member_entry env cg i);
          Some (cg\<lparr>cg_population := hm_insert i cm (cg_population cg)\<rparr>) }"
  by (simp add: cg_update_member_def member_entry_def Let_def)

lemma member_entry_leaders:
  "cm_leader (member_entry env cg i) \<Longrightarrow> \<exists>cm. hm_get (cg_population cg) i = Some cm \<and> cm_leader cm"
  "cm_update_leader (member_entry env cg i) \<Longrightarrow> \<exists>cm. hm_get (cg_population cg) i = Some cm \<and> cm_update_leader cm"
  by (auto simp: member_entry_def default_census_member_def split: option.splits)

lemma group_inv_insert_member:
  assumes "group_inv g cg" and "cm_member_id cm = i"
    and "cm_leader cm \<Longrightarrow> \<exists>cm. hm_get (cg_population cg) i = Some cm \<and> cm_leader cm"
    and "cm_update_leader cm \<Longrightarrow> \<exists>cm. hm_get (cg_population cg) i = Some cm \<and> cm_update_leader cm"
  shows "group_inv g (cg\<lparr>cg_population := hm_insert i cm (cg_population cg)\<rparr>)"
proof -
  have "one_flagged p (hm_insert i cm (cg_population cg))"
    if "one_flagged p (cg_population cg)" "p cm \<Longrightarrow> \<exists>cm. hm_get (cg_population cg) i = Some cm \<and> p cm" for p
    using that unfolding one_flagged_def by (auto split: if_splits)
  with assms show ?thesis by (auto simp: group_inv_def)
qed

lemma cg_update_member_total:
  assumes "group_inv g cg" and "sv_member_id (get_service r) = i"
  obtains cm where "cm_update_from_service_rumor env g r (member_entry env cg i) = Some cm"
    and "cg_update_member env (i, r) cg = Some (cg\<lparr>cg_population := hm_insert i cm (cg_population cg)\<rparr>)"
    and "group_inv g (cg\<lparr>cg_population := hm_insert i cm (cg_population cg)\<rparr>)"
proof -
  from assms(1) have g: "sg_from_str g = Inr g" "cg_service_group cg = g" by (auto simp: group_inv_def)
  from g(1) show thesis
  proof (rule parsed_group_update [where env = env and r = r and cm = "member_entry env cg i"])
    fix cm
    assume cm: "cm_update_from_service_rumor env g r (member_entry env cg i) = Some cm"
      "cm_member_id cm = sv_member_id (get_service r)" "cm_leader cm = cm_leader (member_entry env cg i)"
      "cm_update_leader cm = cm_update_leader (member_entry env cg i)"
    show thesis
    proof (rule that)
      show "cm_update_from_service_rumor env g r (member_entry env cg i) = Some cm" by (rule cm(1))
      show "cg_update_member env (i, r) cg = Some (cg\<lparr>cg_population := hm_insert i cm (cg_population cg)\<rparr>)"
        by (simp add: cg_update_member_eq g(2) cm(1))
      show "group_inv g (cg\<lparr>cg_population := hm_insert i cm (cg_population cg)\<rparr>)"
        by (rule group_inv_insert_member [OF assms(1)]) (use cm assms(2) member_entry_leaders in auto)
    qed
  qed
qed

text \<open>The members of a group after its service rumors.\<close>

lemma cg_update_from_service_rumors_total:
  assumes "group_inv g cg" and "distinct (map fst rumors)" and "\<And>i r. (i, r) \<in> set rumors \<Longrightarrow> sv_member_id (get_service r) = i"
  shows "\<exists>cg'. cg_update_from_service_rumors env rumors cg = Some cg' \<and> group_inv g cg' \<and>
    (\<forall>i. hm_get (cg_population cg') i =
       (case map_of rumors i of
          Some r \<Rightarrow> cm_update_from_service_rumor env g r (member_entry env cg i)
        | None \<Rightarrow> hm_get (cg_population cg) i))"
  using assms unfolding cg_update_from_service_rumors_def
proof (induction rumors arbitrary: cg)
  case (Cons entry rumors)
  obtain i r where entry: "entry = (i, r)" by (cases entry)
  from Cons.prems(3) entry have "sv_member_id (get_service r) = i" by auto
  from cg_update_member_total [OF Cons.prems(1) this, of env] obtain cm where
    cm: "cm_update_from_service_rumor env g r (member_entry env cg i) = Some cm"
    and upd: "cg_update_member env (i, r) cg = Some (cg\<lparr>cg_population := hm_insert i cm (cg_population cg)\<rparr>)"
    and inv: "group_inv g (cg\<lparr>cg_population := hm_insert i cm (cg_population cg)\<rparr>)" by blast
  let ?cg = "cg\<lparr>cg_population := hm_insert i cm (cg_population cg)\<rparr>"
  from Cons.IH [OF inv] Cons.prems(2, 3) obtain cg' where
    cg': "fold_opt (cg_update_member env) rumors ?cg = Some cg'" "group_inv g cg'"
    "\<And>k. hm_get (cg_population cg') k = (case map_of rumors k of
          Some r \<Rightarrow> cm_update_from_service_rumor env g r (member_entry env ?cg k)
        | None \<Rightarrow> hm_get (cg_population ?cg) k)" by auto
  have "map_of rumors i = None" using Cons.prems(2) entry by (simp add: map_of_eq_None_iff)
  moreover have "member_entry env ?cg k = member_entry env cg k" if "k \<noteq> i" for k
    using that by (simp add: member_entry_def split: option.split)
  ultimately have "hm_get (cg_population cg') k = (case map_of (entry # rumors) k of
          Some r \<Rightarrow> cm_update_from_service_rumor env g r (member_entry env cg k)
        | None \<Rightarrow> hm_get (cg_population cg) k)" for k
    using cg'(3) [of k] by (auto simp: entry cm split: option.splits)
  with cg'(1, 2) upd entry show ?case by simp
qed simp

text \<open>The groups of the ring after all service rumors.\<close>

definition service_groups_ok :: "(string \<times> (string, proto_rumor) hmap) list \<Rightarrow> bool" where
  "service_groups_ok entries \<longleftrightarrow> distinct (map fst entries) \<and>
     (\<forall>(g, rumors) \<in> set entries. hm_inv rumors \<and> (\<forall>i r. hm_get rumors i = Some r \<longrightarrow> sv_member_id (get_service r) = i))"

definition services_view ::
  "('e, 't) census_env \<Rightarrow> 't census_ring \<Rightarrow> service_group \<Rightarrow> (string, proto_rumor) hmap \<Rightarrow> string \<Rightarrow> 't census_member option" where
  "services_view env cr g rumors i =
     (case hm_get rumors i of
        Some r \<Rightarrow> cm_update_from_service_rumor env g r (member_entry env (cr_group_entry g cr) i)
      | None \<Rightarrow> hm_get (cg_population (cr_group_entry g cr)) i)"

lemma cr_update_services_total:
  assumes "census_inv cr" and "service_groups_ok entries"
  shows "\<exists>cr'. fold_opt (cr_update_group_services env) entries cr = Some cr' \<and> census_inv cr' \<and>
    (\<forall>g rumors. (g, rumors) \<in> set entries \<and> sg_from_str g = Inr g \<longrightarrow>
       (\<exists>cg. hm_get (cr_census_groups cr') g = Some cg \<and> (\<forall>i. hm_get (cg_population cg) i = services_view env cr g rumors i))) \<and>
    (\<forall>g. g \<notin> fst ` set entries \<longrightarrow> hm_get (cr_census_groups cr') g = hm_get (cr_census_groups cr) g) \<and>
    cr_local_member_id cr' = cr_local_member_id cr"
  using assms
proof (induction entries arbitrary: cr)
  case (Cons entry entries)
  obtain g rumors where entry: "entry = (g, rumors)" by (cases entry)
  have ok: "service_groups_ok entries" "g \<notin> fst ` set entries" "hm_inv rumors"
    "\<And>i r. hm_get rumors i = Some r \<Longrightarrow> sv_member_id (get_service r) = i"
    using Cons.prems(2) by (auto simp: service_groups_ok_def entry)
  show ?case
  proof (cases "sg_from_str g = Inr g")
    case False
    then obtain e where e: "sg_from_str g = Inl e" by (cases "sg_from_str g") (auto dest: sg_from_str_id)
    then have step: "cr_update_group_services env entry cr = Some cr"
      by (simp add: cr_update_group_services_def entry)
    from Cons.IH [OF Cons.prems(1) ok(1)] False step show ?thesis by (auto simp: entry)
  next
    case True
    let ?cg = "cr_group_entry g cr"
    have "group_inv g ?cg" by (rule census_inv_entry [OF Cons.prems(1) True])
    moreover have "distinct (map fst rumors)" using ok(3) by (simp add: hm_inv_def)
    moreover have "sv_member_id (get_service r) = i" if "(i, r) \<in> set rumors" for i r
      using that ok(3, 4) by (simp add: hm_mem_iff)
    ultimately obtain cg where cg: "cg_update_from_service_rumors env rumors ?cg = Some cg" "group_inv g cg"
      "\<And>i. hm_get (cg_population cg) i = services_view env cr g rumors i"
      using cg_update_from_service_rumors_total [of g ?cg rumors env] by (auto simp: services_view_def hm_get_def)
    let ?cr = "cr_put_group g cg cr"
    have step: "cr_update_group_services env entry cr = Some ?cr"
      by (simp add: cr_update_group_services_def entry True cg(1))
    have other: "services_view env ?cr g' rumors' = services_view env cr g' rumors'" if "g' \<noteq> g" for g' rumors'
    proof -
      have "cr_group_entry g' ?cr = cr_group_entry g' cr" using that by (simp add: cr_group_entry_def split: option.split)
      then show ?thesis by (simp add: services_view_def fun_eq_iff split: option.split)
    qed
    from Cons.IH [OF census_inv_put [OF Cons.prems(1) cg(2)] ok(1)] obtain cr' where
      cr': "fold_opt (cr_update_group_services env) entries ?cr = Some cr'" "census_inv cr'"
      "\<forall>g' rumors'. (g', rumors') \<in> set entries \<and> sg_from_str g' = Inr g' \<longrightarrow>
         (\<exists>cg. hm_get (cr_census_groups cr') g' = Some cg \<and> (\<forall>i. hm_get (cg_population cg) i = services_view env ?cr g' rumors' i))"
      "\<forall>g'. g' \<notin> fst ` set entries \<longrightarrow> hm_get (cr_census_groups cr') g' = hm_get (cr_census_groups ?cr) g'"
      "cr_local_member_id cr' = cr_local_member_id ?cr"
      by blast
    have "\<exists>cg. hm_get (cr_census_groups cr') g' = Some cg \<and> (\<forall>i. hm_get (cg_population cg) i = services_view env cr g' rumors' i)"
      if "(g', rumors') \<in> set (entry # entries)" "sg_from_str g' = Inr g'" for g' rumors'
    proof (cases "g' = g")
      case True
      with that ok(2) have "rumors' = rumors" by (auto simp: entry rev_image_eqI)
      with True cr'(4) ok(2) cg(3) show ?thesis by auto
    next
      case False
      with that have "(g', rumors') \<in> set entries" by (auto simp: entry)
      with cr'(3) that(2) show ?thesis unfolding other [OF False, symmetric] by blast
    qed
    moreover have "hm_get (cr_census_groups cr') g' = hm_get (cr_census_groups cr) g'" if "g' \<notin> fst ` set (entry # entries)" for g'
      using that cr'(4) by (auto simp: entry)
    ultimately show ?thesis using step cr'(1, 2, 5) by auto
  qed
qed simp

section \<open>Health\<close>

definition census_view :: "'t census_ring \<Rightarrow> service_group \<Rightarrow> string \<Rightarrow> 't census_member option" where
  "census_view cr g i = do { cg \<leftarrow> hm_get (cr_census_groups cr) g; hm_get (cg_population cg) i }"

lemma hm_get_map: "hm_get (map (\<lambda>(k, v). (k, f v)) m) k = map_option f (hm_get m k)"
  by (induction m) (auto simp: hm_get_def)

lemma hm_inv_map [simp]: "hm_inv (map (\<lambda>(k, v). (k, f v)) m) = hm_inv m"
  by (simp add: hm_inv_def comp_def case_prod_beta)

lemma one_flagged_map:
  assumes "\<And>k cm. hm_get pop k = Some cm \<Longrightarrow> p (f cm) \<Longrightarrow> p cm" and "one_flagged p pop"
  shows "one_flagged p (map (\<lambda>(k, cm). (k, f cm)) pop)"
  using assms unfolding one_flagged_def by (auto simp: hm_get_map) blast

lemma group_inv_membership:
  assumes "group_inv g cg"
  shows "group_inv g (cg_update_from_membership m h cg)"
proof (cases "hm_get (cg_population cg) (mb_id m)")
  case (Some cm)
  with assms have "cm_member_id cm = mb_id m" by (simp add: group_inv_def)
  with Some show ?thesis
    by (auto simp: cg_update_from_membership_def cm_update_from_health_def cm_update_from_member_def
        intro!: group_inv_insert_member [OF assms])
qed (use assms in \<open>simp add: cg_update_from_membership_def\<close>)

lemma cr_update_membership_effect:
  assumes "census_inv cr" and "health_of m ml = Some h"
  shows "\<exists>cr'. cr_update_membership ml m cr = Some cr' \<and> census_inv cr' \<and> cr_local_member_id cr' = cr_local_member_id cr \<and>
    (\<forall>g i. census_view cr' g i =
      (if i = mb_id m then map_option (\<lambda>cm. cm_update_from_health h (cm_update_from_member m cm)) (census_view cr g i)
       else census_view cr g i))"
proof -
  let ?cr = "cr\<lparr>cr_census_groups := map (\<lambda>(sg, cg). (sg, cg_update_from_membership m h cg)) (cr_census_groups cr)\<rparr>"
  have "census_inv ?cr"
    using assms(1) by (auto simp: census_inv_def hm_get_map group_inv_membership)
  moreover have "census_view ?cr g i = (if i = mb_id m
       then map_option (\<lambda>cm. cm_update_from_health h (cm_update_from_member m cm)) (census_view cr g i) else census_view cr g i)" for g i
    by (cases "hm_get (cr_census_groups cr) g")
      (auto simp: census_view_def hm_get_map cg_update_from_membership_def split: option.split)
  ultimately show ?thesis using assms(2) by (simp add: cr_update_membership_def)
qed

definition with_health :: "member_list \<Rightarrow> string \<Rightarrow> 't census_member \<Rightarrow> 't census_member" where
  "with_health ml i cm =
     (case (hm_get (ml_members ml) i, hm_get (ml_health ml) i) of
        (Some m, Some h) \<Rightarrow> cm_update_from_health h (cm_update_from_member m cm)
      | _ \<Rightarrow> cm)"

lemma cr_update_memberships:
  fixes cr :: "'t census_ring"
  assumes "census_inv cr" and "ml_inv ml" and "set ms \<subseteq> set (with_members ml)" and "distinct (map mb_id ms)"
  shows "\<exists>cr'. fold_opt (cr_update_membership ml) ms cr = Some cr' \<and> census_inv cr' \<and>
    cr_local_member_id cr' = cr_local_member_id cr \<and>
    (\<forall>g i. census_view cr' g i = (if i \<in> mb_id ` set ms then map_option (with_health ml i) (census_view cr g i) else census_view cr g i))"
  using assms(1, 3, 4)
proof (induction ms arbitrary: cr)
  case (Cons m ms)
  from Cons.prems(2) obtain k where k: "(k, m) \<in> set (ml_members ml)" by (auto simp: with_members_def hm_values_def)
  then have get: "hm_get (ml_members ml) k = Some m" using assms(2) by (simp add: ml_inv_iff hm_mem_iff)
  with ml_inv_member [OF assms(2)] ml_inv_health [OF assms(2)] obtain h where
    h: "mb_id m = k" "hm_get (ml_health ml) k = Some h" by blast
  with get have with_h: "with_health ml (mb_id m) = (\<lambda>cm :: 't census_member. cm_update_from_health h (cm_update_from_member m cm))"
    by (simp add: with_health_def fun_eq_iff)
  from h have "health_of m ml = Some h" by (simp add: health_of_def)
  from cr_update_membership_effect [OF Cons.prems(1) this] obtain cr1 where
    cr1: "cr_update_membership ml m cr = Some cr1" "census_inv cr1" "cr_local_member_id cr1 = cr_local_member_id cr"
    "\<And>g i. census_view cr1 g i = (if i = mb_id m
       then map_option (\<lambda>cm. cm_update_from_health h (cm_update_from_member m cm)) (census_view cr g i) else census_view cr g i)"
    by blast
  from Cons.IH [OF cr1(2)] Cons.prems(2, 3) obtain cr2 where
    "fold_opt (cr_update_membership ml) ms cr1 = Some cr2" "census_inv cr2" "cr_local_member_id cr2 = cr_local_member_id cr1"
    "\<And>g i. census_view cr2 g i = (if i \<in> mb_id ` set ms then map_option (with_health ml i) (census_view cr1 g i) else census_view cr1 g i)"
    by auto
  moreover have "mb_id m \<notin> mb_id ` set ms" using Cons.prems(3) by auto
  ultimately show ?case using cr1 with_h by auto
qed simp

section \<open>Elections, configurations and files\<close>

text \<open>
  A pass over the groups of a store. Each entry concerns the group of its key only, and the keys of
  a store are distinct, so a group is changed by its own entry.
\<close>

lemma group_pass:
  assumes "census_inv cr" and "distinct (map fst entries)"
    and step: "\<And>entry cr. entry \<in> set entries \<Longrightarrow> census_inv cr \<Longrightarrow>
      \<exists>cr'. f entry cr = Some cr' \<and> census_inv cr' \<and>
        (\<forall>g. g \<noteq> fst entry \<longrightarrow> hm_get (cr_census_groups cr') g = hm_get (cr_census_groups cr) g) \<and>
        (\<forall>cg. hm_get (cr_census_groups cr) (fst entry) = Some cg \<longrightarrow>
           (\<exists>cg'. hm_get (cr_census_groups cr') (fst entry) = Some cg' \<and> R (snd entry) cg cg'))"
  shows "\<exists>cr'. fold_opt f entries cr = Some cr' \<and> census_inv cr' \<and>
    (\<forall>g cg. hm_get (cr_census_groups cr) g = Some cg \<longrightarrow>
       (\<exists>cg'. hm_get (cr_census_groups cr') g = Some cg' \<and>
          (case map_of entries g of Some rumors \<Rightarrow> R rumors cg cg' | None \<Rightarrow> cg' = cg)))"
  using assms
proof (induction entries arbitrary: cr)
  case (Cons entry entries)
  from Cons.prems(3) [OF list.set_intros(1) Cons.prems(1)] obtain cr1 where cr1: "f entry cr = Some cr1" "census_inv cr1"
    "\<And>g. g \<noteq> fst entry \<Longrightarrow> hm_get (cr_census_groups cr1) g = hm_get (cr_census_groups cr) g"
    "\<And>cg. hm_get (cr_census_groups cr) (fst entry) = Some cg \<Longrightarrow>
       \<exists>cg'. hm_get (cr_census_groups cr1) (fst entry) = Some cg' \<and> R (snd entry) cg cg'"
    by blast
  have dist: "distinct (map fst entries)" and new: "fst entry \<notin> fst ` set entries" using Cons.prems(2) by auto
  obtain cr2 where cr2: "fold_opt f entries cr1 = Some cr2" "census_inv cr2"
    "\<And>g cg. hm_get (cr_census_groups cr1) g = Some cg \<Longrightarrow>
       \<exists>cg'. hm_get (cr_census_groups cr2) g = Some cg' \<and>
          (case map_of entries g of Some rumors \<Rightarrow> R rumors cg cg' | None \<Rightarrow> cg' = cg)"
    using Cons.IH [OF cr1(2) dist Cons.prems(3) [OF list.set_intros(2)]] by blast
  have "\<exists>cg'. hm_get (cr_census_groups cr2) g = Some cg' \<and>
      (case map_of (entry # entries) g of Some rumors \<Rightarrow> R rumors cg cg' | None \<Rightarrow> cg' = cg)"
    if cg: "hm_get (cr_census_groups cr) g = Some cg" for g cg
  proof (cases "g = fst entry")
    case True
    with cg cr1(4) obtain cg1 where "hm_get (cr_census_groups cr1) g = Some cg1" "R (snd entry) cg cg1" by blast
    moreover have "map_of entries g = None" using new True by (simp add: map_of_eq_None_iff)
    ultimately show ?thesis using cr2(3) [of g cg1] True by (cases entry) auto
  next
    case False
    with cg cr1(3) cr2(3) [of g cg] show ?thesis by (cases entry) auto
  qed
  with cr1(1) cr2(1, 2) show ?case by auto
qed simp

lemma update_population_simps [simp]:
  "hm_get (update_population f pop) k = map_option f (hm_get pop k)"
  "hm_inv (update_population f pop) = hm_inv pop"
  by (simp_all add: update_population_def hm_get_map)

lemma one_flagged_update:
  assumes "\<And>k cm. hm_get pop k = Some cm \<Longrightarrow> p (f cm) \<Longrightarrow> p cm" and "one_flagged p pop"
  shows "one_flagged p (update_population f pop)"
  using one_flagged_map [OF assms] by (simp add: update_population_def)

lemma flagged_by_id: "(\<And>k cm. hm_get pop k = Some cm \<Longrightarrow> p cm \<Longrightarrow> k = x) \<Longrightarrow> one_flagged p pop"
  unfolding one_flagged_def by blast

lemma election_flags [simp]:
  "cm_member_id (cm_update_from_election_rumor e cm) = cm_member_id cm"
  "cm_update_leader (cm_update_from_election_rumor e cm) = cm_update_leader cm"
  "cm_leader (cm_update_from_election_rumor e cm) =
     (if el_status (get_election e) = Finished then cm_member_id cm = el_member_id (get_election e) else cm_leader cm)"
  "cm_follower (cm_update_from_election_rumor e cm) =
     (if el_status (get_election e) = Finished then cm_member_id cm \<noteq> el_member_id (get_election e) else cm_follower cm)"
  by (simp_all add: cm_update_from_election_rumor_def Let_def)

lemma election_update_flags [simp]:
  "cm_member_id (cm_update_from_election_update_rumor e cm) = cm_member_id cm"
  "cm_leader (cm_update_from_election_update_rumor e cm) = cm_leader cm"
  "cm_follower (cm_update_from_election_update_rumor e cm) = cm_follower cm"
  "cm_update_leader (cm_update_from_election_update_rumor e cm) =
     (if el_status (get_election e) = Finished then cm_member_id cm = el_member_id (get_election e) else cm_update_leader cm)"
  by (simp_all add: cm_update_from_election_update_rumor_def Let_def)

lemma group_inv_election:
  assumes "group_inv g cg"
  shows "group_inv g (cg_update_from_election_rumor e cg)" "group_inv g (cg_update_from_election_update_rumor e cg)"
proof -
  have ids: "cm_member_id cm = k" if "hm_get (cg_population cg) k = Some cm" for k cm
    using assms that by (simp add: group_inv_def)
  have flags: "one_flagged cm_leader (cg_population cg)" "one_flagged cm_update_leader (cg_population cg)"
    using assms by (simp_all add: group_inv_def)
  have "one_flagged cm_leader (update_population (cm_update_from_election_rumor e) (cg_population cg))"
    "one_flagged cm_update_leader (update_population (cm_update_from_election_update_rumor e) (cg_population cg))"
  proof -
    let ?fin = "el_status (get_election e) = Finished"
    have "one_flagged cm_leader (update_population (cm_update_from_election_rumor e) (cg_population cg))" if ?fin
      by (rule flagged_by_id [where x = "el_member_id (get_election e)"]) (use that ids in auto)
    moreover have "one_flagged cm_leader (update_population (cm_update_from_election_rumor e) (cg_population cg))" if "\<not> ?fin"
      by (rule one_flagged_update [OF _ flags(1)]) (use that in simp)
    moreover have "one_flagged cm_update_leader (update_population (cm_update_from_election_update_rumor e) (cg_population cg))" if ?fin
      by (rule flagged_by_id [where x = "el_member_id (get_election e)"]) (use that ids in auto)
    moreover have "one_flagged cm_update_leader (update_population (cm_update_from_election_update_rumor e) (cg_population cg))" if "\<not> ?fin"
      by (rule one_flagged_update [OF _ flags(2)]) (use that in simp)
    ultimately show "one_flagged cm_leader (update_population (cm_update_from_election_rumor e) (cg_population cg))"
      "one_flagged cm_update_leader (update_population (cm_update_from_election_update_rumor e) (cg_population cg))"
      by blast+
  qed
  moreover have "one_flagged cm_update_leader (update_population (cm_update_from_election_rumor e) (cg_population cg))"
    "one_flagged cm_leader (update_population (cm_update_from_election_update_rumor e) (cg_population cg))"
    by (rule one_flagged_update [OF _ flags(2)], simp, rule one_flagged_update [OF _ flags(1)], simp)
  ultimately show "group_inv g (cg_update_from_election_rumor e cg)" "group_inv g (cg_update_from_election_update_rumor e cg)"
    using assms ids
    by (auto simp: group_inv_def cg_update_from_election_rumor_def cg_update_from_election_update_rumor_def Let_def)
qed

lemma group_inv_config: "group_inv g cg \<Longrightarrow> group_inv g (cg_update_from_service_config_rumor env r cg)"
  by (auto simp: group_inv_def cg_update_from_service_config_rumor_def split: sum.split option.split)

lemma group_inv_file: "group_inv g cg \<Longrightarrow> group_inv g (cg_update_file env entry cg)"
  by (auto simp: group_inv_def cg_update_file_def Let_def split: sum.split option.split)

lemma group_inv_files: "group_inv g cg \<Longrightarrow> group_inv g (cg_update_from_service_file_rumors env rumors cg)"
proof -
  have "group_inv g (fold (cg_update_file env) rumors cg)" if "group_inv g cg" for cg
    using that by (induction rumors arbitrary: cg) (auto intro: group_inv_file)
  moreover assume "group_inv g cg"
  then have "group_inv g (cg\<lparr>cg_changed_service_files := []\<rparr>)" by (simp add: group_inv_def)
  ultimately show ?thesis by (simp add: cg_update_from_service_file_rumors_def)
qed

lemma modify_group_step:
  assumes "census_inv cr" and "\<And>cg. group_inv g cg \<Longrightarrow> group_inv g (f cg)"
  shows "census_inv (cr_modify_group g f cr)"
    "k \<noteq> g \<Longrightarrow> hm_get (cr_census_groups (cr_modify_group g f cr)) k = hm_get (cr_census_groups cr) k"
    "hm_get (cr_census_groups cr) g = Some cg \<Longrightarrow> hm_get (cr_census_groups (cr_modify_group g f cr)) g = Some (f cg)"
  using assms census_inv_group [OF assms(1)] by (auto simp: cr_modify_group_def census_inv_put split: option.split)

definition elections_present :: "server \<Rightarrow> bool" where
  "elections_present srv \<longleftrightarrow>
     list_all (\<lambda>(_, rumors). hm_contains rumors ''election'') (with_keys (srv_election_store srv) @ with_keys (srv_update_store srv))"

text \<open>Groups of a census are parsed, so an entry of a store that concerns one parses.\<close>

lemma census_group_parsed: "census_inv cr \<Longrightarrow> hm_get (cr_census_groups cr) g = Some cg \<Longrightarrow> sg_from_str g = Inr g"
  by (auto simp: census_inv_def group_inv_def)

lemma cr_update_election_step:
  assumes "census_inv cr" and "hm_contains (snd entry) ''election''"
  shows "\<exists>cr'. cr_update_election entry cr = Some cr' \<and> census_inv cr' \<and>
    (\<forall>g. g \<noteq> fst entry \<longrightarrow> hm_get (cr_census_groups cr') g = hm_get (cr_census_groups cr) g) \<and>
    (\<forall>cg. hm_get (cr_census_groups cr) (fst entry) = Some cg \<longrightarrow>
       (\<exists>cg'. hm_get (cr_census_groups cr') (fst entry) = Some cg' \<and>
          cg' = cg_update_from_election_rumor (the (hm_get (snd entry) ''election'')) cg))"
proof (cases "sg_from_str (fst entry)")
  case (Inl e)
  with assms census_group_parsed [OF assms(1)] show ?thesis by (auto simp: cr_update_election_def)
next
  case (Inr sg)
  then have "sg = fst entry" by (rule sg_from_str_id)
  with Inr assms modify_group_step [OF assms(1) group_inv_election(1)] show ?thesis
    by (auto simp: cr_update_election_def)
qed

lemma cr_update_election_update_step:
  assumes "census_inv cr" and "hm_contains (snd entry) ''election''"
  shows "\<exists>cr'. cr_update_election_update entry cr = Some cr' \<and> census_inv cr' \<and>
    (\<forall>g. g \<noteq> fst entry \<longrightarrow> hm_get (cr_census_groups cr') g = hm_get (cr_census_groups cr) g) \<and>
    (\<forall>cg. hm_get (cr_census_groups cr) (fst entry) = Some cg \<longrightarrow>
       (\<exists>cg'. hm_get (cr_census_groups cr') (fst entry) = Some cg' \<and>
          cg' = cg_update_from_election_update_rumor (the (hm_get (snd entry) ''election'')) cg))"
proof (cases "hm_get (cr_census_groups cr) (fst entry)")
  case None
  then have "cr_update_election_update entry cr = Some cr"
    by (auto simp: cr_update_election_update_def dest: sg_from_str_id split: sum.split option.split)
  with None assms(1) show ?thesis by simp
next
  case (Some cg)
  from census_group_parsed [OF assms(1) Some] assms Some
    census_inv_put [OF assms(1) group_inv_election(2) [OF census_inv_group [OF assms(1) Some]]]
  show ?thesis by (auto simp: cr_update_election_update_def)
qed

definition config_update :: "('e, 't) census_env \<Rightarrow> (string, proto_rumor) hmap \<Rightarrow> 't census_group \<Rightarrow> 't census_group" where
  "config_update env rumors cg =
     (case hm_get rumors ''service_config'' of Some r \<Rightarrow> cg_update_from_service_config_rumor env r cg | None \<Rightarrow> cg)"

lemma cr_update_config_step:
  assumes "census_inv cr"
  shows "\<exists>cr'. Some (cr_update_config env entry cr) = Some cr' \<and> census_inv cr' \<and>
    (\<forall>g. g \<noteq> fst entry \<longrightarrow> hm_get (cr_census_groups cr') g = hm_get (cr_census_groups cr) g) \<and>
    (\<forall>cg. hm_get (cr_census_groups cr) (fst entry) = Some cg \<longrightarrow>
       (\<exists>cg'. hm_get (cr_census_groups cr') (fst entry) = Some cg' \<and> cg' = config_update env (snd entry) cg))"
proof (cases "sg_from_str (fst entry)")
  case (Inl e)
  with assms census_group_parsed [OF assms(1)] show ?thesis by (auto simp: cr_update_config_def)
next
  case (Inr sg)
  then have "sg = fst entry" by (rule sg_from_str_id)
  with Inr assms modify_group_step [OF assms group_inv_config] show ?thesis
    by (auto simp: cr_update_config_def config_update_def split: option.split)
qed

lemma cr_update_files_step:
  assumes "census_inv cr"
  shows "\<exists>cr'. Some (cr_update_files env entry cr) = Some cr' \<and> census_inv cr' \<and>
    (\<forall>g. g \<noteq> fst entry \<longrightarrow> hm_get (cr_census_groups cr') g = hm_get (cr_census_groups cr) g) \<and>
    (\<forall>cg. hm_get (cr_census_groups cr) (fst entry) = Some cg \<longrightarrow>
       (\<exists>cg'. hm_get (cr_census_groups cr') (fst entry) = Some cg' \<and> cg' = cg_update_from_service_file_rumors env (snd entry) cg))"
proof (cases "sg_from_str (fst entry)")
  case (Inl e)
  with assms census_group_parsed [OF assms(1)] show ?thesis by (auto simp: cr_update_files_def)
next
  case (Inr sg)
  then have sg: "sg = fst entry" by (rule sg_from_str_id)
  with Inr have "census_inv (cr_put_group sg (cg_update_from_service_file_rumors env (snd entry) (cr_group_entry sg cr)) cr)"
    by (intro census_inv_put [OF assms] group_inv_files census_inv_entry [OF assms]) simp
  with Inr sg show ?thesis by (auto simp: cr_update_files_def cr_group_entry_def)
qed

section \<open>The whole update\<close>

lemma store_entries:
  assumes "rs_inv R s"
  shows "distinct (map fst (with_keys s))" "map_of (with_keys s) g = hm_get (rs_list s) g"
  using assms by (simp_all add: rs_inv_def with_keys_def hm_inv_def hm_get_def)

lemma service_store_entries:
  assumes "rs_inv service_ops s"
  shows "service_groups_ok (with_keys s)"
  using assms by (auto simp: service_groups_ok_def rs_inv_iff with_keys_def hm_mem_iff service_ops_def hm_inv_def [of "rs_list s"])

text \<open>What the passes after the membership do to a group.\<close>

definition later_passes ::
  "('e, 't) census_env \<Rightarrow> server \<Rightarrow> service_group \<Rightarrow> 't census_group \<Rightarrow> 't census_group" where
  "later_passes env srv g cg =
     (let cg = (case with_rumor (srv_election_store srv) g ''election'' of
                  Some e \<Rightarrow> cg_update_from_election_rumor e cg | None \<Rightarrow> cg);
          cg = (case with_rumor (srv_update_store srv) g ''election'' of
                  Some e \<Rightarrow> cg_update_from_election_update_rumor e cg | None \<Rightarrow> cg);
          cg = (case hm_get (rs_list (srv_service_config_store srv)) g of Some rumors \<Rightarrow> config_update env rumors cg | None \<Rightarrow> cg)
      in (case hm_get (rs_list (srv_service_file_store srv)) g of
            Some rumors \<Rightarrow> cg_update_from_service_file_rumors env rumors cg | None \<Rightarrow> cg))"

lemma ml_members_ids:
  assumes "ml_inv ml"
  shows "mb_id ` set (with_members ml) = {i. hm_get (ml_members ml) i \<noteq> None}" "distinct (map mb_id (with_members ml))"
proof -
  have hm: "hm_inv (ml_members ml)" using assms by (simp add: ml_inv_iff)
  have id: "mb_id m = k" if "(k, m) \<in> set (ml_members ml)" for k m
    using that ml_inv_member [OF assms] by (simp add: hm_mem_iff [OF hm])
  then have eq: "map mb_id (with_members ml) = map fst (ml_members ml)" by (auto simp: with_members_def hm_values_def)
  then show "distinct (map mb_id (with_members ml))" using hm by (simp add: hm_inv_def)
  show "mb_id ` set (with_members ml) = {i. hm_get (ml_members ml) i \<noteq> None}"
    using arg_cong [OF eq, of set] by (auto simp: hm_get_def map_of_eq_None_iff)
qed

lemma populate_census_total:
  assumes "census_inv cr" and "rs_inv service_ops s" and "ml_inv ml"
  shows "\<exists>cr'. populate_census env s ml cr = Some cr' \<and> census_inv cr' \<and>
    (\<forall>g i r. with_rumor s g i = Some r \<and> sg_from_str g = Inr g \<longrightarrow>
       (\<exists>cm. cm_update_from_service_rumor env g r (member_entry env (cr_group_entry g cr) i) = Some cm \<and>
          census_view cr' g i = Some (with_health ml i cm)))"
proof -
  obtain cr1 where cr1: "fold_opt (cr_update_group_services env) (with_keys s) cr = Some cr1" "census_inv cr1"
    "\<And>g rumors. (g, rumors) \<in> set (with_keys s) \<Longrightarrow> sg_from_str g = Inr g \<Longrightarrow>
       \<exists>cg. hm_get (cr_census_groups cr1) g = Some cg \<and> (\<forall>i. hm_get (cg_population cg) i = services_view env cr g rumors i)"
    using cr_update_services_total [OF assms(1) service_store_entries [OF assms(2)]] by blast
  have members: "mb_id ` set (with_members ml) = {i. hm_get (ml_members ml) i \<noteq> None}" "distinct (map mb_id (with_members ml))"
    using ml_members_ids [OF assms(3)] by auto
  obtain cr2 where cr2: "fold_opt (cr_update_membership ml) (with_members ml) cr1 = Some cr2" "census_inv cr2"
    "\<And>g i. census_view cr2 g i = (if i \<in> mb_id ` set (with_members ml) then map_option (with_health ml i) (census_view cr1 g i) else census_view cr1 g i)"
    using cr_update_memberships [OF cr1(2) assms(3) subset_refl members(2)] by blast
  have view2: "census_view cr2 g i = map_option (with_health ml i) (census_view cr1 g i)" for g i
    using cr2(3) members(1) by (cases "census_view cr1 g i") (auto simp: with_health_def)
  have "\<exists>cm. cm_update_from_service_rumor env g r (member_entry env (cr_group_entry g cr) i) = Some cm \<and>
      census_view cr2 g i = Some (with_health ml i cm)" if stored: "with_rumor s g i = Some r" and g: "sg_from_str g = Inr g" for g i r
  proof -
    from stored obtain rumors where rumors: "hm_get (rs_list s) g = Some rumors" "hm_get rumors i = Some r"
      by (auto simp: with_rumor_def bind_eq_Some_conv)
    have "(g, rumors) \<in> set (with_keys s)" unfolding with_keys_def by (rule hm_get_mem [OF rumors(1)])
    from cr1(3) [OF this g] rumors(2) have "census_view cr1 g i = cm_update_from_service_rumor env g r (member_entry env (cr_group_entry g cr) i)"
      by (auto simp: census_view_def services_view_def)
    moreover obtain cm where "cm_update_from_service_rumor env g r (member_entry env (cr_group_entry g cr) i) = Some cm"
      by (rule parsed_group_update [OF g])
    ultimately show ?thesis by (simp add: view2)
  qed
  with cr1(1) cr2(1, 2) show ?thesis by (auto simp: populate_census_def)
qed

lemma election_pass:
  assumes "census_inv cr" and "rs_inv R s" and "list_all (\<lambda>(_, rumors). hm_contains rumors ''election'') (with_keys s)"
  shows "\<exists>cr'. update_from_election_store s cr = Some cr' \<and> census_inv cr' \<and>
    (\<forall>g cg. hm_get (cr_census_groups cr) g = Some cg \<longrightarrow> hm_get (cr_census_groups cr') g =
       Some (case with_rumor s g ''election'' of Some e \<Rightarrow> cg_update_from_election_rumor e cg | None \<Rightarrow> cg))"
    (is ?leader)
    "\<exists>cr'. update_from_election_update_store s cr = Some cr' \<and> census_inv cr' \<and>
    (\<forall>g cg. hm_get (cr_census_groups cr) g = Some cg \<longrightarrow> hm_get (cr_census_groups cr') g =
       Some (case with_rumor s g ''election'' of Some e \<Rightarrow> cg_update_from_election_update_rumor e cg | None \<Rightarrow> cg))"
    (is ?update)
proof -
  have has: "hm_contains (snd entry) ''election''" if "entry \<in> set (with_keys s)" for entry
    using assms(3) that by (auto simp: list_all_iff)
  have found: "\<exists>e. hm_get rumors ''election'' = Some e \<and> with_rumor s g ''election'' = Some e"
    if "hm_get (rs_list s) g = Some rumors" for g rumors
    using has [of "(g, rumors)"] hm_get_mem [OF that] that by (auto simp: with_keys_def with_rumor_def)
  have missing: "with_rumor s g ''election'' = None" if "hm_get (rs_list s) g = None" for g
    using that by (simp add: with_rumor_def)
  show ?leader
    using group_pass [OF assms(1) store_entries(1) [OF assms(2)] cr_update_election_step [OF _ has]] found missing
    unfolding update_from_election_store_def store_entries(2) [OF assms(2)]
    by (fastforce split: option.splits)
  show ?update
    using group_pass [OF assms(1) store_entries(1) [OF assms(2)] cr_update_election_update_step [OF _ has]] found missing
    unfolding update_from_election_update_store_def store_entries(2) [OF assms(2)]
    by (fastforce split: option.splits)
qed

lemma config_and_file_pass:
  assumes "census_inv cr" and "rs_inv R s"
  shows "census_inv (update_from_service_config env s cr) \<and>
    (\<forall>g cg. hm_get (cr_census_groups cr) g = Some cg \<longrightarrow> hm_get (cr_census_groups (update_from_service_config env s cr)) g =
       Some (case hm_get (rs_list s) g of Some rumors \<Rightarrow> config_update env rumors cg | None \<Rightarrow> cg))" (is ?config)
    "census_inv (update_from_service_files env s cr) \<and>
    (\<forall>g cg. hm_get (cr_census_groups cr) g = Some cg \<longrightarrow> hm_get (cr_census_groups (update_from_service_files env s cr)) g =
       Some (case hm_get (rs_list s) g of Some rumors \<Rightarrow> cg_update_from_service_file_rumors env rumors cg | None \<Rightarrow> cg))" (is ?files)
proof -
  show ?config
    using group_pass [OF assms(1) store_entries(1) [OF assms(2)] cr_update_config_step [of _ env]]
    unfolding update_from_service_config_def store_entries(2) [OF assms(2)] fold_opt_Some
    by (fastforce split: option.splits)
  show ?files
    using group_pass [OF assms(1) store_entries(1) [OF assms(2)] cr_update_files_step [of _ env]]
    unfolding update_from_service_files_def store_entries(2) [OF assms(2)] fold_opt_Some
    by (fastforce split: option.splits)
qed

lemma census_inv_counters [simp]:
  "census_inv (cr\<lparr>cr_changed := b\<rparr>) = census_inv cr"
  "census_inv (cr\<lparr>cr_last_membership_counter := a, cr_last_service_counter := c, cr_last_election_counter := d,
     cr_last_election_update_counter := e, cr_last_service_config_counter := f, cr_last_service_file_counter := h\<rparr>) = census_inv cr"
  by (simp_all add: census_inv_def)

lemma populated_members:
  assumes "server_inv srv" and "census_inv cr"
    and "populate_census env (srv_service_store srv) (srv_member_list srv) (cr\<lparr>cr_changed := True\<rparr>) = Some cr1"
  shows "census_inv cr1 \<and> (\<forall>g i r. with_rumor (srv_service_store srv) g i = Some r \<and> sg_from_str g = Inr g \<longrightarrow>
      (\<exists>cm. cm_update_from_service_rumor env g r (member_entry env (cr_group_entry g (cr\<lparr>cr_changed := True\<rparr>)) i) = Some cm \<and>
         census_view cr1 g i = Some (with_health (srv_member_list srv) i cm)))"
  using populate_census_total [of "cr\<lparr>cr_changed := True\<rparr>" "srv_service_store srv" "srv_member_list srv" env]
    assms server_inv_parts(1, 3) [OF assms(1)] by auto

lemma update_from_rumors_eq:
  assumes "server_inv srv" and "elections_present srv" and "census_inv cr" and "rumors_are_new srv cr"
  obtains cr1 cr' where "populate_census env (srv_service_store srv) (srv_member_list srv) (cr\<lparr>cr_changed := True\<rparr>) = Some cr1"
    and "update_from_rumors env srv cr = Some cr'" and "census_inv cr'" and "\<not> rumors_are_new srv cr'"
    and "\<And>g cg. hm_get (cr_census_groups cr1) g = Some cg \<Longrightarrow> hm_get (cr_census_groups cr') g = Some (later_passes env srv g cg)"
proof -
  note inv = assms(1) [unfolded server_inv_def]
  obtain cr1 where cr1: "populate_census env (srv_service_store srv) (srv_member_list srv) (cr\<lparr>cr_changed := True\<rparr>) = Some cr1" "census_inv cr1"
    using populate_census_total [of "cr\<lparr>cr_changed := True\<rparr>" "srv_service_store srv" "srv_member_list srv" env] assms(3) inv by auto
  obtain cr2 where cr2: "update_from_election_store (srv_election_store srv) cr1 = Some cr2" "census_inv cr2"
    "\<And>g cg. hm_get (cr_census_groups cr1) g = Some cg \<Longrightarrow> hm_get (cr_census_groups cr2) g =
       Some (case with_rumor (srv_election_store srv) g ''election'' of Some e \<Rightarrow> cg_update_from_election_rumor e cg | None \<Rightarrow> cg)"
    using election_pass(1) [OF cr1(2), of "el_ops LeaderElection" "srv_election_store srv"] inv assms(2)
    by (auto simp: elections_present_def)
  obtain cr3 where cr3: "update_from_election_update_store (srv_update_store srv) cr2 = Some cr3" "census_inv cr3"
    "\<And>g cg. hm_get (cr_census_groups cr2) g = Some cg \<Longrightarrow> hm_get (cr_census_groups cr3) g =
       Some (case with_rumor (srv_update_store srv) g ''election'' of Some e \<Rightarrow> cg_update_from_election_update_rumor e cg | None \<Rightarrow> cg)"
    using election_pass(2) [OF cr2(2), of "el_ops UpdateElection" "srv_update_store srv"] inv assms(2)
    by (auto simp: elections_present_def)
  let ?cr4 = "update_from_service_config env (srv_service_config_store srv) cr3"
  let ?cr5 = "update_from_service_files env (srv_service_file_store srv) ?cr4"
  have cr4: "census_inv ?cr4" "\<And>g cg. hm_get (cr_census_groups cr3) g = Some cg \<Longrightarrow> hm_get (cr_census_groups ?cr4) g =
       Some (case hm_get (rs_list (srv_service_config_store srv)) g of Some rumors \<Rightarrow> config_update env rumors cg | None \<Rightarrow> cg)"
    using config_and_file_pass(1) [OF cr3(2), of service_config_ops "srv_service_config_store srv" env] inv by auto
  have cr5: "census_inv ?cr5" "\<And>g cg. hm_get (cr_census_groups ?cr4) g = Some cg \<Longrightarrow> hm_get (cr_census_groups ?cr5) g =
       Some (case hm_get (rs_list (srv_service_file_store srv)) g of
               Some rumors \<Rightarrow> cg_update_from_service_file_rumors env rumors cg | None \<Rightarrow> cg)"
    using config_and_file_pass(2) [OF cr4(1), of service_file_ops "srv_service_file_store srv" env] inv by auto
  have upd: "\<exists>cr'. update_from_rumors env srv cr = Some cr' \<and> census_inv cr' \<and> \<not> rumors_are_new srv cr' \<and>
      cr_census_groups cr' = cr_census_groups ?cr5"
    using assms(4) cr1(1) cr2(1) cr3(1) cr5(1) by (simp add: update_from_rumors_def) (simp add: rumors_are_new_def)
  then show thesis
    using that cr1(1) cr2(3) cr3(3) cr4(2) cr5(2) unfolding later_passes_def Let_def by metis
qed

text \<open>The later passes set election flags only.\<close>

definition cm_core ::
  "'t census_member \<Rightarrow> string \<times> package_ident option \<times> string \<times> string \<times> bool \<times> bool \<times> bool \<times> bool" where
  "cm_core cm = (cm_member_id cm, cm_pkg cm, cm_service cm, cm_group cm, cm_alive cm, cm_suspect cm, cm_confirmed cm, cm_departed cm)"

lemma cm_core_election [simp]:
  "cm_core (cm_update_from_election_rumor e cm) = cm_core cm"
  "cm_core (cm_update_from_election_update_rumor e cm) = cm_core cm"
  by (simp_all add: cm_core_def cm_update_from_election_rumor_def cm_update_from_election_update_rumor_def Let_def)

definition cg_leadership :: "'t census_group \<Rightarrow> (string, 't census_member) hmap \<times> string option \<times> census_election_status" where
  "cg_leadership cg = (cg_population cg, cg_leader_id cg, cg_election_status cg)"

lemma cg_leadership_config [simp]: "cg_leadership (config_update env rumors cg) = cg_leadership cg"
  by (simp add: cg_leadership_def config_update_def cg_update_from_service_config_rumor_def split: option.split sum.split)

lemma cg_leadership_files [simp]: "cg_leadership (cg_update_from_service_file_rumors env rumors cg) = cg_leadership cg"
proof -
  have "cg_leadership (cg_update_file env entry cg) = cg_leadership cg" for entry cg
    by (simp add: cg_leadership_def cg_update_file_def Let_def split: option.split sum.split)
  from fold_keeps [of cg_leadership "cg_update_file env", OF this] show ?thesis
    by (simp add: cg_update_from_service_file_rumors_def) (simp add: cg_leadership_def)
qed

lemma later_passes_leadership:
  "cg_leadership (later_passes env srv g cg) =
     cg_leadership (case with_rumor (srv_update_store srv) g ''election'' of
         Some e \<Rightarrow> cg_update_from_election_update_rumor e
           (case with_rumor (srv_election_store srv) g ''election'' of Some e \<Rightarrow> cg_update_from_election_rumor e cg | None \<Rightarrow> cg)
       | None \<Rightarrow> (case with_rumor (srv_election_store srv) g ''election'' of Some e \<Rightarrow> cg_update_from_election_rumor e cg | None \<Rightarrow> cg))"
  by (simp add: later_passes_def Let_def split: option.split)

lemma later_passes_core:
  "map_option cm_core (hm_get (cg_population (later_passes env srv g cg)) i) = map_option cm_core (hm_get (cg_population cg) i)"
  using later_passes_leadership [of env srv g cg]
  by (auto simp: cg_leadership_def cg_update_from_election_rumor_def cg_update_from_election_update_rumor_def Let_def
      option.map_comp comp_def split: option.splits)

text \<open>C30: An update of the census from the stores of a well-formed server does not panic, provided every group
  of the election stores has an election. When a store has changed, every service rumor of a
  parsable group then appears in the census under its group and member, with the package of the
  rumor and with exactly the health the member list gives that member, and the census is up to
  date.\<close>

theorem census_reflects_rumors:
  assumes "server_inv srv" and "elections_present srv" and "census_inv cr" and "rumors_are_new srv cr"
  shows "\<exists>cr'. update_from_rumors env srv cr = Some cr' \<and> census_inv cr' \<and> \<not> rumors_are_new srv cr' \<and>
    (\<forall>g i r. with_rumor (srv_service_store srv) g i = Some r \<and> sg_from_str g = Inr g \<longrightarrow>
       (\<exists>cm. census_view cr' g i = Some cm \<and> cm_member_id cm = i \<and>
          Some (cm_service cm) = sg_service g \<and> Some (cm_group cm) = sg_group g \<and>
          (\<forall>ident. ident_from_str (sv_pkg (get_service r)) = Inr ident \<longrightarrow> cm_pkg cm = Some ident) \<and>
          (\<forall>m h. with_member i (srv_member_list srv) = Some m \<and> health_of_by_id i (srv_member_list srv) = Some h \<longrightarrow>
             cm_alive cm = (h = Alive) \<and> cm_suspect cm = (h = Suspect) \<and>
             cm_confirmed cm = (h = Confirmed) \<and> cm_departed cm = (h = Departed))))"
proof -
  obtain cr1 cr' where
    cr1: "populate_census env (srv_service_store srv) (srv_member_list srv) (cr\<lparr>cr_changed := True\<rparr>) = Some cr1"
    and cr': "update_from_rumors env srv cr = Some cr'" "census_inv cr'" "\<not> rumors_are_new srv cr'"
    and later: "\<And>g cg. hm_get (cr_census_groups cr1) g = Some cg \<Longrightarrow> hm_get (cr_census_groups cr') g = Some (later_passes env srv g cg)"
    by (rule update_from_rumors_eq [OF assms, of env]) blast
  note populated = populated_members [OF assms(1, 3) cr1]
  have "\<exists>cm. census_view cr' g i = Some cm \<and> cm_member_id cm = i \<and>
          Some (cm_service cm) = sg_service g \<and> Some (cm_group cm) = sg_group g \<and>
          (\<forall>ident. ident_from_str (sv_pkg (get_service r)) = Inr ident \<longrightarrow> cm_pkg cm = Some ident) \<and>
          (\<forall>m h. with_member i (srv_member_list srv) = Some m \<and> health_of_by_id i (srv_member_list srv) = Some h \<longrightarrow>
             cm_alive cm = (h = Alive) \<and> cm_suspect cm = (h = Suspect) \<and>
             cm_confirmed cm = (h = Confirmed) \<and> cm_departed cm = (h = Departed))"
    if stored: "with_rumor (srv_service_store srv) g i = Some r" and g: "sg_from_str g = Inr g" for g i r
  proof -
    have i: "sv_member_id (get_service r) = i"
      using rs_inv_lookup(2) [OF server_inv_parts(3) [OF assms(1)] stored] by (simp add: service_ops_def)
    let ?entry = "member_entry env (cr_group_entry g (cr\<lparr>cr_changed := True\<rparr>)) i"
    obtain cm1 where cm1: "cm_update_from_service_rumor env g r ?entry = Some cm1"
      "census_view cr1 g i = Some (with_health (srv_member_list srv) i cm1)"
      using populated stored g by blast
    obtain cg where cg: "hm_get (cr_census_groups cr1) g = Some cg" "hm_get (cg_population cg) i = Some (with_health (srv_member_list srv) i cm1)"
      using cm1(2) by (auto simp: census_view_def bind_eq_Some_conv)
    from later_passes_core [of env srv g cg i] cg(2) obtain cm where
      cm: "hm_get (cg_population (later_passes env srv g cg)) i = Some cm" "cm_core cm = cm_core (with_health (srv_member_list srv) i cm1)"
      by auto
    have view: "census_view cr' g i = Some cm" by (simp add: census_view_def later [OF cg(1)] cm(1))
    have "cm_member_id cm1 = i \<and> Some (cm_service cm1) = sg_service g \<and> Some (cm_group cm1) = sg_group g \<and>
        (\<forall>ident. ident_from_str (sv_pkg (get_service r)) = Inr ident \<longrightarrow> cm_pkg cm1 = Some ident)"
      by (rule parsed_group_update [OF g, of env r ?entry]) (use cm1(1) i in auto)
    with view cm(2) show ?thesis
      by (auto simp: cm_core_def with_health_def with_member_def health_of_by_id_def cm_update_from_health_def
          cm_update_from_member_def split: option.splits)
  qed
  with cr' show ?thesis by blast
qed

definition example_env :: "(unit, nat) census_env" where
  "example_env = \<lparr>ce_read_cfg = length, ce_no_cfg = 0, ce_config = (\<lambda>r. Inr (length (sc_config (get_service_config r)))),
     ce_body = (\<lambda>r. Inr (sf_body (get_service_file r)))\<rparr>"

text \<open>A ring of three services whose election is decided for \<open>b\<close>, with counters that show news.\<close>

definition example_ring :: server where
  "example_ring =
     (let srv = example_server ''a'' [(''a'', Alive), (''b'', Alive), (''c'', Confirmed)]
      in srv\<lparr>srv_service_store := (srv_service_store srv)\<lparr>rs_update_counter := 3\<rparr>,
             srv_election_store := fst (rs_insert election_ops (election_finish (election_new ''b'' ''foo.bar'' 7)) rs_default)\<rparr>)"

theorem census_reflects_rumors_witness:
  "\<exists>cr'. update_from_rumors example_env example_ring (census_ring_new ''a'') = Some cr' \<and>
     (\<exists>cm. census_view cr' ''foo.bar'' ''c'' = Some cm \<and> cm_confirmed cm \<and> \<not> cm_alive cm)"
proof -
  have hyps: "server_inv example_ring" "elections_present example_ring" "rumors_are_new example_ring (census_ring_new ''a'' :: nat census_ring)"
    by code_simp+
  have stored: "with_rumor (srv_service_store example_ring) ''foo.bar'' ''c'' = Some (example_service ''c'' 0)"
    and g: "sg_from_str ''foo.bar'' = Inr ''foo.bar''"
    and m: "with_member ''c'' (srv_member_list example_ring) = Some (default_member ''c'')"
      "health_of_by_id ''c'' (srv_member_list example_ring) = Some Confirmed"
    by code_simp+
  from census_reflects_rumors [OF hyps(1, 2) census_inv_new hyps(3), of example_env] obtain cr' where
    "update_from_rumors example_env example_ring (census_ring_new ''a'') = Some cr'"
    "\<forall>g i r. with_rumor (srv_service_store example_ring) g i = Some r \<and> sg_from_str g = Inr g \<longrightarrow>
       (\<exists>cm. census_view cr' g i = Some cm \<and>
          (\<forall>m h. with_member i (srv_member_list example_ring) = Some m \<and> health_of_by_id i (srv_member_list example_ring) = Some h \<longrightarrow>
             cm_alive cm = (h = Alive) \<and> cm_suspect cm = (h = Suspect) \<and>
             cm_confirmed cm = (h = Confirmed) \<and> cm_departed cm = (h = Departed)))"
    by blast
  with stored g m show ?thesis by fastforce
qed

section \<open>The leader\<close>

lemma flagged_id_unique:
  assumes "\<And>cm. cm \<in> set (bt_values pop) \<Longrightarrow> p cm \<Longrightarrow> cm_member_id cm = x"
  shows "flagged_id p pop = (if \<exists>cm \<in> set (bt_values pop). p cm then Some x else None)"
proof -
  have "fold (\<lambda>cm found. if p cm then Some (cm_member_id cm) else found) cms acc =
      (if \<exists>cm \<in> set cms. p cm then Some x else acc)" if "set cms \<subseteq> set (bt_values pop)" for cms acc
    using that assms by (induction cms arbitrary: acc) auto
  then show ?thesis by (simp add: flagged_id_def)
qed

lemma bt_values_iff: "hm_inv m \<Longrightarrow> v \<in> set (bt_values m) \<longleftrightarrow> (\<exists>k. hm_get m k = Some v)"
  by (force simp: bt_values_def hm_mem_iff [symmetric])

lemma elected_leader:
  assumes "group_inv g cg" and "el_status (get_election e) = Finished"
  shows "cg_leader_id (cg_update_from_election_rumor e cg) =
    (if hm_get (cg_population cg) (el_member_id (get_election e)) = None then None else Some (el_member_id (get_election e)))"
proof -
  let ?L = "el_member_id (get_election e)"
  let ?pop = "update_population (cm_update_from_election_rumor e) (cg_population cg)"
  have inv: "hm_inv ?pop" using assms(1) by (simp add: group_inv_def)
  have get: "hm_get ?pop k = Some cm' \<longleftrightarrow> (\<exists>cm. hm_get (cg_population cg) k = Some cm \<and> cm' = cm_update_from_election_rumor e cm)" for k cm'
    by auto
  have leader: "cm_leader (cm_update_from_election_rumor e cm) \<longleftrightarrow> k = ?L" if "hm_get (cg_population cg) k = Some cm" for k cm
    using assms that by (simp add: group_inv_def)
  have "flagged_id cm_leader ?pop = (if \<exists>cm \<in> set (bt_values ?pop). cm_leader cm then Some ?L else None)"
    by (rule flagged_id_unique) (use assms(2) in \<open>auto simp: bt_values_iff [OF inv] split: if_splits\<close>)
  also have "(\<exists>cm \<in> set (bt_values ?pop). cm_leader cm) \<longleftrightarrow> hm_get (cg_population cg) ?L \<noteq> None"
    using leader unfolding Bex_def bt_values_iff [OF inv] get by (metis not_None_eq)
  finally show ?thesis by (simp add: cg_update_from_election_rumor_def Let_def)
qed

text \<open>C31: After an update the leader of a group with services is the winner of its finished election: the group
  reports the election as finished, its leader is the winner if the winner runs the service,
  exactly the winner is flagged as leader, and everybody else in the group as follower.\<close>

theorem census_leader_is_elected:
  assumes "server_inv srv" and "elections_present srv" and "census_inv cr" and "rumors_are_new srv cr"
    and "with_rumor (srv_service_store srv) g i = Some r" and "sg_from_str g = Inr g"
    and "with_rumor (srv_election_store srv) g ''election'' = Some e" and "el_status (get_election e) = Finished"
  shows "\<exists>cr' cg. update_from_rumors env srv cr = Some cr' \<and> census_group_for g cr' = Some cg \<and>
    cg_election_status cg = ElectionFinished \<and>
    (\<forall>k cm. hm_get (cg_population cg) k = Some cm \<longrightarrow>
       cm_leader cm = (k = el_member_id (get_election e)) \<and> cm_follower cm = (k \<noteq> el_member_id (get_election e))) \<and>
    map_option cm_member_id (cg_leader cg) =
      (if hm_get (cg_population cg) (el_member_id (get_election e)) = None then None else Some (el_member_id (get_election e)))"
proof -
  let ?L = "el_member_id (get_election e)"
  obtain cr1 cr' where
    cr1: "populate_census env (srv_service_store srv) (srv_member_list srv) (cr\<lparr>cr_changed := True\<rparr>) = Some cr1"
    and cr': "update_from_rumors env srv cr = Some cr'"
    and later: "\<And>g cg. hm_get (cr_census_groups cr1) g = Some cg \<Longrightarrow> hm_get (cr_census_groups cr') g = Some (later_passes env srv g cg)"
    by (rule update_from_rumors_eq [OF assms(1-4), of env]) blast
  note populated = populated_members [OF assms(1, 3) cr1]
  from populated assms(5, 6) have "census_inv cr1 \<and> (\<exists>cm. census_view cr1 g i = Some cm)" by blast
  then obtain cg where cg: "hm_get (cr_census_groups cr1) g = Some cg" "group_inv g cg"
    by (auto simp: census_view_def bind_eq_Some_conv dest: census_inv_group)
  let ?cg = "later_passes env srv g cg"
  let ?el = "cg_update_from_election_rumor e cg"
  have ids: "cm_member_id cm = k" if "hm_get (cg_population cg) k = Some cm" for k cm
    using cg(2) that by (simp add: group_inv_def)
  have lead: "cg_leader_id ?cg = cg_leader_id ?el" "cg_election_status ?cg = ElectionFinished"
    using later_passes_leadership [of env srv g cg] assms(7, 8)
    by (auto simp: cg_leadership_def cg_update_from_election_rumor_def cg_update_from_election_update_rumor_def Let_def
        split: option.splits)
  have pop: "\<exists>f. cg_population ?cg = update_population f (cg_population cg) \<and>
      (\<forall>cm. cm_member_id (f cm) = cm_member_id cm \<and> cm_leader (f cm) = (cm_member_id cm = ?L) \<and> cm_follower (f cm) = (cm_member_id cm \<noteq> ?L))"
  proof (cases "with_rumor (srv_update_store srv) g ''election''")
    case None
    with later_passes_leadership [of env srv g cg] assms(7, 8) show ?thesis
      by (intro exI [of _ "cm_update_from_election_rumor e"])
        (simp add: cg_leadership_def cg_update_from_election_rumor_def Let_def)
  next
    case (Some u)
    with later_passes_leadership [of env srv g cg] assms(7, 8) show ?thesis
      by (intro exI [of _ "\<lambda>cm. cm_update_from_election_update_rumor u (cm_update_from_election_rumor e cm)"])
        (simp add: cg_leadership_def cg_update_from_election_rumor_def cg_update_from_election_update_rumor_def Let_def
          update_population_def case_prod_beta)
  qed
  then obtain f where f: "cg_population ?cg = update_population f (cg_population cg)"
    "\<And>cm. cm_member_id (f cm) = cm_member_id cm" "\<And>cm. cm_leader (f cm) = (cm_member_id cm = ?L)"
    "\<And>cm. cm_follower (f cm) = (cm_member_id cm \<noteq> ?L)" by blast
  have "map_option cm_member_id (cg_leader ?cg) = (if hm_get (cg_population ?cg) ?L = None then None else Some ?L)"
    using elected_leader [OF cg(2) assms(8)] ids by (auto simp: cg_leader_def lead f)
  with cr' later [OF cg(1)] lead(2) f ids show ?thesis by (auto simp: census_group_for_def)
qed

theorem census_leader_is_elected_witness:
  "\<exists>cr' cg. update_from_rumors example_env example_ring (census_ring_new ''a'') = Some cr' \<and>
     census_group_for ''foo.bar'' cr' = Some cg \<and> cg_election_status cg = ElectionFinished"
proof -
  let ?e = "the (with_rumor (srv_election_store example_ring) ''foo.bar'' ''election'')"
  have "server_inv example_ring" "elections_present example_ring" "rumors_are_new example_ring (census_ring_new ''a'' :: nat census_ring)"
    "with_rumor (srv_service_store example_ring) ''foo.bar'' ''c'' = Some (example_service ''c'' 0)"
    "sg_from_str ''foo.bar'' = Inr ''foo.bar''"
    "with_rumor (srv_election_store example_ring) ''foo.bar'' ''election'' = Some ?e" "el_status (get_election ?e) = Finished"
    by code_simp+
  from census_leader_is_elected [OF this(1, 2) census_inv_new this(3-7), of example_env] show ?thesis by blast
qed

section \<open>The peer to the left\<close>

lemma position_nth:
  "distinct (map f xs) \<Longrightarrow> n < length xs \<Longrightarrow> position (\<lambda>x. f x = f (xs ! n)) xs = Some n"
proof (induction xs arbitrary: n)
  case (Cons x xs)
  then show ?case by (cases n) (force simp: image_iff in_set_conv_nth)+
qed simp

lemma position_None: "position p xs = None \<longleftrightarrow> (\<forall>x \<in> set xs. \<not> p x)"
  by (induction xs) auto

lemma sorted_predecessor:
  fixes ks :: "'a::linorder list"
  assumes "sorted ks" and "distinct ks" and "Suc n < length ks"
  shows "Max {k \<in> set ks. k < ks ! Suc n} = ks ! n"
proof (rule Max_eqI)
  show "k \<le> ks ! n" if "k \<in> {k \<in> set ks. k < ks ! Suc n}" for k
  proof -
    from that obtain j where j: "j < length ks" "k = ks ! j" "ks ! j < ks ! Suc n" by (auto simp: in_set_conv_nth)
    with assms(1, 3) have "j < Suc n" by (metis leD not_le_imp_less sorted_nth_mono)
    with j assms show ?thesis by (simp add: sorted_nth_mono)
  qed
  show "ks ! n \<in> {k \<in> set ks. k < ks ! Suc n}"
  proof -
    have "ks ! n \<le> ks ! Suc n" using assms(1, 3) by (simp add: sorted_nth_mono)
    moreover have "ks ! n \<noteq> ks ! Suc n" using assms(2, 3) by (simp add: nth_eq_iff_index_eq)
    ultimately show ?thesis using assms(3) by simp
  qed
qed simp

lemma ring_predecessor:
  fixes ks :: "'a::linorder list"
  assumes "sorted ks" and "distinct ks" and "n < length ks"
  shows "ks ! (if n = 0 then length ks - 1 else n - 1) =
    (if \<exists>k \<in> set ks. k < ks ! n then Max {k \<in> set ks. k < ks ! n} else Max (set ks))"
proof (cases n)
  case 0
  have least: "ks ! 0 \<le> k" if "k \<in> set ks" for k
  proof -
    from that obtain j where "j < length ks" "k = ks ! j" by (auto simp: in_set_conv_nth)
    with sorted_nth_mono [OF assms(1), of 0 j] show ?thesis by simp
  qed
  have greatest: "k \<le> ks ! (length ks - 1)" if "k \<in> set ks" for k
  proof -
    from that obtain j where "j < length ks" "k = ks ! j" by (auto simp: in_set_conv_nth)
    with sorted_nth_mono [OF assms(1), of j "length ks - 1"] show ?thesis by simp
  qed
  have "Max (set ks) = ks ! (length ks - 1)"
    by (rule Max_eqI) (use greatest assms(3) in auto)
  moreover have "\<not> (\<exists>k \<in> set ks. k < ks ! 0)" using least by (meson leD)
  ultimately show ?thesis using 0 by simp
next
  case (Suc j)
  have pred: "Max {k \<in> set ks. k < ks ! Suc j} = ks ! j"
    by (rule sorted_predecessor [OF assms(1, 2)]) (use assms(3) Suc in simp)
  have "ks ! j \<le> ks ! Suc j" using assms(1, 3) Suc by (simp add: sorted_nth_mono)
  moreover have "ks ! j \<noteq> ks ! Suc j" using assms(2, 3) Suc by (simp add: nth_eq_iff_index_eq)
  ultimately have "\<exists>k \<in> set ks. k < ks ! Suc j" using assms(3) Suc by (intro bexI [of _ "ks ! j"]) auto
  with pred Suc show ?thesis by simp
qed

lemma bt_keys:
  assumes "group_inv g cg"
  shows "map cm_member_id (cg_members cg) = sort (map fst (cg_population cg))"
proof -
  have "cm_member_id (snd e) = fst e" if "e \<in> set (cg_population cg)" for e
    using assms that by (cases e) (auto simp: group_inv_def hm_mem_iff)
  then have "map cm_member_id (cg_members cg) = map fst (sort_key fst (cg_population cg))"
    by (auto simp: cg_members_def bt_values_def)
  also have "\<dots> = sort (map fst (cg_population cg))"
    by (rule properties_for_sort [symmetric]) simp_all
  finally show ?thesis .
qed

lemma set_singleton_length:
  assumes "distinct xs" and "x \<in> set xs"
  shows "set xs \<noteq> {x} \<longleftrightarrow> 1 < length xs"
proof (cases xs)
  case (Cons a ys)
  with assms show ?thesis by (cases ys) auto
qed (use assms in simp)

definition alive_ids :: "'t census_group \<Rightarrow> string list" where
  "alive_ids cg = map cm_member_id (filter cm_alive (cg_members cg))"

lemma alive_ids_sorted:
  assumes "group_inv g cg"
  shows "sorted (alive_ids cg)" "distinct (alive_ids cg)"
proof -
  have "distinct (map fst (cg_population cg))" using assms by (simp add: group_inv_def hm_inv_def)
  then have "sorted (map cm_member_id (cg_members cg))" "distinct (map cm_member_id (cg_members cg))"
    by (simp_all add: bt_keys [OF assms])
  then show "sorted (alive_ids cg)" "distinct (alive_ids cg)"
    by (simp_all add: alive_ids_def sorted_filter distinct_map_filter)
qed

text \<open>The previous peer of a supervisor in a group is its alive predecessor in the ring of the alive members, in
  the order of member identifiers: the greatest smaller one, or the greatest of all when there is
  none. There is one exactly when the supervisor runs the service, is alive itself, and
  at least one other member is alive.\<close>

theorem previous_peer_is_ring_predecessor:
  assumes "group_inv g cg"
  shows "map_option cm_member_id (previous_peer cg) =
    (let self = cg_local_member_id cg; ids = set (alive_ids cg)
     in if self \<in> ids \<and> ids \<noteq> {self}
        then Some (if \<exists>k \<in> ids. k < self then Max {k \<in> ids. k < self} else Max ids) else None)"
proof -
  let ?alive = "filter cm_alive (cg_members cg)" and ?self = "cg_local_member_id cg" and ?ids = "alive_ids cg"
  have len: "length ?ids = length ?alive" by (simp add: alive_ids_def)
  have nth: "cm_member_id (?alive ! n) = ?ids ! n" if "n < length ?ids" for n
    using that by (simp add: alive_ids_def)
  note sorted = alive_ids_sorted [OF assms]
  have me: "cm_member_id me = ?self" if "cg_me cg = Some me" for me
    using assms that by (simp add: group_inv_def cg_me_def)
  have known: "cg_me cg \<noteq> None" if "?self \<in> set ?ids"
  proof -
    from that obtain cm where "cm \<in> set (cg_members cg)" "cm_member_id cm = ?self" by (auto simp: alive_ids_def)
    with assms show ?thesis by (auto simp: group_inv_def cg_members_def cg_me_def bt_values_iff)
  qed
  have single: "set ?ids \<noteq> {?self} \<longleftrightarrow> 1 < length ?ids" if "?self \<in> set ?ids"
    by (rule set_singleton_length [OF sorted(2) that])
  have peer: "previous_peer cg = (if cg_me cg = None \<or> length ?ids \<le> 1 then None
      else case position (\<lambda>cm. cm_member_id cm = ?self) ?alive of
        Some n \<Rightarrow> Some (?alive ! (if n = 0 then length ?ids - 1 else n - 1)) | None \<Rightarrow> None)"
    using me by (auto simp: previous_peer_def cg_members_def len [unfolded cg_members_def] Let_def split: option.split)
  show ?thesis
  proof (cases "?self \<in> set ?ids \<and> 1 < length ?ids")
    case False
    have "position (\<lambda>cm. cm_member_id cm = ?self) ?alive = None" if "?self \<notin> set ?ids"
      using that unfolding position_None alive_ids_def set_map by (metis imageI)
    with False single peer show ?thesis by (auto simp: Let_def)
  next
    case True
    then obtain n where n: "n < length ?ids" "?ids ! n = ?self" by (auto simp: in_set_conv_nth)
    have "position (\<lambda>cm. cm_member_id cm = ?self) ?alive = Some n"
      using position_nth [OF sorted(2) [unfolded alive_ids_def], of n] n(1) unfolding nth [OF n(1)] n(2) len by simp
    with True known peer have "previous_peer cg = Some (?alive ! (if n = 0 then length ?ids - 1 else n - 1))" by auto
    moreover have "?ids ! (if n = 0 then length ?ids - 1 else n - 1) =
        (if \<exists>k \<in> set ?ids. k < ?self then Max {k \<in> set ?ids. k < ?self} else Max (set ?ids))"
      using ring_predecessor [OF sorted n(1)] unfolding n(2) .
    ultimately show ?thesis using True single nth n(1) by (auto simp: Let_def)
  qed
qed

theorem previous_peer_is_ring_predecessor_witness:
  "\<exists>cr' cg. update_from_rumors example_env example_ring (census_ring_new ''a'') = Some cr' \<and>
     census_group_for ''foo.bar'' cr' = Some cg \<and> map_option cm_member_id (previous_peer cg) = Some ''b''"
proof -
  let ?cr = "the (update_from_rumors example_env example_ring (census_ring_new ''a''))"
  let ?cg = "the (census_group_for ''foo.bar'' ?cr)"
  have run: "update_from_rumors example_env example_ring (census_ring_new ''a'') = Some ?cr"
    and cg: "census_group_for ''foo.bar'' ?cr = Some ?cg" and ids: "alive_ids ?cg = [''a'', ''b'']" "cg_local_member_id ?cg = ''a''"
    by code_simp+
  have hyps: "server_inv example_ring" "elections_present example_ring" "rumors_are_new example_ring (census_ring_new ''a'' :: nat census_ring)"
    by code_simp+
  obtain cr1 cr' where "update_from_rumors example_env example_ring (census_ring_new ''a'') = Some cr'" "census_inv cr'"
    by (rule update_from_rumors_eq [OF hyps(1, 2) census_inv_new hyps(3), of example_env])
  with run have "census_inv ?cr" by simp
  with cg have "group_inv ''foo.bar'' ?cg" by (auto simp: census_group_for_def intro: census_inv_group)
  from previous_peer_is_ring_predecessor [OF this] have "map_option cm_member_id (previous_peer ?cg) = Some ''b''"
    unfolding ids by (simp add: Let_def)
  with run cg show ?thesis by blast
qed

section \<open>Files\<close>

lemma lookup_all_total: "(\<forall>k \<in> set ks. hm_get m k \<noteq> None) \<Longrightarrow> \<exists>vs. lookup_all m ks = Some vs"
  by (induction ks) auto

text \<open>A file in a group moves to a higher incarnation only, and is reported when it does.\<close>

lemma cg_update_file_effect:
  fixes cg :: "'t census_group" and env :: "('e, 't) census_env"
  assumes "ce_body env (snd entry) = Inr body"
  defines "r \<equiv> get_service_file (snd entry)"
  defines "old \<equiv> (case hm_get (cg_service_files cg) (sf_filename r) of Some f \<Rightarrow> f | None \<Rightarrow> default_census_file)"
  shows "hm_get (cg_service_files (cg_update_file env entry cg)) (sf_filename r) =
      Some (if sf_incarnation r > cf_incarnation old
        then \<lparr>cf_filename = sf_filename r, cf_incarnation = sf_incarnation r, cf_body = body\<rparr> else old)"
    and "cg_changed_service_files (cg_update_file env entry cg) =
      cg_changed_service_files cg @ (if sf_incarnation r > cf_incarnation old then [sf_filename r] else [])"
    and "k \<noteq> sf_filename r \<Longrightarrow> hm_get (cg_service_files (cg_update_file env entry cg)) k = hm_get (cg_service_files cg) k"
  using assms(1) unfolding r_def old_def by (auto simp: cg_update_file_def Let_def split: option.split)

lemma files_pass_effect:
  fixes cg :: "'t census_group" and env :: "('e, 't) census_env"
  assumes "distinct (map fst rumors)" and "\<And>i r. (i, r) \<in> set rumors \<Longrightarrow> sf_filename (get_service_file r) = i"
    and "\<And>i r. (i, r) \<in> set rumors \<Longrightarrow> ce_body env r = Inr (sf_body (get_service_file r))"
  defines "old \<equiv> \<lambda>k. case hm_get (cg_service_files cg) k of Some f \<Rightarrow> f | None \<Rightarrow> default_census_file"
  shows "hm_get (cg_service_files (fold (cg_update_file env) rumors cg)) k =
      (case map_of rumors k of
         None \<Rightarrow> hm_get (cg_service_files cg) k
       | Some r \<Rightarrow> Some (if sf_incarnation (get_service_file r) > cf_incarnation (old k)
           then \<lparr>cf_filename = k, cf_incarnation = sf_incarnation (get_service_file r), cf_body = sf_body (get_service_file r)\<rparr>
           else old k)) \<and>
    (k \<in> set (cg_changed_service_files (fold (cg_update_file env) rumors cg)) \<longleftrightarrow>
      k \<in> set (cg_changed_service_files cg) \<or>
      (\<exists>r. map_of rumors k = Some r \<and> sf_incarnation (get_service_file r) > cf_incarnation (old k)))"
  using assms(1-3) unfolding old_def
proof (induction rumors arbitrary: cg)
  case (Cons entry rumors)
  obtain i r where entry: "entry = (i, r)" by (cases entry)
  have name: "sf_filename (get_service_file r) = i" and body: "ce_body env (snd (i, r)) = Inr (sf_body (get_service_file r))"
    using Cons.prems(2, 3) entry by auto
  let ?cg = "cg_update_file env (i, r) cg"
  note step = cg_update_file_effect [OF body, where cg = cg, unfolded snd_conv name]
  have new: "map_of rumors i = None" using Cons.prems(1) entry by (simp add: map_of_eq_None_iff)
  have ih: "hm_get (cg_service_files (fold (cg_update_file env) rumors ?cg)) k =
      (case map_of rumors k of
         None \<Rightarrow> hm_get (cg_service_files ?cg) k
       | Some r \<Rightarrow> Some (if sf_incarnation (get_service_file r) > cf_incarnation (case hm_get (cg_service_files ?cg) k of Some f \<Rightarrow> f | None \<Rightarrow> default_census_file)
           then \<lparr>cf_filename = k, cf_incarnation = sf_incarnation (get_service_file r), cf_body = sf_body (get_service_file r)\<rparr>
           else (case hm_get (cg_service_files ?cg) k of Some f \<Rightarrow> f | None \<Rightarrow> default_census_file))) \<and>
    (k \<in> set (cg_changed_service_files (fold (cg_update_file env) rumors ?cg)) \<longleftrightarrow>
      k \<in> set (cg_changed_service_files ?cg) \<or>
      (\<exists>r. map_of rumors k = Some r \<and>
         sf_incarnation (get_service_file r) > cf_incarnation (case hm_get (cg_service_files ?cg) k of Some f \<Rightarrow> f | None \<Rightarrow> default_census_file)))"
    by (rule Cons.IH) (use Cons.prems in auto)
  show ?case
  proof (cases "k = i")
    case True
    have fold: "fold (cg_update_file env) (entry # rumors) cg = fold (cg_update_file env) rumors ?cg" by (simp add: entry)
    from ih step(1, 2) show ?thesis unfolding fold True entry by (simp add: new)
  next
    case False
    have fold: "fold (cg_update_file env) (entry # rumors) cg = fold (cg_update_file env) rumors ?cg" by (simp add: entry)
    have changed: "k \<in> set (cg_changed_service_files ?cg) \<longleftrightarrow> k \<in> set (cg_changed_service_files cg)"
      using False by (simp add: step(2))
    from ih False show ?thesis unfolding fold step(3) [OF False] changed entry by simp
  qed
qed simp

text \<open>When the file rumors of a group are processed, a file is replaced exactly when the rumor carries a higher
  incarnation than the file known, the replaced files are exactly those then
  reported as changed, every other file stays as it was, and reading the changed files does not
  panic. In particular a file whose rumor has incarnation zero is never delivered.\<close>

theorem service_files_move_forward:
  fixes cg :: "'t census_group" and env :: "('e, 't) census_env"
  assumes "group_inv g cg" and "hm_inv rumors"
    and "\<And>i r. hm_get rumors i = Some r \<Longrightarrow> sf_filename (get_service_file r) = i \<and> ce_body env r = Inr (sf_body (get_service_file r))"
  defines "old \<equiv> \<lambda>k. case hm_get (cg_service_files cg) k of Some f \<Rightarrow> f | None \<Rightarrow> default_census_file"
  defines "cg' \<equiv> cg_update_from_service_file_rumors env rumors cg"
  shows "(\<forall>k. hm_get (cg_service_files cg') k =
      (case hm_get rumors k of
         None \<Rightarrow> hm_get (cg_service_files cg) k
       | Some r \<Rightarrow> Some (if sf_incarnation (get_service_file r) > cf_incarnation (old k)
           then \<lparr>cf_filename = k, cf_incarnation = sf_incarnation (get_service_file r), cf_body = sf_body (get_service_file r)\<rparr>
           else old k))) \<and>
    (\<forall>k. k \<in> set (cg_changed_service_files cg') \<longleftrightarrow>
      (\<exists>r. hm_get rumors k = Some r \<and> sf_incarnation (get_service_file r) > cf_incarnation (old k))) \<and>
    (\<exists>files. changed_service_files cg' = Some files)"
proof -
  have reset: "cg_service_files (cg\<lparr>cg_changed_service_files := []\<rparr>) = cg_service_files cg"
    "cg_changed_service_files (cg\<lparr>cg_changed_service_files := []\<rparr>) = []" by simp_all
  have "distinct (map fst rumors)" using assms(2) by (simp add: hm_inv_def)
  moreover have "(i, r) \<in> set rumors \<Longrightarrow> sf_filename (get_service_file r) = i"
    "(i, r) \<in> set rumors \<Longrightarrow> ce_body env r = Inr (sf_body (get_service_file r))" for i r
    using assms(3) by (simp_all add: hm_mem_iff [OF assms(2)])
  ultimately have pass: "hm_get (cg_service_files cg') k =
      (case hm_get rumors k of
         None \<Rightarrow> hm_get (cg_service_files cg) k
       | Some r \<Rightarrow> Some (if sf_incarnation (get_service_file r) > cf_incarnation (old k)
           then \<lparr>cf_filename = k, cf_incarnation = sf_incarnation (get_service_file r), cf_body = sf_body (get_service_file r)\<rparr>
           else old k)) \<and>
      (k \<in> set (cg_changed_service_files cg') \<longleftrightarrow>
      (\<exists>r. hm_get rumors k = Some r \<and> sf_incarnation (get_service_file r) > cf_incarnation (old k)))" for k
    using files_pass_effect [of rumors env "cg\<lparr>cg_changed_service_files := []\<rparr>" k]
    unfolding cg'_def old_def cg_update_from_service_file_rumors_def hm_get_def [of rumors] reset by simp
  have "group_inv g cg'" unfolding cg'_def by (rule group_inv_files [OF assms(1)])
  then have "\<exists>files. changed_service_files cg' = Some files"
    unfolding changed_service_files_def group_inv_def by (intro lookup_all_total) blast
  with pass show ?thesis by blast
qed

definition example_file_rumor :: "string \<Rightarrow> u64 \<Rightarrow> proto_rumor" where
  "example_file_rumor name inc = update_service_file (sf_incarnation_update (\<lambda>_. inc)) (service_file_new ''a'' ''foo.bar'' name [1, 2])"

theorem service_files_move_forward_witness:
  "(let cg' = cg_update_from_service_file_rumors example_env [(''x'', example_file_rumor ''x'' 3), (''y'', example_file_rumor ''y'' 0)] (census_group_new ''foo.bar'' ''a'')
    in map_option cf_incarnation (hm_get (cg_service_files cg') ''x'') = Some 3 \<and>
       ''y'' \<notin> set (cg_changed_service_files cg') \<and> (\<exists>files. changed_service_files cg' = Some files))"
proof -
  let ?rumors = "[(''x'', example_file_rumor ''x'' 3), (''y'', example_file_rumor ''y'' 0)]"
  let ?cg = "census_group_new ''foo.bar'' ''a'' :: nat census_group"
  have g: "sg_from_str ''foo.bar'' = Inr ''foo.bar''" by code_simp
  have names: "sf_filename (get_service_file (example_file_rumor n i)) = n" "sf_incarnation (get_service_file (example_file_rumor n i)) = i" for n i
    by (simp_all add: example_file_rumor_def service_file_new_def update_service_file_def get_service_file_def)
  have hyp: "sf_filename (get_service_file r) = i \<and> ce_body example_env r = Inr (sf_body (get_service_file r))"
    if "hm_get ?rumors i = Some r" for i r
    using that names by (auto simp: example_env_def hm_get_def split: if_splits)
  have files: "cg_service_files ?cg = hm_new" by (simp add: census_group_new_def)
  show ?thesis
    using service_files_move_forward [OF group_inv_new [OF g, of "''a''"] _ hyp, where rumors = ?rumors] names files
    by (simp add: Let_def hm_inv_def hm_get_def [of ?rumors] default_census_file_def)
qed

section \<open>Groups without an election\<close>

text \<open>A group of the election store without an election makes the update of the census panic as well. It
  comes about by an election, a service and a newer election of a service group that does not parse.\<close>

theorem census_panics_on_malformed_group:
  "case server_new (Inr (Some 9638)) (Inr (Some 9638) :: unit + int option) (default_member ''a'') None of
     Inl _ \<Rightarrow> False
   | Inr srv \<Rightarrow>
       update_from_rumors example_env
         (insert_election (\<lambda>_. 0) (malformed_election 1)
           (insert_service 0 malformed_service
             (insert_election (\<lambda>_. 0) (malformed_election 0) srv))) (census_ring_new ''a'') = None"
  by code_simp

section \<open>Election states as text\<close>

lemma census_status_roundtrip: "census_status_from_str (census_status_to_string s) = Inr s"
  by (cases s; simp only:; code_simp)

end
