(* ===== verification/Package_Graph.thy ===== *)
theory Package_Graph
  imports Package_Ident "HOL-Library.Multiset" "HOL-Library.Sublist"
begin

text \<open>
  The dependency graph of the build service: \<open>components/builder-core/src/package_graph.rs\<close>
  and \<open>components/builder-core/src/rdeps.rs\<close>. The directed graph itself is a value of the
  petgraph crate, which is not part of the repository: its functions are the fields of
  \<open>graph_lib\<close>, an argument of every definition, and the locale \<open>graph_library\<close> states
  the documented behaviour the code relies on. The locale is interpreted on a graph kept as a
  list of edges, which shows that its laws can hold and lets the definitions run.

  Node indices and counters are natural numbers: a graph with as many nodes as there are
  32-bit indices is refused by petgraph itself.
\<close>

section \<open>The interface of the graph crate\<close>

record 'g graph_lib =
  gl_new :: 'g
  gl_add_node :: "nat \<Rightarrow> 'g \<Rightarrow> 'g \<times> nat"
  gl_extend_with_edges :: "(nat \<times> nat) list \<Rightarrow> 'g \<Rightarrow> 'g"
  gl_neighbors_incoming :: "'g \<Rightarrow> nat \<Rightarrow> nat list"
  gl_find_edge :: "'g \<Rightarrow> nat \<Rightarrow> nat \<Rightarrow> nat option"
  gl_remove_edge :: "nat \<Rightarrow> 'g \<Rightarrow> 'g option"
  gl_node_count :: "'g \<Rightarrow> nat"
  gl_edge_count :: "'g \<Rightarrow> nat"
  gl_is_cyclic :: "'g \<Rightarrow> bool"
  gl_connected_components :: "'g \<Rightarrow> nat"
  gl_toposort :: "'g \<Rightarrow> nat list option"
  gl_bfs :: "'g \<Rightarrow> nat \<Rightarrow> nat list"

section \<open>Reverse dependencies of a node\<close>

datatype graph_err = GraphCyclic

text \<open>
  The loop of \<open>rdeps\<close> walks through the topological order until every node of the set has been
  met; reading past the end of the vector panics.
\<close>

function rdeps_loop :: "nat list \<Rightarrow> nat \<Rightarrow> nat set \<Rightarrow> nat list \<Rightarrow> nat list option" where
  "rdeps_loop t cur bfs_set v =
     (if bfs_set = {} then Some v
      else if cur < length t then
        (if t ! cur \<in> bfs_set
         then rdeps_loop t (cur + 1) (bfs_set - {t ! cur}) (v @ [t ! cur])
         else rdeps_loop t (cur + 1) bfs_set v)
      else None)"
  by pat_completeness auto
termination
  by (relation "measure (\<lambda>(t, cur, _, _). length t - cur)") auto

declare rdeps_loop.simps [simp del]

definition topo_map :: "nat list \<Rightarrow> (nat, nat) hmap" where
  "topo_map t = fold (\<lambda>(i, j). hm_insert j i) (enumerate 0 t) hm_new"

definition rdeps :: "'g graph_lib \<Rightarrow> 'g \<Rightarrow> nat \<Rightarrow> (graph_err + nat list) option" where
  "rdeps L g n =
     (if gl_is_cyclic L g then Some (Inl GraphCyclic)
      else do {
        t \<leftarrow> gl_toposort L g;
        cur \<leftarrow> hm_get (topo_map t) n;
        v \<leftarrow> rdeps_loop t cur (set (gl_bfs L g n) - {n}) [];
        Some (Inr v)
      })"

section \<open>The package graph\<close>

record stats =
  st_node_count :: nat
  st_edge_count :: nat
  st_connected_comp :: nat
  st_is_cyclic :: bool

record heap_entry =
  he_pkg_index :: nat
  he_rdep_count :: nat

text \<open>A \<open>JobGraphPackage\<close> message: the values of its getters.\<close>

record job_graph_package =
  jp_ident :: string
  jp_deps :: "string list"
  jp_target :: string

definition short_name :: "string \<Rightarrow> string option" where
  "short_name name =
     (let parts = split_on (CHR ''/'') name
      in if 2 \<le> length parts then Some (parts ! 0 @ ''/'' @ parts ! 1) else None)"

record 'g package_graph =
  pg_package_max :: nat
  pg_package_map :: "(string, nat \<times> nat) hmap"
  pg_latest_map :: "(string, package_ident) hmap"
  pg_package_names :: "string list"
  pg_graph :: 'g

definition package_graph_new :: "'g graph_lib \<Rightarrow> 'g package_graph" where
  "package_graph_new L =
     \<lparr>pg_package_max = 0, pg_package_map = hm_new, pg_latest_map = hm_new, pg_package_names = [],
      pg_graph = gl_new L\<rparr>"

definition generate_id ::
  "'g graph_lib \<Rightarrow> string \<Rightarrow> 'g package_graph \<Rightarrow> ((nat \<times> nat) \<times> 'g package_graph) option" where
  "generate_id L name pg = do {
     sn \<leftarrow> short_name name;
     case hm_get (pg_package_map pg) sn of
       Some val \<Rightarrow> Some (val, pg)
     | None \<Rightarrow>
         (let names = pg_package_names pg @ [sn]; id = pg_package_max pg
          in if id < length names \<and> names ! id = sn then
               (case gl_add_node L id (pg_graph pg) of (g, node_index) \<Rightarrow>
                  Some ((id, node_index),
                    pg\<lparr>pg_package_names := names, pg_graph := g,
                       pg_package_map := hm_insert sn (id, node_index) (pg_package_map pg),
                       pg_package_max := id + 1\<rparr>))
             else None)
   }"

text \<open>\<open>find_edge(a, b).unwrap()\<close> followed by \<open>remove_edge(e).unwrap()\<close>, once and for a vector of sources.\<close>

definition unlink :: "'g graph_lib \<Rightarrow> nat \<Rightarrow> nat \<Rightarrow> 'g \<Rightarrow> 'g option" where
  "unlink L a b g = do {
     e \<leftarrow> gl_find_edge L g a b;
     gl_remove_edge L e g
   }"

fun unlink_all :: "'g graph_lib \<Rightarrow> nat list \<Rightarrow> nat \<Rightarrow> 'g \<Rightarrow> 'g option" where
  "unlink_all L [] b g = Some g"
| "unlink_all L (a # as) b g = do { g \<leftarrow> unlink L a b g; unlink_all L as b g }"

fun link_all :: "'g graph_lib \<Rightarrow> nat list \<Rightarrow> nat \<Rightarrow> 'g \<Rightarrow> 'g" where
  "link_all L [] b g = g"
| "link_all L (a # as) b g = link_all L as b (gl_extend_with_edges L [(a, b)] g)"

text \<open>One iteration of the loop over the dependencies in \<open>extend\<close>, and the loop.\<close>

definition extend_dep :: "'g graph_lib \<Rightarrow> nat \<Rightarrow> string \<Rightarrow> 'g package_graph \<Rightarrow> 'g package_graph option" where
  "extend_dep L pkg_node dep pg = do {
     ((_, dep_node), pg) \<leftarrow> generate_id L dep pg;
     let g = gl_extend_with_edges L [(dep_node, pkg_node)] (pg_graph pg);
     if gl_is_cyclic L g
     then do { g \<leftarrow> unlink L dep_node pkg_node g; Some (pg\<lparr>pg_graph := g\<rparr>) }
     else Some (pg\<lparr>pg_graph := g\<rparr>)
   }"

fun extend_deps :: "'g graph_lib \<Rightarrow> nat \<Rightarrow> string list \<Rightarrow> 'g package_graph \<Rightarrow> 'g package_graph option" where
  "extend_deps L pkg_node [] pg = Some pg"
| "extend_deps L pkg_node (dep # deps) pg =
     do { pg \<leftarrow> extend_dep L pkg_node dep pg; extend_deps L pkg_node deps pg }"

text \<open>
  The part of \<open>extend\<close> that decides whether the dependencies are replaced: an identifier that
  compares less than the latest one is skipped, otherwise the old dependencies are dropped.
\<close>

definition update_latest ::
  "'g graph_lib \<Rightarrow> string \<Rightarrow> package_ident \<Rightarrow> nat \<Rightarrow> 'g package_graph \<Rightarrow> (bool \<times> 'g package_graph) option" where
  "update_latest L sn pkg_ident pkg_node pg =
     (case hm_get (pg_latest_map pg) sn of
        Some latest \<Rightarrow>
          if ident_partial_cmp pkg_ident latest = Some Less then Some (False, pg)
          else do {
            g \<leftarrow> unlink_all L (gl_neighbors_incoming L (pg_graph pg) pkg_node) pkg_node (pg_graph pg);
            Some (True, pg\<lparr>pg_graph := g, pg_latest_map := hm_insert sn pkg_ident (pg_latest_map pg)\<rparr>)
          }
      | None \<Rightarrow> Some (True, pg\<lparr>pg_latest_map := hm_insert sn pkg_ident (pg_latest_map pg)\<rparr>))"

definition extend ::
  "'g graph_lib \<Rightarrow> job_graph_package \<Rightarrow> 'g package_graph \<Rightarrow> ((nat \<times> nat) \<times> 'g package_graph) option" where
  "extend L package pg = do {
     let name = jp_ident package;
     ((pkg_id, pkg_node), pg) \<leftarrow> generate_id L name pg;
     if pkg_id = pkg_node then do {
       pkg_ident \<leftarrow> (case ident_from_str name of Inr i \<Rightarrow> Some i | Inl _ \<Rightarrow> None);
       sn \<leftarrow> short_name name;
       (add_deps, pg) \<leftarrow> update_latest L sn pkg_ident pkg_node pg;
       pg \<leftarrow> (if add_deps then extend_deps L pkg_node (jp_deps package) pg else Some pg);
       Some ((gl_node_count L (pg_graph pg), gl_edge_count L (pg_graph pg)), pg)
     } else None
   }"

fun extend_each :: "'g graph_lib \<Rightarrow> job_graph_package list \<Rightarrow> 'g package_graph \<Rightarrow> 'g package_graph option" where
  "extend_each L [] pg = Some pg"
| "extend_each L (p # ps) pg = do { (_, pg) \<leftarrow> extend L p pg; extend_each L ps pg }"

definition build ::
  "'g graph_lib \<Rightarrow> job_graph_package list \<Rightarrow> 'g package_graph \<Rightarrow> ((nat \<times> nat) \<times> 'g package_graph) option" where
  "build L packages pg =
     (if pg_package_max pg = 0 then do {
        pg \<leftarrow> extend_each L packages pg;
        Some ((gl_node_count L (pg_graph pg), gl_edge_count L (pg_graph pg)), pg)
      } else None)"

text \<open>
  The loop over the dependencies in \<open>check_extend\<close>: the graph, whether a cycle was met, and the
  nodes whose edges are to be taken back.
\<close>

fun check_deps ::
  "'g graph_lib \<Rightarrow> (string, nat \<times> nat) hmap \<Rightarrow> nat \<Rightarrow> string list \<Rightarrow> 'g \<Rightarrow> nat list \<Rightarrow> ('g \<times> bool \<times> nat list) option" where
  "check_deps L names pkg_node [] g dep_nodes = Some (g, False, dep_nodes)"
| "check_deps L names pkg_node (dep # deps) g dep_nodes = do {
     sn \<leftarrow> short_name dep;
     case hm_get names sn of
       Some (_, dep_node) \<Rightarrow>
         (let g' = gl_extend_with_edges L [(dep_node, pkg_node)] g
          in if gl_is_cyclic L g' then Some (g', True, dep_nodes @ [dep_node])
             else check_deps L names pkg_node deps g' (dep_nodes @ [dep_node]))
     | None \<Rightarrow> check_deps L names pkg_node deps g dep_nodes
   }"

definition check_extend ::
  "'g graph_lib \<Rightarrow> job_graph_package \<Rightarrow> 'g package_graph \<Rightarrow> (bool \<times> 'g package_graph) option" where
  "check_extend L package pg = do {
     pkg_short_name \<leftarrow> short_name (jp_ident package);
     case hm_get (pg_package_map pg) pkg_short_name of
       None \<Rightarrow> Some (True, pg)
     | Some (_, pkg_node) \<Rightarrow> do {
         let saved_nodes = gl_neighbors_incoming L (pg_graph pg) pkg_node;
         g \<leftarrow> unlink_all L saved_nodes pkg_node (pg_graph pg);
         (g, circular_dep, dep_nodes) \<leftarrow> check_deps L (pg_package_map pg) pkg_node (jp_deps package) g [];
         g \<leftarrow> unlink_all L dep_nodes pkg_node g;
         Some (\<not> circular_dep, pg\<lparr>pg_graph := link_all L saved_nodes pkg_node g\<rparr>)
       }
   }"

text \<open>The names and latest identifiers of the nodes that \<open>rdeps\<close> returns.\<close>

fun rdep_names :: "'g package_graph \<Rightarrow> nat list \<Rightarrow> (string \<times> string) list option" where
  "rdep_names pg [] = Some []"
| "rdep_names pg (n # ns) =
     (if n < length (pg_package_names pg) then do {
        let name = pg_package_names pg ! n;
        ident \<leftarrow> hm_get (pg_latest_map pg) name;
        v \<leftarrow> rdep_names pg ns;
        Some ((name, ident_to_string ident) # v)
      } else None)"

definition pg_rdeps :: "'g graph_lib \<Rightarrow> string \<Rightarrow> 'g package_graph \<Rightarrow> (string \<times> string) list option option" where
  "pg_rdeps L name pg =
     (case hm_get (pg_package_map pg) name of
        None \<Rightarrow> Some None
      | Some (_, pkg_node) \<Rightarrow> do {
          r \<leftarrow> rdeps L (pg_graph pg) pkg_node;
          case r of
            Inr deps \<Rightarrow> do { v \<leftarrow> rdep_names pg deps; Some (Some v) }
          | Inl _ \<Rightarrow> None
        })"

definition pg_search :: "string \<Rightarrow> 'g package_graph \<Rightarrow> string list" where
  "pg_search phrase pg = filter (sublist phrase) (pg_package_names pg)"

definition pg_latest :: "'g package_graph \<Rightarrow> string list" where
  "pg_latest pg = map ident_to_string (hm_values (pg_latest_map pg))"

definition pg_resolve :: "string \<Rightarrow> 'g package_graph \<Rightarrow> string option" where
  "pg_resolve name pg = map_option ident_to_string (hm_get (pg_latest_map pg) name)"

definition pg_stats :: "'g graph_lib \<Rightarrow> 'g package_graph \<Rightarrow> stats" where
  "pg_stats L pg =
     \<lparr>st_node_count = gl_node_count L (pg_graph pg), st_edge_count = gl_edge_count L (pg_graph pg),
      st_connected_comp = gl_connected_components L (pg_graph pg), st_is_cyclic = gl_is_cyclic L (pg_graph pg)\<rparr>"

text \<open>
  The heap of \<open>top\<close> as the list of its entries. \<open>pop\<close> takes an entry with the largest count; which
  one among equals depends on the order of the entries, as it depends on the iteration order of
  the hash map in the code.
\<close>

fun heap_pop :: "heap_entry list \<Rightarrow> (heap_entry \<times> heap_entry list) option" where
  "heap_pop [] = None"
| "heap_pop (e # es) =
     (case heap_pop es of
        None \<Rightarrow> Some (e, [])
      | Some (m, rest) \<Rightarrow>
          if he_rdep_count m \<le> he_rdep_count e then Some (e, m # rest) else Some (m, e # rest))"

fun heap_entries :: "'g graph_lib \<Rightarrow> 'g \<Rightarrow> (string \<times> nat \<times> nat) list \<Rightarrow> heap_entry list option" where
  "heap_entries L g [] = Some []"
| "heap_entries L g ((_, index, node) # ids) = do {
     r \<leftarrow> rdeps L g node;
     case r of
       Inr v \<Rightarrow> do {
         heap \<leftarrow> heap_entries L g ids;
         Some (\<lparr>he_pkg_index = index, he_rdep_count = length v\<rparr> # heap)
       }
     | Inl _ \<Rightarrow> None
   }"

fun top_loop :: "string list \<Rightarrow> nat \<Rightarrow> heap_entry list \<Rightarrow> (string \<times> nat) list \<Rightarrow> (string \<times> nat) list option" where
  "top_loop names 0 heap v = Some v"
| "top_loop names (Suc remaining) heap v =
     (case heap_pop heap of
        None \<Rightarrow> Some v
      | Some (he, heap) \<Rightarrow>
          if he_pkg_index he < length names
          then top_loop names remaining heap (v @ [(names ! he_pkg_index he, he_rdep_count he)])
          else None)"

definition pg_top :: "'g graph_lib \<Rightarrow> nat \<Rightarrow> 'g package_graph \<Rightarrow> (string \<times> nat) list option" where
  "pg_top L max_count pg = do {
     heap \<leftarrow> heap_entries L (pg_graph pg) (pg_package_map pg);
     top_loop (pg_package_names pg) max_count heap []
   }"

end
