(* ===== verification/Package_Graph_Facts.thy ===== *)
theory Package_Graph_Facts
  imports Package_Graph
begin

text \<open>
  The laws of the dependency graph. The locale \<open>graph_library\<close> is the contract of the graph
  crate; \<open>pg_edges\<close> abstracts a package graph to its dependencies between package names, on
  which \<open>spec_deps\<close> says what \<open>extend\<close> has to do. The lemmas show that the graph never
  becomes cyclic, that \<open>extend\<close> refines its specification, that \<open>check_extend\<close> foretells
  it and leaves the graph alone, and that \<open>rdeps\<close> and \<open>top\<close> return what they promise.
\<close>

section \<open>Relations\<close>

text \<open>Edges into the start of a path are not needed for the path.\<close>

lemma rtrancl_avoid_start:
  assumes "(p, d) \<in> R\<^sup>*" and "\<And>a b. (a, b) \<in> R \<Longrightarrow> b \<noteq> p \<Longrightarrow> (a, b) \<in> S"
  shows "(p, d) \<in> S\<^sup>*"
  using assms(1)
proof (induction rule: rtrancl_induct)
  case (step y z)
  then show ?case using assms(2) by (cases "z = p") (auto intro: rtrancl_into_rtrancl)
qed simp

lemma rtrancl_into_start:
  "(p, d) \<in> (R \<union> X \<times> {p})\<^sup>* \<longleftrightarrow> (p, d) \<in> {e \<in> R. snd e \<noteq> p}\<^sup>*"
proof
  assume "(p, d) \<in> (R \<union> X \<times> {p})\<^sup>*"
  then show "(p, d) \<in> {e \<in> R. snd e \<noteq> p}\<^sup>*" by (rule rtrancl_avoid_start) auto
next
  assume "(p, d) \<in> {e \<in> R. snd e \<noteq> p}\<^sup>*"
  then show "(p, d) \<in> (R \<union> X \<times> {p})\<^sup>*" by (rule rtrancl_mono [THEN subsetD, rotated]) auto
qed

lemma trancl_map_prod:
  assumes "(a, b) \<in> R\<^sup>+"
  shows "(f a, f b) \<in> (map_prod f f ` R)\<^sup>+"
  using assms
proof (induction rule: trancl_induct)
  case (base b)
  then show ?case by (force intro: r_into_trancl)
next
  case (step b c)
  then have "(f b, f c) \<in> map_prod f f ` R" by force
  with step show ?case by (auto intro: trancl_into_trancl)
qed

lemma trancl_map_prod_inj:
  assumes "(x, y) \<in> (map_prod f f ` R)\<^sup>+" and "inj_on f A" and "R \<subseteq> A \<times> A"
  shows "\<exists>a b. x = f a \<and> y = f b \<and> (a, b) \<in> R\<^sup>+"
  using assms(1)
proof (induction rule: trancl_induct)
  case (base y)
  then show ?case by (auto intro: r_into_trancl)
next
  case (step y z)
  then obtain a b c d where ab: "x = f a" "y = f b" "(a, b) \<in> R\<^sup>+" and cd: "y = f c" "z = f d" "(c, d) \<in> R"
    by auto
  have "b \<in> A" using ab(3) assms(3) by (induction rule: trancl_induct) auto
  then have "b = c" using ab(2) cd assms(2, 3) by (auto dest: inj_onD)
  with ab cd show ?case by (auto intro: trancl_into_trancl)
qed

lemma trancl_image_iff:
  assumes "inj_on f A" and "R \<subseteq> A \<times> A" and "a \<in> A" and "b \<in> A"
  shows "(f a, f b) \<in> (map_prod f f ` R)\<^sup>+ \<longleftrightarrow> (a, b) \<in> R\<^sup>+"
proof
  assume "(f a, f b) \<in> (map_prod f f ` R)\<^sup>+"
  then obtain a' b' where ab: "f a = f a'" "f b = f b'" "(a', b') \<in> R\<^sup>+"
    using trancl_map_prod_inj [OF _ assms(1, 2)] by blast
  then have "a' \<in> A" "b' \<in> A"
    using trancl_subset_Sigma [OF assms(2)] by auto
  with ab assms show "(a, b) \<in> R\<^sup>+" by (auto dest: inj_onD)
qed (rule trancl_map_prod)

lemma rtrancl_image_iff:
  assumes "inj_on f A" and "R \<subseteq> A \<times> A" and "a \<in> A" and "b \<in> A"
  shows "(f a, f b) \<in> (map_prod f f ` R)\<^sup>* \<longleftrightarrow> (a, b) \<in> R\<^sup>*"
  using trancl_image_iff [OF assms] assms(1, 3, 4) by (auto simp: rtrancl_eq_or_trancl dest: inj_onD)

lemma acyclic_image_iff:
  assumes "inj_on f A" and "R \<subseteq> A \<times> A"
  shows "acyclic (map_prod f f ` R) \<longleftrightarrow> acyclic R"
proof -
  have "(\<exists>x. (x, x) \<in> (map_prod f f ` R)\<^sup>+) \<longleftrightarrow> (\<exists>a. (a, a) \<in> R\<^sup>+)"
  proof
    assume "\<exists>x. (x, x) \<in> (map_prod f f ` R)\<^sup>+"
    then obtain x a b where x: "x = f a" "x = f b" "(a, b) \<in> R\<^sup>+"
      using trancl_map_prod_inj [OF _ assms] by metis
    then have "a \<in> A" "b \<in> A"
      using trancl_subset_Sigma [OF assms(2)] by auto
    with x assms(1) show "\<exists>a. (a, a) \<in> R\<^sup>+" by (auto dest: inj_onD)
  qed (auto dest: trancl_map_prod)
  then show ?thesis by (auto simp: acyclic_def)
qed

section \<open>The contract of the graph crate\<close>

text \<open>
  \<open>E\<close> gives the edges of a graph, with multiplicity. An index returned by \<open>add_node\<close> is the number
  of nodes so far; an iteration over neighbors meets every edge once; \<open>find_edge\<close> and
  \<open>remove_edge\<close> take away one edge of several equal ones; \<open>toposort\<close> orders all nodes of an
  acyclic graph along the edges; \<open>Bfs\<close> visits the nodes reachable from its start.
\<close>

locale graph_library =
  fixes L :: "'g graph_lib" and E :: "'g \<Rightarrow> (nat \<times> nat) multiset"
  assumes new_graph: "gl_node_count L (gl_new L) = 0" "E (gl_new L) = {#}"
    and add_node: "gl_add_node L w g = (g', n) \<Longrightarrow>
      n = gl_node_count L g \<and> gl_node_count L g' = Suc (gl_node_count L g) \<and> E g' = E g"
    and add_edge: "a < gl_node_count L g \<Longrightarrow> b < gl_node_count L g \<Longrightarrow>
      gl_node_count L (gl_extend_with_edges L [(a, b)] g) = gl_node_count L g \<and>
      E (gl_extend_with_edges L [(a, b)] g) = add_mset (a, b) (E g)"
    and incoming: "mset (gl_neighbors_incoming L g n) = image_mset fst {#e \<in># E g. snd e = n#}"
    and find_and_remove: "(a, b) \<in># E g \<Longrightarrow>
      \<exists>e g'. gl_find_edge L g a b = Some e \<and> gl_remove_edge L e g = Some g' \<and>
        gl_node_count L g' = gl_node_count L g \<and> E g' = E g - {#(a, b)#}"
    and edge_count: "gl_edge_count L g = size (E g)"
    and is_cyclic: "gl_is_cyclic L g \<longleftrightarrow> \<not> acyclic (set_mset (E g))"
    and toposort: "acyclic (set_mset (E g)) \<Longrightarrow> set_mset (E g) \<subseteq> {..<gl_node_count L g} \<times> {..<gl_node_count L g} \<Longrightarrow>
      \<exists>t. gl_toposort L g = Some t \<and> distinct t \<and> set t = {..<gl_node_count L g} \<and>
        (\<forall>i j. i < length t \<longrightarrow> j < length t \<longrightarrow> (t ! i, t ! j) \<in># E g \<longrightarrow> i < j)"
    and bfs: "n < gl_node_count L g \<Longrightarrow> set (gl_bfs L g n) = {m. (n, m) \<in> (set_mset (E g))\<^sup>*}"
begin

lemma unlink_edge:
  assumes "(a, b) \<in># E g"
  obtains g' where "unlink L a b g = Some g'" "gl_node_count L g' = gl_node_count L g" "E g' = E g - {#(a, b)#}"
  using find_and_remove [OF assms] by (auto simp: unlink_def)

lemma unlink_all_edges:
  "image_mset (\<lambda>a. (a, b)) (mset as) \<subseteq># E g \<Longrightarrow>
   \<exists>g'. unlink_all L as b g = Some g' \<and> gl_node_count L g' = gl_node_count L g \<and>
     E g' = E g - image_mset (\<lambda>a. (a, b)) (mset as)"
proof (induction as arbitrary: g)
  case (Cons a as)
  then have "(a, b) \<in># E g" by (auto dest: mset_subset_eqD)
  then obtain g1 where g1: "unlink L a b g = Some g1" "gl_node_count L g1 = gl_node_count L g"
    "E g1 = E g - {#(a, b)#}"
    by (rule unlink_edge)
  have "image_mset (\<lambda>a. (a, b)) (mset as) \<subseteq># E g1"
    using Cons.prems by (simp add: g1(3) insert_subset_eq_iff)
  from Cons.IH [OF this] g1 show ?case by auto
qed simp

lemma incoming_edges:
  "image_mset (\<lambda>a. (a, b)) (mset (gl_neighbors_incoming L g b)) = {#e \<in># E g. snd e = b#}"
proof -
  have "image_mset ((\<lambda>a. (a, b)) \<circ> fst) {#e \<in># E g. snd e = b#} = image_mset id {#e \<in># E g. snd e = b#}"
    by (rule image_mset_cong) auto
  then show ?thesis by (simp add: incoming image_mset.compositionality)
qed

lemma unlink_incoming:
  "\<exists>g'. unlink_all L (gl_neighbors_incoming L g b) b g = Some g' \<and> gl_node_count L g' = gl_node_count L g \<and>
     E g' = {#e \<in># E g. snd e \<noteq> b#}"
proof -
  have "E g - {#e \<in># E g. snd e = b#} = {#e \<in># E g. snd e \<noteq> b#}"
    by (metis add_diff_cancel_left' multiset_partition)
  then show ?thesis using unlink_all_edges [of b "gl_neighbors_incoming L g b" g] by (simp add: incoming_edges)
qed

lemma link_all_edges:
  "\<forall>a \<in> set as. a < gl_node_count L g \<Longrightarrow> b < gl_node_count L g \<Longrightarrow>
   gl_node_count L (link_all L as b g) = gl_node_count L g \<and>
   E (link_all L as b g) = E g + image_mset (\<lambda>a. (a, b)) (mset as)"
  by (induction as arbitrary: g) (auto simp: add_edge)

end

section \<open>A graph as a list of edges\<close>

text \<open>
  An implementation of the contract: the number of nodes and the list of edges. An edge index
  is a position in the list; a topological order sorts the nodes by the number of nodes
  before them.
\<close>

type_synonym list_graph = "nat \<times> (nat \<times> nat) list"

definition before :: "(nat \<times> nat) list \<Rightarrow> nat \<Rightarrow> nat \<Rightarrow> nat list" where
  "before es k n = filter (\<lambda>m. (m, n) \<in> (set es)\<^sup>+) [0..<k]"

definition list_graph_lib :: "list_graph graph_lib" where
  "list_graph_lib =
     \<lparr>gl_new = (0, []),
      gl_add_node = (\<lambda>_ (k, es). ((Suc k, es), k)),
      gl_extend_with_edges = (\<lambda>new (k, es). (k, es @ new)),
      gl_neighbors_incoming = (\<lambda>(k, es) n. map fst (filter (\<lambda>e. snd e = n) es)),
      gl_find_edge = (\<lambda>(k, es) a b. if (a, b) \<in> set es then Some (length (takeWhile (\<lambda>e. e \<noteq> (a, b)) es)) else None),
      gl_remove_edge = (\<lambda>i (k, es). if i < length es then Some (k, take i es @ drop (Suc i) es) else None),
      gl_node_count = fst,
      gl_edge_count = (\<lambda>(k, es). length es),
      gl_is_cyclic = (\<lambda>(k, es). list_ex (\<lambda>(a, b). (a, a) \<in> (set es)\<^sup>+) es),
      gl_connected_components =
        (\<lambda>(k, es). length (remdups (map (\<lambda>n. filter (\<lambda>m. m = n \<or> (m, n) \<in> (set es \<union> (set es)\<inverse>)\<^sup>+) [0..<k]) [0..<k]))),
      gl_toposort = (\<lambda>(k, es). if list_ex (\<lambda>(a, b). (a, a) \<in> (set es)\<^sup>+) es then None
        else Some (sort_key (\<lambda>n. length (before es k n)) [0..<k])),
      gl_bfs = (\<lambda>(k, es) n. n # filter (\<lambda>m. m \<noteq> n \<and> (n, m) \<in> (set es)\<^sup>+) (remdups (map snd es)))\<rparr>"

lemma cyclic_list: "list_ex (\<lambda>(a, b). (a, a) \<in> (set es)\<^sup>+) es \<longleftrightarrow> \<not> acyclic (set es)"
proof -
  have "\<exists>b. (a, b) \<in> set es" if "(a, a) \<in> (set es)\<^sup>+" for a
    using that by (blast dest: tranclD)
  then show ?thesis by (force simp: acyclic_def list_ex_iff)
qed

lemma before_mono:
  assumes "acyclic (set es)" and "(a, b) \<in> set es" and "a < k"
  shows "length (before es k a) < length (before es k b)"
proof -
  have distinct: "distinct (before es k n)" for n by (simp add: before_def)
  have "set (before es k a) \<subset> set (before es k b)"
  proof
    show "set (before es k a) \<subseteq> set (before es k b)"
      using assms(2) by (auto simp: before_def intro: trancl_into_trancl)
    have "a \<in> set (before es k b)" "a \<notin> set (before es k a)"
      using assms by (auto simp: before_def acyclic_def)
    then show "set (before es k a) \<noteq> set (before es k b)" by blast
  qed
  then have "card (set (before es k a)) < card (set (before es k b))" by (simp add: psubset_card_mono)
  then show ?thesis by (simp add: distinct_card [OF distinct])
qed

lemma sorted_before:
  assumes "sorted (map f t)" and "i < length t" and "j < length t" and "f (t ! i) < (f (t ! j) :: nat)"
  shows "i < j"
proof (rule ccontr)
  assume "\<not> i < j"
  then have "f (t ! j) \<le> f (t ! i)"
    using sorted_nth_mono [OF assms(1), of j i] assms(2, 3) by simp
  with assms(4) show False by simp
qed

lemma remove_first:
  assumes "x \<in> set xs"
  defines "i \<equiv> length (takeWhile (\<lambda>y. y \<noteq> x) xs)"
  shows "i < length xs" and "mset (take i xs @ drop (Suc i) xs) = mset xs - {#x#}"
proof -
  obtain ys zs where xs: "xs = ys @ x # zs" "x \<notin> set ys" using split_list_first [OF assms(1)] by blast
  then have tw: "takeWhile (\<lambda>y. y \<noteq> x) xs = ys" by (auto simp: takeWhile_append takeWhile_eq_all_conv)
  show "i < length xs" unfolding i_def tw by (simp add: xs)
  show "mset (take i xs @ drop (Suc i) xs) = mset xs - {#x#}" unfolding i_def tw by (simp add: xs)
qed

interpretation list_graph: graph_library list_graph_lib "\<lambda>(k, es). mset es"
proof
  fix g :: list_graph
  obtain k es where g: "g = (k, es)" by (cases g)
  let ?E = "\<lambda>(k :: nat, es). mset es :: (nat \<times> nat) multiset"
  show "mset (gl_neighbors_incoming list_graph_lib g n) = image_mset fst {#e \<in># ?E g. snd e = n#}" for n
    by (simp add: g list_graph_lib_def)
  show "\<exists>e g'. gl_find_edge list_graph_lib g a b = Some e \<and> gl_remove_edge list_graph_lib e g = Some g' \<and>
      gl_node_count list_graph_lib g' = gl_node_count list_graph_lib g \<and> ?E g' = ?E g - {#(a, b)#}"
    if "(a, b) \<in># ?E g" for a b
    using that remove_first [of "(a, b)" es] by (auto simp: g list_graph_lib_def)
  show "gl_is_cyclic list_graph_lib g \<longleftrightarrow> \<not> acyclic (set_mset (?E g))"
    by (simp add: g list_graph_lib_def cyclic_list)
  show "set (gl_bfs list_graph_lib g n) = {m. (n, m) \<in> (set_mset (?E g))\<^sup>*}" for n
  proof -
    have "m \<in> snd ` set es" if "(n, m) \<in> (set es)\<^sup>+" for m
      using tranclD2 [OF that] by force
    then show ?thesis by (auto simp: g list_graph_lib_def rtrancl_eq_or_trancl)
  qed
  show "\<exists>t. gl_toposort list_graph_lib g = Some t \<and> distinct t \<and> set t = {..<gl_node_count list_graph_lib g} \<and>
      (\<forall>i j. i < length t \<longrightarrow> j < length t \<longrightarrow> (t ! i, t ! j) \<in># ?E g \<longrightarrow> i < j)"
    if "acyclic (set_mset (?E g))" "set_mset (?E g) \<subseteq> {..<gl_node_count list_graph_lib g} \<times> {..<gl_node_count list_graph_lib g}"
  proof -
    let ?t = "sort_key (\<lambda>n. length (before es k n)) [0..<k]"
    have "i < j" if ij: "i < length ?t" "j < length ?t" "(?t ! i, ?t ! j) \<in> set es" for i j
    proof (rule sorted_before [OF sorted_sort_key ij(1, 2)])
      have "?t ! i \<in> set ?t" using ij(1) by (rule nth_mem)
      then have "?t ! i < k" by simp
      with before_mono [OF _ ij(3)] that(1) \<open>acyclic (set_mset (?E g))\<close>
      show "length (before es k (?t ! i)) < length (before es k (?t ! j))" by (simp add: g)
    qed
    moreover from that(1) have "\<not> list_ex (\<lambda>(a, b). (a, a) \<in> (set es)\<^sup>+) es" by (simp add: g cyclic_list)
    ultimately show ?thesis by (auto simp: g list_graph_lib_def)
  qed
qed (auto simp: list_graph_lib_def)


section \<open>The invariant and the dependencies between names\<close>

definition pg_inv :: "'g graph_lib \<Rightarrow> ('g \<Rightarrow> (nat \<times> nat) multiset) \<Rightarrow> 'g package_graph \<Rightarrow> bool" where
  "pg_inv L E pg \<longleftrightarrow>
     hm_inv (pg_package_map pg) \<and> hm_inv (pg_latest_map pg) \<and>
     length (pg_package_names pg) = pg_package_max pg \<and> gl_node_count L (pg_graph pg) = pg_package_max pg \<and>
     distinct (pg_package_names pg) \<and>
     (\<forall>sn i n. hm_get (pg_package_map pg) sn = Some (i, n) \<longleftrightarrow>
        i = n \<and> i < pg_package_max pg \<and> pg_package_names pg ! i = sn) \<and>
     (\<forall>a b. (a, b) \<in># E (pg_graph pg) \<longrightarrow> a < pg_package_max pg \<and> b < pg_package_max pg \<and>
        hm_get (pg_latest_map pg) (pg_package_names pg ! b) \<noteq> None) \<and>
     acyclic (set_mset (E (pg_graph pg))) \<and>
     (\<forall>sn ident. hm_get (pg_latest_map pg) sn = Some ident \<longrightarrow>
        sn \<in> set (pg_package_names pg) \<and> pi_origin ident @ ''/'' @ pi_name ident = sn)"

text \<open>The dependencies as pairs of a package and a package that depends on it.\<close>

definition pg_edges :: "('g \<Rightarrow> (nat \<times> nat) multiset) \<Rightarrow> 'g package_graph \<Rightarrow> (string \<times> string) multiset" where
  "pg_edges E pg =
     image_mset (map_prod (nth (pg_package_names pg)) (nth (pg_package_names pg))) (E (pg_graph pg))"

definition add_name :: "string \<Rightarrow> string list \<Rightarrow> string list" where
  "add_name sn names = (if sn \<in> set names then names else names @ [sn])"

text \<open>
  The specification of an update of the dependencies of \<open>p\<close>: the old ones are dropped, and those
  new ones are taken that \<open>p\<close> is not itself needed for.
\<close>

definition closes_cycle :: "(string \<times> string) multiset \<Rightarrow> string \<Rightarrow> string \<Rightarrow> bool" where
  "closes_cycle B p d \<longleftrightarrow> (p, d) \<in> (set_mset {#e \<in># B. snd e \<noteq> p#})\<^sup>*"

definition spec_deps ::
  "(string \<times> string) multiset \<Rightarrow> string \<Rightarrow> string list \<Rightarrow> (string \<times> string) multiset" where
  "spec_deps B p ds =
     {#e \<in># B. snd e \<noteq> p#} + image_mset (\<lambda>d. (d, p)) (mset (filter (\<lambda>d. \<not> closes_cycle B p d) ds))"

lemma pg_inv_nodes:
  assumes "pg_inv L E pg"
  shows "inj_on (nth (pg_package_names pg)) {..<pg_package_max pg}"
    and "set_mset (E (pg_graph pg)) \<subseteq> {..<pg_package_max pg} \<times> {..<pg_package_max pg}"
  using assms by (auto simp: pg_inv_def inj_on_def nth_eq_iff_index_eq)

lemma pg_inv_edge:
  assumes "pg_inv L E pg" and "(a, b) \<in># E (pg_graph pg)"
  shows "a < pg_package_max pg" "b < pg_package_max pg" "hm_get (pg_latest_map pg) (pg_package_names pg ! b) \<noteq> None"
  using assms unfolding pg_inv_def by blast+

lemma set_pg_edges:
  "set_mset (pg_edges E pg) =
     map_prod (nth (pg_package_names pg)) (nth (pg_package_names pg)) ` set_mset (E (pg_graph pg))"
  by (simp add: pg_edges_def)

lemma pg_reachable:
  assumes "pg_inv L E pg" and "a < pg_package_max pg" and "b < pg_package_max pg"
  shows "(pg_package_names pg ! a, pg_package_names pg ! b) \<in> (set_mset (pg_edges E pg))\<^sup>* \<longleftrightarrow>
      (a, b) \<in> (set_mset (E (pg_graph pg)))\<^sup>*"
    and "(pg_package_names pg ! a, pg_package_names pg ! b) \<in> (set_mset (pg_edges E pg))\<^sup>+ \<longleftrightarrow>
      (a, b) \<in> (set_mset (E (pg_graph pg)))\<^sup>+"
  unfolding set_pg_edges
  by (rule rtrancl_image_iff [OF pg_inv_nodes [OF assms(1)]] trancl_image_iff [OF pg_inv_nodes [OF assms(1)]];
      simp add: assms)+

lemma pg_acyclic:
  assumes "pg_inv L E pg"
  shows "acyclic (set_mset (pg_edges E pg))"
proof -
  have "acyclic (set_mset (E (pg_graph pg)))" using assms by (simp add: pg_inv_def)
  then show ?thesis unfolding set_pg_edges acyclic_image_iff [OF pg_inv_nodes [OF assms]] .
qed

lemma pg_edges_names:
  assumes "pg_inv L E pg"
  shows "set_mset (pg_edges E pg) \<subseteq> set (pg_package_names pg) \<times> set (pg_package_names pg)"
proof -
  have "length (pg_package_names pg) = pg_package_max pg" using assms by (simp add: pg_inv_def)
  with pg_inv_nodes(2) [OF assms] show ?thesis unfolding set_pg_edges by (auto intro!: nth_mem)
qed

lemma pg_map_Some:
  "pg_inv L E pg \<Longrightarrow> hm_get (pg_package_map pg) sn = Some (i, n) \<longleftrightarrow>
     i = n \<and> i < pg_package_max pg \<and> pg_package_names pg ! i = sn"
  by (simp add: pg_inv_def)

lemma pg_map_None:
  assumes "pg_inv L E pg"
  shows "hm_get (pg_package_map pg) sn = None \<longleftrightarrow> sn \<notin> set (pg_package_names pg)"
proof -
  have "length (pg_package_names pg) = pg_package_max pg" using assms by (simp add: pg_inv_def)
  then have "sn \<in> set (pg_package_names pg) \<longleftrightarrow> (\<exists>i n. hm_get (pg_package_map pg) sn = Some (i, n))"
    unfolding in_set_conv_nth pg_map_Some [OF assms] by simp
  then show ?thesis by (cases "hm_get (pg_package_map pg) sn") auto
qed

lemma pg_map_indices:
  assumes "pg_inv L E pg"
  shows "\<forall>(sn, i, n) \<in> set (pg_package_map pg). i = n \<and> n < pg_package_max pg"
    and "mset (map (fst \<circ> snd) (pg_package_map pg)) = mset [0..<length (pg_package_names pg)]"
proof -
  have inv: "hm_inv (pg_package_map pg)" "length (pg_package_names pg) = pg_package_max pg"
    using assms by (simp_all add: pg_inv_def)
  have mem: "(sn, i, n) \<in> set (pg_package_map pg) \<longleftrightarrow> i = n \<and> i < pg_package_max pg \<and> pg_package_names pg ! i = sn" for sn i n
    unfolding hm_mem_iff [OF inv(1)] pg_map_Some [OF assms] by (rule refl)
  show "\<forall>(sn, i, n) \<in> set (pg_package_map pg). i = n \<and> n < pg_package_max pg"
  proof (rule ballI)
    fix x assume "x \<in> set (pg_package_map pg)"
    then show "case x of (sn, i, n) \<Rightarrow> i = n \<and> n < pg_package_max pg"
      using mem [of "fst x" "fst (snd x)" "snd (snd x)"] by (simp add: case_prod_unfold)
  qed
  let ?index = "fst \<circ> snd :: string \<times> nat \<times> nat \<Rightarrow> nat" and ?entry = "\<lambda>i. (pg_package_names pg ! i, i, i)"
  have entry: "?entry (?index x) = x" "?index x < pg_package_max pg" if "x \<in> set (pg_package_map pg)" for x
    using that mem [of "fst x" "fst (snd x)" "snd (snd x)"] by (auto simp: prod_eq_iff)
  have "inj_on ?index (set (pg_package_map pg))" by (rule inj_on_inverseI [of _ ?entry]) (rule entry(1))
  moreover have "distinct (pg_package_map pg)" using inv(1) unfolding hm_inv_def distinct_map by blast
  ultimately have "distinct (map ?index (pg_package_map pg))" unfolding distinct_map by blast
  moreover have "set (map ?index (pg_package_map pg)) = {..<pg_package_max pg}"
  proof
    show "set (map ?index (pg_package_map pg)) \<subseteq> {..<pg_package_max pg}" using entry(2) by auto
    show "{..<pg_package_max pg} \<subseteq> set (map ?index (pg_package_map pg))"
    proof
      fix i assume "i \<in> {..<pg_package_max pg}"
      then have "?entry i \<in> set (pg_package_map pg)" by (simp add: mem)
      then show "i \<in> set (map ?index (pg_package_map pg))" by (auto intro: rev_image_eqI)
    qed
  qed
  ultimately show "mset (map ?index (pg_package_map pg)) = mset [0..<length (pg_package_names pg)]"
    using set_eq_iff_mset_eq_distinct [of "map ?index (pg_package_map pg)" "[0..<pg_package_max pg]"]
    by (simp only: inv(2) set_upt atLeast0LessThan distinct_upt simp_thms)
qed

lemma image_map_prod_append:
  assumes "set_mset R \<subseteq> {..<length xs} \<times> {..<length xs}"
  shows "image_mset (map_prod (nth (xs @ ys)) (nth (xs @ ys))) R = image_mset (map_prod (nth xs) (nth xs)) R"
  by (rule image_mset_cong) (use assms in \<open>auto simp: nth_append\<close>)

text \<open>Replacing the graph of a package graph by another one with edges between known nodes.\<close>

lemma pg_inv_regraph:
  assumes "pg_inv L E pg" and "gl_node_count L g = gl_node_count L (pg_graph pg)"
    and "acyclic (set_mset (E g))"
    and "\<And>a b. (a, b) \<in># E g \<Longrightarrow> (a, b) \<in># E (pg_graph pg) \<or>
      a < pg_package_max pg \<and> b < pg_package_max pg \<and> hm_get (pg_latest_map pg) (pg_package_names pg ! b) \<noteq> None"
  shows "pg_inv L E (pg\<lparr>pg_graph := g\<rparr>)"
proof -
  have "a < pg_package_max pg \<and> b < pg_package_max pg \<and> hm_get (pg_latest_map pg) (pg_package_names pg ! b) \<noteq> None"
    if "(a, b) \<in># E g" for a b
    using assms(1) assms(4) [OF that] unfolding pg_inv_def by blast
  with assms(1-3) show ?thesis by (simp add: pg_inv_def)
qed

context graph_library
begin

lemma package_graph_new_inv: "pg_inv L E (package_graph_new L)"
  by (simp add: pg_inv_def package_graph_new_def new_graph acyclic_def)

lemma generate_id_ok:
  assumes inv: "pg_inv L E pg" and sn: "short_name name = Some sn"
  obtains n pg' where "generate_id L name pg = Some ((n, n), pg')" "pg_inv L E pg'"
    "pg_edges E pg' = pg_edges E pg" "pg_latest_map pg' = pg_latest_map pg"
    "pg_package_names pg' = add_name sn (pg_package_names pg)"
    "n < pg_package_max pg'" "pg_package_names pg' ! n = sn"
proof (cases "hm_get (pg_package_map pg) sn")
  case (Some val)
  then obtain n where n: "hm_get (pg_package_map pg) sn = Some (n, n)" "n < pg_package_max pg" "pg_package_names pg ! n = sn"
    using pg_map_Some [OF inv] by (cases val) auto
  moreover have "sn \<in> set (pg_package_names pg)" using Some pg_map_None [OF inv, of sn] by auto
  ultimately show ?thesis using inv sn by (intro that [of n pg]) (simp_all add: generate_id_def add_name_def)
next
  case None
  let ?id = "pg_package_max pg" and ?names = "pg_package_names pg"
  have len: "length ?names = ?id" "gl_node_count L (pg_graph pg) = ?id" using inv by (simp_all add: pg_inv_def)
  obtain g n where gn: "gl_add_node L ?id (pg_graph pg) = (g, n)" by fastforce
  note added = add_node [OF gn]
  let ?pg' = "pg\<lparr>pg_package_names := ?names @ [sn], pg_graph := g,
    pg_package_map := hm_insert sn (?id, ?id) (pg_package_map pg), pg_package_max := ?id + 1\<rparr>"
  have new: "sn \<notin> set ?names" using None pg_map_None [OF inv] by blast
  have gen: "generate_id L name pg = Some ((?id, ?id), ?pg')"
    using None sn gn added len(2) by (simp add: generate_id_def Let_def len(1) [symmetric])
  have map_iff: "hm_get (hm_insert sn (?id, ?id) (pg_package_map pg)) s = Some (i, k) \<longleftrightarrow>
      i = k \<and> i < ?id + 1 \<and> (?names @ [sn]) ! i = s" for s i k
    using pg_map_Some [OF inv, of s i k] new len(1) nth_mem [of i ?names]
    by (auto simp: nth_append less_Suc_eq)
  have edge: "a < Suc ?id \<and> b < Suc ?id \<and> hm_get (pg_latest_map pg) ((?names @ [sn]) ! b) \<noteq> None"
    if "(a, b) \<in># E (pg_graph pg)" for a b
    using pg_inv_edge [OF inv that] len(1) by (simp add: nth_append)
  have "pg_inv L E ?pg'"
    using inv new added len(1) edge by (simp add: pg_inv_def map_iff del: not_None_eq hm.get_ins)
  moreover have "pg_edges E ?pg' = pg_edges E pg"
    using pg_inv_nodes(2) [OF inv] added by (simp add: pg_edges_def image_map_prod_append len(1))
  ultimately show ?thesis using gen new len(1) by (intro that [of ?id ?pg']) (simp_all add: add_name_def nth_append)
qed

lemma extend_dep_ok:
  assumes inv: "pg_inv L E pg" and dep: "short_name dep = Some d"
    and p: "p < pg_package_max pg" "hm_get (pg_latest_map pg) (pg_package_names pg ! p) \<noteq> None"
  defines "sn \<equiv> pg_package_names pg ! p"
  obtains pg' where "extend_dep L p dep pg = Some pg'" "pg_inv L E pg'"
    "pg_edges E pg' = (if (sn, d) \<in> (set_mset (pg_edges E pg))\<^sup>* then pg_edges E pg else add_mset (d, sn) (pg_edges E pg))"
    "pg_latest_map pg' = pg_latest_map pg" "pg_package_names pg' = add_name d (pg_package_names pg)"
proof -
  obtain n pg1 where gen: "generate_id L dep pg = Some ((n, n), pg1)" and inv1: "pg_inv L E pg1"
    and pg1: "pg_edges E pg1 = pg_edges E pg" "pg_latest_map pg1 = pg_latest_map pg"
      "pg_package_names pg1 = add_name d (pg_package_names pg)"
    and n: "n < pg_package_max pg1" "pg_package_names pg1 ! n = d"
    by (rule generate_id_ok [OF inv dep])
  have len: "length (pg_package_names pg) = pg_package_max pg" "length (pg_package_names pg1) = pg_package_max pg1"
    using inv inv1 by (simp_all add: pg_inv_def)
  have p1: "p < pg_package_max pg1" "pg_package_names pg1 ! p = sn"
    using p(1) len pg1(3) by (auto simp: add_name_def sn_def nth_append split: if_splits)
  let ?g = "gl_extend_with_edges L [(n, p)] (pg_graph pg1)"
  have nc: "gl_node_count L (pg_graph pg1) = pg_package_max pg1" using inv1 by (simp add: pg_inv_def)
  have g: "gl_node_count L ?g = pg_package_max pg1" "E ?g = add_mset (n, p) (E (pg_graph pg1))"
    using add_edge [of n "pg_graph pg1" p] n(1) p1(1) nc by simp_all
  have acyc: "acyclic (set_mset (E (pg_graph pg1)))" using inv1 by (simp add: pg_inv_def)
  have cyc: "gl_is_cyclic L ?g \<longleftrightarrow> (sn, d) \<in> (set_mset (pg_edges E pg))\<^sup>*"
    using pg_reachable(1) [OF inv1 p1(1) n(1)] acyc by (simp add: is_cyclic g(2) n(2) p1(2) pg1(1))
  show ?thesis
  proof (cases "gl_is_cyclic L ?g")
    case True
    obtain g' where g': "unlink L n p ?g = Some g'" "gl_node_count L g' = gl_node_count L ?g" "E g' = E ?g - {#(n, p)#}"
      by (rule unlink_edge [of n p ?g]) (simp_all add: g(2))
    then have E: "E g' = E (pg_graph pg1)" by (simp add: g(2))
    have "pg_inv L E (pg1\<lparr>pg_graph := g'\<rparr>)"
      by (rule pg_inv_regraph [OF inv1]) (simp_all add: E acyc g'(2) g(1) nc)
    then show ?thesis
      by (rule that [rotated]) (use True cyc g' gen pg1 E in \<open>simp_all add: extend_dep_def pg_edges_def\<close>)
  next
    case False
    have "pg_inv L E (pg1\<lparr>pg_graph := ?g\<rparr>)"
      by (rule pg_inv_regraph [OF inv1])
        (use False p(2) p1 n in \<open>auto simp: is_cyclic g nc pg1(2) sn_def\<close>)
    moreover have "pg_edges E (pg1\<lparr>pg_graph := ?g\<rparr>) = add_mset (d, sn) (pg_edges E pg)"
      using pg1(1) by (simp add: pg_edges_def g(2) n(2) p1(2))
    ultimately show ?thesis
      by (intro that [of "pg1\<lparr>pg_graph := ?g\<rparr>"]) (use False cyc gen pg1 in \<open>simp_all add: extend_dep_def\<close>)
  qed
qed

end


lemma closes_cycle_iff: "closes_cycle B p d \<longleftrightarrow> (p, d) \<in> (set_mset B)\<^sup>*"
  using rtrancl_into_start [of p d "set_mset B" "{}"] by (simp add: closes_cycle_def)

lemma closes_cycle_add [simp]: "closes_cycle (add_mset (d', p) B) p d = closes_cycle B p d"
  by (simp add: closes_cycle_def)

lemma closes_cycle_filter [simp]: "closes_cycle {#e \<in># B. snd e \<noteq> p#} p d = closes_cycle B p d"
  by (simp add: closes_cycle_def filter_filter_mset)

lemma spec_deps_all:
  "image_mset fst {#e \<in># spec_deps B sn ds. snd e = sn#} = mset ds \<longleftrightarrow> (\<forall>d \<in> set ds. \<not> closes_cycle B sn d)"
proof -
  have "image_mset fst {#e \<in># spec_deps B sn ds. snd e = sn#} = {#d \<in># mset ds. \<not> closes_cycle B sn d#}"
    by (simp add: spec_deps_def filter_filter_mset filter_mset_image_mset image_mset.compositionality comp_def)
  then show ?thesis by (auto simp: filter_mset_eq_conv)
qed

lemma short_name_None: "short_name d = None \<longleftrightarrow> CHR ''/'' \<notin> set d"
proof
  assume "CHR ''/'' \<notin> set d"
  then show "short_name d = None" by (simp add: short_name_def split_on_notin)
next
  assume none: "short_name d = None"
  show "CHR ''/'' \<notin> set d"
  proof
    assume "CHR ''/'' \<in> set d"
    then obtain a b where "d = a @ CHR ''/'' # b" "CHR ''/'' \<notin> set a" using split_list_first by metis
    moreover have "0 < length (split_on (CHR ''/'') b)" by simp
    ultimately have "short_name d \<noteq> None" by (simp add: short_name_def split_on_append Suc_le_eq del: length_greater_0_conv)
    with none show False by simp
  qed
qed

lemma ident_short_name: "ident_from_str s = Inr i \<Longrightarrow> short_name s = Some (pi_origin i @ ''/'' @ pi_name i)"
  by (simp add: ident_from_str_parts short_name_def ident_parts_def)

text \<open>Whether \<open>extend\<close> leaves the package alone because a later version is known.\<close>

definition outdated :: "'g package_graph \<Rightarrow> string \<Rightarrow> package_ident \<Rightarrow> bool" where
  "outdated pg sn ident =
     (case hm_get (pg_latest_map pg) sn of Some latest \<Rightarrow> ident_partial_cmp ident latest = Some Less | None \<Rightarrow> False)"

lemma pg_edges_into:
  assumes "pg_inv L E pg" and "p < pg_package_max pg" and "E g = {#e \<in># E (pg_graph pg). snd e \<noteq> p#}"
  shows "pg_edges E (pg\<lparr>pg_graph := g, pg_latest_map := m\<rparr>) = {#e \<in># pg_edges E pg. snd e \<noteq> pg_package_names pg ! p#}"
proof -
  let ?n = "pg_package_names pg"
  have "?n ! b = ?n ! p \<longleftrightarrow> b = p" if "(a, b) \<in># E (pg_graph pg)" for a b
    using assms(1, 2) that unfolding pg_inv_def by (metis nth_eq_iff_index_eq)
  then have "{#e \<in># E (pg_graph pg). snd (map_prod (nth ?n) (nth ?n) e) \<noteq> ?n ! p#} = {#e \<in># E (pg_graph pg). snd e \<noteq> p#}"
    by (intro filter_mset_cong) auto
  then show ?thesis by (simp add: pg_edges_def assms(3) filter_mset_image_mset)
qed

lemma pg_inv_latest:
  assumes "pg_inv L E pg" and "sn \<in> set (pg_package_names pg)" and "pi_origin i @ ''/'' @ pi_name i = sn"
  shows "pg_inv L E (pg\<lparr>pg_latest_map := hm_insert sn i (pg_latest_map pg)\<rparr>)"
  using assms unfolding pg_inv_def by simp

context graph_library
begin

lemma extend_deps_ok:
  assumes "pg_inv L E pg" and "list_all (\<lambda>d. short_name d \<noteq> None) deps"
    and "p < pg_package_max pg" and "hm_get (pg_latest_map pg) (pg_package_names pg ! p) \<noteq> None"
  shows "\<exists>pg'. extend_deps L p deps pg = Some pg' \<and> pg_inv L E pg' \<and> pg_latest_map pg' = pg_latest_map pg \<and>
    pg_package_names pg' = fold add_name (map (the \<circ> short_name) deps) (pg_package_names pg) \<and>
    pg_edges E pg' = pg_edges E pg + image_mset (\<lambda>d. (d, pg_package_names pg ! p))
      (mset (filter (\<lambda>d. \<not> closes_cycle (pg_edges E pg) (pg_package_names pg ! p) d) (map (the \<circ> short_name) deps)))"
  using assms
proof (induction deps arbitrary: pg)
  case (Cons dep deps)
  let ?sn = "pg_package_names pg ! p"
  from Cons.prems(2) obtain d where d: "short_name dep = Some d" by auto
  obtain pg1 where pg1: "extend_dep L p dep pg = Some pg1" "pg_inv L E pg1"
    "pg_edges E pg1 = (if (?sn, d) \<in> (set_mset (pg_edges E pg))\<^sup>* then pg_edges E pg else add_mset (d, ?sn) (pg_edges E pg))"
    "pg_latest_map pg1 = pg_latest_map pg" "pg_package_names pg1 = add_name d (pg_package_names pg)"
    by (rule extend_dep_ok [OF Cons.prems(1) d Cons.prems(3, 4)])
  have len: "length (pg_package_names pg) = pg_package_max pg" "length (pg_package_names pg1) = pg_package_max pg1"
    using Cons.prems(1) pg1(2) by (simp_all add: pg_inv_def)
  then have p1: "p < pg_package_max pg1" "pg_package_names pg1 ! p = ?sn"
    using Cons.prems(3) pg1(5) by (auto simp: add_name_def nth_append split: if_splits)
  have "list_all (\<lambda>d. short_name d \<noteq> None) deps" using Cons.prems(2) by simp
  from Cons.IH [OF pg1(2) this p1(1)] Cons.prems(4) pg1 p1(2) d
  show ?case by (auto simp: closes_cycle_iff [symmetric])
qed simp

lemma update_latest_ok:
  assumes inv: "pg_inv L E pg" and p: "p < pg_package_max pg" "pg_package_names pg ! p = sn"
    and i: "pi_origin i @ ''/'' @ pi_name i = sn" and new: "\<not> outdated pg sn i"
  obtains pg' where "update_latest L sn i p pg = Some (True, pg')" "pg_inv L E pg'"
    "pg_latest_map pg' = hm_insert sn i (pg_latest_map pg)" "pg_package_names pg' = pg_package_names pg"
    "pg_package_max pg' = pg_package_max pg" "pg_edges E pg' = {#e \<in># pg_edges E pg. snd e \<noteq> sn#}"
proof -
  have sn: "sn \<in> set (pg_package_names pg)" using inv p by (auto simp: pg_inv_def)
  let ?m = "hm_insert sn i (pg_latest_map pg)"
  show ?thesis
  proof (cases "hm_get (pg_latest_map pg) sn")
    case None
    then have "b \<noteq> p" if "(a, b) \<in># E (pg_graph pg)" for a b
      using pg_inv_edge(3) [OF inv that] p(2) by auto
    then have "\<forall>e \<in># E (pg_graph pg). snd e \<noteq> p" by (metis prod.collapse)
    then have "{#e \<in># E (pg_graph pg). snd e \<noteq> p#} = E (pg_graph pg)" by (simp add: filter_mset_eq_conv)
    with pg_edges_into [OF inv p(1), of "pg_graph pg" ?m] p(2) None pg_inv_latest [OF inv sn i]
    show ?thesis by (intro that [of "pg\<lparr>pg_latest_map := ?m\<rparr>"]) (simp_all add: update_latest_def)
  next
    case (Some latest)
    obtain g where g: "unlink_all L (gl_neighbors_incoming L (pg_graph pg) p) p (pg_graph pg) = Some g"
      "gl_node_count L g = gl_node_count L (pg_graph pg)" "E g = {#e \<in># E (pg_graph pg). snd e \<noteq> p#}"
      using unlink_incoming by blast
    have "acyclic (set_mset (E g))"
      using inv by (auto simp: pg_inv_def g(3) elim: acyclic_subset)
    then have "pg_inv L E (pg\<lparr>pg_graph := g\<rparr>)"
      by (rule pg_inv_regraph [OF inv g(2)]) (simp add: g(3))
    from pg_inv_latest [OF this, of sn i] sn i Some new g pg_edges_into [OF inv p(1) g(3), of ?m] p(2)
    show ?thesis
      by (intro that [of "pg\<lparr>pg_graph := g, pg_latest_map := ?m\<rparr>"])
        (simp_all add: update_latest_def outdated_def)
  qed
qed

lemma extend_ok:
  assumes inv: "pg_inv L E pg" and ident: "ident_from_str (jp_ident p) = Inr i"
    and deps: "outdated pg (pi_origin i @ ''/'' @ pi_name i) i \<or> list_all (\<lambda>d. short_name d \<noteq> None) (jp_deps p)"
  defines "sn \<equiv> pi_origin i @ ''/'' @ pi_name i" and "ds \<equiv> map (the \<circ> short_name) (jp_deps p)"
  obtains pg' where "extend L p pg = Some ((length (pg_package_names pg'), size (pg_edges E pg')), pg')" "pg_inv L E pg'"
    "pg_latest_map pg' = (if outdated pg sn i then pg_latest_map pg else hm_insert sn i (pg_latest_map pg))"
    "pg_package_names pg' = (if outdated pg sn i then pg_package_names pg
       else fold add_name (sn # ds) (pg_package_names pg))"
    "pg_edges E pg' = (if outdated pg sn i then pg_edges E pg else spec_deps (pg_edges E pg) sn ds)"
proof -
  have short: "short_name (jp_ident p) = Some sn" using ident_short_name [OF ident] by (simp add: sn_def)
  have count: "gl_node_count L (pg_graph pg) = length (pg_package_names pg)"
    "gl_edge_count L (pg_graph pg) = size (pg_edges E pg)" if "pg_inv L E pg" for pg
    using that by (simp_all add: pg_inv_def edge_count pg_edges_def)
  obtain n pg1 where gen: "generate_id L (jp_ident p) pg = Some ((n, n), pg1)" and inv1: "pg_inv L E pg1"
    and pg1: "pg_edges E pg1 = pg_edges E pg" "pg_latest_map pg1 = pg_latest_map pg"
      "pg_package_names pg1 = add_name sn (pg_package_names pg)"
    and n: "n < pg_package_max pg1" "pg_package_names pg1 ! n = sn"
    by (rule generate_id_ok [OF inv short])
  have outdated: "outdated pg1 sn i = outdated pg sn i" by (simp add: outdated_def pg1(2))
  show ?thesis
  proof (cases "outdated pg sn i")
    case True
    then obtain latest where latest: "hm_get (pg_latest_map pg) sn = Some latest" "ident_partial_cmp i latest = Some Less"
      by (auto simp: outdated_def split: option.splits)
    then have "sn \<in> set (pg_package_names pg)" using inv by (simp add: pg_inv_def)
    then have "pg_package_names pg1 = pg_package_names pg" by (simp add: pg1(3) add_name_def)
    with True gen ident short pg1 latest inv1 count [OF inv1] show ?thesis
      by (intro that [of pg1]) (simp_all add: extend_def update_latest_def)
  next
    case False
    obtain pg2 where pg2: "update_latest L sn i n pg1 = Some (True, pg2)" "pg_inv L E pg2"
      "pg_latest_map pg2 = hm_insert sn i (pg_latest_map pg1)" "pg_package_names pg2 = pg_package_names pg1"
      "pg_package_max pg2 = pg_package_max pg1" "pg_edges E pg2 = {#e \<in># pg_edges E pg1. snd e \<noteq> sn#}"
      by (rule update_latest_ok [OF inv1 n]) (use False outdated in \<open>auto simp: sn_def\<close>)
    have "list_all (\<lambda>d. short_name d \<noteq> None) (jp_deps p)" using deps False by (simp add: sn_def)
    from extend_deps_ok [OF pg2(2) this, of n] n pg1 pg2 obtain pg3 where
      pg3: "extend_deps L n (jp_deps p) pg2 = Some pg3" "pg_inv L E pg3" "pg_latest_map pg3 = hm_insert sn i (pg_latest_map pg)"
      "pg_package_names pg3 = fold add_name ds (add_name sn (pg_package_names pg))"
      "pg_edges E pg3 = spec_deps (pg_edges E pg) sn ds"
      by (auto simp: spec_deps_def ds_def)
    with False gen ident short pg2(1) count [OF pg3(2)] show ?thesis
      by (intro that [of pg3]) (simp_all add: extend_def)
  qed
qed

end


section \<open>Checking an extension\<close>

lemma rtrancl_insert_into: "(p, d) \<in> (insert (n, p) R)\<^sup>* \<longleftrightarrow> (p, d) \<in> R\<^sup>*"
  using rtrancl_into_start [of p d R "{n}"] rtrancl_into_start [of p d R "{}"] by simp

context graph_library
begin

lemma check_deps_ok:
  assumes "gl_node_count L g = N" and "p < N" and "acyclic (set_mset (E g))"
    and "\<forall>sn i n. hm_get m sn = Some (i, n) \<longrightarrow> n < N" and "list_all (\<lambda>d. short_name d \<noteq> None) deps"
  shows "\<exists>g' circular ns. check_deps L m p deps g acc = Some (g', circular, acc @ ns) \<and> gl_node_count L g' = N \<and>
    E g' = E g + image_mset (\<lambda>a. (a, p)) (mset ns) \<and>
    (circular \<longleftrightarrow> (\<exists>d \<in> set (map (the \<circ> short_name) deps). \<exists>i n. hm_get m d = Some (i, n) \<and> (p, n) \<in> (set_mset (E g))\<^sup>*))"
  using assms
proof (induction deps arbitrary: g acc)
  case (Cons dep deps)
  from Cons.prems(5) obtain d where d: "short_name dep = Some d" and deps: "list_all (\<lambda>d. short_name d \<noteq> None) deps" by auto
  show ?case
  proof (cases "hm_get m d")
    case None
    with Cons.IH [OF Cons.prems(1-4) deps, where acc = acc] d show ?thesis by auto
  next
    case (Some val)
    then obtain i n where n: "hm_get m d = Some (i, n)" by (cases val) auto
    let ?g = "gl_extend_with_edges L [(n, p)] g"
    have g: "gl_node_count L ?g = N" "E ?g = add_mset (n, p) (E g)"
      using add_edge [of n g p] Cons.prems(1, 2, 4) n by auto
    have cyc: "gl_is_cyclic L ?g \<longleftrightarrow> (p, n) \<in> (set_mset (E g))\<^sup>*"
      using Cons.prems(3) by (simp add: is_cyclic g(2))
    show ?thesis
    proof (cases "gl_is_cyclic L ?g")
      case True
      then have "check_deps L m p (dep # deps) g acc = Some (?g, True, acc @ [n])" using d n by simp
      with True cyc g d n show ?thesis by auto
    next
      case False
      then have "acyclic (set_mset (E ?g))" by (simp add: is_cyclic)
      from Cons.IH [OF g(1) Cons.prems(2) this Cons.prems(4) deps, where acc = "acc @ [n]"] obtain g' circular ns where
        rest: "check_deps L m p deps ?g (acc @ [n]) = Some (g', circular, (acc @ [n]) @ ns)" "gl_node_count L g' = N"
          "E g' = E ?g + image_mset (\<lambda>a. (a, p)) (mset ns)"
        and circular: "circular \<longleftrightarrow> (\<exists>d \<in> set (map (the \<circ> short_name) deps). \<exists>i n. hm_get m d = Some (i, n) \<and> (p, n) \<in> (set_mset (E ?g))\<^sup>*)"
        by blast
      have "check_deps L m p (dep # deps) g acc = Some (g', circular, acc @ (n # ns))" using False d n rest(1) by simp
      moreover have "E g' = E g + image_mset (\<lambda>a. (a, p)) (mset (n # ns))" by (simp add: rest(3) g(2))
      moreover have "circular \<longleftrightarrow> (\<exists>d \<in> set (map (the \<circ> short_name) (dep # deps)). \<exists>i n. hm_get m d = Some (i, n) \<and> (p, n) \<in> (set_mset (E g))\<^sup>*)"
        using False cyc d n unfolding circular g(2) by (auto simp: rtrancl_insert_into)
      ultimately show ?thesis using rest(2) by blast
    qed
  qed
qed auto

lemma closes_cycle_nodes:
  assumes inv: "pg_inv L E pg" and n: "hm_get (pg_package_map pg) sn = Some (n, n)"
  shows "(\<exists>i k. hm_get (pg_package_map pg) d = Some (i, k) \<and> (n, k) \<in> (set_mset {#e \<in># E (pg_graph pg). snd e \<noteq> n#})\<^sup>*) \<longleftrightarrow>
    closes_cycle (pg_edges E pg) sn d"
proof (cases "hm_get (pg_package_map pg) d")
  case None
  have "\<not> closes_cycle (pg_edges E pg) sn d"
  proof
    assume "closes_cycle (pg_edges E pg) sn d"
    then have "sn = d \<or> (sn, d) \<in> (set_mset (pg_edges E pg))\<^sup>+" by (auto simp: closes_cycle_iff rtrancl_eq_or_trancl)
    moreover have "sn \<noteq> d" "d \<notin> set (pg_package_names pg)" using None n pg_map_None [OF inv, of d] by auto
    ultimately show False using trancl_subset_Sigma [OF pg_edges_names [OF inv]] by auto
  qed
  with None show ?thesis by simp
next
  case (Some val)
  then obtain k where k: "hm_get (pg_package_map pg) d = Some (k, k)" "k < pg_package_max pg" "pg_package_names pg ! k = d"
    using pg_map_Some [OF inv] by (cases val) auto
  have "n < pg_package_max pg" "pg_package_names pg ! n = sn" using pg_map_Some [OF inv] n by simp_all
  with pg_reachable(1) [OF inv this(1) k(2)] rtrancl_into_start [of n k "set_mset (E (pg_graph pg))" "{}"] k
  show ?thesis by (simp add: closes_cycle_iff)
qed

lemma check_extend_ok:
  assumes inv: "pg_inv L E pg" and sn: "short_name (jp_ident p) = Some sn"
    and deps: "list_all (\<lambda>d. short_name d \<noteq> None) (jp_deps p)"
  obtains ok g where "check_extend L p pg = Some (ok, pg\<lparr>pg_graph := g\<rparr>)" "E g = E (pg_graph pg)"
    "gl_node_count L g = gl_node_count L (pg_graph pg)"
    "ok \<longleftrightarrow> sn \<notin> set (pg_package_names pg) \<or>
       (\<forall>d \<in> set (map (the \<circ> short_name) (jp_deps p)). \<not> closes_cycle (pg_edges E pg) sn d)"
proof (cases "hm_get (pg_package_map pg) sn")
  case None
  then have "check_extend L p pg = Some (True, pg\<lparr>pg_graph := pg_graph pg\<rparr>)" using sn by (simp add: check_extend_def)
  then show ?thesis by (rule that) (use pg_map_None [OF inv] None in blast)+
next
  case (Some val)
  then obtain n where n: "hm_get (pg_package_map pg) sn = Some (n, n)" "n < pg_package_max pg" "pg_package_names pg ! n = sn"
    using pg_map_Some [OF inv] by (cases val) auto
  let ?g = "pg_graph pg" and ?saved = "gl_neighbors_incoming L (pg_graph pg) n"
  obtain g1 where g1: "unlink_all L ?saved n ?g = Some g1" "gl_node_count L g1 = gl_node_count L ?g"
    "E g1 = {#e \<in># E ?g. snd e \<noteq> n#}"
    using unlink_incoming by blast
  have nc: "gl_node_count L ?g = pg_package_max pg" and "acyclic (set_mset (E ?g))" using inv by (simp_all add: pg_inv_def)
  then have "acyclic (set_mset (E g1))" by (auto simp: g1(3) elim: acyclic_subset)
  moreover have "k < pg_package_max pg" if "hm_get (pg_package_map pg) s = Some (i, k)" for s i k
    using pg_map_Some [OF inv, of s i k] that by simp
  ultimately obtain g2 circular ns where
    g2: "check_deps L (pg_package_map pg) n (jp_deps p) g1 [] = Some (g2, circular, ns)" "gl_node_count L g2 = pg_package_max pg"
      "E g2 = E g1 + image_mset (\<lambda>a. (a, n)) (mset ns)"
    and circular: "circular \<longleftrightarrow> (\<exists>d \<in> set (map (the \<circ> short_name) (jp_deps p)).
      \<exists>i k. hm_get (pg_package_map pg) d = Some (i, k) \<and> (n, k) \<in> (set_mset (E g1))\<^sup>*)"
    using check_deps_ok [OF _ n(2) _ _ deps, of g1 "pg_package_map pg" "[]"] g1(2) nc by auto
  obtain g3 where g3: "unlink_all L ns n g2 = Some g3" "gl_node_count L g3 = pg_package_max pg" "E g3 = E g1"
    using unlink_all_edges [of n ns g2] g2(2, 3) by auto
  have "a < gl_node_count L g3" if "a \<in> set ?saved" for a
  proof -
    from that have "(a, n) \<in># image_mset (\<lambda>a. (a, n)) (mset ?saved)" by simp
    then show ?thesis using pg_inv_edge(1) [OF inv] by (auto simp: incoming_edges g3(2))
  qed
  then have g4: "gl_node_count L (link_all L ?saved n g3) = gl_node_count L ?g" "E (link_all L ?saved n g3) = E ?g"
    using link_all_edges [of ?saved g3 n] n(2) multiset_partition [of "E ?g" "\<lambda>e. snd e = n"]
    by (simp_all add: g3 nc incoming_edges g1(3))
  have "circular \<longleftrightarrow> (\<exists>d \<in> set (map (the \<circ> short_name) (jp_deps p)). closes_cycle (pg_edges E pg) sn d)"
    unfolding circular g1(3) by (simp only: closes_cycle_nodes [OF inv n(1)])
  moreover have "sn \<in> set (pg_package_names pg)" using pg_map_None [OF inv, of sn] n(1) by auto
  moreover have "check_extend L p pg = Some (\<not> circular, pg\<lparr>pg_graph := link_all L ?saved n g3\<rparr>)"
    using sn n(1) g1(1) g2(1) g3(1) by (simp add: check_extend_def)
  ultimately show ?thesis using g4 by (intro that [of "\<not> circular" "link_all L ?saved n g3"]) auto
qed

end


section \<open>Reverse dependencies\<close>

lemma rdeps_loop_filter:
  assumes "distinct t" and "S \<subseteq> set (drop cur t)"
  shows "rdeps_loop t cur S v = Some (v @ filter (\<lambda>x. x \<in> S) (drop cur t))"
  using assms
proof (induction t cur S v rule: rdeps_loop.induct)
  case (1 t cur S v)
  show ?case
  proof (cases "S = {}")
    case False
    then have cur: "cur < length t" using "1.prems"(2) by (cases "cur < length t") auto
    then have drop: "drop cur t = t ! cur # drop (Suc cur) t" by (simp add: Cons_nth_drop_Suc)
    then have notin: "t ! cur \<notin> set (drop (Suc cur) t)" using distinct_drop [OF "1.prems"(1), of cur] by simp
    have same: "filter (\<lambda>x. x \<in> S - {t ! cur}) (drop (Suc cur) t) = filter (\<lambda>x. x \<in> S) (drop (Suc cur) t)"
      using notin by (intro filter_cong) auto
    show ?thesis
    proof (cases "t ! cur \<in> S")
      case True
      have "rdeps_loop t (cur + 1) (S - {t ! cur}) (v @ [t ! cur]) =
          Some ((v @ [t ! cur]) @ filter (\<lambda>x. x \<in> S - {t ! cur}) (drop (cur + 1) t))"
        using "1.prems" drop by (intro "1.IH"(1) [OF False cur True]) auto
      with True False cur drop same show ?thesis by (subst rdeps_loop.simps) simp
    next
      case notS: False
      have "rdeps_loop t (cur + 1) S v = Some (v @ filter (\<lambda>x. x \<in> S) (drop (cur + 1) t))"
        using "1.prems" drop notS by (intro "1.IH"(2) [OF False cur notS]) auto
      with notS False cur drop show ?thesis by (subst rdeps_loop.simps) simp
    qed
  qed (simp add: rdeps_loop.simps)
qed

lemma fold_enumerate_notin:
  "x \<notin> set t \<Longrightarrow> hm_get (fold (\<lambda>(i, j). hm_insert j i) (enumerate k t) m) x = hm_get m x"
  by (induction t arbitrary: k m) simp_all

lemma fold_enumerate_nth:
  "distinct t \<Longrightarrow> i < length t \<Longrightarrow> hm_get (fold (\<lambda>(i, j). hm_insert j i) (enumerate k t) m) (t ! i) = Some (k + i)"
  by (induction t arbitrary: i k m) (auto simp: nth_Cons fold_enumerate_notin split: nat.split)

lemma topo_map_nth: "distinct t \<Longrightarrow> i < length t \<Longrightarrow> hm_get (topo_map t) (t ! i) = Some i"
  using fold_enumerate_nth [of t i 0 hm_new] by (simp add: topo_map_def)

lemma topological_trancl:
  assumes "\<forall>i j. i < length t \<longrightarrow> j < length t \<longrightarrow> (t ! i, t ! j) \<in> R \<longrightarrow> i < j"
    and "R \<subseteq> set t \<times> set t" and "(t ! i, x) \<in> R\<^sup>+" and "i < length t"
  shows "\<exists>j. i < j \<and> j < length t \<and> t ! j = x"
  using assms(3)
proof (induction rule: trancl_induct)
  case (base y)
  then have "y \<in> set t" using assms(2) by auto
  then obtain j where "j < length t" "t ! j = y" by (auto simp: in_set_conv_nth)
  with base assms(1, 4) show ?case by blast
next
  case (step y z)
  then obtain j where j: "i < j" "j < length t" "t ! j = y" by blast
  from step(2) have "z \<in> set t" using assms(2) by auto
  then obtain k where k: "k < length t" "t ! k = z" by (auto simp: in_set_conv_nth)
  then have "j < k" using assms(1) step(2) j by blast
  with j k show ?case by (intro exI [of _ k]) simp
qed

context graph_library
begin

lemma rdeps_cyclic: "\<not> acyclic (set_mset (E g)) \<Longrightarrow> rdeps L g n = Some (Inl GraphCyclic)"
  by (simp add: rdeps_def is_cyclic)

lemma rdeps_ok:
  assumes acyc: "acyclic (set_mset (E g))"
    and range: "set_mset (E g) \<subseteq> {..<gl_node_count L g} \<times> {..<gl_node_count L g}"
    and n: "n < gl_node_count L g"
  obtains v where "rdeps L g n = Some (Inr v)" "distinct v" "set v = {m. (n, m) \<in> (set_mset (E g))\<^sup>+}"
    "sorted_wrt (\<lambda>a b. (b, a) \<notin> (set_mset (E g))\<^sup>+) v"
proof -
  let ?R = "set_mset (E g)"
  obtain t where t: "gl_toposort L g = Some t" "distinct t" "set t = {..<gl_node_count L g}"
    and topo: "\<forall>i j. i < length t \<longrightarrow> j < length t \<longrightarrow> (t ! i, t ! j) \<in> ?R \<longrightarrow> i < j"
    using toposort [OF acyc range] by auto
  have R: "?R \<subseteq> set t \<times> set t" using range by (simp add: t(3))
  from n t(3) obtain c where c: "c < length t" "t ! c = n" by (metis in_set_conv_nth lessThan_iff)
  have S: "set (gl_bfs L g n) - {n} = {m. (n, m) \<in> ?R\<^sup>+}"
    using acyc by (auto simp: bfs [OF n] acyclic_def rtrancl_eq_or_trancl)
  have sub: "{m. (n, m) \<in> ?R\<^sup>+} \<subseteq> set (drop c t)"
  proof
    fix m assume "m \<in> {m. (n, m) \<in> ?R\<^sup>+}"
    then obtain j where "c < j" "j < length t" "t ! j = m"
      using topological_trancl [OF topo R, of c m] c by auto
    then have "j - c < length (drop c t)" "drop c t ! (j - c) = m" by auto
    then show "m \<in> set (drop c t)" using nth_mem by blast
  qed
  let ?v = "filter (\<lambda>x. x \<in> {m. (n, m) \<in> ?R\<^sup>+}) (drop c t)"
  have "(t ! j, t ! i) \<notin> ?R\<^sup>+" if ij: "i < j" "j < length t" for i j
  proof
    assume "(t ! j, t ! i) \<in> ?R\<^sup>+"
    then obtain k where "j < k" "k < length t" "t ! k = t ! i" using topological_trancl [OF topo R _ ij(2)] by blast
    then have "k = i" using nth_eq_iff_index_eq [OF t(2), of k i] ij by simp
    with \<open>j < k\<close> ij show False by simp
  qed
  then have "sorted_wrt (\<lambda>a b. (b, a) \<notin> ?R\<^sup>+) t" by (simp add: sorted_wrt_iff_nth_less)
  then have "sorted_wrt (\<lambda>a b. (b, a) \<notin> ?R\<^sup>+) ?v" by (intro sorted_wrt_filter sorted_wrt_drop)
  moreover have "rdeps L g n = Some (Inr ?v)"
    using acyc t(1) topo_map_nth [OF t(2) c(1)] rdeps_loop_filter [OF t(2) sub, of "[]"]
    by (simp add: rdeps_def is_cyclic c(2) S)
  moreover have "set ?v = {m. (n, m) \<in> ?R\<^sup>+}" using sub by auto
  ultimately show ?thesis using t(2) by (intro that [of ?v]) simp_all
qed

lemma rdep_names_ok:
  assumes "pg_inv L E pg" and "\<forall>n \<in> set ns. \<exists>m. (m, n) \<in># E (pg_graph pg)"
  shows "\<exists>v. rdep_names pg ns = Some v \<and> map fst v = map (nth (pg_package_names pg)) ns \<and>
    (\<forall>(name, i) \<in> set v. pg_resolve name pg = Some i)"
  using assms(2)
proof (induction ns)
  case (Cons n ns)
  then obtain m v where m: "(m, n) \<in># E (pg_graph pg)" and v: "rdep_names pg ns = Some v"
    "map fst v = map (nth (pg_package_names pg)) ns" "\<forall>(name, i) \<in> set v. pg_resolve name pg = Some i" by auto
  obtain i where "hm_get (pg_latest_map pg) (pg_package_names pg ! n) = Some i" "n < length (pg_package_names pg)"
    using pg_inv_edge [OF assms(1) m] assms(1) by (auto simp: pg_inv_def)
  with v show ?case by (simp add: pg_resolve_def)
qed simp

lemma pg_rdeps_node:
  assumes inv: "pg_inv L E pg" and n: "n < pg_package_max pg"
  obtains v where "rdeps L (pg_graph pg) n = Some (Inr v)" "distinct v"
    "set v = {m. (n, m) \<in> (set_mset (E (pg_graph pg)))\<^sup>+}"
    "sorted_wrt (\<lambda>a b. (b, a) \<notin> (set_mset (E (pg_graph pg)))\<^sup>+) v"
proof -
  have "gl_node_count L (pg_graph pg) = pg_package_max pg" "acyclic (set_mset (E (pg_graph pg)))"
    using inv by (simp_all add: pg_inv_def)
  with pg_inv_nodes(2) [OF inv] n that show ?thesis by (metis rdeps_ok)
qed

lemma pg_rdeps_ok:
  assumes inv: "pg_inv L E pg" and name: "name \<in> set (pg_package_names pg)"
  obtains v where "pg_rdeps L name pg = Some (Some v)" "distinct (map fst v)"
    "set (map fst v) = {m. (name, m) \<in> (set_mset (pg_edges E pg))\<^sup>+}"
    "sorted_wrt (\<lambda>a b. (b, a) \<notin> (set_mset (pg_edges E pg))\<^sup>+) (map fst v)"
    "\<forall>(m, i) \<in> set v. pg_resolve m pg = Some i"
proof -
  let ?N = "pg_package_names pg" and ?R = "set_mset (E (pg_graph pg))" and ?S = "set_mset (pg_edges E pg)"
  have len: "length ?N = pg_package_max pg" using inv by (simp add: pg_inv_def)
  from name obtain n where n: "n < pg_package_max pg" "?N ! n = name" "hm_get (pg_package_map pg) name = Some (n, n)"
    using pg_map_Some [OF inv, of name] len by (auto simp: in_set_conv_nth)
  obtain ns where ns: "rdeps L (pg_graph pg) n = Some (Inr ns)" "distinct ns" "set ns = {m. (n, m) \<in> ?R\<^sup>+}"
    "sorted_wrt (\<lambda>a b. (b, a) \<notin> ?R\<^sup>+) ns"
    by (rule pg_rdeps_node [OF inv n(1)])
  have sub: "set ns \<subseteq> {..<pg_package_max pg}"
    using trancl_subset_Sigma [OF pg_inv_nodes(2) [OF inv]] by (auto simp: ns(3))
  have "\<forall>m \<in> set ns. \<exists>k. (k, m) \<in> ?R" by (auto simp: ns(3) dest: tranclD2)
  from rdep_names_ok [OF inv this] obtain v where
    v: "rdep_names pg ns = Some v" "map fst v = map (nth ?N) ns" "\<forall>(m, i) \<in> set v. pg_resolve m pg = Some i" by blast
  have "inj_on (nth ?N) (set ns)" using pg_inv_nodes(1) [OF inv] sub by (rule inj_on_subset)
  then have "distinct (map fst v)" using ns(2) by (simp add: v(2) distinct_map)
  moreover have "nth ?N ` set ns = {m. (name, m) \<in> ?S\<^sup>+}"
  proof -
    have "x \<in> nth ?N ` set ns" if path: "(name, x) \<in> ?S\<^sup>+" for x
    proof -
      obtain b where b: "b < pg_package_max pg" "?N ! b = x"
        using subsetD [OF trancl_subset_Sigma [OF pg_edges_names [OF inv]] path] len by (auto simp: in_set_conv_nth)
      then show ?thesis using path pg_reachable(2) [OF inv n(1) b(1)] n(2) by (auto simp: ns(3))
    qed
    moreover have "(name, ?N ! m) \<in> ?S\<^sup>+" if "m \<in> set ns" for m
      using that sub pg_reachable(2) [OF inv n(1), of m] n(2) by (auto simp: ns(3))
    ultimately show ?thesis by blast
  qed
  moreover have "sorted_wrt (\<lambda>a b. (b, a) \<notin> ?S\<^sup>+) (map fst v)"
    unfolding v(2) sorted_wrt_map
  proof (rule sorted_wrt_mono_rel [OF _ ns(4)])
    show "(?N ! b, ?N ! a) \<notin> ?S\<^sup>+" if "a \<in> set ns" "b \<in> set ns" "(b, a) \<notin> ?R\<^sup>+" for a b
      using that sub pg_reachable(2) [OF inv, of b a] by auto
  qed
  ultimately show ?thesis using v n(3) ns(1) by (intro that [of v]) (simp_all add: pg_rdeps_def)
qed

end


section \<open>The most needed packages\<close>

lemma heap_pop_None: "heap_pop es = None \<longleftrightarrow> es = []"
  by (cases es) (auto split: option.split)

lemma heap_pop_max:
  "heap_pop es = Some (m, rest) \<Longrightarrow>
   mset es = add_mset m (mset rest) \<and> (\<forall>e \<in> set rest. he_rdep_count e \<le> he_rdep_count m)"
proof (induction es arbitrary: m rest)
  case (Cons e es)
  show ?case
  proof (cases "heap_pop es")
    case None
    with Cons.prems show ?thesis by (simp add: heap_pop_None)
  next
    case (Some r)
    then obtain m' rest' where r: "heap_pop es = Some (m', rest')" by (cases r) auto
    with Cons show ?thesis
      by (auto split: if_splits intro: le_trans [of _ "he_rdep_count m'"])
  qed
qed simp

lemma top_loop_ok:
  assumes "\<forall>e \<in> set heap. he_pkg_index e < length names"
  shows "\<exists>popped rest. top_loop names k heap v = Some (v @ map (\<lambda>e. (names ! he_pkg_index e, he_rdep_count e)) popped) \<and>
    mset heap = mset popped + mset rest \<and> length popped = min k (length heap) \<and>
    sorted_wrt (\<lambda>a b. he_rdep_count b \<le> he_rdep_count a) popped \<and>
    (\<forall>a \<in> set popped. \<forall>b \<in> set rest. he_rdep_count b \<le> he_rdep_count a)"
  using assms
proof (induction k arbitrary: heap v)
  case 0
  show ?case by (rule exI [of _ "[]"], rule exI [of _ heap]) simp
next
  case (Suc k)
  show ?case
  proof (cases "heap_pop heap")
    case None
    then show ?thesis by (simp add: heap_pop_None)
  next
    case (Some r)
    then obtain e heap' where e: "heap_pop heap = Some (e, heap')" by (cases r) auto
    note max = heap_pop_max [OF e]
    then have heap: "set heap = insert e (set heap')" "length heap = Suc (length heap')"
      by (metis set_mset_add_mset_insert set_mset_mset) (metis max size_add_mset size_mset)
    with Suc.prems have idx: "he_pkg_index e < length names" "\<forall>e \<in> set heap'. he_pkg_index e < length names" by auto
    let ?entry = "\<lambda>e. (names ! he_pkg_index e, he_rdep_count e)"
    from Suc.IH [OF idx(2), of "v @ [?entry e]"] obtain popped rest where
      ih: "top_loop names k heap' (v @ [?entry e]) = Some ((v @ [?entry e]) @ map ?entry popped)"
        "mset heap' = mset popped + mset rest" "length popped = min k (length heap')"
        "sorted_wrt (\<lambda>a b. he_rdep_count b \<le> he_rdep_count a) popped"
        "\<forall>a \<in> set popped. \<forall>b \<in> set rest. he_rdep_count b \<le> he_rdep_count a" by blast
    have "set heap' = set popped \<union> set rest" by (metis ih(2) set_mset_mset set_mset_union)
    with ih max heap e idx(1) show ?thesis
      by (intro exI [of _ "e # popped"] exI [of _ rest]) auto
  qed
qed

context graph_library
begin

text \<open>The number of packages that need a package, which is what the heap is ordered by.\<close>

lemma rdeps_count:
  assumes inv: "pg_inv L E pg" and n: "n < pg_package_max pg"
  obtains v where "rdeps L (pg_graph pg) n = Some (Inr v)"
    "length v = card {m. (pg_package_names pg ! n, m) \<in> (set_mset (pg_edges E pg))\<^sup>+}"
proof -
  have name: "pg_package_names pg ! n \<in> set (pg_package_names pg)" "hm_get (pg_package_map pg) (pg_package_names pg ! n) = Some (n, n)"
    using inv n by (simp_all add: pg_inv_def)
  obtain ns where ns: "rdeps L (pg_graph pg) n = Some (Inr ns)" by (rule pg_rdeps_node [OF inv n])
  obtain v where v: "pg_rdeps L (pg_package_names pg ! n) pg = Some (Some v)" "distinct (map fst v)"
    "set (map fst v) = {m. (pg_package_names pg ! n, m) \<in> (set_mset (pg_edges E pg))\<^sup>+}"
    by (rule pg_rdeps_ok [OF inv name(1)])
  from v(1) have "rdep_names pg ns = Some v" by (simp add: pg_rdeps_def name(2) ns split: bind_splits)
  then have "length v = length ns" by (induction ns arbitrary: v) (auto simp: Let_def split: bind_splits if_splits)
  then show ?thesis using ns v(3) distinct_card [OF v(2)] by (intro that [of ns]) simp_all
qed

lemma heap_entries_ok:
  assumes inv: "pg_inv L E pg" and "\<forall>(sn, i, n) \<in> set ids. i = n \<and> n < pg_package_max pg"
  shows "heap_entries L (pg_graph pg) ids = Some (map (\<lambda>(sn, i, n). \<lparr>he_pkg_index = i,
    he_rdep_count = card {m. (pg_package_names pg ! i, m) \<in> (set_mset (pg_edges E pg))\<^sup>+}\<rparr>) ids)"
  using assms(2)
proof (induction ids)
  case (Cons x ids)
  then obtain sn n where x: "x = (sn, n, n)" "n < pg_package_max pg" by (cases x) auto
  obtain v where "rdeps L (pg_graph pg) n = Some (Inr v)"
    "length v = card {m. (pg_package_names pg ! n, m) \<in> (set_mset (pg_edges E pg))\<^sup>+}"
    by (rule rdeps_count [OF inv x(2)])
  with Cons x show ?case by simp
qed simp

end

context graph_library
begin

lemma pg_top_popped:
  assumes inv: "pg_inv L E pg"
  obtains popped rest where
    "pg_top L k pg = Some (map (\<lambda>i. (pg_package_names pg ! i,
       card {m. (pg_package_names pg ! i, m) \<in> (set_mset (pg_edges E pg))\<^sup>+})) popped)"
    "mset popped + mset rest = mset [0..<length (pg_package_names pg)]"
    "length popped = min k (length (pg_package_names pg))"
    "sorted_wrt (\<lambda>a b. card {m. (pg_package_names pg ! b, m) \<in> (set_mset (pg_edges E pg))\<^sup>+}
       \<le> card {m. (pg_package_names pg ! a, m) \<in> (set_mset (pg_edges E pg))\<^sup>+}) popped"
    "\<forall>a \<in> set popped. \<forall>b \<in> set rest. card {m. (pg_package_names pg ! b, m) \<in> (set_mset (pg_edges E pg))\<^sup>+}
       \<le> card {m. (pg_package_names pg ! a, m) \<in> (set_mset (pg_edges E pg))\<^sup>+}"
proof -
  let ?N = "pg_package_names pg"
  define needed where "needed i = card {m. (?N ! i, m) \<in> (set_mset (pg_edges E pg))\<^sup>+}" for i
  define entry where "entry i = \<lparr>he_pkg_index = i, he_rdep_count = needed i\<rparr>" for i
  define heap where "heap = map (\<lambda>(sn, i, n). entry i) (pg_package_map pg)"
  note ids = pg_map_indices [OF inv]
  have entries: "heap_entries L (pg_graph pg) (pg_package_map pg) = Some heap"
    using heap_entries_ok [OF inv ids(1)] by (simp add: heap_def entry_def needed_def)
  have idx: "map he_pkg_index heap = map (fst \<circ> snd) (pg_package_map pg)"
    by (simp add: heap_def entry_def case_prod_unfold)
  have heap: "he_rdep_count e = needed (he_pkg_index e)" if "e \<in> set heap" for e
    using that by (auto simp: heap_def entry_def)
  have "he_pkg_index ` set heap = {..<length ?N}"
    using mset_eq_setD [OF ids(2)] unfolding idx [symmetric] by (simp add: lessThan_atLeast0)
  then have "\<forall>e \<in> set heap. he_pkg_index e < length ?N" by blast
  then obtain popped rest where
    top: "top_loop ?N k heap [] = Some (map (\<lambda>e. (?N ! he_pkg_index e, he_rdep_count e)) popped)"
    and popped: "mset heap = mset popped + mset rest" "length popped = min k (length heap)"
      "sorted_wrt (\<lambda>a b. he_rdep_count b \<le> he_rdep_count a) popped"
      "\<forall>a \<in> set popped. \<forall>b \<in> set rest. he_rdep_count b \<le> he_rdep_count a"
    using top_loop_ok [of heap ?N k "[]"] by auto
  have set: "set heap = set popped \<union> set rest" by (metis popped(1) set_mset_mset set_mset_union)
  have count: "he_rdep_count e = needed (he_pkg_index e)" if "e \<in> set popped \<union> set rest" for e
    using heap that set by blast
  have split: "mset (map he_pkg_index popped) + mset (map he_pkg_index rest) = mset [0..<length ?N]"
    using ids(2) unfolding idx [symmetric] mset_map popped(1) image_mset_union by simp
  have "length heap = length ?N" using arg_cong [OF ids(2), of size] by (simp add: heap_def)
  moreover have "pg_top L k pg = Some (map (\<lambda>i. (?N ! i, needed i)) (map he_pkg_index popped))"
    using entries top count by (simp add: pg_top_def)
  moreover have "sorted_wrt (\<lambda>a b. needed b \<le> needed a) (map he_pkg_index popped)"
    unfolding sorted_wrt_map by (rule sorted_wrt_mono_rel [OF _ popped(3)]) (simp add: count)
  moreover have "\<forall>a \<in> set (map he_pkg_index popped). \<forall>b \<in> set (map he_pkg_index rest). needed b \<le> needed a"
    using popped(4) by (simp add: count)
  ultimately show ?thesis
    using split popped(2) unfolding needed_def by (intro that [of "map he_pkg_index popped" "map he_pkg_index rest"]) simp_all
qed

end

section \<open>Building a graph\<close>

text \<open>A package message that \<open>extend\<close> can process: identifiers with two to four parts, dependencies with at least two.\<close>

definition well_named :: "job_graph_package \<Rightarrow> bool" where
  "well_named p \<longleftrightarrow> (case ident_from_str (jp_ident p) of Inr _ \<Rightarrow> True | Inl _ \<Rightarrow> False) \<and>
     list_all (\<lambda>d. short_name d \<noteq> None) (jp_deps p)"

lemma well_named_ident:
  assumes "well_named p"
  obtains i where "ident_from_str (jp_ident p) = Inr i" "short_name (jp_ident p) = Some (pi_origin i @ ''/'' @ pi_name i)"
    "list_all (\<lambda>d. short_name d \<noteq> None) (jp_deps p)"
  using assms by (auto simp: well_named_def split: sum.splits dest: ident_short_name)

context graph_library
begin

lemma extend_each_ok:
  assumes "pg_inv L E pg" and "list_all well_named ps"
  shows "\<exists>pg'. extend_each L ps pg = Some pg' \<and> pg_inv L E pg' \<and>
    (\<forall>sn. hm_get (pg_latest_map pg') sn \<noteq> None \<longleftrightarrow>
       hm_get (pg_latest_map pg) sn \<noteq> None \<or> Some sn \<in> (short_name \<circ> jp_ident) ` set ps)"
  using assms
proof (induction ps arbitrary: pg)
  case (Cons p ps)
  from Cons.prems(2) have "well_named p" "list_all well_named ps" by simp_all
  then obtain i where i: "ident_from_str (jp_ident p) = Inr i" "short_name (jp_ident p) = Some (pi_origin i @ ''/'' @ pi_name i)"
    and deps: "list_all (\<lambda>d. short_name d \<noteq> None) (jp_deps p)" by (auto elim: well_named_ident)
  let ?sn = "pi_origin i @ ''/'' @ pi_name i"
  obtain c pg1 where pg1: "extend L p pg = Some (c, pg1)" "pg_inv L E pg1"
    "pg_latest_map pg1 = (if outdated pg ?sn i then pg_latest_map pg else hm_insert ?sn i (pg_latest_map pg))"
    using extend_ok [OF Cons.prems(1) i(1)] deps by metis
  have "hm_get (pg_latest_map pg1) sn \<noteq> None \<longleftrightarrow> hm_get (pg_latest_map pg) sn \<noteq> None \<or> sn = ?sn" for sn
    by (auto simp: pg1(3) outdated_def split: option.splits)
  with Cons.IH [OF pg1(2) \<open>list_all well_named ps\<close>] pg1(1) i(2) show ?case by (auto simp del: not_None_eq)
qed simp

lemma build_ok:
  assumes "list_all well_named ps"
  obtains pg where "build L ps (package_graph_new L) = Some ((length (pg_package_names pg), size (pg_edges E pg)), pg)"
    "pg_inv L E pg" "\<forall>sn. pg_resolve sn pg \<noteq> None \<longleftrightarrow> Some sn \<in> (short_name \<circ> jp_ident) ` set ps"
proof -
  obtain pg where pg: "extend_each L ps (package_graph_new L) = Some pg" "pg_inv L E pg"
    "\<forall>sn. hm_get (pg_latest_map pg) sn \<noteq> None \<longleftrightarrow> Some sn \<in> (short_name \<circ> jp_ident) ` set ps"
    using extend_each_ok [OF package_graph_new_inv assms] by (auto simp: package_graph_new_def)
  moreover have "gl_node_count L (pg_graph pg) = length (pg_package_names pg)" "gl_edge_count L (pg_graph pg) = size (pg_edges E pg)"
    using pg(2) by (simp_all add: pg_inv_def edge_count pg_edges_def)
  ultimately show ?thesis
    by (intro that [of pg]) (auto simp: build_def package_graph_new_def pg_resolve_def)
qed

end

text \<open>An example: a tool that needs a library and a compiler, which needs the library.\<close>

definition example_packages :: "job_graph_package list" where
  "example_packages =
     [\<lparr>jp_ident = ''core/glibc/2.22/1'', jp_deps = [], jp_target = ''x86_64-linux''\<rparr>,
      \<lparr>jp_ident = ''core/tool/1.0/1'', jp_deps = [''core/gcc'', ''core/glibc''], jp_target = ''x86_64-linux''\<rparr>,
      \<lparr>jp_ident = ''core/gcc/5.2/1'', jp_deps = [''core/glibc/2.22/1''], jp_target = ''x86_64-linux''\<rparr>]"

definition example_graph :: "list_graph package_graph" where
  "example_graph = snd (the (build list_graph_lib example_packages (package_graph_new list_graph_lib)))"

abbreviation list_edges :: "list_graph \<Rightarrow> (nat \<times> nat) multiset" where
  "list_edges \<equiv> \<lambda>(k, es). mset es"

lemma example_packages_well_named: "list_all well_named example_packages"
  by code_simp

lemma example_graph_inv: "pg_inv list_graph_lib list_edges example_graph"
  by (rule list_graph.build_ok [OF example_packages_well_named]) (simp add: example_graph_def)

lemma example_graph_eq:
  "example_graph = \<lparr>pg_package_max = 3,
     pg_package_map = [(''core/glibc'', 0, 0), (''core/tool'', 1, 1), (''core/gcc'', 2, 2)],
     pg_latest_map = [(''core/glibc'', package_ident_new ''core'' ''glibc'' (Some ''2.22'') (Some ''1'')),
       (''core/tool'', package_ident_new ''core'' ''tool'' (Some ''1.0'') (Some ''1'')),
       (''core/gcc'', package_ident_new ''core'' ''gcc'' (Some ''5.2'') (Some ''1''))],
     pg_package_names = [''core/glibc'', ''core/tool'', ''core/gcc''], pg_graph = (3, [(2, 1), (0, 1), (0, 2)])\<rparr>"
  by code_simp


section \<open>What the graph promises\<close>

text \<open>C13: However the packages depend on each other, building a graph from well-named packages does not panic and gives
  a well-formed graph without cycles, with the reported numbers of nodes and dependencies, in
  which exactly the packages that were given have a latest version.\<close>

theorem built_graph_is_acyclic:
  assumes "graph_library L E" and "list_all well_named ps"
  shows "\<exists>pg. build L ps (package_graph_new L) = Some ((length (pg_package_names pg), size (pg_edges E pg)), pg) \<and>
    pg_inv L E pg \<and> acyclic (set_mset (pg_edges E pg)) \<and> \<not> st_is_cyclic (pg_stats L pg) \<and>
    (\<forall>sn. pg_resolve sn pg \<noteq> None \<longleftrightarrow> Some sn \<in> (short_name \<circ> jp_ident) ` set ps)"
proof -
  obtain pg where pg: "build L ps (package_graph_new L) = Some ((length (pg_package_names pg), size (pg_edges E pg)), pg)"
    "pg_inv L E pg" "\<forall>sn. pg_resolve sn pg \<noteq> None \<longleftrightarrow> Some sn \<in> (short_name \<circ> jp_ident) ` set ps"
    by (rule graph_library.build_ok [OF assms])
  from pg(2) have "acyclic (set_mset (E (pg_graph pg)))" by (simp add: pg_inv_def)
  then have "\<not> st_is_cyclic (pg_stats L pg)" by (simp add: pg_stats_def graph_library.is_cyclic [OF assms(1)])
  with pg pg_acyclic [OF pg(2)] show ?thesis by blast
qed

theorem built_graph_is_acyclic_witness:
  "\<exists>pg. build list_graph_lib example_packages (package_graph_new list_graph_lib) =
     Some ((length (pg_package_names pg), size (pg_edges list_edges pg)), pg) \<and>
     acyclic (set_mset (pg_edges list_edges pg)) \<and> pg_resolve ''core/gcc'' pg \<noteq> None"
proof -
  have "Some ''core/gcc'' \<in> (short_name \<circ> jp_ident) ` set example_packages" by code_simp
  with built_graph_is_acyclic [OF list_graph.graph_library_axioms example_packages_well_named] show ?thesis by blast
qed

text \<open>C12: Extending a well-formed graph by a package refines the specification on package names: a package older than
  the latest known version changes nothing; otherwise it becomes the latest version, its former
  dependencies are dropped, and exactly those of its dependencies are added for which it is not
  itself needed, directly or indirectly; the dependencies of all other packages stay. The graph
  stays well formed, in particular acyclic.\<close>

theorem extend_refines_spec:
  assumes "graph_library L E" and "pg_inv L E pg" and "ident_from_str (jp_ident p) = Inr i"
    and "list_all (\<lambda>d. short_name d \<noteq> None) (jp_deps p)"
  defines "sn \<equiv> pi_origin i @ ''/'' @ pi_name i" and "ds \<equiv> map (the \<circ> short_name) (jp_deps p)"
  shows "\<exists>pg'. extend L p pg = Some ((length (pg_package_names pg'), size (pg_edges E pg')), pg') \<and> pg_inv L E pg' \<and>
    acyclic (set_mset (pg_edges E pg')) \<and>
    (if outdated pg sn i
     then pg_edges E pg' = pg_edges E pg \<and> pg_latest_map pg' = pg_latest_map pg \<and> pg_package_names pg' = pg_package_names pg
     else pg_edges E pg' = spec_deps (pg_edges E pg) sn ds \<and> pg_latest_map pg' = hm_insert sn i (pg_latest_map pg) \<and>
       pg_package_names pg' = fold add_name (sn # ds) (pg_package_names pg))"
proof -
  obtain pg' where pg': "extend L p pg = Some ((length (pg_package_names pg'), size (pg_edges E pg')), pg')" "pg_inv L E pg'"
    "pg_latest_map pg' = (if outdated pg sn i then pg_latest_map pg else hm_insert sn i (pg_latest_map pg))"
    "pg_package_names pg' = (if outdated pg sn i then pg_package_names pg else fold add_name (sn # ds) (pg_package_names pg))"
    "pg_edges E pg' = (if outdated pg sn i then pg_edges E pg else spec_deps (pg_edges E pg) sn ds)"
    using graph_library.extend_ok [OF assms(1-3)] assms(4) unfolding sn_def ds_def by blast
  from pg_acyclic [OF pg'(2)] pg' show ?thesis by (intro exI [of _ pg']) auto
qed

theorem extend_refines_spec_witness:
  "\<exists>pg'. extend list_graph_lib \<lparr>jp_ident = ''core/glibc/2.26/1'', jp_deps = [''core/gcc/5.2/1'', ''core/headers''], jp_target = ''x86_64-linux''\<rparr> example_graph =
     Some ((4, 4), pg') \<and> acyclic (set_mset (pg_edges list_edges pg'))"
proof -
  let ?p = "\<lparr>jp_ident = ''core/glibc/2.26/1'', jp_deps = [''core/gcc/5.2/1'', ''core/headers''], jp_target = ''x86_64-linux''\<rparr>"
  have ident: "ident_from_str (jp_ident ?p) = Inr (package_ident_new ''core'' ''glibc'' (Some ''2.26'') (Some ''1''))"
    and deps: "list_all (\<lambda>d. short_name d \<noteq> None) (jp_deps ?p)" by code_simp+
  have counts: "map_option fst (extend list_graph_lib ?p example_graph) = Some (4, 4)"
    unfolding example_graph_eq by code_simp
  from extend_refines_spec [OF list_graph.graph_library_axioms example_graph_inv ident deps] counts
  show ?thesis by auto
qed

text \<open>\<open>check_extend\<close> leaves the graph as it was and foretells \<open>extend\<close>: for a package that is already in the graph it
  answers yes exactly when extending the graph by it, unless the package is outdated, keeps all
  its dependencies. For a package that is not in the graph it always answers yes, and
  \<open>extend\<close> then keeps all dependencies exactly when the package does not depend on itself.\<close>

theorem check_extend_foretells_extend:
  assumes "graph_library L E" and "pg_inv L E pg" and "ident_from_str (jp_ident p) = Inr i"
    and "list_all (\<lambda>d. short_name d \<noteq> None) (jp_deps p)"
  defines "sn \<equiv> pi_origin i @ ''/'' @ pi_name i" and "ds \<equiv> map (the \<circ> short_name) (jp_deps p)"
  shows "\<exists>ok g counts pg'. check_extend L p pg = Some (ok, pg\<lparr>pg_graph := g\<rparr>) \<and>
    pg_inv L E (pg\<lparr>pg_graph := g\<rparr>) \<and> pg_edges E (pg\<lparr>pg_graph := g\<rparr>) = pg_edges E pg \<and>
    extend L p pg = Some (counts, pg') \<and>
    (sn \<notin> set (pg_package_names pg) \<longrightarrow> ok) \<and>
    (\<not> outdated pg sn i \<longrightarrow>
      image_mset fst {#e \<in># pg_edges E pg'. snd e = sn#} = mset ds \<longleftrightarrow>
      (if sn \<in> set (pg_package_names pg) then ok else sn \<notin> set ds))"
proof -
  have short: "short_name (jp_ident p) = Some sn" using ident_short_name [OF assms(3)] by (simp add: sn_def)
  obtain ok g where ok: "check_extend L p pg = Some (ok, pg\<lparr>pg_graph := g\<rparr>)" "E g = E (pg_graph pg)"
      "gl_node_count L g = gl_node_count L (pg_graph pg)"
    "ok \<longleftrightarrow> sn \<notin> set (pg_package_names pg) \<or> (\<forall>d \<in> set ds. \<not> closes_cycle (pg_edges E pg) sn d)"
    using graph_library.check_extend_ok [OF assms(1, 2) short assms(4)] unfolding ds_def by blast
  have inv: "pg_inv L E (pg\<lparr>pg_graph := g\<rparr>)"
    by (rule pg_inv_regraph [OF assms(2)]) (use assms(2) ok(2, 3) in \<open>simp_all add: pg_inv_def\<close>)
  obtain counts pg' where pg': "extend L p pg = Some (counts, pg')"
    "pg_edges E pg' = (if outdated pg sn i then pg_edges E pg else spec_deps (pg_edges E pg) sn ds)"
    using graph_library.extend_ok [OF assms(1-3)] assms(4) unfolding sn_def ds_def by metis
  have new: "closes_cycle (pg_edges E pg) sn d \<longleftrightarrow> d = sn" if "sn \<notin> set (pg_package_names pg)" for d
    using that trancl_subset_Sigma [OF pg_edges_names [OF assms(2)]]
    by (auto simp: closes_cycle_iff rtrancl_eq_or_trancl)
  have "image_mset fst {#e \<in># spec_deps B sn ds. snd e = sn#} = mset ds \<longleftrightarrow> (\<forall>d \<in> set ds. \<not> closes_cycle B sn d)" for B
    by (simp add: spec_deps_all)
  with ok new pg' inv show ?thesis by (auto simp: pg_edges_def)
qed

theorem check_extend_foretells_extend_witness:
  "\<exists>g. check_extend list_graph_lib \<lparr>jp_ident = ''core/glibc/2.26/1'', jp_deps = [''core/gcc/5.2/1''], jp_target = ''x86_64-linux''\<rparr> example_graph =
     Some (False, example_graph\<lparr>pg_graph := g\<rparr>) \<and> pg_inv list_graph_lib list_edges (example_graph\<lparr>pg_graph := g\<rparr>)"
proof -
  let ?p = "\<lparr>jp_ident = ''core/glibc/2.26/1'', jp_deps = [''core/gcc/5.2/1''], jp_target = ''x86_64-linux''\<rparr>"
  have ident: "ident_from_str (jp_ident ?p) = Inr (package_ident_new ''core'' ''glibc'' (Some ''2.26'') (Some ''1''))"
    and deps: "list_all (\<lambda>d. short_name d \<noteq> None) (jp_deps ?p)" by code_simp+
  have "map_option fst (check_extend list_graph_lib ?p example_graph) = Some False"
    unfolding example_graph_eq by code_simp
  with check_extend_foretells_extend [OF list_graph.graph_library_axioms example_graph_inv ident deps]
  show ?thesis by auto
qed

text \<open>C14: For a package of a well-formed graph, \<open>PackageGraph::rdeps\<close> does not panic and returns exactly the packages that
  need it, directly or indirectly, each once, with its latest version, in an order in which no
  package comes before one it needs. For other names it returns nothing.\<close>

theorem rdeps_are_dependents_in_build_order:
  assumes "graph_library L E" and "pg_inv L E pg"
  shows "if name \<in> set (pg_package_names pg)
    then \<exists>v. pg_rdeps L name pg = Some (Some v) \<and> distinct (map fst v) \<and>
      set (map fst v) = {m. (name, m) \<in> (set_mset (pg_edges E pg))\<^sup>+} \<and>
      sorted_wrt (\<lambda>a b. (b, a) \<notin> (set_mset (pg_edges E pg))\<^sup>+) (map fst v) \<and>
      (\<forall>(m, i) \<in> set v. pg_resolve m pg = Some i)
    else pg_rdeps L name pg = Some None"
proof (cases "name \<in> set (pg_package_names pg)")
  case True
  then show ?thesis by (auto intro: graph_library.pg_rdeps_ok [OF assms True])
next
  case False
  with pg_map_None [OF assms(2)] have "hm_get (pg_package_map pg) name = None" by blast
  with False show ?thesis by (simp add: pg_rdeps_def)
qed

theorem rdeps_are_dependents_in_build_order_witness:
  "pg_rdeps list_graph_lib ''core/glibc'' example_graph =
     Some (Some [(''core/gcc'', ''core/gcc/5.2/1''), (''core/tool'', ''core/tool/1.0/1'')]) \<and>
   sorted_wrt (\<lambda>a b. (b, a) \<notin> (set_mset (pg_edges list_edges example_graph))\<^sup>+) [''core/gcc'', ''core/tool'']"
proof -
  have known: "''core/glibc'' \<in> set (pg_package_names example_graph)" by (simp add: example_graph_eq)
  have "pg_rdeps list_graph_lib ''core/glibc'' example_graph =
      Some (Some [(''core/gcc'', ''core/gcc/5.2/1''), (''core/tool'', ''core/tool/1.0/1'')])"
    unfolding example_graph_eq by code_simp
  with rdeps_are_dependents_in_build_order [OF list_graph.graph_library_axioms example_graph_inv, of "''core/glibc''"] known
  show ?thesis by auto
qed

text \<open>The search for reverse dependencies ends with a result for every node of every graph whose edges connect its
  nodes: the loop over the topological order never reads past its end. The result is the error
  exactly for cyclic graphs, and otherwise lists the nodes reachable from the start without
  repetition.\<close>

theorem rdeps_always_ends:
  assumes "graph_library L E" and "set_mset (E g) \<subseteq> {..<gl_node_count L g} \<times> {..<gl_node_count L g}"
    and "n < gl_node_count L g"
  shows "\<exists>r. rdeps L g n = Some r \<and> (r = Inl GraphCyclic \<longleftrightarrow> \<not> acyclic (set_mset (E g))) \<and>
    (\<forall>v. r = Inr v \<longrightarrow> distinct v \<and> set v = {m. (n, m) \<in> (set_mset (E g))\<^sup>+})"
proof (cases "acyclic (set_mset (E g))")
  case True
  obtain v where "rdeps L g n = Some (Inr v)" "distinct v" "set v = {m. (n, m) \<in> (set_mset (E g))\<^sup>+}"
    by (rule graph_library.rdeps_ok [OF assms(1) True assms(2, 3)])
  with True show ?thesis by auto
next
  case False
  with graph_library.rdeps_cyclic [OF assms(1) False, of n] show ?thesis by auto
qed

theorem rdeps_always_ends_witness:
  "\<exists>v. rdeps list_graph_lib (4, [(0, 2), (1, 2), (2, 3)]) 0 = Some (Inr v) \<and> set v = {m. (0, m) \<in> {(0, 2), (1, 2), (2, 3)}\<^sup>+}"
proof -
  have "rdeps list_graph_lib (4, [(0, 2), (1, 2), (2, 3)]) 0 = Some (Inr [2, 3])" by code_simp
  with rdeps_always_ends [OF list_graph.graph_library_axioms, of "(4, [(0, 2), (1, 2), (2, 3)])" 0]
  show ?thesis by (auto simp: list_graph_lib_def)
qed

text \<open>C36: \<open>top\<close> returns as many packages as there are, but at most the number asked for, each with the number of packages
  that need it, in decreasing order, and no package left out is needed by more packages than one
  that is listed.\<close>

theorem top_lists_most_needed:
  assumes "graph_library L E" and "pg_inv L E pg"
  defines "needed \<equiv> \<lambda>name. card {m. (name, m) \<in> (set_mset (pg_edges E pg))\<^sup>+}"
  shows "\<exists>v. pg_top L k pg = Some v \<and> length v = min k (length (pg_package_names pg)) \<and> distinct (map fst v) \<and>
    set (map fst v) \<subseteq> set (pg_package_names pg) \<and> (\<forall>(name, c) \<in> set v. c = needed name) \<and>
    sorted_wrt (\<ge>) (map snd v) \<and>
    (\<forall>other \<in> set (pg_package_names pg) - set (map fst v). \<forall>c \<in> set (map snd v). needed other \<le> c)"
proof -
  let ?N = "pg_package_names pg"
  have needed: "needed name = card {m. (name, m) \<in> (set_mset (pg_edges E pg))\<^sup>+}" for name by (simp add: needed_def)
  obtain popped rest where top: "pg_top L k pg = Some (map (\<lambda>i. (?N ! i, needed (?N ! i))) popped)"
    and split: "mset popped + mset rest = mset [0..<length ?N]" and len: "length popped = min k (length ?N)"
    and sorted: "sorted_wrt (\<lambda>a b. needed (?N ! b) \<le> needed (?N ! a)) popped"
    and greatest: "\<forall>a \<in> set popped. \<forall>b \<in> set rest. needed (?N ! b) \<le> needed (?N ! a)"
    by (rule graph_library.pg_top_popped [OF assms(1, 2), where k = k, folded needed])
  have N: "distinct ?N" using assms(2) by (simp add: pg_inv_def)
  from split have perm: "mset (popped @ rest) = mset [0..<length ?N]" by simp
  have sets: "set popped \<union> set rest = {..<length ?N}" using mset_eq_setD [OF perm] by (simp add: lessThan_atLeast0)
  have "distinct popped" using mset_eq_imp_distinct_iff [OF perm] by simp
  then have names: "distinct (map (nth ?N) popped)"
    using inj_on_nth [OF N] sets unfolding distinct_map by blast
  have others: "needed other \<le> needed (?N ! a)"
    if other: "other \<in> set ?N - nth ?N ` set popped" and a: "a \<in> set popped" for other a
  proof -
    from other obtain i where i: "i < length ?N" "?N ! i = other" by (auto simp: in_set_conv_nth)
    with other sets have "i \<in> set rest" by blast
    with greatest a i(2) show ?thesis by blast
  qed
  have sub: "nth ?N ` set popped \<subseteq> set ?N" using sets by (auto intro!: nth_mem)
  let ?v = "map (\<lambda>i. (?N ! i, needed (?N ! i))) popped"
  have v: "map fst ?v = map (nth ?N) popped" "map snd ?v = map (\<lambda>i. needed (?N ! i)) popped" by simp_all
  have "\<forall>(name, c) \<in> set ?v. c = needed name" by auto
  moreover have "sorted_wrt (\<ge>) (map snd ?v)" unfolding v sorted_wrt_map using sorted by simp
  moreover have "\<forall>other \<in> set ?N - set (map fst ?v). \<forall>c \<in> set (map snd ?v). needed other \<le> c"
    unfolding v set_map using others by blast
  moreover have "distinct (map fst ?v)" "set (map fst ?v) \<subseteq> set ?N" unfolding v set_map using names sub by simp_all
  ultimately show ?thesis using top len by (intro exI [of _ ?v] conjI) (simp_all only: length_map)
qed


theorem top_lists_most_needed_witness:
  "pg_top list_graph_lib 2 example_graph = Some [(''core/glibc'', 2), (''core/gcc'', 1)] \<and>
   2 = card {m. (''core/glibc'', m) \<in> (set_mset (pg_edges list_edges example_graph))\<^sup>+}"
proof -
  have "pg_top list_graph_lib 2 example_graph = Some [(''core/glibc'', 2), (''core/gcc'', 1)]"
    unfolding example_graph_eq by code_simp
  with top_lists_most_needed [OF list_graph.graph_library_axioms example_graph_inv, of 2] show ?thesis by auto
qed

lemma extend_deps_bad: "\<exists>d \<in> set deps. short_name d = None \<Longrightarrow> extend_deps L n deps pg = None"
proof (induction deps arbitrary: pg)
  case (Cons dep deps)
  show ?case
  proof (cases "short_name dep")
    case None
    then show ?thesis by (simp add: extend_dep_def generate_id_def)
  next
    case (Some d)
    with Cons have "extend_deps L n deps pg' = None" for pg' by auto
    then show ?thesis by (cases "extend_dep L n dep pg") simp_all
  qed
qed simp

text \<open>\<open>extend\<close> panics on a well-formed graph exactly when the identifier of the package does not have two to four
  parts, or when the package is not outdated and the name of one of its dependencies has no
  slash.\<close>

theorem extend_panics_on_bad_names:
  assumes "graph_library L E" and "pg_inv L E pg"
  shows "extend L p pg = None \<longleftrightarrow>
    (case ident_from_str (jp_ident p) of
       Inl _ \<Rightarrow> True
     | Inr i \<Rightarrow> \<not> outdated pg (pi_origin i @ ''/'' @ pi_name i) i \<and> (\<exists>d \<in> set (jp_deps p). CHR ''/'' \<notin> set d))"
proof (cases "ident_from_str (jp_ident p)")
  case (Inl e)
  then show ?thesis by (auto simp: extend_def Let_def split: bind_splits)
next
  case (Inr i)
  let ?sn = "pi_origin i @ ''/'' @ pi_name i"
  have slash: "short_name d = None \<longleftrightarrow> CHR ''/'' \<notin> set d" for d by (rule short_name_None)
  have short: "short_name (jp_ident p) = Some ?sn" by (rule ident_short_name [OF Inr])
  show ?thesis
  proof (cases "outdated pg ?sn i \<or> list_all (\<lambda>d. short_name d \<noteq> None) (jp_deps p)")
    case True
    then have "extend L p pg \<noteq> None" using graph_library.extend_ok [OF assms Inr] by (metis option.distinct(1))
    with True Inr slash show ?thesis by (auto simp: list_all_iff)
  next
    case False
    then have new: "\<not> outdated pg ?sn i" and bad: "\<exists>d \<in> set (jp_deps p). short_name d = None" by (auto simp: list_all_iff)
    obtain n pg1 where gen: "generate_id L (jp_ident p) pg = Some ((n, n), pg1)" "pg_latest_map pg1 = pg_latest_map pg"
      by (rule graph_library.generate_id_ok [OF assms short])
    have "add" if "update_latest L ?sn i n pg1 = Some (add, pg2)" for add pg2
      using that new gen(2) by (auto simp: update_latest_def outdated_def split: option.splits bind_splits)
    with gen Inr short have "extend L p pg = None"
      by (auto simp: extend_def extend_deps_bad [OF bad] split: bind_splits)
    with new bad Inr slash show ?thesis by auto
  qed
qed

theorem extend_panics_on_bad_names_witness:
  "extend list_graph_lib \<lparr>jp_ident = ''core/tool/2.0/1'', jp_deps = [''glibc''], jp_target = ''x86_64-linux''\<rparr> example_graph = None"
proof -
  let ?p = "\<lparr>jp_ident = ''core/tool/2.0/1'', jp_deps = [''glibc''], jp_target = ''x86_64-linux''\<rparr>"
  let ?i = "package_ident_new ''core'' ''tool'' (Some ''2.0'') (Some ''1'')"
  have "ident_from_str (jp_ident ?p) = Inr ?i" by code_simp
  moreover have "\<not> outdated example_graph (pi_origin ?i @ ''/'' @ pi_name ?i) ?i" unfolding example_graph_eq by code_simp
  ultimately show ?thesis
    using extend_panics_on_bad_names [OF list_graph.graph_library_axioms example_graph_inv, of ?p] by simp
qed

text \<open>
  A package that is new and depends on itself passes \<open>check_extend\<close>, although \<open>extend\<close> has to roll
  its dependency back.
\<close>

lemma self_dependency_passes_check:
  "let p = \<lparr>jp_ident = ''core/new/1.0/1'', jp_deps = [''core/new''], jp_target = ''x86_64-linux''\<rparr>
   in map_option fst (check_extend list_graph_lib p example_graph) = Some True \<and>
      map_option fst (extend list_graph_lib p example_graph) = Some (4, 3)"
  unfolding example_graph_eq by code_simp

end
