(* ===== verification/Dat_File.thy ===== *)
theory Dat_File
  imports Butterfly_Server
begin

text \<open>
  The file in which a server keeps its rumors across restarts:
  \<open>components/butterfly/src/rumor/dat_file.rs\<close>. A file is a list of bytes. The byte order
  conversions and the encoding of messages come from crates outside the repository and are the
  fields of \<open>dat_codec\<close>; the outcome of the operating system calls is the argument \<open>dat_io\<close>.
  \<open>None\<close> is a panic, as everywhere; an error is returned together with the server, since the
  rumors read before it stay inserted.
\<close>

section \<open>Bytes, codecs and input\<close>

record 'e dat_codec =
  dc_write_u64 :: "u64 \<Rightarrow> bytes"
  dc_read_u64 :: "bytes \<Rightarrow> u64"
  dc_membership :: "membership \<Rightarrow> bytes option"
  dc_parse_membership :: "bytes \<Rightarrow> 'e + membership"
  dc_rumor :: "proto_rumor \<Rightarrow> bytes option"
  dc_parse_rumor :: "bytes \<Rightarrow> 'e + proto_rumor"

datatype 'e dat_error = DatFileIO | ProtobufError 'e

definition HEADER_VERSION :: "8 word" where
  "HEADER_VERSION = 2"

record dat_header =
  dh_member_len :: u64
  dh_service_len :: u64
  dh_service_config_len :: u64
  dh_service_file_len :: u64
  dh_election_len :: u64
  dh_update_len :: u64
  dh_departure_len :: u64

definition default_header :: dat_header where
  "default_header =
     \<lparr>dh_member_len = 0, dh_service_len = 0, dh_service_config_len = 0, dh_service_file_len = 0,
      dh_election_len = 0, dh_update_len = 0, dh_departure_len = 0\<rparr>"

text \<open>\<open>mem::size_of::<Header>()\<close>: seven 64-bit integers.\<close>

definition size_of_header :: nat where
  "size_of_header = 56"

definition field :: "'e dat_codec \<Rightarrow> nat \<Rightarrow> bytes \<Rightarrow> u64" where
  "field C i bytes = dc_read_u64 C (take 8 (drop (8 * i) bytes))"

definition header_from_bytes :: "'e dat_codec \<Rightarrow> bytes \<Rightarrow> 8 word \<Rightarrow> u64 \<times> dat_header" where
  "header_from_bytes C bytes version =
     (if version = 1 then
        (48, \<lparr>dh_member_len = field C 0 bytes, dh_service_len = field C 1 bytes,
              dh_service_config_len = field C 2 bytes, dh_service_file_len = field C 3 bytes,
              dh_election_len = field C 4 bytes, dh_update_len = field C 5 bytes, dh_departure_len = 0\<rparr>)
      else
        (field C 0 bytes,
         \<lparr>dh_member_len = field C 1 bytes, dh_service_len = field C 2 bytes,
          dh_service_config_len = field C 3 bytes, dh_service_file_len = field C 4 bytes,
          dh_election_len = field C 5 bytes, dh_update_len = field C 6 bytes,
          dh_departure_len = field C 7 bytes\<rparr>))"

definition header_write_to_bytes :: "'e dat_codec \<Rightarrow> dat_header \<Rightarrow> bytes" where
  "header_write_to_bytes C h =
     concat (map (dc_write_u64 C)
       [of_nat (size_of_header + 8), dh_member_len h, dh_service_len h, dh_service_config_len h,
        dh_service_file_len h, dh_election_len h, dh_update_len h, dh_departure_len h])"

text \<open>\<open>Read::read_exact\<close> on the rest of a file: the bytes and the new rest, or an error at the end of the file.\<close>

definition read_exact :: "nat \<Rightarrow> bytes \<Rightarrow> (bytes \<times> bytes) option" where
  "read_exact n rest = (if n \<le> length rest then Some (take n rest, drop n rest) else None)"

definition header_from_file :: "'e dat_codec \<Rightarrow> bytes \<Rightarrow> 8 word \<Rightarrow> (u64 \<times> dat_header) option" where
  "header_from_file C rest version =
     map_option (\<lambda>(bytes, _). header_from_bytes C bytes version)
       (read_exact (if version = 1 then size_of_header else size_of_header + 8) rest)"

section \<open>Reading\<close>

text \<open>A path is the list of its components.\<close>

record dat_file =
  df_header :: dat_header
  df_header_size :: u64
  df_path :: "string list"

definition dat_file_new :: "string \<Rightarrow> string list \<Rightarrow> dat_file" where
  "dat_file_new member_id data_path =
     \<lparr>df_header = default_header, df_header_size = 0, df_path = data_path @ [member_id @ ''.rst'']\<rparr>"

definition member_offset :: "dat_file \<Rightarrow> u64" where
  "member_offset df = 1 + df_header_size df"

definition service_offset :: "dat_file \<Rightarrow> u64" where
  "service_offset df = member_offset df + dh_member_len (df_header df)"

definition service_config_offset :: "dat_file \<Rightarrow> u64" where
  "service_config_offset df = service_offset df + dh_service_len (df_header df)"

definition service_file_offset :: "dat_file \<Rightarrow> u64" where
  "service_file_offset df = service_config_offset df + dh_service_config_len (df_header df)"

definition election_offset :: "dat_file \<Rightarrow> u64" where
  "election_offset df = service_file_offset df + dh_service_file_len (df_header df)"

definition update_offset :: "dat_file \<Rightarrow> u64" where
  "update_offset df = election_offset df + dh_election_len (df_header df)"

definition departure_offset :: "dat_file \<Rightarrow> u64" where
  "departure_offset df = update_offset df + dh_update_len (df_header df)"

text \<open>The largest size of a vector: \<open>resize\<close> panics beyond \<open>isize::MAX\<close> bytes.\<close>

definition isize_max :: u64 where
  "isize_max = 9223372036854775807"

text \<open>
  The body of one of the seven loops: \<open>ins\<close> parses the bytes of a rumor and inserts it into the
  server. A loop ends when as many bytes as the header says are consumed.
\<close>

function read_section ::
  "'e dat_codec \<Rightarrow> (bytes \<Rightarrow> server \<Rightarrow> ('e + server) option) \<Rightarrow> u64 \<Rightarrow> u64 \<Rightarrow> bytes \<Rightarrow> server \<Rightarrow>
     (server \<times> ('e dat_error + bytes)) option" where
  "read_section C ins len bytes_read rest srv =
     (if len \<le> bytes_read then Some (srv, Inr rest)
      else if length rest < 8 then Some (srv, Inl DatFileIO)
      else
        (let rumor_size = dc_read_u64 C (take 8 rest); rest = drop 8 rest
         in if isize_max < rumor_size then None
            else if length rest < unat rumor_size then Some (srv, Inl DatFileIO)
            else
              (case ins (take (unat rumor_size) rest) srv of
                 None \<Rightarrow> None
               | Some (Inl e) \<Rightarrow> Some (srv, Inl (ProtobufError e))
               | Some (Inr srv) \<Rightarrow>
                   read_section C ins len (bytes_read + (8 + rumor_size)) (drop (unat rumor_size) rest) srv)))"
  by pat_completeness auto
termination
  by (relation "measure (\<lambda>(C, ins, len, bytes_read, rest, srv). length rest)") auto

declare read_section.simps [simp del]

definition read_member :: "'e dat_codec \<Rightarrow> steady_time \<Rightarrow> bytes \<Rightarrow> server \<Rightarrow> ('e + server) option" where
  "read_member C now bytes srv =
     (case dc_parse_membership C bytes of
        Inl e \<Rightarrow> Some (Inl e)
      | Inr proto \<Rightarrow> map_option Inr (insert_member now (ms_member proto) (health_from_proto (ms_health proto)) srv))"

definition read_rumor ::
  "'e dat_codec \<Rightarrow> (proto_rumor \<Rightarrow> server \<Rightarrow> server) \<Rightarrow> bytes \<Rightarrow> server \<Rightarrow> ('e + server) option" where
  "read_rumor C ins bytes srv =
     (case dc_parse_rumor C bytes of Inl e \<Rightarrow> Some (Inl e) | Inr rumor \<Rightarrow> Some (Inr (ins rumor srv)))"

text \<open>The seven sections of a file, in their order: how a rumor is inserted, and the bytes the section takes.\<close>

definition sections ::
  "'e dat_codec \<Rightarrow> steady_time \<Rightarrow> (string \<Rightarrow> u64) \<Rightarrow> 8 word \<Rightarrow> dat_header \<Rightarrow>
     ((bytes \<Rightarrow> server \<Rightarrow> ('e + server) option) \<times> u64) list" where
  "sections C now suitability version h =
     [(read_member C now, dh_member_len h),
      (read_rumor C (insert_service now), dh_service_len h),
      (read_rumor C insert_service_config, dh_service_config_len h),
      (read_rumor C insert_service_file, dh_service_file_len h),
      (read_rumor C (insert_election suitability), dh_election_len h),
      (read_rumor C insert_update_election, dh_update_len h)] @
     (if 2 \<le> version then [(read_rumor C (insert_departure now), dh_departure_len h)] else [])"

fun read_sections ::
  "'e dat_codec \<Rightarrow> ((bytes \<Rightarrow> server \<Rightarrow> ('e + server) option) \<times> u64) list \<Rightarrow> bytes \<Rightarrow> server \<Rightarrow>
     (server \<times> ('e dat_error + unit)) option" where
  "read_sections C [] rest srv = Some (srv, Inr ())"
| "read_sections C ((ins, len) # ss) rest srv =
     (case read_section C ins len 0 rest srv of
        None \<Rightarrow> None
      | Some (srv, Inl e) \<Rightarrow> Some (srv, Inl e)
      | Some (srv, Inr rest) \<Rightarrow> read_sections C ss rest srv)"

text \<open>
  \<open>read_into\<close> on the contents of the file, \<open>None\<close> when it cannot be opened. A seek to an offset
  that is not a valid signed offset fails. \<open>df\<close> is the file with the header that was read.
\<close>

definition read_into ::
  "'e dat_codec \<Rightarrow> steady_time \<Rightarrow> (string \<Rightarrow> u64) \<Rightarrow> bytes option \<Rightarrow> server \<Rightarrow>
     (server \<times> ('e dat_error + unit)) option" where
  "read_into C now suitability contents srv =
     (case contents of
        None \<Rightarrow> Some (srv, Inl DatFileIO)
      | Some bytes \<Rightarrow>
          (case read_exact 1 bytes of
             None \<Rightarrow> Some (srv, Inl DatFileIO)
           | Some (version, rest) \<Rightarrow>
               (case header_from_file C rest (hd version) of
                  None \<Rightarrow> Some (srv, Inl DatFileIO)
                | Some (header_size, header) \<Rightarrow>
                    (let df = (dat_file_new (srv_member_id srv) [])\<lparr>df_header := header, df_header_size := header_size\<rparr>
                     in if isize_max < member_offset df then Some (srv, Inl DatFileIO)
                        else read_sections C (sections C now suitability (hd version) header)
                               (drop (unat (member_offset df)) bytes) srv))))"

section \<open>Writing\<close>

text \<open>
  The outcome of the calls: whether opening, seeking, flushing and renaming succeed, and how many
  of \<open>n\<close> bytes the \<open>k\<close>-th call of \<open>write\<close> accepts, if it succeeds.
\<close>

record dat_io =
  io_open :: bool
  io_accept :: "nat \<Rightarrow> nat \<Rightarrow> nat option"
  io_seek :: bool
  io_flush :: bool
  io_rename :: bool

text \<open>A writer: the bytes so far, the position, and the number of calls.\<close>

record dat_writer =
  dw_bytes :: bytes
  dw_pos :: nat
  dw_calls :: nat

definition writer_write :: "dat_io \<Rightarrow> bytes \<Rightarrow> dat_writer \<Rightarrow> 'e dat_error + nat \<times> dat_writer" where
  "writer_write io bytes w =
     (case io_accept io (dw_calls w) (length bytes) of
        None \<Rightarrow> Inl DatFileIO
      | Some n \<Rightarrow>
          (let n = min n (length bytes); p = dw_pos w
           in Inr (n, \<lparr>dw_bytes = take p (dw_bytes w) @ take n bytes @ drop (p + n) (dw_bytes w),
                       dw_pos = p + n, dw_calls = dw_calls w + 1\<rparr>)))"

definition dat_init :: "dat_io \<Rightarrow> dat_writer \<Rightarrow> 'e dat_error + nat \<times> dat_writer" where
  "dat_init io w =
     (case writer_write io [HEADER_VERSION] w of
        Inl e \<Rightarrow> Inl e
      | Inr (n, w) \<Rightarrow>
          (case writer_write io (replicate (size_of_header + 8) 0) w of
             Inl e \<Rightarrow> Inl e
           | Inr (m, w) \<Rightarrow> Inr (n + m, w)))"

definition write_header :: "'e dat_codec \<Rightarrow> dat_io \<Rightarrow> dat_header \<Rightarrow> dat_writer \<Rightarrow> 'e dat_error + nat \<times> dat_writer" where
  "write_header C io h w = writer_write io (header_write_to_bytes C h) w"

text \<open>\<open>write_member\<close> and \<open>write_rumor\<close>: the length of the encoded message, then the message.\<close>

definition write_bytes ::
  "'e dat_codec \<Rightarrow> dat_io \<Rightarrow> bytes option \<Rightarrow> dat_writer \<Rightarrow> ('e dat_error + u64 \<times> dat_writer) option" where
  "write_bytes C io encoded w =
     (case encoded of
        None \<Rightarrow> None
      | Some bytes \<Rightarrow> Some
          (case writer_write io (dc_write_u64 C (of_nat (length bytes))) w of
             Inl e \<Rightarrow> Inl e
           | Inr (n, w) \<Rightarrow>
               (case writer_write io bytes w of
                  Inl e \<Rightarrow> Inl e
                | Inr (m, w) \<Rightarrow> Inr (of_nat n + of_nat m, w))))"

fun write_each ::
  "'e dat_codec \<Rightarrow> dat_io \<Rightarrow> bytes option list \<Rightarrow> u64 \<Rightarrow> dat_writer \<Rightarrow> ('e dat_error + u64 \<times> dat_writer) option" where
  "write_each C io [] acc w = Some (Inr (acc, w))"
| "write_each C io (encoded # rest) acc w =
     (case write_bytes C io encoded w of
        None \<Rightarrow> None
      | Some (Inl e) \<Rightarrow> Some (Inl e)
      | Some (Inr (n, w)) \<Rightarrow> write_each C io rest (acc + n) w)"

definition write_member_list ::
  "'e dat_codec \<Rightarrow> dat_io \<Rightarrow> member_list \<Rightarrow> dat_writer \<Rightarrow> ('e dat_error + u64 \<times> dat_writer) option" where
  "write_member_list C io ml w =
     write_each C io
       (map (dc_membership C) (List.map_filter (\<lambda>m. membership_for (mb_id m) ml) (hm_values (ml_members ml)))) 0 w"

definition store_rumors :: "'r rumor_store \<Rightarrow> 'r list" where
  "store_rumors s = concat (map hm_values (hm_values (rs_list s)))"

definition write_rumor_store ::
  "'e dat_codec \<Rightarrow> dat_io \<Rightarrow> proto_rumor rumor_store \<Rightarrow> dat_writer \<Rightarrow> ('e dat_error + u64 \<times> dat_writer) option" where
  "write_rumor_store C io s w = write_each C io (map (dc_rumor C) (store_rumors s)) 0 w"

text \<open>The stores one after the other, collecting their sizes.\<close>

fun write_all ::
  "(dat_writer \<Rightarrow> ('e dat_error + u64 \<times> dat_writer) option) list \<Rightarrow> dat_writer \<Rightarrow>
     ('e dat_error + u64 list \<times> dat_writer) option" where
  "write_all [] w = Some (Inr ([], w))"
| "write_all (f # fs) w =
     (case f w of
        None \<Rightarrow> None
      | Some (Inl e) \<Rightarrow> Some (Inl e)
      | Some (Inr (n, w)) \<Rightarrow>
          (case write_all fs w of
             Some (Inr (ns, w)) \<Rightarrow> Some (Inr (n # ns, w))
           | r \<Rightarrow> r))"

definition section_writers ::
  "'e dat_codec \<Rightarrow> dat_io \<Rightarrow> server \<Rightarrow> (dat_writer \<Rightarrow> ('e dat_error + u64 \<times> dat_writer) option) list" where
  "section_writers C io srv =
     [write_member_list C io (srv_member_list srv), write_rumor_store C io (srv_service_store srv),
      write_rumor_store C io (srv_service_config_store srv), write_rumor_store C io (srv_service_file_store srv),
      write_rumor_store C io (srv_election_store srv), write_rumor_store C io (srv_update_store srv),
      write_rumor_store C io (srv_departure_store srv)]"

definition header_of :: "u64 list \<Rightarrow> dat_header" where
  "header_of ns =
     \<lparr>dh_member_len = ns ! 0, dh_service_len = ns ! 1, dh_service_config_len = ns ! 2,
      dh_service_file_len = ns ! 3, dh_election_len = ns ! 4, dh_update_len = ns ! 5, dh_departure_len = ns ! 6\<rparr>"

text \<open>The temporary file after a successful run of the block in \<open>write\<close>.\<close>

definition write_tmp :: "'e dat_codec \<Rightarrow> dat_io \<Rightarrow> server \<Rightarrow> ('e dat_error + bytes) option" where
  "write_tmp C io srv =
     (if \<not> io_open io then Some (Inl DatFileIO)
      else case dat_init io \<lparr>dw_bytes = [], dw_pos = 0, dw_calls = 0\<rparr> of
        Inl e \<Rightarrow> Some (Inl e)
      | Inr (_, w) \<Rightarrow>
          (case write_all (section_writers C io srv) w of
             None \<Rightarrow> None
           | Some (Inl e) \<Rightarrow> Some (Inl e)
           | Some (Inr (ns, w)) \<Rightarrow>
               if \<not> io_seek io then Some (Inl DatFileIO)
               else Some
                 (case write_header C io (header_of ns) (w\<lparr>dw_pos := 1\<rparr>) of
                    Inl e \<Rightarrow> Inl e
                  | Inr (_, w) \<Rightarrow> if io_flush io then Inr (dw_bytes w) else Inl DatFileIO)))"

text \<open>\<open>write\<close>: the result, and the contents of the file afterwards, which only a successful rename changes.\<close>

definition dat_write ::
  "'e dat_codec \<Rightarrow> dat_io \<Rightarrow> server \<Rightarrow> bytes option \<Rightarrow> (('e dat_error + nat) \<times> bytes option) option" where
  "dat_write C io srv contents =
     (case write_tmp C io srv of
        None \<Rightarrow> None
      | Some (Inl e) \<Rightarrow> Some (Inl e, contents)
      | Some (Inr bytes) \<Rightarrow> Some (if io_rename io then (Inr 0, Some bytes) else (Inl DatFileIO, contents)))"

end
