(* ===== verification/Dat_File_Facts.thy ===== *)
theory Dat_File_Facts
  imports Dat_File Server_Facts
begin

text \<open>
  What a server keeps across a restart. The locale \<open>byte_order\<close> is the contract of the byte
  order conversions, interpreted on little-endian bytes. The lemmas follow the writer to the
  bytes of a file and the reader back: a file that was written completely is read back as
  the insertion of all its rumors, and a fresh server that reads it holds the same rumors.
\<close>

section \<open>Byte order\<close>

locale byte_order =
  fixes wr :: "u64 \<Rightarrow> bytes" and rd :: "bytes \<Rightarrow> u64"
  assumes length_write: "length (wr n) = 8" and read_write: "rd (wr n) = n"
begin

lemma field_write:
  assumes "i < length ns"
  shows "rd (take 8 (drop (8 * i) (concat (map wr ns) @ rest))) = ns ! i"
  using assms
proof (induction ns arbitrary: i)
  case (Cons n ns)
  then show ?case by (cases i) (simp_all add: length_write read_write)
qed simp

lemma length_concat_write: "length (concat (map wr ns)) = 8 * length ns"
  by (induction ns) (simp_all add: length_write)

end

fun le_bytes :: "nat \<Rightarrow> int \<Rightarrow> bytes" where
  "le_bytes 0 n = []"
| "le_bytes (Suc k) n = of_int n # le_bytes k (n div 256)"

fun le_value :: "bytes \<Rightarrow> int" where
  "le_value [] = 0"
| "le_value (b # bs) = uint b + 256 * le_value bs"

definition le_write :: "u64 \<Rightarrow> bytes" where
  "le_write n = le_bytes 8 (uint n)"

definition le_read :: "bytes \<Rightarrow> u64" where
  "le_read bs = of_int (le_value bs)"

lemma length_le_bytes [simp]: "length (le_bytes k n) = k"
  by (induction k arbitrary: n) simp_all

lemma le_value_bytes: "le_value (le_bytes k n) = n mod 256 ^ k"
proof (induction k arbitrary: n)
  case (Suc k)
  have "n mod (256 * 256 ^ k) = 256 * (n div 256 mod 256 ^ k) + n mod 256" by (rule zmod_zmult2_eq) simp
  then show ?case by (simp add: Suc uint_word_of_int)
qed simp

interpretation little_endian: byte_order le_write le_read
proof
  fix n :: u64
  have "uint n mod 256 ^ 8 = uint n" using uint_bounded [of n] by simp
  then show "le_read (le_write n) = n" by (simp add: le_read_def le_write_def le_value_bytes)
qed (simp add: le_write_def)

section \<open>The layout of a file\<close>

definition frame :: "'e dat_codec \<Rightarrow> bytes \<Rightarrow> bytes" where
  "frame C b = dc_write_u64 C (of_nat (length b)) @ b"

definition section_bytes :: "'e dat_codec \<Rightarrow> bytes list \<Rightarrow> bytes" where
  "section_bytes C bs = concat (map (frame C) bs)"

definition memberships :: "member_list \<Rightarrow> membership list" where
  "memberships ml = List.map_filter (\<lambda>m. membership_for (mb_id m) ml) (hm_values (ml_members ml))"

text \<open>The messages of the seven sections, in their order, and the encoded ones.\<close>

definition rumor_sections :: "server \<Rightarrow> proto_rumor list list" where
  "rumor_sections srv = map store_rumors
     [srv_service_store srv, srv_service_config_store srv, srv_service_file_store srv, srv_election_store srv,
      srv_update_store srv, srv_departure_store srv]"

definition encoded_sections :: "'e dat_codec \<Rightarrow> server \<Rightarrow> bytes list list" where
  "encoded_sections C srv =
     map (the \<circ> dc_membership C) (memberships (srv_member_list srv)) #
     map (map (the \<circ> dc_rumor C)) (rumor_sections srv)"

definition dat_layout :: "'e dat_codec \<Rightarrow> server \<Rightarrow> bytes" where
  "dat_layout C srv =
     (let ss = map (section_bytes C) (encoded_sections C srv)
      in HEADER_VERSION # header_write_to_bytes C (header_of (map (of_nat \<circ> length) ss)) @ concat ss)"

text \<open>Every message of the server can be encoded, and is decoded as it was.\<close>

definition codec_ok :: "'e dat_codec \<Rightarrow> server \<Rightarrow> bool" where
  "codec_ok C srv \<longleftrightarrow>
     list_all (\<lambda>ms. case dc_membership C ms of Some b \<Rightarrow> dc_parse_membership C b = Inr ms | None \<Rightarrow> False)
       (memberships (srv_member_list srv)) \<and>
     list_all (list_all (\<lambda>r. case dc_rumor C r of Some b \<Rightarrow> dc_parse_rumor C b = Inr r | None \<Rightarrow> False))
       (rumor_sections srv)"

text \<open>All calls succeed, and \<open>write\<close> accepts everything.\<close>

definition reliable :: "dat_io \<Rightarrow> bool" where
  "reliable io \<longleftrightarrow> io_open io \<and> io_seek io \<and> io_flush io \<and> io_rename io \<and> (\<forall>k n. io_accept io k n = Some n)"

section \<open>What the writer writes\<close>

definition at_end :: "dat_writer \<Rightarrow> bool" where
  "at_end w \<longleftrightarrow> dw_pos w = length (dw_bytes w)"

lemma writer_append:
  assumes "reliable io" and "at_end w"
  obtains w' where "writer_write io bytes w = Inr (length bytes, w')" "at_end w'" "dw_bytes w' = dw_bytes w @ bytes"
  using assms by (auto simp: writer_write_def reliable_def at_end_def Let_def)

lemma write_bytes_frame:
  fixes C :: "'e dat_codec"
  assumes "reliable io" and "at_end w" and "byte_order (dc_write_u64 C) (dc_read_u64 C)"
  obtains w' where "write_bytes C io (Some b) w = Some (Inr (of_nat (length (frame C b)), w'))" "at_end w'"
    "dw_bytes w' = dw_bytes w @ frame C b"
proof -
  let ?len = "dc_write_u64 C (of_nat (length b))"
  obtain w1 where w1: "(writer_write io ?len w :: 'e dat_error + nat \<times> dat_writer) = Inr (length ?len, w1)" "at_end w1" "dw_bytes w1 = dw_bytes w @ ?len"
    by (rule writer_append [OF assms(1, 2)])
  obtain w2 where w2: "(writer_write io b w1 :: 'e dat_error + nat \<times> dat_writer) = Inr (length b, w2)" "at_end w2" "dw_bytes w2 = dw_bytes w1 @ b"
    by (rule writer_append [OF assms(1) w1(2)])
  show ?thesis using w1 w2 byte_order.length_write [OF assms(3)]
    by (intro that [of w2]) (simp_all add: write_bytes_def frame_def)
qed

lemma write_each_section:
  assumes "reliable io" and "at_end w" and "byte_order (dc_write_u64 C) (dc_read_u64 C)"
  shows "\<exists>w'. write_each C io (map Some bs) acc w = Some (Inr (acc + of_nat (length (section_bytes C bs)), w')) \<and>
    at_end w' \<and> dw_bytes w' = dw_bytes w @ section_bytes C bs"
  using assms(2)
proof (induction bs arbitrary: acc w)
  case (Cons b bs)
  obtain w1 where w1: "write_bytes C io (Some b) w = Some (Inr (of_nat (length (frame C b)), w1))" "at_end w1"
    "dw_bytes w1 = dw_bytes w @ frame C b"
    by (rule write_bytes_frame [OF assms(1) Cons.prems assms(3)])
  from Cons.IH [OF w1(2), of "acc + of_nat (length (frame C b))"] w1 show ?case
    by (auto simp: section_bytes_def)
qed (simp add: section_bytes_def)

text \<open>A writer of one section appends the section and returns its length.\<close>

definition writes :: "'e dat_codec \<Rightarrow> bytes list \<Rightarrow> (dat_writer \<Rightarrow> ('e dat_error + u64 \<times> dat_writer) option) \<Rightarrow> bool" where
  "writes C bs f \<longleftrightarrow> (\<forall>w. at_end w \<longrightarrow>
     (\<exists>w'. f w = Some (Inr (of_nat (length (section_bytes C bs)), w')) \<and> at_end w' \<and>
       dw_bytes w' = dw_bytes w @ section_bytes C bs))"

lemma writes_section:
  assumes "reliable io" and "byte_order (dc_write_u64 C) (dc_read_u64 C)"
  shows "writes C bs (write_each C io (map Some bs) 0)"
  using write_each_section [OF assms(1) _ assms(2), of _ bs 0] by (simp add: writes_def)

lemma write_all_sections:
  assumes "list_all2 (writes C) bss fs" and "at_end w"
  shows "\<exists>w'. write_all fs w = Some (Inr (map (of_nat \<circ> length \<circ> section_bytes C) bss, w')) \<and> at_end w' \<and>
    dw_bytes w' = dw_bytes w @ concat (map (section_bytes C) bss)"
  using assms
proof (induction arbitrary: w rule: list_all2_induct)
  case (Cons bs bss f fs)
  then obtain w1 where w1: "f w = Some (Inr (of_nat (length (section_bytes C bs)), w1))" "at_end w1"
    "dw_bytes w1 = dw_bytes w @ section_bytes C bs"
    by (auto simp: writes_def)
  from Cons.IH [OF w1(2)] w1 show ?case by auto
qed simp

lemma write_member_list_each:
  "write_member_list C io ml = write_each C io (map (dc_membership C) (memberships ml)) 0"
  by (simp add: fun_eq_iff write_member_list_def memberships_def)

lemma write_rumor_store_each: "write_rumor_store C io s = write_each C io (map (dc_rumor C) (store_rumors s)) 0"
  by (simp add: fun_eq_iff write_rumor_store_def)

lemma section_writers_write:
  assumes "reliable io" and "byte_order (dc_write_u64 C) (dc_read_u64 C)" and "codec_ok C srv"
  shows "list_all2 (writes C) (encoded_sections C srv) (section_writers C io srv)"
proof -
  have rumors: "writes C (map (the \<circ> dc_rumor C) (store_rumors s)) (write_rumor_store C io s)"
    if "store_rumors s \<in> set (rumor_sections srv)" for s
  proof -
    have "map (dc_rumor C) (store_rumors s) = map Some (map (the \<circ> dc_rumor C) (store_rumors s))"
      using assms(3) that by (auto simp: codec_ok_def list_all_iff split: option.splits)
    with writes_section [OF assms(1, 2), of "map (the \<circ> dc_rumor C) (store_rumors s)"]
    show ?thesis by (simp only: write_rumor_store_each)
  qed
  have "map (dc_membership C) (memberships (srv_member_list srv)) =
      map Some (map (the \<circ> dc_membership C) (memberships (srv_member_list srv)))"
    using assms(3) by (auto simp: codec_ok_def list_all_iff split: option.splits)
  with writes_section [OF assms(1, 2), of "map (the \<circ> dc_membership C) (memberships (srv_member_list srv))"]
  have "writes C (map (the \<circ> dc_membership C) (memberships (srv_member_list srv)))
      (write_member_list C io (srv_member_list srv))"
    by (simp only: write_member_list_each)
  with rumors show ?thesis by (simp add: encoded_sections_def section_writers_def rumor_sections_def)
qed

lemma dat_write_layout:
  fixes C :: "'e dat_codec"
  assumes "reliable io" and "byte_order (dc_write_u64 C) (dc_read_u64 C)" and "codec_ok C srv"
  shows "dat_write C io srv contents = Some (Inr 0, Some (dat_layout C srv))"
proof -
  let ?ss = "map (section_bytes C) (encoded_sections C srv)" and ?zeros = "replicate (size_of_header + 8) (0 :: 8 word)"
  let ?h = "header_of (map (of_nat \<circ> length) ?ss)"
  let ?w = "\<lparr>dw_bytes = [], dw_pos = 0, dw_calls = 0\<rparr>"
  have "at_end ?w" by (simp add: at_end_def)
  then obtain w1 where w1: "(writer_write io [HEADER_VERSION] ?w :: 'e dat_error + nat \<times> dat_writer) = Inr (length [HEADER_VERSION], w1)"
    "at_end w1" "dw_bytes w1 = dw_bytes ?w @ [HEADER_VERSION]"
    by (rule writer_append [OF assms(1)])
  obtain w2 where w2: "(writer_write io ?zeros w1 :: 'e dat_error + nat \<times> dat_writer) = Inr (length ?zeros, w2)" "at_end w2" "dw_bytes w2 = dw_bytes w1 @ ?zeros"
    by (rule writer_append [OF assms(1) w1(2)])
  obtain w3 where w3: "write_all (section_writers C io srv) w2 = Some (Inr (map (of_nat \<circ> length \<circ> section_bytes C) (encoded_sections C srv), w3))"
    "dw_bytes w3 = dw_bytes w2 @ concat ?ss"
    using write_all_sections [OF section_writers_write [OF assms] w2(2)] by blast
  have w3_bytes: "dw_bytes w3 = HEADER_VERSION # ?zeros @ concat ?ss" by (simp add: w3(2) w2(3) w1(3))
  have ns: "map (of_nat \<circ> length \<circ> section_bytes C) (encoded_sections C srv) = map (of_nat \<circ> length) ?ss" by simp
  have len: "length (header_write_to_bytes C ?h) = length ?zeros"
    unfolding header_write_to_bytes_def byte_order.length_concat_write [OF assms(2)] by (simp add: size_of_header_def)
  have "\<exists>w4. write_header C io ?h (w3\<lparr>dw_pos := 1\<rparr>) = Inr (length ?zeros, w4) \<and>
      dw_bytes w4 = HEADER_VERSION # header_write_to_bytes C ?h @ concat ?ss"
    using assms(1) len unfolding write_header_def writer_write_def reliable_def Let_def by (simp add: w3_bytes drop_Cons')
  then obtain w4 where w4: "write_header C io ?h (w3\<lparr>dw_pos := 1\<rparr>) = Inr (length ?zeros, w4)"
    "dw_bytes w4 = dat_layout C srv" unfolding dat_layout_def Let_def by blast
  have "(dat_init io ?w :: 'e dat_error + nat \<times> dat_writer) = Inr (length [HEADER_VERSION] + length ?zeros, w2)"
    unfolding dat_init_def w1(1) sum.case prod.case w2(1) ..
  then have "write_tmp C io srv = Some (Inr (dat_layout C srv))"
    using assms(1) unfolding write_tmp_def reliable_def by (simp only: w3(1) ns w4 sum.case prod.case option.case if_False if_True simp_thms)
  then show ?thesis using assms(1) by (simp add: dat_write_def reliable_def)
qed


section \<open>What the reader reads\<close>

definition replay :: "(bytes \<Rightarrow> server \<Rightarrow> ('e + server) option) \<Rightarrow> bytes list \<Rightarrow> server \<Rightarrow> server option" where
  "replay ins bs srv = fold_opt (\<lambda>b s. case ins b s of Some (Inr s') \<Rightarrow> Some s' | _ \<Rightarrow> None) bs srv"

lemma length_section_Cons:
  "byte_order (dc_write_u64 C) (dc_read_u64 C) \<Longrightarrow>
   length (section_bytes C (b # bs)) = 8 + length b + length (section_bytes C bs)"
  by (simp add: section_bytes_def frame_def byte_order.length_write)

lemma read_section_frames:
  assumes "byte_order (dc_write_u64 C) (dc_read_u64 C)" and "len \<le> unat isize_max"
    and "k + length (section_bytes C bs) = len" and "replay ins bs srv = Some srv'"
  shows "read_section C ins (of_nat len) (of_nat k) (section_bytes C bs @ rest) srv = Some (srv', Inr rest)"
  using assms(3, 4)
proof (induction bs arbitrary: k srv)
  case Nil
  then show ?case by (simp add: read_section.simps [of C ins] section_bytes_def replay_def)
next
  case (Cons b bs)
  note order = byte_order.length_write [OF assms(1)] byte_order.read_write [OF assms(1)]
  have len: "k + 8 + length b + length (section_bytes C bs) = len"
    using Cons.prems(1) length_section_Cons [OF assms(1)] by simp
  have big: "len < 2 ^ 64" using assms(2) by (simp add: isize_max_def)
  have b: "unat (of_nat (length b) :: u64) = length b" "\<not> isize_max < of_nat (length b)"
    using len big assms(2) by (simp_all add: unat_of_nat word_less_nat_alt)
  have less: "\<not> (of_nat len :: u64) \<le> of_nat k"
    using len big by (simp add: word_le_nat_alt unat_of_nat)
  obtain srv1 where srv1: "ins b srv = Some (Inr srv1)" "replay ins bs srv1 = Some srv'"
    using Cons.prems(2) by (auto simp: replay_def bind_eq_Some_conv split: option.splits sum.splits)
  have bytes: "section_bytes C (b # bs) @ rest = dc_write_u64 C (of_nat (length b)) @ b @ section_bytes C bs @ rest"
    by (simp add: section_bytes_def frame_def)
  have "read_section C ins (of_nat len) (of_nat k) (section_bytes C (b # bs) @ rest) srv =
      read_section C ins (of_nat len) (of_nat (k + 8 + length b)) (section_bytes C bs @ rest) srv1"
    unfolding bytes using less b srv1(1)
    by (subst read_section.simps) (simp add: order Let_def add.assoc)
  with Cons.IH [OF len srv1(2)] show ?case by simp
qed

lemma read_sections_frames:
  assumes "byte_order (dc_write_u64 C) (dc_read_u64 C)"
    and "length (concat (map (section_bytes C \<circ> snd) ps)) \<le> unat isize_max"
    and "fold_opt (\<lambda>(ins, bs). replay ins bs) ps srv = Some srv'"
  shows "read_sections C (map (\<lambda>(ins, bs). (ins, of_nat (length (section_bytes C bs)))) ps)
    (concat (map (section_bytes C \<circ> snd) ps)) srv = Some (srv', Inr ())"
  using assms(2, 3)
proof (induction ps arbitrary: srv)
  case (Cons p ps)
  obtain ins bs where p: "p = (ins, bs)" by (cases p)
  with Cons.prems(2) obtain srv1 where srv1: "replay ins bs srv = Some srv1" "fold_opt (\<lambda>(ins, bs). replay ins bs) ps srv1 = Some srv'"
    by (auto simp: bind_eq_Some_conv)
  have "read_section C ins (of_nat (length (section_bytes C bs))) (of_nat 0)
      (section_bytes C bs @ concat (map (section_bytes C \<circ> snd) ps)) srv =
      Some (srv1, Inr (concat (map (section_bytes C \<circ> snd) ps)))"
    by (rule read_section_frames [OF assms(1) _ _ srv1(1)]) (use Cons.prems(1) p in simp_all)
  with Cons.IH [OF _ srv1(2)] Cons.prems(1) show ?case by (simp add: p comp_def)
qed simp

lemma header_roundtrip_bytes:
  assumes "byte_order (dc_write_u64 C) (dc_read_u64 C)" and "version \<noteq> 1"
  shows "header_from_bytes C (header_write_to_bytes C h) version = (64, h)"
proof -
  let ?ns = "[of_nat (size_of_header + 8), dh_member_len h, dh_service_len h, dh_service_config_len h,
        dh_service_file_len h, dh_election_len h, dh_update_len h, dh_departure_len h]"
  have "field C i (header_write_to_bytes C h) = ?ns ! i" if "i < 8" for i
    using byte_order.field_write [OF assms(1), of i ?ns "[]"] that
    unfolding field_def header_write_to_bytes_def append_Nil2 by simp
  from this [of 0] this [of 1] this [of 2] this [of 3] this [of 4] this [of 5] this [of 6] this [of 7] assms(2)
  show ?thesis by (simp add: header_from_bytes_def size_of_header_def)
qed

text \<open>The insertion of all rumors of \<open>srv\<close> into \<open>s\<close>, section by section.\<close>

definition restore_members :: "steady_time \<Rightarrow> server \<Rightarrow> server \<Rightarrow> server option" where
  "restore_members now srv s =
     fold_opt (\<lambda>ms. insert_member now (ms_member ms) (health_from_proto (ms_health ms))) (memberships (srv_member_list srv)) s"

definition restore_rumors :: "steady_time \<Rightarrow> (string \<Rightarrow> u64) \<Rightarrow> server \<Rightarrow> server \<Rightarrow> server" where
  "restore_rumors now suitability srv s =
     (let s = fold (insert_service now) (store_rumors (srv_service_store srv)) s;
          s = fold insert_service_config (store_rumors (srv_service_config_store srv)) s;
          s = fold insert_service_file (store_rumors (srv_service_file_store srv)) s;
          s = fold (insert_election suitability) (store_rumors (srv_election_store srv)) s;
          s = fold insert_update_election (store_rumors (srv_update_store srv)) s
      in fold (insert_departure now) (store_rumors (srv_departure_store srv)) s)"

lemma restore_members_total:
  "server_inv s \<Longrightarrow> \<exists>s'. restore_members now srv s = Some s' \<and> server_inv s'"
  unfolding restore_members_def by (rule fold_opt_invariant [where P = server_inv]) (auto simp: insert_member_total)

lemma restore_rumors_inv: "server_inv s \<Longrightarrow> server_inv (restore_rumors now suitability srv s)"
  unfolding restore_rumors_def Let_def insert_election_def insert_update_election_def
  by (intro server_inv_fold server_inv_intro)

lemma replay_members:
  "list_all (\<lambda>ms. case dc_membership C ms of Some b \<Rightarrow> dc_parse_membership C b = Inr ms | None \<Rightarrow> False) mss \<Longrightarrow>
   replay (read_member C now) (map (the \<circ> dc_membership C) mss) s =
     fold_opt (\<lambda>ms. insert_member now (ms_member ms) (health_from_proto (ms_health ms))) mss s"
proof (induction mss arbitrary: s)
  case (Cons ms mss)
  then show ?case
    by (cases "insert_member now (ms_member ms) (health_from_proto (ms_health ms)) s")
      (auto simp: replay_def read_member_def split: option.splits)
qed (simp add: replay_def)

lemma replay_rumors:
  "list_all (\<lambda>r. case dc_rumor C r of Some b \<Rightarrow> dc_parse_rumor C b = Inr r | None \<Rightarrow> False) rs \<Longrightarrow>
   replay (read_rumor C ins) (map (the \<circ> dc_rumor C) rs) s = Some (fold ins rs s)"
  by (induction rs arbitrary: s) (auto simp: replay_def read_rumor_def split: option.splits)


lemma read_into_layout:
  assumes order: "byte_order (dc_write_u64 C) (dc_read_u64 C)" and codec: "codec_ok C srv"
    and small: "length (dat_layout C srv) \<le> unat isize_max" and members: "restore_members now srv s = Some s1"
  shows "read_into C now suitability (Some (dat_layout C srv)) s = Some (restore_rumors now suitability srv s1, Inr ())"
proof -
  let ?ss = "map (section_bytes C) (encoded_sections C srv)"
  let ?h = "header_of (map (of_nat \<circ> length) ?ss)"
  let ?readers = "[read_member C now, read_rumor C (insert_service now), read_rumor C insert_service_config,
    read_rumor C insert_service_file, read_rumor C (insert_election suitability), read_rumor C insert_update_election,
    read_rumor C (insert_departure now)]"
  let ?ps = "zip ?readers (encoded_sections C srv)"
  have hlen: "length (header_write_to_bytes C h) = 64" for h
    unfolding header_write_to_bytes_def byte_order.length_concat_write [OF order] by simp
  have layout: "dat_layout C srv = HEADER_VERSION # header_write_to_bytes C ?h @ concat ?ss"
    by (simp only: dat_layout_def Let_def)
  have sections: "sections C now suitability HEADER_VERSION ?h =
      map (\<lambda>(ins, bs). (ins, of_nat (length (section_bytes C bs)))) ?ps"
    by (simp add: sections_def HEADER_VERSION_def header_of_def encoded_sections_def rumor_sections_def)
  have bytes: "concat (map (section_bytes C \<circ> snd) ?ps) = concat ?ss"
    by (simp add: encoded_sections_def rumor_sections_def)
  have "replay (read_rumor C ins) (map (the \<circ> dc_rumor C) (store_rumors st)) t = Some (fold ins (store_rumors st) t)"
    if "store_rumors st \<in> set (rumor_sections srv)" for st ins t
    by (rule replay_rumors) (use codec that in \<open>auto simp: codec_ok_def list_all_iff\<close>)
  moreover have "replay (read_member C now) (map (the \<circ> dc_membership C) (memberships (srv_member_list srv))) s = Some s1"
    using codec members by (simp add: codec_ok_def replay_members restore_members_def)
  ultimately have "fold_opt (\<lambda>(ins, bs). replay ins bs) ?ps s = Some (restore_rumors now suitability srv s1)"
    by (simp add: encoded_sections_def rumor_sections_def restore_rumors_def Let_def)
  moreover have "length (concat (map (section_bytes C \<circ> snd) ?ps)) \<le> unat isize_max"
    unfolding bytes using small by (simp add: layout)
  ultimately have "read_sections C (sections C now suitability HEADER_VERSION ?h) (concat ?ss) s =
      Some (restore_rumors now suitability srv s1, Inr ())"
    unfolding sections bytes [symmetric] by (intro read_sections_frames [OF order])
  moreover have "header_from_file C (header_write_to_bytes C ?h @ concat ?ss) HEADER_VERSION = Some (64, ?h)"
    using header_roundtrip_bytes [OF order, of HEADER_VERSION ?h] hlen
    by (simp add: header_from_file_def read_exact_def HEADER_VERSION_def size_of_header_def)
  moreover have "drop 65 (dat_layout C srv) = concat ?ss" unfolding layout by (simp add: hlen)
  ultimately show ?thesis
    unfolding read_into_def by (simp add: read_exact_def layout member_offset_def isize_max_def)
qed


section \<open>What a fresh server holds afterwards\<close>

definition rumor_stores ::
  "server \<Rightarrow> proto_rumor rumor_store \<times> proto_rumor rumor_store \<times> proto_rumor rumor_store \<times> proto_rumor rumor_store" where
  "rumor_stores s = (srv_service_store s, srv_service_config_store s, srv_service_file_store s, srv_departure_store s)"

lemma rumor_stores_depart_member [simp]: "rumor_stores (depart_member now k s) = rumor_stores s"
  by (simp add: rumor_stores_def depart_member_def case_prod_beta Let_def)

lemma rumor_stores_start_hot [simp]: "rumor_stores (start_hot rk s) = rumor_stores s"
  by (simp add: rumor_stores_def start_hot_def)

lemma rumor_stores_insert_member: "insert_member now m h s = Some s' \<Longrightarrow> rumor_stores s' = rumor_stores s"
  by (auto simp: insert_member_def Let_def bind_eq_Some_conv rumor_stores_def split: if_splits)

lemma rumor_stores_insert_service:
  "rumor_stores (insert_service now r s) = apfst (\<lambda>st. fst (rs_insert service_ops r st)) (rumor_stores s)"
proof -
  have "rumor_stores (fold (\<lambda>x. depart_member now (f x)) xs s) = rumor_stores s" for f :: "proto_rumor \<Rightarrow> string" and xs
    by (rule fold_keeps) simp
  then show ?thesis
    by (auto simp: insert_service_def Let_def case_prod_beta rumor_stores_def)
qed

lemma rumor_stores_insert_config:
  "rumor_stores (insert_service_config r s) = apsnd (apfst (\<lambda>st. fst (rs_insert service_config_ops r st))) (rumor_stores s)"
  by (auto simp: insert_service_config_def Let_def case_prod_beta rumor_stores_def)

lemma rumor_stores_insert_file:
  "rumor_stores (insert_service_file r s) =
     apsnd (apsnd (apfst (\<lambda>st. fst (rs_insert service_file_ops r st)))) (rumor_stores s)"
  by (auto simp: insert_service_file_def Let_def case_prod_beta rumor_stores_def)

lemma rumor_stores_insert_departure:
  "rumor_stores (insert_departure now r s) =
     apsnd (apsnd (apsnd (\<lambda>st. fst (rs_insert departure_ops r st)))) (rumor_stores s)"
proof -
  have "rumor_stores (depart_member now k (s\<lparr>srv_departed := b\<rparr>)) = rumor_stores s" for k b
    by simp (simp add: rumor_stores_def)
  then show ?thesis
    using rumor_stores_depart_member [of now "dp_member_id (get_departure r)" s]
    by (auto simp: insert_departure_def Let_def case_prod_beta rumor_stores_def)
qed

lemma insert_election_keeps:
  "rumor_stores (insert_election_kind kind suitability e s) = rumor_stores s"
  "srv_member_list (insert_election_kind kind suitability e s) = srv_member_list s"
proof -
  define keep where "keep s = (rumor_stores s, srv_member_list s)" for s
  have hot: "keep (start_hot rk s) = keep s" for rk s by (simp add: keep_def)
  have set: "keep (set_el_store kind st s) = keep s" for st s
    by (cases kind) (simp_all add: rumor_stores_def keep_def)
  then have start: "keep (start_election_kind kind sg suit trm s) = keep s" for sg suit trm s
    by (simp add: start_election_kind_def Let_def hot)
  have store: "keep (store_election kind rk e s) = keep s" for rk e s
    using set by (simp add: store_election_def Let_def case_prod_beta hot)
  from set start have "join_election kind suitability e s = Inl s' \<Longrightarrow> keep s' = keep s"
    "join_election kind suitability e s = Inr (s', e') \<Longrightarrow> keep s' = keep s" for s' e'
    by (auto simp: join_election_def Let_def split: if_splits sum.splits)
  with store have "keep (insert_election_kind kind suitability e s) = keep s"
    by (auto simp: insert_election_kind_def Let_def split: sum.splits)
  then show "rumor_stores (insert_election_kind kind suitability e s) = rumor_stores s"
    "srv_member_list (insert_election_kind kind suitability e s) = srv_member_list s" by (simp_all add: keep_def)
qed

text \<open>Inserting rumors one by one into one of the four stores.\<close>

definition put_each :: "'r rumor_ops \<Rightarrow> 'r list \<Rightarrow> 'r rumor_store \<Rightarrow> 'r rumor_store" where
  "put_each R rs s = fold (\<lambda>r s. fst (rs_insert R r s)) rs s"

lemma put_each_simps: "put_each R [] = id" "put_each R (r # rs) = put_each R rs \<circ> (\<lambda>s. fst (rs_insert R r s))"
  by (simp_all add: put_each_def fun_eq_iff)

lemma rumor_stores_fold:
  "rumor_stores (fold (insert_service now) rs s) = apfst (put_each service_ops rs) (rumor_stores s)"
  "rumor_stores (fold insert_service_config rs s) = apsnd (apfst (put_each service_config_ops rs)) (rumor_stores s)"
  "rumor_stores (fold insert_service_file rs s) = apsnd (apsnd (apfst (put_each service_file_ops rs))) (rumor_stores s)"
  "rumor_stores (fold (insert_departure now) rs s) = apsnd (apsnd (apsnd (put_each departure_ops rs))) (rumor_stores s)"
  "rumor_stores (fold (insert_election_kind kind suitability) rs s) = rumor_stores s"
  by (induction rs arbitrary: s)
    (simp_all add: put_each_simps rumor_stores_insert_service rumor_stores_insert_config rumor_stores_insert_file
      rumor_stores_insert_departure insert_election_keeps(1) apfst_compose apsnd_compose comp_def)

lemma rumor_stores_restore:
  "rumor_stores (restore_rumors now suitability srv s) =
     (put_each service_ops (store_rumors (srv_service_store srv)) (srv_service_store s),
      put_each service_config_ops (store_rumors (srv_service_config_store srv)) (srv_service_config_store s),
      put_each service_file_ops (store_rumors (srv_service_file_store srv)) (srv_service_file_store s),
      put_each departure_ops (store_rumors (srv_departure_store srv)) (srv_departure_store s))"
  unfolding restore_rumors_def Let_def insert_election_def insert_update_election_def rumor_stores_fold
  by (simp add: rumor_stores_def)

context versioned_rumor
begin

lemma with_rumor_put_each:
  assumes "\<forall>a \<in> set rs. \<forall>b \<in> set rs. rs_file R a = rs_file R b \<longrightarrow> a = b"
    and "\<forall>a \<in> set rs. \<forall>e. with_rumor s (r_key R a) (r_id R a) = Some e \<longrightarrow> e = a"
  shows "with_rumor (put_each R rs s) k i = Some r \<longleftrightarrow>
    r \<in> set rs \<and> rs_file R r = (k, i) \<or> with_rumor s k i = Some r"
  using assms
proof (induction rs arbitrary: s)
  case (Cons a rs)
  let ?s = "fst (rs_insert R a s)"
  have "r_merge R a a = (a, False)" by (simp add: merge_max)
  then have ins: "with_rumor ?s k i = (if k = r_key R a \<and> i = r_id R a then Some a else with_rumor s k i)" for k i
    using Cons.prems(2) by (auto simp: with_rumor_insert split: option.split)
  have "with_rumor (put_each R rs ?s) k i = Some r \<longleftrightarrow>
      r \<in> set rs \<and> rs_file R r = (k, i) \<or> with_rumor ?s k i = Some r"
    using Cons.prems by (intro Cons.IH) (auto simp: ins rs_file_def)
  moreover have "put_each R (a # rs) s = put_each R rs ?s" by (simp add: put_each_def)
  ultimately show ?case using Cons.prems(2) by (auto simp: ins rs_file_def)
qed (simp add: put_each_def)

end


lemma store_rumors_iff:
  assumes "rs_inv R s"
  shows "r \<in> set (store_rumors s) \<longleftrightarrow> with_rumor s (r_key R r) (r_id R r) = Some r"
proof
  assume "r \<in> set (store_rumors s)"
  then obtain rumors where rumors: "rumors \<in> set (hm_values (rs_list s))" "r \<in> set (hm_values rumors)"
    by (auto simp: store_rumors_def)
  then obtain k i where "hm_get (rs_list s) k = Some rumors" "hm_get rumors i = Some r"
    using assms unfolding rs_inv_iff by (metis hm_values_iff)
  then have "with_rumor s k i = Some r" by (simp add: with_rumor_def)
  with rs_inv_lookup [OF assms this] show "with_rumor s (r_key R r) (r_id R r) = Some r" by simp
next
  assume "with_rumor s (r_key R r) (r_id R r) = Some r"
  then obtain rumors where "hm_get (rs_list s) (r_key R r) = Some rumors" "hm_get rumors (r_id R r) = Some r"
    by (auto simp: with_rumor_def bind_eq_Some_conv)
  then show "r \<in> set (store_rumors s)"
    by (force simp: store_rumors_def hm_values_def dest!: hm_get_mem)
qed

context versioned_rumor
begin

lemma with_rumor_refilled:
  assumes "rs_inv R s"
  shows "with_rumor (put_each R (store_rumors s) rs_default) = with_rumor s"
proof (intro ext)
  fix k i
  have "with_rumor (put_each R (store_rumors s) rs_default) k i = Some r \<longleftrightarrow> with_rumor s k i = Some r" for r
  proof -
    have "with_rumor (rs_default :: 'r rumor_store) k i = None" for k i by (simp add: with_rumor_def rs_default_def)
    moreover have "\<forall>a \<in> set (store_rumors s). \<forall>b \<in> set (store_rumors s). rs_file R a = rs_file R b \<longrightarrow> a = b"
      by (auto simp: store_rumors_iff [OF assms] rs_file_def)
    ultimately have "with_rumor (put_each R (store_rumors s) rs_default) k i = Some r \<longleftrightarrow>
        r \<in> set (store_rumors s) \<and> rs_file R r = (k, i)"
      by (subst with_rumor_put_each) simp_all
    then show ?thesis
      using rs_inv_lookup [OF assms, of k i r] by (auto simp: store_rumors_iff [OF assms] rs_file_def)
  qed
  then show "with_rumor (put_each R (store_rumors s) rs_default) k i = with_rumor s k i"
    by (metis option.exhaust)
qed

end

section \<open>Membership across a restart\<close>

definition ms_version :: "membership \<Rightarrow> u64 \<times> health" where
  "ms_version ms = (mb_incarnation (ms_member ms), health_from_proto (ms_health ms))"

lemma insert_member_view:
  assumes "server_inv s" and "insert_member now m h s = Some s'"
  shows "ml_view (srv_member_list s') k =
    (if k = mb_id m then max (ml_view (srv_member_list s) k) (Some (mb_incarnation m, h)) else ml_view (srv_member_list s) k)"
proof (rule ml_insert_spec [OF server_inv_parts(1) [OF assms(1)], of now m h])
  fix ml'
  assume ml': "ml_insert now m h (srv_member_list s) = Some (ml', ml_view (srv_member_list s) (mb_id m) < Some (mb_incarnation m, h))"
    and view: "\<And>k. ml_view ml' k = (if k = mb_id m then max (ml_view (srv_member_list s) k) (Some (mb_incarnation m, h))
      else ml_view (srv_member_list s) k)"
  from assms(2) ml' have "srv_member_list s' = ml'"
    by (auto simp: insert_member_def Let_def start_hot_def split: if_splits)
  then show ?thesis by (simp add: view)
qed

lemma insert_members_view:
  assumes "server_inv s" and "\<forall>ms \<in> set mss. V (mb_id (ms_member ms)) = Some (ms_version ms)"
    and "\<forall>k. ml_view (srv_member_list s) k \<in> {None, V k}"
    and "fold_opt (\<lambda>ms. insert_member now (ms_member ms) (health_from_proto (ms_health ms))) mss s = Some s'"
  shows "ml_view (srv_member_list s') k =
    (if k \<in> (mb_id \<circ> ms_member) ` set mss then V k else ml_view (srv_member_list s) k)"
  using assms
proof (induction mss arbitrary: s)
  case (Cons ms mss)
  let ?m = "ms_member ms" and ?h = "health_from_proto (ms_health ms)"
  from Cons.prems(4) obtain s1 where s1: "insert_member now ?m ?h s = Some s1"
    "fold_opt (\<lambda>ms. insert_member now (ms_member ms) (health_from_proto (ms_health ms))) mss s1 = Some s'"
    by (auto simp: bind_eq_Some_conv)
  have inv1: "server_inv s1" using insert_member_total [OF Cons.prems(1), of now ?m ?h] s1(1) by auto
  have "V (mb_id ?m) = Some (mb_incarnation ?m, ?h)" using Cons.prems(2) by (simp add: ms_version_def)
  then have view: "ml_view (srv_member_list s1) j = (if j = mb_id ?m then V j else ml_view (srv_member_list s) j)" for j
    using insert_member_view [OF Cons.prems(1) s1(1), of j] spec [OF Cons.prems(3), of "mb_id ?m"] by (auto simp: max_def)
  have "ml_view (srv_member_list s') k =
      (if k \<in> (mb_id \<circ> ms_member) ` set mss then V k else ml_view (srv_member_list s1) k)"
    by (rule Cons.IH [OF inv1 _ _ s1(2)]) (use Cons.prems(2, 3) view in auto)
  then show ?case by (auto simp: view)
qed simp

lemma memberships_view:
  assumes "ml_inv ml"
  shows "\<forall>ms \<in> set (memberships ml). ml_view ml (mb_id (ms_member ms)) = Some (ms_version ms)"
    and "(mb_id \<circ> ms_member) ` set (memberships ml) = {k. ml_view ml k \<noteq> None}"
proof -
  have health: "health_from_proto (proto_from_health h) = h" for h by (cases h) simp_all
  have mem: "ms \<in> set (memberships ml) \<longleftrightarrow>
      (\<exists>m h. hm_get (ml_members ml) (mb_id m) = Some m \<and> hm_get (ml_health ml) (mb_id m) = Some h \<and>
        ms = \<lparr>ms_member = m, ms_health = proto_from_health h\<rparr>)" for ms
  proof -
    have "m \<in> set (hm_values (ml_members ml)) \<longleftrightarrow> hm_get (ml_members ml) (mb_id m) = Some m" for m
      using assms by (auto simp: ml_inv_iff hm_values_iff)
    moreover have "ms \<in> set (List.map_filter f xs) \<longleftrightarrow> (\<exists>m \<in> set xs. f m = Some ms)" for f :: "member \<Rightarrow> membership option" and xs
      by (force simp: map_filter_def)
    ultimately have "ms \<in> set (memberships ml) \<longleftrightarrow>
        (\<exists>m. hm_get (ml_members ml) (mb_id m) = Some m \<and> membership_for (mb_id m) ml = Some ms)"
      unfolding memberships_def Bex_def by simp
    moreover have "membership_for k ml = Some ms \<longleftrightarrow>
        (\<exists>h. hm_get (ml_health ml) k = Some h \<and> ms = \<lparr>ms_member = m, ms_health = proto_from_health h\<rparr>)"
      if "hm_get (ml_members ml) k = Some m" for k m
      using that by (auto simp: membership_for_def split: option.split)
    ultimately show ?thesis by metis
  qed
  show "\<forall>ms \<in> set (memberships ml). ml_view ml (mb_id (ms_member ms)) = Some (ms_version ms)"
    by (auto simp: mem ml_view_def ms_version_def health)
  have "k \<in> (mb_id \<circ> ms_member) ` set (memberships ml)" if view: "ml_view ml k \<noteq> None" for k
  proof -
    from view obtain m h where mh: "hm_get (ml_members ml) k = Some m" "hm_get (ml_health ml) k = Some h"
      by (auto simp: ml_view_def split: option.splits)
    then have "mb_id m = k" using assms by (simp add: ml_inv_iff)
    with mh have "\<lparr>ms_member = m, ms_health = proto_from_health h\<rparr> \<in> set (memberships ml)" by (auto simp: mem)
    with \<open>mb_id m = k\<close> show ?thesis by force
  qed
  moreover have "ml_view ml k \<noteq> None" if "k \<in> (mb_id \<circ> ms_member) ` set (memberships ml)" for k
    using that by (auto simp: mem ml_view_def)
  ultimately show "(mb_id \<circ> ms_member) ` set (memberships ml) = {k. ml_view ml k \<noteq> None}" by blast
qed


lemma depart_member_view:
  "ml_view (srv_member_list s) k \<le> ml_view (srv_member_list (depart_member now j s)) k"
proof -
  have "h \<le> Departed" for h by (cases h) (simp_all add: less_eq_health_def)
  then show ?thesis
    by (auto simp: ml_view_def depart_member_def insert_health_by_id_def depart_remove_def
        ml_increment_update_counter_def Let_def split: option.splits)
qed

lemma fold_increases:
  assumes "\<And>x s. (v s :: 'v :: order) \<le> v (f x s)"
  shows "v s \<le> v (fold f xs s)"
proof (induction xs arbitrary: s)
  case (Cons x xs)
  from order_trans [OF assms [of s x] Cons.IH [of "f x s"]] show ?case by simp
qed simp

lemma restore_rumors_view:
  "ml_view (srv_member_list s) k \<le> ml_view (srv_member_list (restore_rumors now suitability srv s)) k"
proof -
  let ?v = "\<lambda>s. ml_view (srv_member_list s) k"
  have service: "?v s \<le> ?v (insert_service now r s)" for r s
    unfolding insert_service_member_list
    using fold_increases [of ?v "depart_member now", OF depart_member_view] by simp
  have departure: "?v s \<le> ?v (insert_departure now r s)" for r s
  proof -
    have "srv_member_list (depart_member now j (s\<lparr>srv_departed := b\<rparr>)) = srv_member_list (depart_member now j s)" for j b
      by (simp add: depart_member_def Let_def case_prod_beta start_hot_def)
    then have "srv_member_list (insert_departure now r s) = srv_member_list (depart_member now (dp_member_id (get_departure r)) s)"
      by (simp add: insert_departure_def Let_def case_prod_beta)
    with depart_member_view show ?thesis by simp
  qed
  have config: "srv_member_list (insert_service_config r s) = srv_member_list s"
    "srv_member_list (insert_service_file r s) = srv_member_list s" for r s
    by (simp_all add: insert_service_config_def insert_service_file_def Let_def case_prod_beta start_hot_def)
  show ?thesis
    unfolding restore_rumors_def Let_def insert_election_def insert_update_election_def
    by (rule order_trans [OF _ fold_increases [of ?v, OF departure]])
      (simp add: fold_keeps [of srv_member_list, OF insert_election_keeps(2)] fold_keeps [of srv_member_list, OF config(1)]
        fold_keeps [of srv_member_list, OF config(2)] fold_increases [of ?v, OF service])
qed


section \<open>What persistence promises\<close>

lemma server_new_fresh:
  assumes "server_new a b m n = Inr s"
  shows "server_inv s" "srv_member_list s = ml_new" "rumor_stores s = (rs_default, rs_default, rs_default, rs_default)"
  using server_inv_new [OF assms] assms
  by (auto simp: server_new_def rumor_stores_def Let_def split: sum.splits option.splits)

lemma restore_members_keeps:
  assumes "restore_members now srv s = Some s'"
  shows "rumor_stores s' = rumor_stores s"
  by (rule fold_opt_preserves [OF assms [unfolded restore_members_def], where P = "\<lambda>t. rumor_stores t = rumor_stores s"])
    (auto dest: rumor_stores_insert_member)

text \<open>C15: A server that is started anew and reads the file that its predecessor wrote holds the same service, configuration,
  file and departure rumors, and knows every member with at least the incarnation and health the
  predecessor knew. Neither writing nor reading panics. It is assumed that all bytes reach the
  file, that the encoding of the messages can be decoded, and that the file is not larger than
  the largest vector.\<close>

theorem restart_restores_rumors:
  assumes order: "byte_order (dc_write_u64 C) (dc_read_u64 C)" and io: "reliable io" and codec: "codec_ok C srv"
    and small: "length (dat_layout C srv) \<le> unat isize_max" and inv: "server_inv srv" and fresh: "server_new a b m n = Inr s"
  shows "\<exists>bytes s'. dat_write C io srv contents = Some (Inr 0, Some bytes) \<and>
    read_into C now suitability (Some bytes) s = Some (s', Inr ()) \<and> server_inv s' \<and>
    with_rumor (srv_service_store s') = with_rumor (srv_service_store srv) \<and>
    with_rumor (srv_service_config_store s') = with_rumor (srv_service_config_store srv) \<and>
    with_rumor (srv_service_file_store s') = with_rumor (srv_service_file_store srv) \<and>
    with_rumor (srv_departure_store s') = with_rumor (srv_departure_store srv) \<and>
    (\<forall>k. ml_view (srv_member_list srv) k \<le> ml_view (srv_member_list s') k)"
proof -
  note fresh = server_new_fresh [OF fresh]
  obtain s1 where s1: "restore_members now srv s = Some s1" "server_inv s1"
    using restore_members_total [OF fresh(1)] by blast
  let ?s' = "restore_rumors now suitability srv s1"
  have invs: "rs_inv service_ops (srv_service_store srv)" "rs_inv service_config_ops (srv_service_config_store srv)"
    "rs_inv service_file_ops (srv_service_file_store srv)" "rs_inv departure_ops (srv_departure_store srv)"
    using inv by (simp_all add: server_inv_def)
  note refilled = service.with_rumor_refilled [OF invs(1)] service_config.with_rumor_refilled [OF invs(2)]
    service_file.with_rumor_refilled [OF invs(3)] departure.with_rumor_refilled [OF invs(4)]
  have stores: "rumor_stores s1 = (rs_default, rs_default, rs_default, rs_default)"
    using restore_members_keeps [OF s1(1)] fresh(3) by simp
  have empty: "ml_view (srv_member_list s) k = None" for k by (simp add: fresh(2) ml_view_def ml_new_def)
  have views: "ml_view (srv_member_list s1) k = ml_view (srv_member_list srv) k" for k
    using insert_members_view [OF fresh(1) memberships_view(1) [OF server_inv_parts(1) [OF inv]] _ s1(1) [unfolded restore_members_def], of k]
      memberships_view(2) [OF server_inv_parts(1) [OF inv]] empty
    by (cases "ml_view (srv_member_list srv) k") simp_all
  have "dat_write C io srv contents = Some (Inr 0, Some (dat_layout C srv))"
    by (rule dat_write_layout [OF io order codec])
  moreover have "read_into C now suitability (Some (dat_layout C srv)) s = Some (?s', Inr ())"
    by (rule read_into_layout [OF order codec small s1(1)])
  moreover have "\<forall>k. ml_view (srv_member_list srv) k \<le> ml_view (srv_member_list ?s') k"
    using restore_rumors_view [of s1] views by simp
  moreover have "rumor_stores ?s' =
     (put_each service_ops (store_rumors (srv_service_store srv)) rs_default,
      put_each service_config_ops (store_rumors (srv_service_config_store srv)) rs_default,
      put_each service_file_ops (store_rumors (srv_service_file_store srv)) rs_default,
      put_each departure_ops (store_rumors (srv_departure_store srv)) rs_default)"
    using stores by (simp add: rumor_stores_restore) (simp add: rumor_stores_def)
  ultimately show ?thesis
    using restore_rumors_inv [OF s1(2)] refilled by (auto simp: rumor_stores_def)
qed


text \<open>An example: a codec that knows one service rumor, and the server of a member that holds it.\<close>

definition example_codec :: "string dat_codec" where
  "example_codec =
     \<lparr>dc_write_u64 = le_write, dc_read_u64 = le_read,
      dc_membership = (\<lambda>_. None), dc_parse_membership = (\<lambda>_. Inl ''bad''),
      dc_rumor = (\<lambda>r. if r = example_service ''a'' 1 then Some [7, 9] else None),
      dc_parse_rumor = (\<lambda>b. if b = [7, 9] then Inr (example_service ''a'' 1) else Inl ''bad'')\<rparr>"

definition example_io :: dat_io where
  "example_io = \<lparr>io_open = True, io_accept = (\<lambda>_ n. Some n), io_seek = True, io_flush = True, io_rename = True\<rparr>"

definition fresh_server :: server where
  "fresh_server =
     (case server_new (Inr (Some 9638)) (Inr (Some 9638) :: unit + int option) (default_member ''a'') None of Inr s \<Rightarrow> s)"

definition example_saved :: server where
  "example_saved = insert_service 0 (example_service ''a'' 1) fresh_server"

lemma fresh_server_new:
  "server_new (Inr (Some 9638)) (Inr (Some 9638) :: unit + int option) (default_member ''a'') None = Inr fresh_server"
  by (simp add: fresh_server_def server_new_def Let_def)

lemma example_saved_inv: "server_inv example_saved"
  unfolding example_saved_def by (intro server_inv_intro server_inv_new [OF fresh_server_new])

lemma example_codec_order: "byte_order (dc_write_u64 example_codec) (dc_read_u64 example_codec)"
  using little_endian.byte_order_axioms by (simp add: example_codec_def)

lemma example_codec_ok: "codec_ok example_codec example_saved"
  by code_simp

lemma example_io_reliable: "reliable example_io"
  by (simp add: reliable_def example_io_def)

theorem restart_restores_rumors_witness:
  "\<exists>bytes s'. dat_write example_codec example_io example_saved None = Some (Inr 0, Some bytes) \<and>
    read_into example_codec 0 (\<lambda>_. 0) (Some bytes) fresh_server = Some (s', Inr ()) \<and>
    with_rumor (srv_service_store s') ''foo.bar'' ''a'' = Some (example_service ''a'' 1)"
proof -
  have "length (dat_layout example_codec example_saved) \<le> 100" by code_simp
  then have small: "length (dat_layout example_codec example_saved) \<le> unat isize_max" by (simp add: isize_max_def)
  have "with_rumor (srv_service_store example_saved) ''foo.bar'' ''a'' = Some (example_service ''a'' 1)" by code_simp
  with restart_restores_rumors [OF example_codec_order example_io_reliable example_codec_ok small example_saved_inv fresh_server_new,
    of None 0 "\<lambda>_. 0"]
  show ?thesis by metis
qed


text \<open>Calls that fail or do all of their work, and the same calls without failures.\<close>

definition all_or_nothing :: "dat_io \<Rightarrow> bool" where
  "all_or_nothing io \<longleftrightarrow> (\<forall>k n. io_accept io k n = None \<or> io_accept io k n = Some n)"

definition steady :: dat_io where
  "steady = \<lparr>io_open = True, io_accept = (\<lambda>_ n. Some n), io_seek = True, io_flush = True, io_rename = True\<rparr>"

lemma steady_reliable: "reliable steady"
  by (simp add: reliable_def steady_def)

definition fails_or_same :: "(dat_writer \<Rightarrow> ('e dat_error + 'a) option) \<Rightarrow> (dat_writer \<Rightarrow> ('e dat_error + 'a) option) \<Rightarrow> bool" where
  "fails_or_same f g \<longleftrightarrow> (\<forall>w. f w = g w \<or> f w = Some (Inl DatFileIO))"

lemma writer_fails_or_same:
  assumes "all_or_nothing io"
  shows "(writer_write io b w :: 'e dat_error + nat \<times> dat_writer) = writer_write steady b w \<or>
    (writer_write io b w :: 'e dat_error + nat \<times> dat_writer) = Inl DatFileIO"
proof -
  from assms have "io_accept io (dw_calls w) (length b) = None \<or> io_accept io (dw_calls w) (length b) = Some (length b)"
    by (simp add: all_or_nothing_def)
  then show ?thesis by (auto simp: writer_write_def steady_def)
qed

lemma write_bytes_fails_or_same:
  fixes C :: "'e dat_codec"
  assumes "all_or_nothing io"
  shows "fails_or_same (write_bytes C io encoded) (write_bytes C steady encoded)"
  unfolding fails_or_same_def
proof
  fix w
  note same = writer_fails_or_same [OF assms, where 'e = 'e]
  show "write_bytes C io encoded w = write_bytes C steady encoded w \<or> write_bytes C io encoded w = Some (Inl DatFileIO)"
  proof (cases encoded)
    case (Some b)
    let ?len = "dc_write_u64 C (of_nat (length b))"
    show ?thesis
    proof (cases "(writer_write steady ?len w :: 'e dat_error + nat \<times> dat_writer)")
      case (Inr p)
      obtain n w1 where "p = (n, w1)" by (cases p)
      with Inr same [of ?len w] same [of b w1] Some show ?thesis by (auto simp: write_bytes_def)
    qed (use same [of ?len w] Some in \<open>auto simp: write_bytes_def\<close>)
  qed (simp add: write_bytes_def)
qed

lemma write_each_fails_or_same:
  assumes "all_or_nothing io"
  shows "fails_or_same (write_each C io encoded acc) (write_each C steady encoded acc)"
  unfolding fails_or_same_def
proof
  fix w
  show "write_each C io encoded acc w = write_each C steady encoded acc w \<or> write_each C io encoded acc w = Some (Inl DatFileIO)"
  proof (induction encoded arbitrary: acc w)
    case (Cons e encoded)
    have "write_bytes C io e w = write_bytes C steady e w \<or> write_bytes C io e w = Some (Inl DatFileIO)"
      using write_bytes_fails_or_same [OF assms] unfolding fails_or_same_def by blast
    then show ?case by (auto split: option.split sum.split) (use Cons.IH in blast)+
  qed simp
qed

lemma write_all_fails_or_same:
  assumes "list_all2 fails_or_same fs gs"
  shows "fails_or_same (write_all fs) (write_all gs)"
  using assms
proof (induction rule: list_all2_induct)
  case (Cons f fs g gs)
  show ?case unfolding fails_or_same_def
  proof
    fix w
    have f: "f w = g w \<or> f w = Some (Inl DatFileIO)" using Cons.hyps(1) by (simp add: fails_or_same_def)
    have fs: "write_all fs v = write_all gs v \<or> write_all fs v = Some (Inl DatFileIO)" for v
      using Cons.IH unfolding fails_or_same_def by blast
    show "write_all (f # fs) w = write_all (g # gs) w \<or> write_all (f # fs) w = Some (Inl DatFileIO)"
    proof (cases "\<exists>n w1. g w = Some (Inr (n, w1))")
      case True
      then obtain n w1 where "g w = Some (Inr (n, w1))" by blast
      with f fs [of w1] show ?thesis by auto
    next
      case False
      with f show ?thesis by (auto split: option.split sum.split)
    qed
  qed
qed (simp add: fails_or_same_def)

lemma section_writers_fails_or_same:
  "all_or_nothing io \<Longrightarrow> list_all2 fails_or_same (section_writers C io srv) (section_writers C steady srv)"
  by (simp add: section_writers_def write_member_list_each write_rumor_store_each write_each_fails_or_same)

lemma write_tmp_fails_or_same:
  fixes C :: "'e dat_codec"
  assumes "all_or_nothing io"
  shows "write_tmp C io srv = write_tmp C steady srv \<or> write_tmp C io srv = Some (Inl DatFileIO)"
proof -
  let ?w = "\<lparr>dw_bytes = [], dw_pos = 0, dw_calls = 0\<rparr>"
  note same = writer_fails_or_same [OF assms, where 'e = 'e]
  have init: "(dat_init io ?w :: 'e dat_error + nat \<times> dat_writer) = dat_init steady ?w \<or>
      (dat_init io ?w :: 'e dat_error + nat \<times> dat_writer) = Inl DatFileIO"
  proof (cases "(writer_write steady [HEADER_VERSION] ?w :: 'e dat_error + nat \<times> dat_writer)")
    case (Inr p)
    obtain n w1 where "p = (n, w1)" by (cases p)
    with Inr same [of "[HEADER_VERSION]" ?w] same [of "replicate (size_of_header + 8) 0" w1]
    show ?thesis by (auto simp: dat_init_def)
  qed (use same [of "[HEADER_VERSION]" ?w] in \<open>auto simp: dat_init_def\<close>)
  have sections: "write_all (section_writers C io srv) w = write_all (section_writers C steady srv) w \<or>
      write_all (section_writers C io srv) w = Some (Inl DatFileIO)" for w
    using write_all_fails_or_same [OF section_writers_fails_or_same [OF assms]] unfolding fails_or_same_def by blast
  have header: "write_header C io h w = write_header C steady h w \<or> write_header C io h w = Inl DatFileIO" for h w
    unfolding write_header_def by (rule same)
  have steady: "io_open steady" "io_seek steady" "io_flush steady" by (simp_all add: steady_def)
  show ?thesis
  proof (cases "\<exists>n w ns w'. (dat_init steady ?w :: 'e dat_error + nat \<times> dat_writer) = Inr (n, w) \<and>
      write_all (section_writers C steady srv) w = Some (Inr (ns, w'))")
    case True
    then obtain n w ns w' where "(dat_init steady ?w :: 'e dat_error + nat \<times> dat_writer) = Inr (n, w)"
      "write_all (section_writers C steady srv) w = Some (Inr (ns, w'))" by blast
    with init sections [of w] header [of "header_of ns" "w'\<lparr>dw_pos := 1\<rparr>"] show ?thesis
      by (auto simp: write_tmp_def steady split: sum.split if_splits)
  next
    case False
    obtain n w where w: "(dat_init steady ?w :: 'e dat_error + nat \<times> dat_writer) = Inr (n, w)"
      by (cases "writer_write steady [HEADER_VERSION] ?w :: 'e dat_error + nat \<times> dat_writer")
        (auto simp: dat_init_def writer_write_def steady_def Let_def)
    with False init sections [of w] show ?thesis by (auto simp: write_tmp_def steady split: sum.split option.split)
  qed
qed


text \<open>C16: Writing the file is atomic as long as every call of the operating system fails or does all of its work:
  \<open>write\<close> does not panic, and afterwards the file either holds the complete rumors of the server and
  success is reported, or it is what it was before and an error is reported.\<close>

theorem persisting_is_atomic:
  assumes "byte_order (dc_write_u64 C) (dc_read_u64 C)" and "codec_ok C srv" and "all_or_nothing io"
  shows "dat_write C io srv contents = Some (Inr 0, Some (dat_layout C srv)) \<or>
    dat_write C io srv contents = Some (Inl DatFileIO, contents)"
proof -
  have "dat_write C steady srv contents = Some (Inr 0, Some (dat_layout C srv))"
    by (rule dat_write_layout [OF steady_reliable assms(1, 2)])
  then have "write_tmp C steady srv = Some (Inr (dat_layout C srv))"
    by (auto simp: dat_write_def split: option.splits sum.splits if_splits)
  with write_tmp_fails_or_same [OF assms(3), of C srv] show ?thesis by (cases "io_rename io") (auto simp: dat_write_def)
qed

theorem persisting_is_atomic_witness:
  "dat_write example_codec (example_io\<lparr>io_accept := (\<lambda>k n. if k = 3 then None else Some n)\<rparr>) example_saved (Some [1, 2, 3]) =
     Some (Inl DatFileIO, Some [1, 2, 3])"
proof -
  let ?io = "example_io\<lparr>io_accept := (\<lambda>k n. if k = 3 then None else Some n)\<rparr>"
  have "all_or_nothing ?io" by (simp add: all_or_nothing_def)
  moreover have "map_option snd (dat_write example_codec ?io example_saved (Some [1, 2, 3])) = Some (Some [1, 2, 3])" by code_simp
  moreover have "dat_layout example_codec example_saved \<noteq> [1, 2, 3]" by code_simp
  ultimately show ?thesis
    using persisting_is_atomic [OF example_codec_order example_codec_ok, of ?io "Some [1, 2, 3]"] by auto
qed

text \<open>
  The code calls \<open>write\<close>, which may accept only a part of the bytes, and not \<open>write_all\<close>. Then the
  rest of the rumor is missing, success is reported, and the file cannot be read.
\<close>

lemma short_write_loses_file:
  "case dat_write example_codec (example_io\<lparr>io_accept := (\<lambda>k n. Some (if k = 3 then 1 else n))\<rparr>) example_saved None of
     Some (Inr 0, Some bytes) \<Rightarrow>
       map_option snd (read_into example_codec 0 (\<lambda>_. 0) (Some bytes) fresh_server) = Some (Inl DatFileIO)
   | _ \<Rightarrow> False"
  by code_simp

text \<open>A file of version 1 is only read if it has at least 57 bytes: \<open>from_file\<close> reads as many bytes as the present header
  has, although the header of version 1 has eight bytes less, so a file of that version which
  holds less than eight bytes of rumors, and even one that holds none, is rejected.\<close>

theorem short_version_one_file_rejected:
  assumes "length rest < 56"
  shows "read_into C now suitability (Some (1 # rest)) srv = Some (srv, Inl DatFileIO)"
  using assms by (simp add: read_into_def read_exact_def header_from_file_def size_of_header_def)

theorem short_version_one_file_rejected_witness:
  "read_into example_codec 0 (\<lambda>_. 0) (Some (1 # replicate 48 0)) fresh_server = Some (fresh_server, Inl DatFileIO) \<and>
   header_from_bytes example_codec (replicate 48 0) 1 = (48, default_header)"
proof -
  have "header_from_bytes example_codec (replicate 48 0) 1 = (48, default_header)" by code_simp
  with short_version_one_file_rejected [of "replicate 48 0"] show ?thesis by simp
qed

text \<open>A damaged length makes the reader ask for a vector that cannot exist.\<close>

lemma damaged_length_panics:
  "read_into example_codec 0 (\<lambda>_. 0)
     (Some (2 # header_write_to_bytes example_codec (default_header\<lparr>dh_member_len := 8\<rparr>) @ replicate 8 255)) fresh_server = None"
  by code_simp

end
