(* ===== verification/Action.thy ===== *)
theory Action
  imports Prelude
begin

text \<open>
  Programs that change a state, call what is outside of them, and may return an error or panic:
  the shape of the build service, whose methods return \<open>Result\<close> and use \<open>?\<close>, \<open>unwrap\<close> and
  \<open>assert!\<close>. An action maps a state to the result and the new state, or to \<open>None\<close> for a panic or
  an endless loop; what was done before an error stays done. \<open>wp\<close> is the weakest precondition
  for an outcome without a panic; its rules carry the proofs about the scheduler and the worker
  manager.
\<close>

type_synonym ('e, 's, 'a) action = "'s \<Rightarrow> (('e + 'a) \<times> 's) option"

section \<open>Statements\<close>

definition ok :: "'a \<Rightarrow> ('e, 's, 'a) action" where
  "ok x s = Some (Inr x, s)"

definition err :: "'e \<Rightarrow> ('e, 's, 'a) action" where
  "err e s = Some (Inl e, s)"

definition panic :: "('e, 's, 'a) action" where
  "panic s = None"

text \<open>\<open>let x = m?; k(x)\<close>\<close>

definition and_then :: "('e, 's, 'a) action \<Rightarrow> ('a \<Rightarrow> ('e, 's, 'b) action) \<Rightarrow> ('e, 's, 'b) action" where
  "and_then m k s =
     (case m s of None \<Rightarrow> None | Some (Inl e, s) \<Rightarrow> Some (Inl e, s) | Some (Inr x, s) \<Rightarrow> k x s)"

text \<open>\<open>match m { Ok(x) => .., Err(e) => .. }\<close>\<close>

definition match_result :: "('e, 's, 'a) action \<Rightarrow> ('e + 'a \<Rightarrow> ('f, 's, 'b) action) \<Rightarrow> ('f, 's, 'b) action" where
  "match_result m k s = (case m s of None \<Rightarrow> None | Some (r, s) \<Rightarrow> k r s)"

text \<open>\<open>if let Err(err) = m { warn!(..) }\<close>\<close>

definition warn_on_error :: "('e, 's, unit) action \<Rightarrow> ('e, 's, unit) action" where
  "warn_on_error m = match_result m (\<lambda>_. ok ())"

definition assert_that :: "bool \<Rightarrow> ('e, 's, unit) action" where
  "assert_that b = (if b then ok () else panic)"

definition unwrap :: "'a option \<Rightarrow> ('e, 's, 'a) action" where
  "unwrap x = (case x of None \<Rightarrow> panic | Some a \<Rightarrow> ok a)"

definition from_result :: "'e + 'a \<Rightarrow> ('e, 's, 'a) action" where
  "from_result r = (case r of Inl e \<Rightarrow> err e | Inr x \<Rightarrow> ok x)"

text \<open>A loop over a list, and a loop with local variables.\<close>

primrec for_each :: "('x \<Rightarrow> ('e, 's, unit) action) \<Rightarrow> 'x list \<Rightarrow> ('e, 's, unit) action" where
  "for_each f [] = ok ()"
| "for_each f (x # xs) = and_then (f x) (\<lambda>_. for_each f xs)"

primrec for_fold :: "('x \<Rightarrow> 'b \<Rightarrow> ('e, 's, 'b) action) \<Rightarrow> 'x list \<Rightarrow> 'b \<Rightarrow> ('e, 's, 'b) action" where
  "for_fold f [] b = ok b"
| "for_fold f (x # xs) b = and_then (f x b) (for_fold f xs)"

definition collect :: "('x \<Rightarrow> ('e, 's, 'y) action) \<Rightarrow> 'x list \<Rightarrow> ('e, 's, 'y list) action" where
  "collect f xs = for_fold (\<lambda>x ys. and_then (f x) (\<lambda>y. ok (ys @ [y]))) xs []"

lemma and_then_ok [simp]: "and_then (ok x) k = k x"
  by (rule ext) (simp add: and_then_def ok_def)

lemma and_then_err [simp]: "and_then (err e) k = err e"
  by (rule ext) (simp add: and_then_def err_def)

lemma match_result_ok [simp]: "match_result (ok x) k = k (Inr x)"
  by (rule ext) (simp add: match_result_def ok_def)

lemma match_result_err [simp]: "match_result (err e) k = k (Inl e)"
  by (rule ext) (simp add: match_result_def err_def)

lemma from_result_simps [simp]: "from_result (Inr x) = ok x" "from_result (Inl e) = err e"
  by (simp_all add: from_result_def)

lemma unwrap_simps [simp]: "unwrap (Some x) = ok x" "unwrap None = panic"
  by (simp_all add: unwrap_def)

lemma assert_that_simps [simp]: "assert_that True = ok ()" "assert_that False = panic"
  by (simp_all add: assert_that_def)

section \<open>Weakest preconditions\<close>

definition wp :: "('e, 's, 'a) action \<Rightarrow> ('e + 'a \<Rightarrow> 's \<Rightarrow> bool) \<Rightarrow> 's \<Rightarrow> bool" where
  "wp m Q s \<longleftrightarrow> (case m s of None \<Rightarrow> False | Some (r, s') \<Rightarrow> Q r s')"

lemma wp_ok [simp]: "wp (ok x) Q s \<longleftrightarrow> Q (Inr x) s"
  by (simp add: wp_def ok_def)

lemma wp_err [simp]: "wp (err e) Q s \<longleftrightarrow> Q (Inl e) s"
  by (simp add: wp_def err_def)

lemma wp_panic [simp]: "\<not> wp panic Q s"
  by (simp add: wp_def panic_def)

lemma wp_and_then [simp]:
  "wp (and_then m k) Q s \<longleftrightarrow> wp m (\<lambda>r s. case r of Inl e \<Rightarrow> Q (Inl e) s | Inr x \<Rightarrow> wp (k x) Q s) s"
  by (auto simp: wp_def and_then_def split: option.split sum.split)

lemma wp_match_result [simp]: "wp (match_result m k) Q s \<longleftrightarrow> wp m (\<lambda>r. wp (k r) Q) s"
  by (auto simp: wp_def match_result_def split: option.split)

lemma wp_warn_on_error [simp]: "wp (warn_on_error m) Q s \<longleftrightarrow> wp m (\<lambda>r. Q (Inr ())) s"
  by (simp add: warn_on_error_def match_result_def wp_def ok_def split: option.split)

lemma wp_assert_that [simp]: "wp (assert_that b) Q s \<longleftrightarrow> b \<and> Q (Inr ()) s"
  by (simp add: assert_that_def)

lemma wp_unwrap [simp]: "wp (unwrap x) Q s \<longleftrightarrow> (\<exists>a. x = Some a \<and> Q (Inr a) s)"
  by (simp add: unwrap_def split: option.split)

lemma wp_from_result [simp]: "wp (from_result r) Q s \<longleftrightarrow> Q r s"
  by (simp add: from_result_def split: sum.split)

lemma wp_mono: "wp m P s \<Longrightarrow> (\<And>r s'. P r s' \<Longrightarrow> Q r s') \<Longrightarrow> wp m Q s"
  by (auto simp: wp_def split: option.splits)

lemma wp_conj: "wp m P s \<Longrightarrow> wp m Q s \<Longrightarrow> wp m (\<lambda>r s. P r s \<and> Q r s) s"
  by (auto simp: wp_def split: option.splits)

lemma wp_result: "wp m Q s \<longleftrightarrow> (\<exists>r s'. m s = Some (r, s') \<and> Q r s')"
  by (auto simp: wp_def split: option.split)

lemma wpI: "m s = Some (r, s') \<Longrightarrow> Q r s' \<Longrightarrow> wp m Q s"
  by (simp add: wp_def)

lemma wpE:
  assumes "wp m Q s"
  obtains r s' where "m s = Some (r, s')" and "Q r s'"
  using assms by (auto simp: wp_result)

lemma wp_for_each:
  assumes "I s" and "\<And>x s. x \<in> set xs \<Longrightarrow> I s \<Longrightarrow> wp (f x) (\<lambda>r. I) s"
  shows "wp (for_each f xs) (\<lambda>r. I) s"
  using assms
proof (induction xs arbitrary: s)
  case (Cons x xs)
  have "wp (f x) (\<lambda>r. I) s" using Cons.prems by simp
  moreover have "wp (for_each f xs) (\<lambda>r. I) s'" if "I s'" for s' using Cons.IH [OF that] Cons.prems(2) by simp
  ultimately show ?case by (auto split: sum.split elim!: wp_mono)
qed simp

lemma wp_for_fold:
  assumes "I b s" and "\<And>x b s. x \<in> set xs \<Longrightarrow> I b s \<Longrightarrow> wp (f x b) (\<lambda>r s. case r of Inl e \<Rightarrow> E e s | Inr b \<Rightarrow> I b s) s"
  shows "wp (for_fold f xs b) (\<lambda>r s. case r of Inl e \<Rightarrow> E e s | Inr b \<Rightarrow> I b s) s"
  using assms
proof (induction xs arbitrary: b s)
  case (Cons x xs)
  have "wp (f x b) (\<lambda>r s. case r of Inl e \<Rightarrow> E e s | Inr b \<Rightarrow> I b s) s" using Cons.prems by simp
  moreover have "wp (for_fold f xs b') (\<lambda>r s. case r of Inl e \<Rightarrow> E e s | Inr b \<Rightarrow> I b s) s'" if "I b' s'" for b' s'
    using Cons.IH [OF that] Cons.prems(2) by simp
  ultimately show ?case by (simp, elim wp_mono) (rename_tac r s1, case_tac r; simp)
qed simp

end
