(* ===== verification/Job_Types.thy ===== *)
theory Job_Types
  imports Action Package_Graph
begin

text \<open>
  The messages of the job server, \<open>components/builder-protocol/protocols/jobsrv.proto\<close>, as the
  values of their getters, with the parsing and printing of
  \<open>components/builder-protocol/src/jobsrv.rs\<close> and \<open>originsrv.rs\<close>, and the rows of the tables of
  \<open>components/builder-jobsrv/src/migrations/jobs.rs\<close> and \<open>scheduler.rs\<close>. A row holds the columns
  the program reads; \<open>updated_at\<close> is never read. Texts and dates of the database are strings and
  integers, identifiers 64-bit words.
\<close>

section \<open>Messages\<close>

datatype worker_state = Ready | Busy

datatype worker_operation = StartJob | CancelJob

datatype job_state =
  Pending | Processing | Complete | Rejected | Failed | Dispatched | CancelPending | CancelProcessing | CancelComplete

datatype project_state = NotStarted | InProgress | Success | Failure | Skipped | Canceled

datatype group_state =
  GroupPending | GroupDispatching | GroupComplete | GroupFailed | GroupQueued | GroupCanceled

datatype err_code =
  BUG | TIMEOUT | REMOTE_REJECTED | BAD_REMOTE_REPLY | ENTITY_NOT_FOUND | NO_SHARD | ACCESS_DENIED |
  SESSION_EXPIRED | ENTITY_CONFLICT | SOCK | DATA_STORE | BAD_TOKEN | REMOTE_UNAVAILABLE | SYS |
  WORKSPACE_SETUP | SECRET_KEY_FETCH | SECRET_KEY_IMPORT | VCS_CLONE | BUILD | POST_PROCESSOR |
  INVALID_INTEGRATIONS | REG_CONFLICT | REG_NOT_FOUND | GROUP_NOT_COMPLETE | PARTIAL_JOB_GROUP_PROMOTE

definition err_codes :: "(int \<times> err_code) list" where
  "err_codes =
     [(0, BUG), (1, TIMEOUT), (2, REMOTE_REJECTED), (3, BAD_REMOTE_REPLY), (4, ENTITY_NOT_FOUND), (6, NO_SHARD),
      (7, ACCESS_DENIED), (8, SESSION_EXPIRED), (9, ENTITY_CONFLICT), (10, SOCK), (11, DATA_STORE), (12, BAD_TOKEN),
      (13, REMOTE_UNAVAILABLE), (14, SYS), (1000, WORKSPACE_SETUP), (1001, SECRET_KEY_FETCH),
      (1002, SECRET_KEY_IMPORT), (1003, VCS_CLONE), (1004, BUILD), (1005, POST_PROCESSOR),
      (1006, INVALID_INTEGRATIONS), (2000, REG_CONFLICT), (2001, REG_NOT_FOUND), (3000, GROUP_NOT_COMPLETE),
      (3001, PARTIAL_JOB_GROUP_PROMOTE)]"

definition err_code_from_i32 :: "int \<Rightarrow> err_code option" where
  "err_code_from_i32 n = map_of err_codes n"

definition err_code_value :: "err_code \<Rightarrow> int" where
  "err_code_value c = (case map_of (map (\<lambda>(n, d). (d, n)) err_codes) c of Some n \<Rightarrow> n | None \<Rightarrow> 0)"

text \<open>The messages as the values of their getters; a field with a \<open>has_\<close> method is an option.\<close>

record net_error =
  ne_code :: err_code
  ne_msg :: string

record origin_package_ident =
  oi_origin :: string
  oi_name :: string
  oi_version :: string
  oi_release :: string

record origin_project =
  op_id :: u64
  op_origin_name :: string
  op_package_name :: string
  op_name :: string
  op_plan_path :: string
  op_owner_id :: u64
  op_vcs_type :: string
  op_vcs_data :: string
  op_vcs_installation_id :: "32 word option"

record integration =
  in_origin :: string
  in_integration :: string
  in_name :: string
  in_body :: string

record project_integration =
  ip_origin :: string
  ip_name :: string
  ip_integration :: string
  ip_integration_name :: string
  ip_body :: string

record job =
  jb_id :: u64
  jb_owner_id :: u64
  jb_state :: job_state
  jb_project :: origin_project
  jb_error :: "net_error option"
  jb_created_at :: string
  jb_build_started_at :: "string option"
  jb_build_finished_at :: "string option"
  jb_package_ident :: "origin_package_ident option"
  jb_is_archived :: bool
  jb_integrations :: "integration list"
  jb_channel :: "string option"
  jb_project_integrations :: "project_integration list"
  jb_worker :: "string option"

record job_spec =
  js_owner_id :: u64
  js_project :: origin_project
  js_channel :: "string option"

record busy_worker =
  bw_ident :: string
  bw_job_id :: u64
  bw_quarantined :: bool

record job_group_project =
  gp_name :: string
  gp_ident :: string
  gp_state :: project_state
  gp_job_id :: u64

record job_group =
  jg_id :: u64
  jg_state :: group_state
  jg_projects :: "job_group_project list"
  jg_created_at :: string
  jg_project_name :: string

text \<open>\<open>impl Into<Job> for JobSpec\<close>: a message with default values otherwise.\<close>

definition job_of_spec :: "job_spec \<Rightarrow> job" where
  "job_of_spec spec =
     \<lparr>jb_id = 0, jb_owner_id = js_owner_id spec, jb_state = Pending, jb_project = js_project spec, jb_error = None,
      jb_created_at = [], jb_build_started_at = None, jb_build_finished_at = None, jb_package_ident = None,
      jb_is_archived = False, jb_integrations = [], jb_channel = js_channel spec, jb_project_integrations = [],
      jb_worker = None\<rparr>"

section \<open>Printing and parsing of states and identifiers\<close>

datatype job_error =
    BadJobState string | BadJobGroupState string | BadJobGroupProjectState string
  | Db | JobCreate | JobGet | ProjectJobsGet | JobPending | JobSetState | JobMarkArchived
  | BusyWorkerUpsert | BusyWorkerDelete | BusyWorkersGet
  | JobGraphPackageInsert | JobGraphPackagesGet | JobGraphPackageStats | UnknownJobGraphPackage
  | JobGroupCreate | JobGroupGet | JobGroupCancel | JobGroupOriginGet | JobGroupPending | JobGroupSetState
  | JobGroupProjectSetState | UnknownJobGroup | UnknownJobGroupProjectState
  | SyncJobs | UnknownVCS | ParseVCSInstallationId | Zmq | Protobuf

fun job_state_to_string :: "job_state \<Rightarrow> string" where
  "job_state_to_string Dispatched = ''Dispatched''"
| "job_state_to_string Pending = ''Pending''"
| "job_state_to_string Processing = ''Processing''"
| "job_state_to_string Complete = ''Complete''"
| "job_state_to_string Rejected = ''Rejected''"
| "job_state_to_string Failed = ''Failed''"
| "job_state_to_string CancelPending = ''CancelPending''"
| "job_state_to_string CancelProcessing = ''CancelProcessing''"
| "job_state_to_string CancelComplete = ''CancelComplete''"

definition job_state_from_str :: "string \<Rightarrow> job_error + job_state" where
  "job_state_from_str value =
     (let v = ascii_lowercase value
      in if v = ''pending'' then Inr Pending
         else if v = ''processing'' then Inr Processing
         else if v = ''complete'' then Inr Complete
         else if v = ''rejected'' then Inr Rejected
         else if v = ''failed'' then Inr Failed
         else if v = ''dispatched'' then Inr Dispatched
         else if v = ''cancelpending'' then Inr CancelPending
         else if v = ''cancelprocessing'' then Inr CancelProcessing
         else if v = ''cancelcomplete'' then Inr CancelComplete
         else Inl (BadJobState value))"

fun group_state_to_string :: "group_state \<Rightarrow> string" where
  "group_state_to_string GroupDispatching = ''Dispatching''"
| "group_state_to_string GroupPending = ''Pending''"
| "group_state_to_string GroupComplete = ''Complete''"
| "group_state_to_string GroupFailed = ''Failed''"
| "group_state_to_string GroupQueued = ''Queued''"
| "group_state_to_string GroupCanceled = ''Canceled''"

definition group_state_from_str :: "string \<Rightarrow> job_error + group_state" where
  "group_state_from_str value =
     (let v = ascii_lowercase value
      in if v = ''dispatching'' then Inr GroupDispatching
         else if v = ''pending'' then Inr GroupPending
         else if v = ''complete'' then Inr GroupComplete
         else if v = ''failed'' then Inr GroupFailed
         else if v = ''queued'' then Inr GroupQueued
         else if v = ''canceled'' then Inr GroupCanceled
         else Inl (BadJobGroupState value))"

fun project_state_to_string :: "project_state \<Rightarrow> string" where
  "project_state_to_string NotStarted = ''NotStarted''"
| "project_state_to_string InProgress = ''InProgress''"
| "project_state_to_string Success = ''Success''"
| "project_state_to_string Failure = ''Failure''"
| "project_state_to_string Skipped = ''Skipped''"
| "project_state_to_string Canceled = ''Canceled''"

definition project_state_from_str :: "string \<Rightarrow> job_error + project_state" where
  "project_state_from_str value =
     (let v = ascii_lowercase value
      in if v = ''notstarted'' then Inr NotStarted
         else if v = ''inprogress'' then Inr InProgress
         else if v = ''success'' then Inr Success
         else if v = ''failure'' then Inr Failure
         else if v = ''skipped'' then Inr Skipped
         else if v = ''canceled'' then Inr Canceled
         else Inl (BadJobGroupProjectState value))"

definition origin_ident_to_string :: "origin_package_ident \<Rightarrow> string" where
  "origin_ident_to_string i =
     (if oi_version i \<noteq> [] \<and> oi_release i \<noteq> []
      then join_with (CHR ''/'') [oi_origin i, oi_name i, oi_version i, oi_release i]
      else if oi_version i \<noteq> [] then join_with (CHR ''/'') [oi_origin i, oi_name i, oi_version i]
      else join_with (CHR ''/'') [oi_origin i, oi_name i])"

text \<open>Missing and empty parts stay unset, which reads as the empty string; parsing never fails.\<close>

definition origin_ident_from_str :: "string \<Rightarrow> origin_package_ident" where
  "origin_ident_from_str value =
     (let parts = split_on (CHR ''/'') value; part = (\<lambda>n. if n < length parts then parts ! n else [])
      in \<lparr>oi_origin = part 0, oi_name = part 1, oi_version = part 2, oi_release = part 3\<rparr>)"

text \<open>\<open>str::parse::<u32>\<close>\<close>

definition parse_u32 :: "string \<Rightarrow> 32 word option" where
  "parse_u32 s =
     (case parse_u64 s of
        None \<Rightarrow> None
      | Some n \<Rightarrow> if n < 2 ^ 32 then Some (ucast n) else None)"

section \<open>Tables\<close>

record job_row =
  jr_id :: u64
  jr_owner_id :: u64
  jr_job_state :: string
  jr_project_id :: u64
  jr_project_name :: string
  jr_project_owner_id :: u64
  jr_project_plan_path :: string
  jr_vcs :: string
  jr_vcs_arguments :: "string option list"
  jr_net_error_code :: "int option"
  jr_net_error_msg :: "string option"
  jr_scheduler_sync :: bool
  jr_created_at :: int
  jr_build_started_at :: "int option"
  jr_build_finished_at :: "int option"
  jr_package_ident :: "string option"
  jr_archived :: bool
  jr_channel :: "string option"
  jr_sync_count :: int
  jr_worker :: "string option"

record graph_package_row =
  pk_ident :: string
  pk_deps :: "string list"
  pk_target :: "string option"

record group_row =
  gr_id :: u64
  gr_group_state :: string
  gr_project_name :: string
  gr_created_at :: int

record project_row =
  pr_id :: nat
  pr_owner_id :: u64
  pr_project_name :: string
  pr_project_ident :: string
  pr_project_state :: string
  pr_job_id :: u64

record tables =
  tb_jobs :: "job_row list"
  tb_job_id_seq :: nat
  tb_busy_workers :: "busy_worker list"
  tb_graph_packages :: "graph_package_row list"
  tb_groups :: "group_row list"
  tb_groups_id_seq :: nat
  tb_group_projects :: "project_row list"
  tb_group_projects_seq :: nat

end
