(* ===== verification/Job_Store.thy ===== *)
theory Job_Store
  imports Job_Types
begin

text \<open>
  The database of the job server: the stored procedures of
  \<open>components/builder-jobsrv/src/migrations/jobs.rs\<close> and \<open>scheduler.rs\<close>, and the methods of
  \<open>components/builder-jobsrv/src/data_store.rs\<close> over them.

  A table is a list of rows. A stored procedure runs as one atomic step on the tables, as a
  PostgreSQL function call outside of a transaction block does. Before every call the other
  threads and machines of the service may act: the list \<open>w_env\<close> of the world holds, for each
  further call, what they do to the tables, which rows they keep locked, how much time passes, in
  which order rows come back that no \<open>ORDER BY\<close> orders, and whether the call fails. An
  empty list stands for no interference. The parser and printer of dates and the regular
  expressions of the database come from outside and are the record \<open>externals\<close>.
\<close>

unbundle bit_operations_syntax

section \<open>The world of the job server\<close>

record event =
  ev_elapsed :: nat
  ev_db_elapsed :: int
  ev_meanwhile :: "tables \<Rightarrow> tables"
  ev_locked :: "u64 list"
  ev_order :: "nat \<Rightarrow> nat list"
  ev_down :: bool

definition quiet :: event where
  "quiet = \<lparr>ev_elapsed = 0, ev_db_elapsed = 0, ev_meanwhile = (\<lambda>t. t), ev_locked = [], ev_order = (\<lambda>n. [0..<n]),
     ev_down = False\<rparr>"

record externals =
  ex_parse_date :: "string \<Rightarrow> int option"
  ex_rfc3339 :: "int \<Rightarrow> string"
  ex_regex_match :: "string \<Rightarrow> string \<Rightarrow> bool"

text \<open>
  \<open>struct Worker\<close> of \<open>worker_manager.rs\<close>. The clock \<open>Instant::now()\<close> of the job server and the
  clock \<open>now()\<close> of the database are different clocks.
\<close>

record worker =
  wk_ident :: string
  wk_state :: worker_state
  wk_expiry :: int
  wk_job_id :: "u64 option"
  wk_job_expiry :: "int option"

record world =
  w_tables :: tables
  w_env :: "event list"
  w_instant :: int
  w_db_now :: int
  w_scheduler_notices :: nat
  w_worker_notices :: nat
  w_workers :: "(string \<times> worker) list"
  w_commands :: "(string \<times> worker_operation \<times> job) list"

type_synonym 'a job_action = "(job_error, world, 'a) action"

definition next_event :: "world \<Rightarrow> event \<times> world" where
  "next_event w =
     (let ev = (case w_env w of [] \<Rightarrow> quiet | ev # _ \<Rightarrow> ev)
      in (ev, w\<lparr>w_env := tl (w_env w), w_instant := w_instant w + int (ev_elapsed ev),
                w_db_now := w_db_now w + ev_db_elapsed ev, w_tables := ev_meanwhile ev (w_tables w)\<rparr>))"

text \<open>
  A statement for the database: it sees the event, the time and the tables, and gives a result, or
  \<open>None\<close> when a constraint is violated, and the new tables.
\<close>

type_synonym 'a sql = "event \<Rightarrow> int \<Rightarrow> tables \<Rightarrow> 'a option \<times> tables"

definition query :: "job_error \<Rightarrow> 'a sql \<Rightarrow> 'a job_action" where
  "query e stmt w =
     (let (ev, w) = next_event w
      in if ev_down ev then Some (Inl e, w)
         else case stmt ev (w_db_now w) (w_tables w) of
           (None, t) \<Rightarrow> Some (Inl e, w\<lparr>w_tables := t\<rparr>)
         | (Some x, t) \<Rightarrow> Some (Inr x, w\<lparr>w_tables := t\<rparr>))"

text \<open>Sending a message on a socket.\<close>

definition send_on :: "(world \<Rightarrow> world) \<Rightarrow> unit job_action" where
  "send_on f w = (let (ev, w) = next_event w in Some (if ev_down ev then (Inl Zmq, w) else (Inr (), f w)))"

text \<open>\<open>WorkerMgrClient::notify_work\<close> and \<open>ScheduleClient::notify\<close>\<close>

definition notify_work :: "unit job_action" where
  "notify_work = send_on (w_worker_notices_update Suc)"

definition notify_scheduler :: "unit job_action" where
  "notify_scheduler = send_on (w_scheduler_notices_update Suc)"

text \<open>Reading tables: rows come back in an order the database chooses.\<close>

definition scan :: "event \<Rightarrow> 'r list \<Rightarrow> 'r list" where
  "scan ev rows = map ((!) rows) (ev_order ev (length rows))"

definition select :: "(event \<Rightarrow> tables \<Rightarrow> 'a) \<Rightarrow> 'a sql" where
  "select f ev now t = (Some (f ev t), t)"

definition execute :: "(tables \<Rightarrow> tables) \<Rightarrow> unit sql" where
  "execute f ev now t = (Some (), f t)"

definition update_where :: "('r \<Rightarrow> bool) \<Rightarrow> ('r \<Rightarrow> 'r) \<Rightarrow> 'r list \<Rightarrow> 'r list" where
  "update_where P f rows = map (\<lambda>r. if P r then f r else r) rows"

section \<open>Stored procedures on jobs and workers\<close>

text \<open>
  \<open>next_id_v1\<close> of \<open>builder-db\<close>: milliseconds since an epoch, ten bits of a sequence, and the shard,
  which is 0 for this service.
\<close>

definition next_id_v1 :: "int \<Rightarrow> nat \<Rightarrow> u64" where
  "next_id_v1 now_millis seq_val =
     push_bit 23 (word_of_int (now_millis - 1409266191000)) OR push_bit 13 (word_of_nat (seq_val mod 1024)) OR 0"

definition insert_job_v2 ::
  "u64 \<Rightarrow> u64 \<Rightarrow> string \<Rightarrow> u64 \<Rightarrow> string \<Rightarrow> string \<Rightarrow> string option list \<Rightarrow> string option \<Rightarrow> job_row sql" where
  "insert_job_v2 p_owner_id p_project_id p_project_name p_project_owner_id p_project_plan_path p_vcs p_vcs_arguments
     p_channel ev now t =
     (let seq_val = tb_job_id_seq t + 1;
          row = \<lparr>jr_id = next_id_v1 now seq_val, jr_owner_id = p_owner_id, jr_job_state = ''Pending'',
                 jr_project_id = p_project_id, jr_project_name = p_project_name,
                 jr_project_owner_id = p_project_owner_id, jr_project_plan_path = p_project_plan_path, jr_vcs = p_vcs,
                 jr_vcs_arguments = p_vcs_arguments, jr_net_error_code = None, jr_net_error_msg = None,
                 jr_scheduler_sync = False, jr_created_at = now, jr_build_started_at = None,
                 jr_build_finished_at = None, jr_package_ident = None, jr_archived = False, jr_channel = p_channel,
                 jr_sync_count = 0, jr_worker = None\<rparr>;
          t = t\<lparr>tb_job_id_seq := seq_val\<rparr>
      in if jr_id row \<in> jr_id ` set (tb_jobs t) then (None, t)
         else (Some row, t\<lparr>tb_jobs := tb_jobs t @ [row]\<rparr>))"

definition get_job_v1 :: "u64 \<Rightarrow> job_row list sql" where
  "get_job_v1 jid = select (\<lambda>ev t. filter (\<lambda>r. jr_id r = jid) (scan ev (tb_jobs t)))"

definition get_jobs_for_project_v2 :: "string \<Rightarrow> int \<Rightarrow> int \<Rightarrow> (int \<times> job_row) list sql" where
  "get_jobs_for_project_v2 p_project_name p_limit p_offset ev now t =
     (let rows = filter (\<lambda>r. jr_project_name r = p_project_name) (scan ev (tb_jobs t));
          page = take (nat p_limit) (drop (nat p_offset) (sort_key (\<lambda>r. - jr_created_at r) rows))
      in if p_limit < 0 \<or> p_offset < 0 then (None, t)
         else (Some (map (\<lambda>r. (int (length rows), r)) page), t))"

text \<open>The oldest pending job whose row is not locked; its state changes before it is returned.\<close>

definition next_pending_job_v1 :: "string \<Rightarrow> job_row list sql" where
  "next_pending_job_v1 p_worker ev now t =
     (case filter (\<lambda>r. jr_id r \<notin> set (ev_locked ev))
             (sort_key jr_created_at (filter (\<lambda>r. jr_job_state r = ''Pending'') (scan ev (tb_jobs t)))) of
        [] \<Rightarrow> (Some [], t)
      | r # _ \<Rightarrow>
          (let dispatch = (\<lambda>r. r\<lparr>jr_job_state := ''Dispatched'', jr_scheduler_sync := False, jr_worker := Some p_worker\<rparr>)
           in (Some [dispatch r], t\<lparr>tb_jobs := update_where (\<lambda>r'. jr_id r' = jr_id r) dispatch (tb_jobs t)\<rparr>)))"

definition get_cancel_pending_jobs_v1 :: "job_row list sql" where
  "get_cancel_pending_jobs_v1 = select (\<lambda>ev t. filter (\<lambda>r. jr_job_state r = ''CancelPending'') (scan ev (tb_jobs t)))"

definition get_dispatched_jobs_v1 :: "job_row list sql" where
  "get_dispatched_jobs_v1 = select (\<lambda>ev t. filter (\<lambda>r. jr_job_state r = ''Dispatched'') (scan ev (tb_jobs t)))"

definition update_job_v3 ::
  "u64 \<Rightarrow> string \<Rightarrow> int option \<Rightarrow> int option \<Rightarrow> string option \<Rightarrow> int option \<Rightarrow> string option \<Rightarrow> unit sql" where
  "update_job_v3 p_job_id p_state p_build_started_at p_build_finished_at p_package_ident p_err_code p_err_msg =
     execute (tb_jobs_update (update_where (\<lambda>r. jr_id r = p_job_id)
       (\<lambda>r. r\<lparr>jr_job_state := p_state, jr_scheduler_sync := False, jr_sync_count := jr_sync_count r + 1,
              jr_build_started_at := p_build_started_at, jr_build_finished_at := p_build_finished_at,
              jr_package_ident := p_package_ident, jr_net_error_code := p_err_code, jr_net_error_msg := p_err_msg\<rparr>)))"

definition mark_as_archived_v1 :: "u64 \<Rightarrow> unit sql" where
  "mark_as_archived_v1 p_job_id =
     execute (tb_jobs_update (update_where (\<lambda>r. jr_id r = p_job_id) (jr_archived_update (\<lambda>_. True))))"

definition sync_jobs_v2 :: "job_row list sql" where
  "sync_jobs_v2 = select (\<lambda>ev t. filter (\<lambda>r. jr_scheduler_sync r = False \<or> jr_sync_count r > 0) (scan ev (tb_jobs t)))"

definition set_jobs_sync_v2 :: "u64 \<Rightarrow> unit sql" where
  "set_jobs_sync_v2 in_job_id =
     execute (tb_jobs_update (update_where (\<lambda>r. jr_id r = in_job_id)
       (\<lambda>r. r\<lparr>jr_scheduler_sync := True, jr_sync_count := jr_sync_count r - 1\<rparr>)))"

definition upsert_busy_worker_v1 :: "string \<Rightarrow> u64 \<Rightarrow> bool \<Rightarrow> unit sql" where
  "upsert_busy_worker_v1 in_ident in_job_id in_quarantined =
     (let same = (\<lambda>b. bw_ident b = in_ident \<and> bw_job_id b = in_job_id)
      in execute (tb_busy_workers_update (\<lambda>bs.
           if \<exists>b \<in> set bs. same b then update_where same (bw_quarantined_update (\<lambda>_. in_quarantined)) bs
           else bs @ [\<lparr>bw_ident = in_ident, bw_job_id = in_job_id, bw_quarantined = in_quarantined\<rparr>])))"

definition get_busy_workers_v1 :: "busy_worker list sql" where
  "get_busy_workers_v1 = select (\<lambda>ev t. scan ev (tb_busy_workers t))"

definition delete_busy_worker_v1 :: "string \<Rightarrow> u64 \<Rightarrow> unit sql" where
  "delete_busy_worker_v1 in_ident in_job_id =
     execute (tb_busy_workers_update (filter (\<lambda>b. \<not> (bw_ident b = in_ident \<and> bw_job_id b = in_job_id))))"

section \<open>Stored procedures on packages and groups\<close>

definition upsert_graph_package_v1 :: "string \<Rightarrow> string list \<Rightarrow> string \<Rightarrow> graph_package_row sql" where
  "upsert_graph_package_v1 in_ident in_deps in_target ev now t =
     (let row = \<lparr>pk_ident = in_ident, pk_deps = in_deps, pk_target = Some in_target\<rparr>;
          upsert = (\<lambda>ps. if in_ident \<in> pk_ident ` set ps then update_where (\<lambda>p. pk_ident p = in_ident) (\<lambda>_. row) ps
                          else ps @ [row])
      in (Some row, tb_graph_packages_update upsert t))"

definition get_graph_packages_v1 :: "graph_package_row list sql" where
  "get_graph_packages_v1 = select (\<lambda>ev t. scan ev (tb_graph_packages t))"

definition get_graph_package_v1 :: "string \<Rightarrow> graph_package_row list sql" where
  "get_graph_package_v1 pident = select (\<lambda>ev t. filter (\<lambda>p. pk_ident p = pident) (scan ev (tb_graph_packages t)))"

text \<open>The origin is spliced into a regular expression.\<close>

definition count_graph_packages_v1 :: "externals \<Rightarrow> string \<Rightarrow> nat sql" where
  "count_graph_packages_v1 X origin =
     select (\<lambda>ev t. length (filter (\<lambda>p. ex_regex_match X (''^'' @ origin @ ''/'') (pk_ident p)) (tb_graph_packages t)))"

definition count_group_projects_v1 :: "externals \<Rightarrow> string \<Rightarrow> nat sql" where
  "count_group_projects_v1 X origin =
     select (\<lambda>ev t. length (filter (\<lambda>p. ex_regex_match X (''^'' @ origin @ ''/'') (pr_project_ident p))
       (tb_group_projects t)))"

definition count_unique_graph_packages_v1 :: "string \<Rightarrow> nat sql" where
  "count_unique_graph_packages_v1 op_origin =
     select (\<lambda>ev t. length (remdups (map (\<lambda>parts. parts ! 1) (filter (\<lambda>parts. parts ! 0 = op_origin \<and> 1 < length parts)
       (map (\<lambda>p. split_on (CHR ''/'') (pk_ident p)) (tb_graph_packages t))))))"

definition insert_group_v2 :: "string \<Rightarrow> string list \<Rightarrow> string list \<Rightarrow> group_row sql" where
  "insert_group_v2 root_project project_names project_idents ev now t =
     (let seq_val = tb_groups_id_seq t + 1;
          row = \<lparr>gr_id = next_id_v1 now seq_val, gr_group_state = ''Queued'', gr_project_name = root_project,
                 gr_created_at = now\<rparr>;
          project = (\<lambda>(n, name, ident). \<lparr>pr_id = n, pr_owner_id = gr_id row, pr_project_name = name,
            pr_project_ident = ident, pr_project_state = ''NotStarted'', pr_job_id = 0\<rparr>);
          projects = map project (enumerate (tb_group_projects_seq t + 1) (zip project_names project_idents));
          t = t\<lparr>tb_groups_id_seq := seq_val\<rparr>
      in if gr_id row \<in> gr_id ` set (tb_groups t) then (None, t)
         else (Some row, t\<lparr>tb_groups := tb_groups t @ [row], tb_group_projects := tb_group_projects t @ projects,
                 tb_group_projects_seq := tb_group_projects_seq t + length projects\<rparr>))"

definition get_group_v1 :: "u64 \<Rightarrow> group_row list sql" where
  "get_group_v1 gid = select (\<lambda>ev t. filter (\<lambda>g. gr_id g = gid) (scan ev (tb_groups t)))"

definition get_group_projects_for_group_v1 :: "u64 \<Rightarrow> project_row list sql" where
  "get_group_projects_for_group_v1 gid =
     select (\<lambda>ev t. filter (\<lambda>p. pr_owner_id p = gid) (scan ev (tb_group_projects t)))"

definition pending_groups_v1 :: "nat \<Rightarrow> group_row list sql" where
  "pending_groups_v1 n ev now t =
     (let rows = take n (filter (\<lambda>g. gr_id g \<notin> set (ev_locked ev))
            (sort_key gr_created_at (filter (\<lambda>g. gr_group_state g = ''Pending'') (scan ev (tb_groups t)))));
          dispatch = gr_group_state_update (\<lambda>_. ''Dispatching'')
      in (Some (map dispatch rows), tb_groups_update (update_where (\<lambda>g. gr_id g \<in> gr_id ` set rows) dispatch) t))"

definition set_group_state_v1 :: "u64 \<Rightarrow> string \<Rightarrow> unit sql" where
  "set_group_state_v1 gid gstate =
     execute (tb_groups_update (update_where (\<lambda>g. gr_id g = gid) (gr_group_state_update (\<lambda>_. gstate))))"

definition set_group_project_state_v1 :: "nat \<Rightarrow> u64 \<Rightarrow> string \<Rightarrow> unit sql" where
  "set_group_project_state_v1 pid jid state =
     execute (tb_group_projects_update (update_where (\<lambda>p. pr_id p = pid)
       (\<lambda>p. p\<lparr>pr_project_state := state, pr_job_id := jid\<rparr>)))"

definition set_group_project_state_ident_v1 :: "nat \<Rightarrow> u64 \<Rightarrow> string \<Rightarrow> string \<Rightarrow> unit sql" where
  "set_group_project_state_ident_v1 pid jid state ident =
     execute (tb_group_projects_update (update_where (\<lambda>p. pr_id p = pid)
       (\<lambda>p. p\<lparr>pr_project_state := state, pr_job_id := jid, pr_project_ident := ident\<rparr>)))"

definition find_group_project_v1 :: "u64 \<Rightarrow> string \<Rightarrow> project_row list sql" where
  "find_group_project_v1 gid name =
     select (\<lambda>ev t. filter (\<lambda>p. pr_owner_id p = gid \<and> pr_project_name p = name) (scan ev (tb_group_projects t)))"

definition set_group_project_name_state_v1 :: "u64 \<Rightarrow> string \<Rightarrow> string \<Rightarrow> unit sql" where
  "set_group_project_name_state_v1 gid pname state =
     execute (tb_group_projects_update (update_where (\<lambda>p. pr_owner_id p = gid \<and> pr_project_name p = pname)
       (pr_project_state_update (\<lambda>_. state))))"

definition check_active_group_v1 :: "string \<Rightarrow> group_row list sql" where
  "check_active_group_v1 pname =
     select (\<lambda>ev t. filter (\<lambda>g. gr_project_name g = pname \<and> gr_group_state g \<in> {''Pending'', ''Dispatching''})
       (scan ev (tb_groups t)))"

definition get_queued_group_v1 :: "string \<Rightarrow> group_row list sql" where
  "get_queued_group_v1 pname =
     select (\<lambda>ev t. filter (\<lambda>g. gr_project_name g = pname \<and> gr_group_state g = ''Queued'') (scan ev (tb_groups t)))"

definition get_queued_groups_v1 :: "group_row list sql" where
  "get_queued_groups_v1 = select (\<lambda>ev t. filter (\<lambda>g. gr_group_state g = ''Queued'') (scan ev (tb_groups t)))"

definition abort_group_v1 :: "u64 \<Rightarrow> unit sql" where
  "abort_group_v1 in_gid =
     execute (\<lambda>t. t\<lparr>
       tb_group_projects := update_where
         (\<lambda>p. pr_owner_id p = in_gid \<and> (pr_project_state p = ''InProgress'' \<or> pr_project_state p = ''NotStarted''))
         (pr_project_state_update (\<lambda>_. ''Failure'')) (tb_group_projects t),
       tb_groups := update_where (\<lambda>g. gr_id g = in_gid) (gr_group_state_update (\<lambda>_. ''Complete'')) (tb_groups t)\<rparr>)"

definition cancel_group_v1 :: "u64 \<Rightarrow> unit sql" where
  "cancel_group_v1 in_gid =
     execute (\<lambda>t. t\<lparr>
       tb_group_projects := update_where (\<lambda>p. pr_owner_id p = in_gid \<and> pr_project_state p = ''NotStarted'')
         (pr_project_state_update (\<lambda>_. ''Canceled'')) (tb_group_projects t),
       tb_groups := update_where (\<lambda>g. gr_id g = in_gid) (gr_group_state_update (\<lambda>_. ''Canceled'')) (tb_groups t)\<rparr>)"

text \<open>SQL \<open>LIKE\<close>: a percent sign stands for any string, an underscore for any character; a backslash quotes.\<close>

fun sql_like :: "string \<Rightarrow> string \<Rightarrow> bool" where
  "sql_like [] s \<longleftrightarrow> s = []"
| "sql_like (c # p) s \<longleftrightarrow>
     (if c = CHR ''%'' then list_ex (\<lambda>i. sql_like p (drop i s)) [0..<Suc (length s)]
      else if c = CHR ''_'' then s \<noteq> [] \<and> sql_like p (tl s)
      else if c = CHR 0x5C then (case p of [] \<Rightarrow> False | d # p \<Rightarrow> s \<noteq> [] \<and> hd s = d \<and> sql_like p (tl s))
      else s \<noteq> [] \<and> hd s = c \<and> sql_like p (tl s))"

definition get_job_groups_for_origin_v1 :: "string \<Rightarrow> group_row list sql" where
  "get_job_groups_for_origin_v1 op_origin =
     select (\<lambda>ev t. sort_key gr_project_name
       (filter (\<lambda>g. sql_like (op_origin @ ''/%'') (gr_project_name g)) (scan ev (tb_groups t))))"

section \<open>Rows and messages\<close>

text \<open>A row with several columns that must be present; reading one of them panics otherwise.\<close>

definition row_to_job :: "externals \<Rightarrow> job_row \<Rightarrow> job job_action" where
  "row_to_job X row =
     and_then (from_result (job_state_from_str (jr_job_state row))) (\<lambda>job_state.
     let name_split = split_on (CHR ''/'') (jr_project_name row)
     in and_then (assert_that (1 < length name_split)) (\<lambda>_.
        if jr_vcs row \<noteq> ''git'' then err UnknownVCS
        else and_then (unwrap (case jr_vcs_arguments row of Some d # _ \<Rightarrow> Some d | _ \<Rightarrow> None)) (\<lambda>vcs_data.
          and_then
            (case jr_vcs_arguments row of
               _ # Some install_id # _ \<Rightarrow>
                 (case parse_u32 install_id of None \<Rightarrow> err ParseVCSInstallationId | Some i \<Rightarrow> ok (Some i))
             | _ \<Rightarrow> ok None) (\<lambda>installation_id.
          and_then
            (case jr_net_error_msg row of
               None \<Rightarrow> ok None
             | Some err_msg \<Rightarrow>
                 and_then (unwrap (jr_net_error_code row)) (\<lambda>err_code.
                   ok (map_option (\<lambda>c. \<lparr>ne_code = c, ne_msg = err_msg\<rparr>) (err_code_from_i32 err_code)))) (\<lambda>error.
          ok \<lparr>jb_id = jr_id row, jb_owner_id = jr_owner_id row, jb_state = job_state,
              jb_project = \<lparr>op_id = jr_project_id row, op_origin_name = name_split ! 0,
                op_package_name = name_split ! 1, op_name = jr_project_name row,
                op_plan_path = jr_project_plan_path row, op_owner_id = jr_project_owner_id row, op_vcs_type = ''git'',
                op_vcs_data = vcs_data, op_vcs_installation_id = installation_id\<rparr>,
              jb_error = error, jb_created_at = ex_rfc3339 X (jr_created_at row),
              jb_build_started_at = map_option (ex_rfc3339 X) (jr_build_started_at row),
              jb_build_finished_at = map_option (ex_rfc3339 X) (jr_build_finished_at row),
              jb_package_ident = map_option origin_ident_from_str (jr_package_ident row),
              jb_is_archived = jr_archived row, jb_integrations = [], jb_channel = jr_channel row,
              jb_project_integrations = [], jb_worker = jr_worker row\<rparr>)))))"

definition row_to_job_graph_package :: "graph_package_row \<Rightarrow> job_graph_package" where
  "row_to_job_graph_package row =
     \<lparr>jp_ident = pk_ident row, jp_deps = pk_deps row, jp_target = (case pk_target row of None \<Rightarrow> [] | Some t \<Rightarrow> t)\<rparr>"

definition row_to_job_group :: "externals \<Rightarrow> group_row \<Rightarrow> job_error + job_group" where
  "row_to_job_group X row =
     map_sum id (\<lambda>group_state. \<lparr>jg_id = gr_id row, jg_state = group_state, jg_projects = [],
         jg_created_at = ex_rfc3339 X (gr_created_at row), jg_project_name = gr_project_name row\<rparr>)
       (group_state_from_str (gr_group_state row))"

definition row_to_job_group_project :: "project_row \<Rightarrow> job_error + job_group_project" where
  "row_to_job_group_project row =
     map_sum id (\<lambda>project_state. \<lparr>gp_name = pr_project_name row, gp_ident = pr_project_ident row, gp_state = project_state,
         gp_job_id = pr_job_id row\<rparr>)
       (project_state_from_str (pr_project_state row))"

definition rows_to_job_group_projects :: "project_row list \<Rightarrow> job_group_project list job_action" where
  "rows_to_job_group_projects = collect (\<lambda>row. from_result (row_to_job_group_project row))"

section \<open>Methods of the data store on jobs and workers\<close>

definition get_shard :: "unit job_action" where
  "get_shard = query Db (execute id)"

definition create_job :: "externals \<Rightarrow> job \<Rightarrow> job job_action" where
  "create_job X job =
     and_then get_shard (\<lambda>_.
     if op_vcs_type (jb_project job) = ''git'' then
       let project = jb_project job;
           install_id = map_option (\<lambda>i. decimal (uint i)) (op_vcs_installation_id project)
       in and_then (query JobCreate (insert_job_v2 (jb_owner_id job) (op_id project) (op_name project)
            (op_owner_id project) (op_plan_path project) (op_vcs_type project) [Some (op_vcs_data project), install_id]
            (jb_channel job))) (row_to_job X)
     else err UnknownVCS)"

definition get_job :: "externals \<Rightarrow> u64 \<Rightarrow> job option job_action" where
  "get_job X job_id =
     and_then get_shard (\<lambda>_.
     and_then (query JobGet (get_job_v1 job_id)) (\<lambda>rows.
     case rows of [] \<Rightarrow> ok None | row # _ \<Rightarrow> and_then (row_to_job X row) (\<lambda>job. ok (Some job))))"

text \<open>\<open>ProjectJobsGet\<close>: the range of a page, and the answer.\<close>

record project_jobs =
  pj_jobs :: "job list"
  pj_start :: u64
  pj_stop :: u64
  pj_count :: u64

definition last_index :: "u64 \<Rightarrow> u64 \<Rightarrow> nat \<Rightarrow> u64" where
  "last_index start stop rows_len = (if rows_len = 0 then stop else start + word_of_nat rows_len - 1)"

definition get_jobs_for_project :: "externals \<Rightarrow> string \<Rightarrow> u64 \<Rightarrow> u64 \<Rightarrow> project_jobs job_action" where
  "get_jobs_for_project X name start stop =
     and_then get_shard (\<lambda>_.
     and_then (query ProjectJobsGet (get_jobs_for_project_v2 name (sint (stop - start + 1)) (sint start))) (\<lambda>rows.
     and_then (collect (\<lambda>(_, row). row_to_job X row) rows) (\<lambda>jobs.
     ok \<lparr>pj_jobs = jobs, pj_start = start, pj_stop = last_index start stop (length rows),
         pj_count = (case rows of [] \<Rightarrow> 0 | _ \<Rightarrow> word_of_int (fst (last rows)))\<rparr>)))"

definition next_pending_job :: "externals \<Rightarrow> string \<Rightarrow> job option job_action" where
  "next_pending_job X worker =
     and_then get_shard (\<lambda>_.
     and_then (query JobPending (next_pending_job_v1 worker)) (\<lambda>rows.
     case rows of [] \<Rightarrow> ok None | row # _ \<Rightarrow> and_then (row_to_job X row) (\<lambda>job. ok (Some job))))"

definition get_cancel_pending_jobs :: "externals \<Rightarrow> job list job_action" where
  "get_cancel_pending_jobs X =
     and_then get_shard (\<lambda>_. and_then (query JobPending get_cancel_pending_jobs_v1) (collect (row_to_job X)))"

definition get_dispatched_jobs :: "externals \<Rightarrow> job list job_action" where
  "get_dispatched_jobs X =
     and_then get_shard (\<lambda>_. and_then (query JobGet get_dispatched_jobs_v1) (collect (row_to_job X)))"

text \<open>A date that is set must parse.\<close>

definition parse_set_date :: "externals \<Rightarrow> string option \<Rightarrow> int option job_action" where
  "parse_set_date X date =
     (case date of None \<Rightarrow> ok None | Some d \<Rightarrow> and_then (unwrap (ex_parse_date X d)) (\<lambda>t. ok (Some t)))"

definition update_job :: "externals \<Rightarrow> job \<Rightarrow> unit job_action" where
  "update_job X job =
     and_then get_shard (\<lambda>_.
     and_then (parse_set_date X (jb_build_started_at job)) (\<lambda>build_started_at.
     and_then (parse_set_date X (jb_build_finished_at job)) (\<lambda>build_finished_at.
     query JobSetState (update_job_v3 (jb_id job) (job_state_to_string (jb_state job)) build_started_at
       build_finished_at (map_option origin_ident_to_string (jb_package_ident job))
       (map_option (err_code_value \<circ> ne_code) (jb_error job)) (map_option ne_msg (jb_error job))))))"

definition mark_as_archived :: "u64 \<Rightarrow> unit job_action" where
  "mark_as_archived job_id = and_then get_shard (\<lambda>_. query JobMarkArchived (mark_as_archived_v1 job_id))"

definition upsert_busy_worker :: "busy_worker \<Rightarrow> unit job_action" where
  "upsert_busy_worker bw =
     and_then get_shard (\<lambda>_.
     query BusyWorkerUpsert (upsert_busy_worker_v1 (bw_ident bw) (bw_job_id bw) (bw_quarantined bw)))"

definition delete_busy_worker :: "busy_worker \<Rightarrow> unit job_action" where
  "delete_busy_worker bw =
     and_then get_shard (\<lambda>_. query BusyWorkerDelete (delete_busy_worker_v1 (bw_ident bw) (bw_job_id bw)))"

definition get_busy_workers :: "busy_worker list job_action" where
  "get_busy_workers = and_then get_shard (\<lambda>_. query BusyWorkersGet get_busy_workers_v1)"

text \<open>A row that does not convert is skipped.\<close>

definition sync_jobs :: "externals \<Rightarrow> job list job_action" where
  "sync_jobs X =
     and_then get_shard (\<lambda>_.
     and_then (query SyncJobs sync_jobs_v2) (\<lambda>rows.
     for_fold (\<lambda>row jobs. match_result (row_to_job X row)
       (\<lambda>r. ok (case r of Inl _ \<Rightarrow> jobs | Inr job \<Rightarrow> jobs @ [job]))) rows []))"

definition set_job_sync :: "u64 \<Rightarrow> unit job_action" where
  "set_job_sync job_id = and_then get_shard (\<lambda>_. query SyncJobs (set_jobs_sync_v2 job_id))"

section \<open>Methods of the data store on packages and groups\<close>

definition create_job_graph_package :: "job_graph_package \<Rightarrow> job_graph_package job_action" where
  "create_job_graph_package msg =
     and_then get_shard (\<lambda>_.
     and_then (query JobGraphPackageInsert (upsert_graph_package_v1 (jp_ident msg) (jp_deps msg) (jp_target msg)))
       (\<lambda>row. ok (row_to_job_graph_package row)))"

definition get_job_graph_packages :: "job_graph_package list job_action" where
  "get_job_graph_packages =
     and_then get_shard (\<lambda>_.
     and_then (query JobGraphPackagesGet get_graph_packages_v1) (\<lambda>rows. ok (map row_to_job_graph_package rows)))"

definition get_job_graph_package :: "string \<Rightarrow> job_graph_package job_action" where
  "get_job_graph_package ident =
     and_then get_shard (\<lambda>_.
     and_then (query JobGraphPackagesGet (get_graph_package_v1 ident)) (\<lambda>rows.
     if rows = [] then err UnknownJobGraphPackage
     else and_then (assert_that (length rows = 1)) (\<lambda>_. ok (row_to_job_graph_package (rows ! 0)))))"

record graph_package_stats =
  gs_plans :: u64
  gs_builds :: u64
  gs_unique_packages :: u64

definition get_job_graph_package_stats :: "externals \<Rightarrow> string \<Rightarrow> graph_package_stats job_action" where
  "get_job_graph_package_stats X origin =
     and_then get_shard (\<lambda>_.
     and_then (query JobGraphPackageStats (count_graph_packages_v1 X origin)) (\<lambda>package_count.
     and_then (query JobGraphPackageStats (count_group_projects_v1 X origin)) (\<lambda>build_count.
     and_then (query JobGraphPackageStats (count_unique_graph_packages_v1 origin)) (\<lambda>up_count.
     ok \<lparr>gs_plans = word_of_nat package_count, gs_builds = word_of_nat build_count,
         gs_unique_packages = word_of_nat up_count\<rparr>))))"

definition is_job_group_active :: "string \<Rightarrow> bool job_action" where
  "is_job_group_active project_name =
     and_then get_shard (\<lambda>_.
     and_then (query JobGroupGet (check_active_group_v1 project_name)) (\<lambda>rows. ok (1 \<le> length rows)))"

text \<open>The group of a row with its projects.\<close>

definition with_projects :: "externals \<Rightarrow> job_error \<Rightarrow> group_row \<Rightarrow> job_group job_action" where
  "with_projects X e row =
     and_then (from_result (row_to_job_group X row)) (\<lambda>group.
     and_then (query e (get_group_projects_for_group_v1 (jg_id group))) (\<lambda>project_rows.
     and_then (rows_to_job_group_projects project_rows) (\<lambda>projects.
     ok (group\<lparr>jg_projects := projects\<rparr>))))"

text \<open>The same for a group that must have projects.\<close>

definition with_some_projects :: "externals \<Rightarrow> group_row \<Rightarrow> job_group job_action" where
  "with_some_projects X row =
     and_then (from_result (row_to_job_group X row)) (\<lambda>group.
     and_then (query JobGroupGet (get_group_projects_for_group_v1 (jg_id group))) (\<lambda>project_rows.
     and_then (assert_that (0 < length project_rows)) (\<lambda>_.
     and_then (rows_to_job_group_projects project_rows) (\<lambda>projects.
     ok (group\<lparr>jg_projects := projects\<rparr>)))))"

definition get_queued_job_group :: "externals \<Rightarrow> string \<Rightarrow> job_group option job_action" where
  "get_queued_job_group X project_name =
     and_then get_shard (\<lambda>_.
     and_then (query JobGroupGet (get_queued_group_v1 project_name)) (\<lambda>rows.
     if rows = [] then ok None
     else and_then (assert_that (length rows = 1)) (\<lambda>_.
       and_then (with_some_projects X (rows ! 0)) (\<lambda>group. ok (Some group)))))"

definition get_queued_job_groups :: "externals \<Rightarrow> job_group list job_action" where
  "get_queued_job_groups X =
     and_then get_shard (\<lambda>_.
     and_then (query JobGroupGet get_queued_groups_v1) (collect (\<lambda>row. from_result (row_to_job_group X row))))"

definition create_job_group :: "externals \<Rightarrow> string \<Rightarrow> string \<Rightarrow> (string \<times> string) list \<Rightarrow> job_group job_action" where
  "create_job_group X origin package project_tuples =
     and_then get_shard (\<lambda>_.
     and_then (assert_that (project_tuples \<noteq> [])) (\<lambda>_.
     let root_project = origin @ ''/'' @ package
     in and_then (query JobGroupCreate (insert_group_v2 root_project (map fst project_tuples) (map snd project_tuples)))
       (\<lambda>row. and_then (from_result (row_to_job_group X row)) (\<lambda>group.
         ok (group\<lparr>jg_projects := map (\<lambda>(name, ident).
           \<lparr>gp_name = name, gp_ident = ident, gp_state = NotStarted, gp_job_id = 0\<rparr>) project_tuples\<rparr>)))))"

definition cancel_job_group :: "u64 \<Rightarrow> unit job_action" where
  "cancel_job_group group_id = and_then get_shard (\<lambda>_. query JobGroupCancel (cancel_group_v1 group_id))"

definition get_job_group_origin :: "externals \<Rightarrow> string \<Rightarrow> job_group list job_action" where
  "get_job_group_origin X origin =
     and_then get_shard (\<lambda>_.
     and_then (query JobGroupOriginGet (get_job_groups_for_origin_v1 origin)) (collect (with_projects X JobGroupGet)))"

definition get_job_group :: "externals \<Rightarrow> u64 \<Rightarrow> job_group option job_action" where
  "get_job_group X group_id =
     and_then get_shard (\<lambda>_.
     and_then (query JobGroupGet (get_group_v1 group_id)) (\<lambda>rows.
     if rows = [] then ok None
     else and_then (assert_that (length rows = 1)) (\<lambda>_.
       and_then (with_some_projects X (rows ! 0)) (\<lambda>group. ok (Some group)))))"

definition abort_job_group :: "u64 \<Rightarrow> unit job_action" where
  "abort_job_group group_id = and_then get_shard (\<lambda>_. query JobGroupGet (abort_group_v1 group_id))"

definition set_job_group_state :: "u64 \<Rightarrow> group_state \<Rightarrow> unit job_action" where
  "set_job_group_state group_id group_state =
     and_then get_shard (\<lambda>_. query JobGroupSetState (set_group_state_v1 group_id (group_state_to_string group_state)))"

definition set_job_group_project_state :: "u64 \<Rightarrow> string \<Rightarrow> project_state \<Rightarrow> unit job_action" where
  "set_job_group_project_state group_id project_name project_state =
     and_then get_shard (\<lambda>_. query JobGroupProjectSetState
       (set_group_project_name_state_v1 group_id project_name (project_state_to_string project_state)))"

text \<open>The state of a project that follows from the state of its job.\<close>

fun project_state_of_job :: "job_state \<Rightarrow> string" where
  "project_state_of_job Complete = ''Success''"
| "project_state_of_job Rejected = ''NotStarted''"
| "project_state_of_job Failed = ''Failure''"
| "project_state_of_job Pending = ''InProgress''"
| "project_state_of_job Processing = ''InProgress''"
| "project_state_of_job Dispatched = ''InProgress''"
| "project_state_of_job CancelPending = ''Canceled''"
| "project_state_of_job CancelProcessing = ''Canceled''"
| "project_state_of_job CancelComplete = ''Canceled''"

definition set_job_group_job_state :: "job \<Rightarrow> unit job_action" where
  "set_job_group_job_state job =
     and_then get_shard (\<lambda>_.
     and_then (query JobGroupProjectSetState (find_group_project_v1 (jb_owner_id job) (op_name (jb_project job)))) (\<lambda>rows.
     if rows = [] then err UnknownJobGroupProjectState
     else and_then (assert_that (length rows = 1)) (\<lambda>_.
       let pid = pr_id (rows ! 0); state = project_state_of_job (jb_state job)
       in if jb_state job = Complete then
            let ident = (case jb_package_ident job of Some i \<Rightarrow> i | None \<Rightarrow> \<lparr>oi_origin = [], oi_name = [], oi_version = [], oi_release = []\<rparr>)
            in query JobGroupProjectSetState
                 (set_group_project_state_ident_v1 pid (jb_id job) state (origin_ident_to_string ident))
          else query JobGroupProjectSetState (set_group_project_state_v1 pid (jb_id job) state))))"

definition pending_job_groups :: "externals \<Rightarrow> nat \<Rightarrow> job_group list job_action" where
  "pending_job_groups X n =
     and_then get_shard (\<lambda>_.
     and_then (query JobGroupPending (pending_groups_v1 n)) (collect (with_projects X JobGroupPending)))"

end
