(* ===== verification/Scheduler.thy ===== *)
theory Scheduler
  imports Job_Store
begin

text \<open>
  The scheduler thread of the job server, \<open>components/builder-jobsrv/src/server/scheduler.rs\<close>, with
  the log of \<open>components/builder-core/src/logger.rs\<close> where it can panic. The origin service, which
  is asked for projects and integrations over the network, is the argument \<open>origins\<close>. Writing
  the log file is taken to succeed.
\<close>

record origins =
  og_project :: "string \<Rightarrow> net_error + origin_project"
  og_integrations :: "string \<Rightarrow> net_error + integration list"
  og_project_integrations :: "string \<Rightarrow> string \<Rightarrow> net_error + project_integration list"
  og_decrypt :: "string \<Rightarrow> string option"

definition unwrap_result :: "'a job_action \<Rightarrow> 'a job_action" where
  "unwrap_result m = match_result m (\<lambda>r. case r of Inl _ \<Rightarrow> panic | Inr x \<Rightarrow> ok x)"

text \<open>\<open>Logger::log_group_job\<close>: dates must parse, and \<open>to_std\<close> fails on negative durations.\<close>

definition log_group_job :: "externals \<Rightarrow> job_group \<Rightarrow> job \<Rightarrow> unit job_action" where
  "log_group_job X grp job =
     (case (jb_build_started_at job, jb_build_finished_at job) of
        (Some started, Some finished) \<Rightarrow>
          and_then (unwrap (ex_parse_date X started)) (\<lambda>start.
          and_then (unwrap (ex_parse_date X finished)) (\<lambda>stop.
          and_then (unwrap (ex_parse_date X (jg_created_at grp))) (\<lambda>group_start.
          and_then (assert_that (0 \<le> start - group_start)) (\<lambda>_. assert_that (0 \<le> stop - start)))))
      | _ \<Rightarrow> ok ())"

definition process_queue :: "externals \<Rightarrow> unit job_action" where
  "process_queue X =
     and_then (get_queued_job_groups X) (for_each (\<lambda>grp.
       and_then (assert_that (jg_state grp = GroupQueued)) (\<lambda>_.
       and_then (is_job_group_active (jg_project_name grp)) (\<lambda>active.
       if \<not> active then set_job_group_state (jg_id grp) GroupPending else ok ()))))"

section \<open>Which projects can be built\<close>

definition check_dispatchable :: "job_group \<Rightarrow> string \<Rightarrow> bool" where
  "check_dispatchable grp name =
     list_all (\<lambda>project. \<not> (gp_name project = name \<and> gp_state project \<noteq> Success)) (jg_projects grp)"

text \<open>The loop over the dependencies stops at the first that is not built; \<open>None\<close> is the failed assertion.\<close>

fun deps_dispatchable :: "job_group \<Rightarrow> string list \<Rightarrow> bool option" where
  "deps_dispatchable grp [] = Some True"
| "deps_dispatchable grp (dep # deps) =
     do { name \<leftarrow> short_name dep;
          if check_dispatchable grp name then deps_dispatchable grp deps else Some False }"

definition dispatchable_projects :: "job_group \<Rightarrow> job_group_project list job_action" where
  "dispatchable_projects grp =
     for_fold (\<lambda>project projects.
       and_then
         (if gp_ident project = [] then ok True
          else and_then (get_job_graph_package (gp_ident project)) (\<lambda>package.
            unwrap (deps_dispatchable grp (jp_deps package)))) (\<lambda>dispatchable.
       ok (if dispatchable then projects @ [project] else projects)))
       (filter (\<lambda>x. gp_state x = NotStarted) (jg_projects grp)) []"

fun any_skipped :: "string list \<Rightarrow> string list \<Rightarrow> bool option" where
  "any_skipped skipped [] = Some False"
| "any_skipped skipped (dep # deps) =
     do { name \<leftarrow> short_name dep; if name \<in> set skipped then Some True else any_skipped skipped deps }"

text \<open>The keys of the map \<open>skipped\<close>, which also are the result.\<close>

definition skip_projects :: "job_group \<Rightarrow> string \<Rightarrow> string list job_action" where
  "skip_projects grp project_name =
     for_fold (\<lambda>project skipped.
       match_result (get_job_graph_package (gp_ident project)) (\<lambda>r. case r of
         Inl _ \<Rightarrow> ok skipped
       | Inr package \<Rightarrow>
           and_then (unwrap (any_skipped skipped (jp_deps package))) (\<lambda>skip.
           if skip then
             and_then (set_job_group_project_state (jg_id grp) (gp_name project) Skipped) (\<lambda>_.
             ok (List.insert (gp_name project) skipped))
           else ok skipped)))
       (filter (\<lambda>x. gp_state x = NotStarted) (jg_projects grp)) [project_name]"

section \<open>Dispatching a group\<close>

definition bldr_channel_name :: "u64 \<Rightarrow> string" where
  "bldr_channel_name n = ''bldr-'' @ show_u64 n"

definition schedule_job :: "externals \<Rightarrow> origins \<Rightarrow> u64 \<Rightarrow> string \<Rightarrow> job option job_action" where
  "schedule_job X O' group_id project_name =
     (case og_project O' project_name of
        Inl _ \<Rightarrow> ok None
      | Inr project \<Rightarrow>
          and_then (create_job X (job_of_spec
            \<lparr>js_owner_id = group_id, js_project = project, js_channel = Some (bldr_channel_name group_id)\<rparr>)) (\<lambda>job.
          and_then notify_work (\<lambda>_. ok (Some job))))"

text \<open>The loop over the dispatchable projects; \<open>skipped\<close> are the keys of the map.\<close>

fun dispatch_projects ::
  "externals \<Rightarrow> origins \<Rightarrow> job_group \<Rightarrow> job_group_project list \<Rightarrow> string list \<Rightarrow> unit job_action" where
  "dispatch_projects X O' grp [] skipped = ok ()"
| "dispatch_projects X O' grp (project # dispatchable) skipped =
     (if gp_name project \<in> set skipped then dispatch_projects X O' grp dispatchable skipped
      else
        and_then (assert_that (gp_state project = NotStarted)) (\<lambda>_.
        match_result (schedule_job X O' (jg_id grp) (gp_name project)) (\<lambda>r. case r of
          Inr (Some job) \<Rightarrow>
            and_then (unwrap_result (set_job_group_job_state job)) (\<lambda>_. dispatch_projects X O' grp dispatchable skipped)
        | Inr None \<Rightarrow>
            and_then (set_job_group_project_state (jg_id grp) (gp_name project) Skipped) (\<lambda>_.
            and_then (skip_projects grp (gp_name project)) (\<lambda>skip_list.
            dispatch_projects X O' grp dispatchable (skip_list @ skipped)))
        | Inl _ \<Rightarrow>
            and_then (set_job_group_state (jg_id grp) GroupFailed) (\<lambda>_.
            set_job_group_project_state (jg_id grp) (gp_name project) Failure))))"

definition dispatch_group :: "externals \<Rightarrow> origins \<Rightarrow> job_group \<Rightarrow> unit job_action" where
  "dispatch_group X O' grp =
     and_then (dispatchable_projects grp) (\<lambda>dispatchable. dispatch_projects X O' grp dispatchable [])"

definition get_group :: "externals \<Rightarrow> u64 \<Rightarrow> job_group job_action" where
  "get_group X group_id =
     and_then (get_job_group X group_id) (\<lambda>group_opt.
     case group_opt of Some grp \<Rightarrow> ok grp | None \<Rightarrow> err UnknownJobGroup)"

text \<open>The state a dispatching group gets; \<open>dispatchable\<close> says whether a project can be dispatched.\<close>

definition new_group_state :: "job_group_project list \<Rightarrow> bool \<Rightarrow> group_state" where
  "new_group_state projects dispatchable =
     (let count = (\<lambda>state. length (filter (\<lambda>p. gp_state p = state) projects));
          failed = count Failure; succeeded = count Success; skipped = count Skipped; canceled = count Canceled
      in if succeeded + skipped + failed = length projects then GroupComplete
         else if canceled > 0 then GroupCanceled
         else if dispatchable then GroupPending
         else GroupDispatching)"

definition update_group_state :: "externals \<Rightarrow> u64 \<Rightarrow> unit job_action" where
  "update_group_state X group_id =
     and_then (get_group X group_id) (\<lambda>grp.
     if jg_state grp = GroupDispatching then
       and_then (dispatchable_projects grp) (\<lambda>dispatchable.
       let new_state = new_group_state (jg_projects grp) (0 < length dispatchable)
       in and_then (set_job_group_state group_id new_state) (\<lambda>_.
          if new_state = GroupPending then notify_scheduler else ok ()))
     else ok ())"

text \<open>One round of the loop of \<open>process_work\<close> for a group.\<close>

definition work_on_group :: "externals \<Rightarrow> origins \<Rightarrow> job_group \<Rightarrow> unit job_action" where
  "work_on_group X O' grp =
     and_then (assert_that (jg_state grp = GroupDispatching)) (\<lambda>_.
     and_then (dispatch_group X O' grp) (\<lambda>_. update_group_state X (jg_id grp)))"

partial_function (option) sched_process_work :: "externals \<Rightarrow> origins \<Rightarrow> unit job_action" where
  "sched_process_work X O' w =
     (case pending_job_groups X 1 w of
        None \<Rightarrow> None
      | Some (Inl e, w) \<Rightarrow> Some (Inl e, w)
      | Some (Inr groups, w) \<Rightarrow>
          if groups = [] then Some (Inr (), w)
          else case work_on_group X O' (last groups) w of
            None \<Rightarrow> None
          | Some (Inl e, w) \<Rightarrow> Some (Inl e, w)
          | Some (Inr _, w) \<Rightarrow> sched_process_work X O' w)"

section \<open>The status of jobs\<close>

definition process_job_sync :: "externals \<Rightarrow> job \<Rightarrow> unit job_action" where
  "process_job_sync X job =
     match_result (get_group X (jb_owner_id job)) (\<lambda>r. case r of
       Inl e \<Rightarrow> if e = UnknownJobGroup then set_job_sync (jb_owner_id job) else err e
     | Inr grp \<Rightarrow>
         and_then (log_group_job X grp job) (\<lambda>_.
         match_result (set_job_group_job_state job) (\<lambda>r. case r of
           Inl _ \<Rightarrow> ok ()
         | Inr _ \<Rightarrow>
             and_then
               (if jb_state job = Failed
                then match_result (skip_projects grp (op_name (jb_project job))) (\<lambda>_. ok ()) else ok ()) (\<lambda>_.
             and_then
               (if jb_state job \<in> {Complete, Failed, CancelComplete}
                then update_group_state X (jb_owner_id job) else ok ()) (\<lambda>_.
             set_job_sync (jb_id job))))))"

definition process_status :: "externals \<Rightarrow> unit job_action" where
  "process_status X = and_then (sync_jobs X) (for_each (process_job_sync X))"

text \<open>One round of \<open>ScheduleMgr::run\<close>; a notice that was there at the start is consumed at the end.\<close>

definition scheduler_pass :: "externals \<Rightarrow> origins \<Rightarrow> unit job_action" where
  "scheduler_pass X O' w =
     and_then (warn_on_error (process_status X)) (\<lambda>_.
     and_then (warn_on_error (process_queue X)) (\<lambda>_.
     and_then (warn_on_error (sched_process_work X O')) (\<lambda>_.
     if 0 < w_scheduler_notices w
     then warn_on_error (send_on (w_scheduler_notices_update (\<lambda>n. n - 1))) else ok ()))) w"

end
