(* ===== verification/Worker_Manager.thy ===== *)
theory Worker_Manager
  imports Scheduler
begin

text \<open>
  The worker manager thread of the job server,
  \<open>components/builder-jobsrv/src/server/worker_manager.rs\<close>. The \<open>LinkedHashMap\<close> of the workers is the
  list of its entries in their order: \<open>insert\<close> puts an entry at the back. Instants and
  durations are integers of milliseconds. The messages that arrive on the sockets are arguments,
  \<open>Inl\<close> when receiving or decoding fails.
\<close>

definition WORKER_TIMEOUT_MS :: u64 where
  "WORKER_TIMEOUT_MS = 33000"

definition DEFAULT_POLL_TIMEOUT_MS :: u64 where
  "DEFAULT_POLL_TIMEOUT_MS = 60000"

definition JOB_TIMEOUT_CONVERT_MS :: u64 where
  "JOB_TIMEOUT_CONVERT_MS = 60000"

section \<open>A worker\<close>

definition worker_new :: "string \<Rightarrow> int \<Rightarrow> worker" where
  "worker_new ident now =
     \<lparr>wk_ident = ident, wk_state = Ready, wk_expiry = now + uint WORKER_TIMEOUT_MS, wk_job_id = None, wk_job_expiry = None\<rparr>"

definition worker_ready :: "int \<Rightarrow> worker \<Rightarrow> worker" where
  "worker_ready now wk =
     wk\<lparr>wk_state := Ready, wk_expiry := now + uint WORKER_TIMEOUT_MS, wk_job_id := None, wk_job_expiry := None\<rparr>"

definition worker_busy :: "u64 \<Rightarrow> u64 \<Rightarrow> int \<Rightarrow> worker \<Rightarrow> worker option" where
  "worker_busy job_id job_timeout now wk =
     (let wk = wk\<lparr>wk_state := Busy, wk_expiry := now + uint WORKER_TIMEOUT_MS\<rparr>
      in case wk_job_id wk of
           None \<Rightarrow> Some (wk\<lparr>wk_job_id := Some job_id,
             wk_job_expiry := Some (now + uint (job_timeout * JOB_TIMEOUT_CONVERT_MS))\<rparr>)
         | Some j \<Rightarrow> if j = job_id then Some wk else None)"

definition worker_refresh :: "int \<Rightarrow> worker \<Rightarrow> worker" where
  "worker_refresh now wk = wk\<lparr>wk_expiry := now + uint WORKER_TIMEOUT_MS\<rparr>"

definition is_expired :: "int \<Rightarrow> worker \<Rightarrow> bool" where
  "is_expired now wk \<longleftrightarrow> wk_expiry wk < now"

definition is_job_expired :: "int \<Rightarrow> worker \<Rightarrow> bool" where
  "is_job_expired now wk \<longleftrightarrow> (case wk_job_expiry wk of None \<Rightarrow> False | Some t \<Rightarrow> t < now)"

section \<open>The table of workers\<close>

definition lhm_remove :: "'k \<Rightarrow> ('k \<times> 'v) list \<Rightarrow> ('k \<times> 'v) list" where
  "lhm_remove k m = filter (\<lambda>e. fst e \<noteq> k) m"

definition lhm_insert :: "'k \<Rightarrow> 'v \<Rightarrow> ('k \<times> 'v) list \<Rightarrow> ('k \<times> 'v) list" where
  "lhm_insert k v m = lhm_remove k m @ [(k, v)]"

definition instant_now :: "int job_action" where
  "instant_now w = Some (Inr (w_instant w), w)"

definition the_workers :: "(string \<times> worker) list job_action" where
  "the_workers w = Some (Inr (w_workers w), w)"

definition change_workers :: "((string \<times> worker) list \<Rightarrow> (string \<times> worker) list) \<Rightarrow> unit job_action" where
  "change_workers f w = Some (Inr (), w_workers_update f w)"

definition load_workers :: "u64 \<Rightarrow> unit job_action" where
  "load_workers job_timeout =
     and_then get_busy_workers (for_each (\<lambda>worker.
       and_then instant_now (\<lambda>now.
       and_then (unwrap (worker_busy (bw_job_id worker) job_timeout now (worker_new (bw_ident worker) now))) (\<lambda>bw.
       change_workers (lhm_insert (bw_ident worker) bw)))))"

definition busy_row :: "worker \<Rightarrow> busy_worker job_action" where
  "busy_row worker =
     and_then (unwrap (wk_job_id worker)) (\<lambda>job_id.
     ok \<lparr>bw_ident = wk_ident worker, bw_job_id = job_id, bw_quarantined = False\<rparr>)"

definition save_worker :: "worker \<Rightarrow> unit job_action" where
  "save_worker worker = and_then (busy_row worker) upsert_busy_worker"

definition delete_worker :: "worker \<Rightarrow> unit job_action" where
  "delete_worker worker = and_then (busy_row worker) delete_busy_worker"

text \<open>\<open>workers.iter().find(..)\<close> by the job of a worker.\<close>

definition worker_of_job :: "u64 \<Rightarrow> (string \<times> worker) list \<Rightarrow> (string \<times> worker) option" where
  "worker_of_job job_id = find (\<lambda>t. wk_job_id (snd t) = Some job_id)"

definition requeue_jobs :: "externals \<Rightarrow> unit job_action" where
  "requeue_jobs X =
     and_then (get_dispatched_jobs X) (for_each (\<lambda>job.
       and_then the_workers (\<lambda>workers.
       if worker_of_job (jb_id job) workers = None then update_job X (job\<lparr>jb_state := Pending\<rparr>) else ok ())))"

section \<open>Commands for workers\<close>

text \<open>Four frames: the worker, an empty frame, the command, and the job.\<close>

definition send_command :: "worker_operation \<Rightarrow> job \<Rightarrow> string \<Rightarrow> unit job_action" where
  "send_command op job worker_ident =
     and_then (send_on id) (\<lambda>_.
     and_then (send_on id) (\<lambda>_.
     and_then (send_on id) (\<lambda>_.
     send_on (w_commands_update (\<lambda>cs. cs @ [(worker_ident, op, job)])))))"

definition worker_cancel_job :: "job \<Rightarrow> string \<Rightarrow> unit job_action" where
  "worker_cancel_job = send_command CancelJob"

definition worker_start_job :: "job \<Rightarrow> string \<Rightarrow> unit job_action" where
  "worker_start_job = send_command StartJob"

text \<open>Both callers of \<open>worker_cancel_job\<close> record its outcome.\<close>

definition cancel_on_worker :: "externals \<Rightarrow> job \<Rightarrow> string \<Rightarrow> unit job_action" where
  "cancel_on_worker X job worker_ident =
     match_result (worker_cancel_job job worker_ident) (\<lambda>r.
     update_job X (job\<lparr>jb_state := (case r of Inr _ \<Rightarrow> CancelProcessing | Inl _ \<Rightarrow> CancelComplete)\<rparr>))"

definition process_cancelations :: "externals \<Rightarrow> unit job_action" where
  "process_cancelations X =
     and_then (get_cancel_pending_jobs X) (for_each (\<lambda>job.
       and_then the_workers (\<lambda>workers.
       case worker_of_job (jb_id job) workers of
         None \<Rightarrow> update_job X (job\<lparr>jb_state := CancelComplete\<rparr>)
       | Some t \<Rightarrow> cancel_on_worker X job (fst t))))"

definition add_integrations_to_job :: "origins \<Rightarrow> job \<Rightarrow> job" where
  "add_integrations_to_job O' job =
     (case og_integrations O' (op_origin_name (jb_project job)) of
        Inl _ \<Rightarrow> job
      | Inr is \<Rightarrow> job\<lparr>jb_integrations :=
          List.map_filter (\<lambda>i. map_option (\<lambda>plaintext. i\<lparr>in_body := plaintext\<rparr>) (og_decrypt O' (in_body i))) is\<rparr>)"

definition add_project_integrations_to_job :: "origins \<Rightarrow> job \<Rightarrow> job" where
  "add_project_integrations_to_job O' job =
     (case og_project_integrations O' (op_origin_name (jb_project job)) (op_package_name (jb_project job)) of
        Inl _ \<Rightarrow> job
      | Inr is \<Rightarrow> job\<lparr>jb_project_integrations := is\<rparr>)"

text \<open>
  One round of the loop of \<open>process_work\<close> once a ready worker and a job were found; the result says
  whether the loop goes on.
\<close>

definition start_on_worker :: "externals \<Rightarrow> origins \<Rightarrow> u64 \<Rightarrow> job \<Rightarrow> string \<Rightarrow> bool job_action" where
  "start_on_worker X O' job_timeout job worker_ident =
     (let job = add_project_integrations_to_job O' (add_integrations_to_job O' job)
      in match_result (worker_start_job job worker_ident) (\<lambda>r. case r of
           Inr _ \<Rightarrow>
             and_then the_workers (\<lambda>workers.
             and_then (unwrap (map_of workers worker_ident)) (\<lambda>worker.
             and_then (change_workers (lhm_remove worker_ident)) (\<lambda>_.
             and_then instant_now (\<lambda>now.
             and_then (unwrap (worker_busy (jb_id job) job_timeout now worker)) (\<lambda>worker.
             and_then (save_worker worker) (\<lambda>_.
             and_then (change_workers (lhm_insert worker_ident worker)) (\<lambda>_. ok True)))))))
         | Inl _ \<Rightarrow> and_then (update_job X (job\<lparr>jb_state := Pending\<rparr>)) (\<lambda>_. ok False)))"

partial_function (option) mgr_process_work :: "externals \<Rightarrow> origins \<Rightarrow> u64 \<Rightarrow> unit job_action" where
  "mgr_process_work X O' job_timeout w =
     (case find (\<lambda>t. wk_state (snd t) = Ready) (w_workers w) of
        None \<Rightarrow> Some (Inr (), w)
      | Some t \<Rightarrow>
          (case next_pending_job X (fst t) w of
             None \<Rightarrow> None
           | Some (Inl e, w) \<Rightarrow> Some (Inl e, w)
           | Some (Inr None, w) \<Rightarrow> Some (Inr (), w)
           | Some (Inr (Some job), w) \<Rightarrow>
               (case start_on_worker X O' job_timeout job (fst t) w of
                  None \<Rightarrow> None
                | Some (Inl e, w) \<Rightarrow> Some (Inl e, w)
                | Some (Inr go_on, w) \<Rightarrow> if go_on then mgr_process_work X O' job_timeout w else Some (Inr (), w))))"

section \<open>Expiry and heartbeats\<close>

definition requeue_job :: "externals \<Rightarrow> u64 \<Rightarrow> unit job_action" where
  "requeue_job X job_id =
     and_then (get_job X job_id) (\<lambda>job_opt. case job_opt of
       None \<Rightarrow> ok ()
     | Some job \<Rightarrow>
         (case jb_state job of
            Processing \<Rightarrow> update_job X (job\<lparr>jb_state := Pending\<rparr>)
          | Dispatched \<Rightarrow> update_job X (job\<lparr>jb_state := Pending\<rparr>)
          | CancelPending \<Rightarrow> update_job X (job\<lparr>jb_state := CancelComplete\<rparr>)
          | CancelProcessing \<Rightarrow> update_job X (job\<lparr>jb_state := CancelComplete\<rparr>)
          | _ \<Rightarrow> ok ()))"

definition expire_worker :: "externals \<Rightarrow> worker \<Rightarrow> unit job_action" where
  "expire_worker X worker =
     (if wk_state worker = Busy then
        and_then (unwrap (wk_job_id worker)) (\<lambda>job_id.
        and_then (requeue_job X job_id) (\<lambda>_. delete_worker worker))
      else ok ())"

partial_function (option) expire_workers :: "externals \<Rightarrow> unit job_action" where
  "expire_workers X w =
     (case w_workers w of
        [] \<Rightarrow> Some (Inr (), w)
      | t # rest \<Rightarrow>
          if \<not> is_expired (w_instant w) (snd t) then Some (Inr (), w)
          else case expire_worker X (snd t) (w\<lparr>w_workers := rest\<rparr>) of
            None \<Rightarrow> None
          | Some (Inl e, w) \<Rightarrow> Some (Inl e, w)
          | Some (Inr _, w) \<Rightarrow> expire_workers X w)"

definition mgr_cancel_job :: "externals \<Rightarrow> u64 \<Rightarrow> string \<Rightarrow> unit job_action" where
  "mgr_cancel_job X job_id worker_ident =
     and_then (get_job X job_id) (\<lambda>job_opt. case job_opt of
       None \<Rightarrow> ok ()
     | Some job \<Rightarrow> cancel_on_worker X job worker_ident)"

definition is_job_complete :: "externals \<Rightarrow> u64 \<Rightarrow> bool job_action" where
  "is_job_complete X job_id =
     and_then (get_job X job_id) (\<lambda>job_opt. ok (case job_opt of
       None \<Rightarrow> False
     | Some job \<Rightarrow> jb_state job \<in> {Complete, Failed, CancelComplete, Rejected}))"

record heartbeat =
  hb_endpoint :: string
  hb_state :: worker_state

text \<open>What a heartbeat does to the worker it comes from; \<open>None\<close> when the heartbeat is not processed.\<close>

definition beat :: "externals \<Rightarrow> worker_state \<Rightarrow> string \<Rightarrow> worker \<Rightarrow> worker option job_action" where
  "beat X state worker_ident worker =
     (case (wk_state worker, state) of
        (Ready, Busy) \<Rightarrow> ok None
      | (Busy, Busy) \<Rightarrow>
          and_then (unwrap (wk_job_id worker)) (\<lambda>job_id.
          and_then instant_now (\<lambda>now.
          and_then (if is_job_expired now worker then mgr_cancel_job X job_id worker_ident else ok ()) (\<lambda>_.
          and_then instant_now (\<lambda>now. ok (Some (worker_refresh now worker))))))
      | (Busy, Ready) \<Rightarrow>
          and_then (unwrap (wk_job_id worker)) (\<lambda>job_id.
          and_then (is_job_complete X job_id) (\<lambda>complete.
          if \<not> complete then and_then instant_now (\<lambda>now. ok (Some (worker_refresh now worker)))
          else
            and_then (delete_worker worker) (\<lambda>_.
            and_then instant_now (\<lambda>now. ok (Some (worker_ready now worker))))))
      | (Ready, Ready) \<Rightarrow> and_then instant_now (\<lambda>now. ok (Some (worker_ready now worker))))"

definition process_heartbeat :: "externals \<Rightarrow> job_error + heartbeat \<Rightarrow> unit job_action" where
  "process_heartbeat X received =
     and_then (from_result received) (\<lambda>heartbeat.
     let worker_ident = hb_endpoint heartbeat
     in and_then the_workers (\<lambda>workers.
        and_then (change_workers (lhm_remove worker_ident)) (\<lambda>_.
        and_then instant_now (\<lambda>now.
        case (case map_of workers worker_ident of
                Some worker \<Rightarrow> Some worker
              | None \<Rightarrow> if hb_state heartbeat = Ready then Some (worker_new worker_ident now) else None) of
          None \<Rightarrow> ok ()
        | Some worker \<Rightarrow>
            and_then (beat X (hb_state heartbeat) worker_ident worker) (\<lambda>beaten. case beaten of
              None \<Rightarrow> ok ()
            | Some worker \<Rightarrow>
                and_then instant_now (\<lambda>now.
                and_then (assert_that (\<not> is_expired now worker)) (\<lambda>_.
                change_workers (lhm_insert worker_ident worker))))))))"

definition process_job_status :: "externals \<Rightarrow> job_error + job \<Rightarrow> unit job_action" where
  "process_job_status X received =
     and_then (from_result received) (\<lambda>job.
     and_then (update_job X job) (\<lambda>_. notify_scheduler))"

section \<open>The loop\<close>

definition start_manager :: "externals \<Rightarrow> u64 \<Rightarrow> unit job_action" where
  "start_manager X job_timeout = and_then (load_workers job_timeout) (\<lambda>_. requeue_jobs X)"

text \<open>
  What arrives before one round of \<open>WorkerMgr::run\<close>, and the two variables of the loop.
\<close>

record mgr_input =
  mi_heartbeat :: "(job_error + heartbeat) option"
  mi_status :: "(job_error + job) option"
  mi_notice :: bool

definition mgr_pass :: "externals \<Rightarrow> origins \<Rightarrow> u64 \<Rightarrow> mgr_input \<Rightarrow> bool \<times> int \<Rightarrow> (bool \<times> int) job_action" where
  "mgr_pass X O' job_timeout input vars =
     and_then (case mi_heartbeat input of None \<Rightarrow> ok () | Some hb \<Rightarrow> warn_on_error (process_heartbeat X hb)) (\<lambda>_.
     and_then (warn_on_error (expire_workers X)) (\<lambda>_.
     and_then (case mi_status input of None \<Rightarrow> ok () | Some job \<Rightarrow> warn_on_error (process_job_status X job)) (\<lambda>_.
     and_then (if mi_notice input then warn_on_error (send_on (w_worker_notices_update (\<lambda>n. n - 1))) else ok ()) (\<lambda>_.
     let process_work = (fst vars \<or> mi_notice input)
     in and_then instant_now (\<lambda>now.
        if process_work \<or> snd vars + uint DEFAULT_POLL_TIMEOUT_MS < now then
          and_then (warn_on_error (process_cancelations X)) (\<lambda>_.
          and_then (warn_on_error (mgr_process_work X O' job_timeout)) (\<lambda>_.
          ok (process_work, now)))
        else ok (process_work, snd vars))))))"

end
