(* ===== verification/Job_Server.thy ===== *)
theory Job_Server
  imports Worker_Manager
begin

text \<open>
  The request handlers of the job server, \<open>components/builder-jobsrv/src/server/handlers.rs\<close>, its
  start in \<open>server/mod.rs\<close>, and the package graphs per target of
  \<open>components/builder-core/src/target_graph.rs\<close>. A handler takes the decoded request and returns its
  reply. The handlers that use the graph take it as an argument; the graph library is the argument
  \<open>L\<close>. The archive and the directory of logs are arguments of the handler that reads them.
\<close>

section \<open>Package graphs per target\<close>

type_synonym 'g target_graph = "(package_target, 'g package_graph) hmap"

definition target_graph_new :: "'g graph_lib \<Rightarrow> 'g target_graph option" where
  "target_graph_new L =
     fold_opt (\<lambda>target_str graphs. case target_from_str target_str of
       Inr target \<Rightarrow> Some (hm_insert target (package_graph_new L) graphs) | Inl _ \<Rightarrow> None)
       [''x86_64-linux'', ''x86_64-windows''] hm_new"

definition tg_graph :: "string \<Rightarrow> 'g target_graph \<Rightarrow> 'g package_graph option" where
  "tg_graph target_str tg = (case target_from_str target_str of Inr target \<Rightarrow> hm_get tg target | Inl _ \<Rightarrow> None)"

text \<open>Writing back the graph that \<open>graph_mut\<close> borrowed.\<close>

definition tg_put :: "string \<Rightarrow> 'g package_graph \<Rightarrow> 'g target_graph \<Rightarrow> 'g target_graph" where
  "tg_put target_str pg tg = (case target_from_str target_str of Inr target \<Rightarrow> hm_insert target pg tg | Inl _ \<Rightarrow> tg)"

definition tg_extend :: "'g graph_lib \<Rightarrow> job_graph_package \<Rightarrow> 'g target_graph \<Rightarrow> 'g target_graph option" where
  "tg_extend L p tg =
     (case tg_graph (jp_target p) tg of
        None \<Rightarrow> Some tg
      | Some pg \<Rightarrow> do { (_, pg) \<leftarrow> Package_Graph.extend L p pg; Some (tg_put (jp_target p) pg tg) })"

definition tg_build :: "'g graph_lib \<Rightarrow> job_graph_package list \<Rightarrow> 'g target_graph \<Rightarrow>
    ((package_target \<times> nat \<times> nat) list \<times> 'g target_graph) option" where
  "tg_build L packages tg = do {
     tg \<leftarrow> fold_opt (tg_extend L) packages tg;
     Some (map (\<lambda>(target, pg). (target, st_node_count (pg_stats L pg), st_edge_count (pg_stats L pg))) tg, tg)
   }"

text \<open>\<open>app_init\<close>: the graph is built from all packages of the database.\<close>

definition app_init :: "'g graph_lib \<Rightarrow> 'g target_graph job_action" where
  "app_init L =
     and_then (unwrap (target_graph_new L)) (\<lambda>tg.
     and_then get_job_graph_packages (\<lambda>packages.
     and_then (unwrap (tg_build L packages tg)) (\<lambda>(_, tg). ok tg)))"

section \<open>Replies\<close>

record job_log =
  jl_start :: u64
  jl_stop :: u64
  jl_content :: "string list"
  jl_is_complete :: bool

datatype reply =
    NetErr err_code string
  | NetOk
  | JobReply job
  | JobsReply project_jobs
  | LogReply job_log
  | GroupReply job_group
  | GroupsReply "job_group list"
  | PackageReply job_graph_package
  | StatsReply graph_package_stats
  | RdepsReply string string "string list"

definition route_reply :: "reply \<Rightarrow> reply job_action" where
  "route_reply r = and_then (send_on id) (\<lambda>_. ok r)"

section \<open>Jobs\<close>

definition job_create :: "externals \<Rightarrow> job_spec \<Rightarrow> reply job_action" where
  "job_create X msg =
     and_then (create_job X (job_of_spec msg)) (\<lambda>created_job.
     and_then notify_work (\<lambda>_. route_reply (JobReply created_job)))"

definition job_get :: "externals \<Rightarrow> u64 \<Rightarrow> reply job_action" where
  "job_get X job_id =
     match_result (get_job X job_id) (\<lambda>r. case r of
       Inr (Some job) \<Rightarrow> route_reply (JobReply job)
     | Inr None \<Rightarrow> route_reply (NetErr ENTITY_NOT_FOUND ''jb:job-get:1'')
     | Inl _ \<Rightarrow> route_reply (NetErr DATA_STORE ''jb:job-get:2''))"

definition project_jobs_get :: "externals \<Rightarrow> string \<Rightarrow> u64 \<Rightarrow> u64 \<Rightarrow> reply job_action" where
  "project_jobs_get X name start stop =
     match_result (get_jobs_for_project X name start stop) (\<lambda>r. case r of
       Inr jobs \<Rightarrow> route_reply (JobsReply jobs)
     | Inl _ \<Rightarrow> route_reply (NetErr DATA_STORE ''jb:project-jobs-get:1''))"

text \<open>
  The archive either returns the lines, or fails, with or without a panic that was caught. A log file
  is missing or a list of lines, of which some may not be readable.
\<close>

record log_store =
  ls_retrieve :: "u64 \<Rightarrow> bool + string list"
  ls_file :: "u64 \<Rightarrow> string option list option"

text \<open>\<open>lines[start..]\<close> panics when \<open>start\<close> is behind the end.\<close>

definition slice_from :: "u64 \<Rightarrow> 'a list \<Rightarrow> 'a list option" where
  "slice_from start xs = (if unat start \<le> length xs then Some (drop (unat start) xs) else None)"

definition get_log_content :: "string option list option \<Rightarrow> u64 \<Rightarrow> string list option job_action" where
  "get_log_content file offset =
     (case file of
        None \<Rightarrow> ok None
      | Some lines \<Rightarrow> and_then (collect unwrap (drop (unat offset) lines)) (\<lambda>ls. ok (Some ls)))"

definition archived_log :: "u64 \<Rightarrow> bool + string list \<Rightarrow> reply job_action" where
  "archived_log start retrieved =
     (case retrieved of
        Inr lines \<Rightarrow>
          (let num_lines = (word_of_nat (length lines) :: u64)
           in and_then (if start > num_lines - 1 then ok [] else unwrap (slice_from start lines)) (\<lambda>segment.
              route_reply (LogReply
                \<lparr>jl_start = start, jl_stop = num_lines, jl_content = segment, jl_is_complete = True\<rparr>)))
      | Inl caught_panic \<Rightarrow>
          route_reply (NetErr ENTITY_NOT_FOUND (if caught_panic then ''jb:job-log-get:5'' else ''jb:job-log-get:4'')))"

definition job_log_get :: "externals \<Rightarrow> log_store \<Rightarrow> u64 \<Rightarrow> u64 \<Rightarrow> reply job_action" where
  "job_log_get X logs job_id start =
     match_result (get_job X job_id) (\<lambda>r. case r of
       Inr None \<Rightarrow> route_reply (NetErr ENTITY_NOT_FOUND ''jb:job-log-get:1'')
     | Inl _ \<Rightarrow> route_reply (NetErr DATA_STORE ''jb:job-log-get:2'')
     | Inr (Some job) \<Rightarrow>
         if jb_is_archived job then archived_log start (ls_retrieve logs (jb_id job))
         else
           and_then (get_log_content (ls_file logs job_id) start) (\<lambda>content_opt. case content_opt of
             Some content \<Rightarrow>
               route_reply (LogReply \<lparr>jl_start = start, jl_stop = start + word_of_nat (length content),
                 jl_content = content, jl_is_complete = False\<rparr>)
           | None \<Rightarrow> route_reply (NetErr ENTITY_NOT_FOUND ''jb:job-log-get:3'')))"

section \<open>Groups\<close>

definition job_group_abort :: "u64 \<Rightarrow> reply job_action" where
  "job_group_abort group_id =
     match_result (abort_job_group group_id) (\<lambda>r. case r of
       Inr _ \<Rightarrow> route_reply NetOk
     | Inl _ \<Rightarrow> route_reply (NetErr DATA_STORE ''jb:job-group-abort:1''))"

definition cancel_project :: "externals \<Rightarrow> job_group_project \<Rightarrow> unit job_action" where
  "cancel_project X project =
     and_then (get_job X (gp_job_id project)) (\<lambda>job_opt. case job_opt of
       Some job \<Rightarrow> update_job X (job\<lparr>jb_state := CancelPending\<rparr>)
     | None \<Rightarrow> ok ())"

definition job_group_cancel :: "externals \<Rightarrow> u64 \<Rightarrow> reply job_action" where
  "job_group_cancel X group_id =
     match_result (get_job_group X group_id) (\<lambda>r. case r of
       Inr None \<Rightarrow> route_reply (NetErr ENTITY_NOT_FOUND ''jb:job-group-cancel:1'')
     | Inl _ \<Rightarrow> route_reply (NetErr DATA_STORE ''jb:job-group-cancel:2'')
     | Inr (Some grp) \<Rightarrow>
         and_then (cancel_job_group (jg_id grp)) (\<lambda>_.
         and_then (for_each (cancel_project X) (filter (\<lambda>p. gp_state p = InProgress) (jg_projects grp))) (\<lambda>_.
         and_then notify_work (\<lambda>_. route_reply NetOk))))"

record job_group_spec =
  sp_origin :: string
  sp_package :: string
  sp_deps_only :: bool
  sp_target :: string
  sp_origin_only :: bool
  sp_package_only :: bool

text \<open>The projects of a new group: the package itself and what depends on it.\<close>

definition group_projects :: "'g graph_lib \<Rightarrow> job_group_spec \<Rightarrow> 'g package_graph \<Rightarrow> (string \<times> string) list option" where
  "group_projects L msg pg =
     (let project_name = sp_origin msg @ ''/'' @ sp_package msg;
          project_ident = (case pg_resolve project_name pg of Some s \<Rightarrow> s | None \<Rightarrow> []);
          root = (if \<not> sp_deps_only msg \<or> sp_package_only msg then [(project_name, project_ident)] else [])
      in if sp_package_only msg then Some root
         else do {
           rdeps_opt \<leftarrow> pg_rdeps L project_name pg;
           Some (root @ (case rdeps_opt of
             None \<Rightarrow> []
           | Some deps \<Rightarrow>
               filter (\<lambda>s. \<not> sp_origin_only msg \<or> split_on (CHR ''/'') (fst s) ! 0 = sp_origin msg) deps))
         })"

definition job_group_create :: "externals \<Rightarrow> 'g graph_lib \<Rightarrow> 'g target_graph \<Rightarrow> job_group_spec \<Rightarrow> reply job_action" where
  "job_group_create X L tg msg =
     (case tg_graph (sp_target msg) tg of
        None \<Rightarrow> route_reply (NetErr ENTITY_NOT_FOUND ''jb:job-group-create:2'')
      | Some pg \<Rightarrow>
          and_then (unwrap (group_projects L msg pg)) (\<lambda>projects.
          and_then
            (if projects = [] then
               ok \<lparr>jg_id = 0, jg_state = GroupComplete, jg_projects = [], jg_created_at = [], jg_project_name = []\<rparr>
             else
               and_then (get_queued_job_group X (sp_origin msg @ ''/'' @ sp_package msg)) (\<lambda>queued.
               and_then (case queued of Some grp \<Rightarrow> ok grp
                 | None \<Rightarrow> create_job_group X (sp_origin msg) (sp_package msg) projects) (\<lambda>new_group.
               and_then notify_scheduler (\<lambda>_. ok new_group)))) (\<lambda>grp.
          route_reply (GroupReply grp))))"

definition job_group_origin_get :: "externals \<Rightarrow> string \<Rightarrow> reply job_action" where
  "job_group_origin_get X origin =
     match_result (get_job_group_origin X origin) (\<lambda>r. case r of
       Inr groups \<Rightarrow> route_reply (GroupsReply groups)
     | Inl _ \<Rightarrow> route_reply (NetErr DATA_STORE ''jb:job-group-origin-get:1''))"

definition job_group_get :: "externals \<Rightarrow> u64 \<Rightarrow> reply job_action" where
  "job_group_get X group_id =
     match_result (get_job_group X group_id) (\<lambda>r. case r of
       Inr (Some grp) \<Rightarrow> route_reply (GroupReply grp)
     | _ \<Rightarrow> route_reply (NetErr ENTITY_NOT_FOUND ''jb:job-group-get:1''))"

section \<open>Packages\<close>

definition job_graph_package_reverse_dependencies_get ::
  "'g graph_lib \<Rightarrow> 'g target_graph \<Rightarrow> string \<Rightarrow> string \<Rightarrow> string \<Rightarrow> reply job_action" where
  "job_graph_package_reverse_dependencies_get L tg origin name target =
     (case tg_graph target tg of
        None \<Rightarrow> route_reply (NetErr ENTITY_NOT_FOUND ''jb:reverse-dependencies-get:1'')
      | Some pg \<Rightarrow>
          and_then (unwrap (pg_rdeps L (origin @ ''/'' @ name) pg)) (\<lambda>rdeps_opt.
          route_reply (RdepsReply origin name (case rdeps_opt of Some rd \<Rightarrow> sort (map fst rd) | None \<Rightarrow> []))))"

text \<open>
  The database keeps the package also when there is no graph for its target. The graph keeps its
  changes also when the reply cannot be sent.
\<close>

definition job_graph_package_create ::
  "'g graph_lib \<Rightarrow> 'g target_graph \<Rightarrow> job_graph_package \<Rightarrow> ((job_error + reply) \<times> 'g target_graph) job_action" where
  "job_graph_package_create L tg msg =
     match_result (create_job_graph_package msg) (\<lambda>r. case r of
       Inl e \<Rightarrow> ok (Inl e, tg)
     | Inr package \<Rightarrow>
         (case tg_graph (jp_target msg) tg of
            None \<Rightarrow>
              match_result (route_reply (NetErr ENTITY_NOT_FOUND ''jb:job-graph-package-create:1'')) (\<lambda>r. ok (r, tg))
          | Some pg \<Rightarrow>
              and_then (unwrap (Package_Graph.extend L package pg)) (\<lambda>(_, pg).
              match_result (route_reply (PackageReply package)) (\<lambda>r. ok (r, tg_put (jp_target msg) pg tg)))))"

definition job_graph_package_precreate ::
  "'g graph_lib \<Rightarrow> 'g target_graph \<Rightarrow> job_graph_package \<Rightarrow> ((job_error + reply) \<times> 'g target_graph) job_action" where
  "job_graph_package_precreate L tg package =
     (case tg_graph (jp_target package) tg of
        None \<Rightarrow> match_result (route_reply (NetErr ENTITY_NOT_FOUND ''jb:job-graph-package-pc:1'')) (\<lambda>r. ok (r, tg))
      | Some pg \<Rightarrow>
          and_then (unwrap (check_extend L package pg)) (\<lambda>(can_extend, pg).
          match_result (route_reply (if can_extend then NetOk else NetErr ENTITY_CONFLICT ''jb:job-graph-package-pc:2''))
            (\<lambda>r. ok (r, tg_put (jp_target package) pg tg))))"

definition job_graph_package_stats_get :: "externals \<Rightarrow> string \<Rightarrow> reply job_action" where
  "job_graph_package_stats_get X origin =
     match_result (get_job_graph_package_stats X origin) (\<lambda>r. case r of
       Inr package_stats \<Rightarrow> route_reply (StatsReply package_stats)
     | Inl _ \<Rightarrow> route_reply (NetErr ENTITY_NOT_FOUND ''jb:job-graph-package-stats-get:1''))"

end
