(* ===== verification/Job_Store_Facts.thy ===== *)
theory Job_Store_Facts
  imports Job_Server
begin

text \<open>
  Laws of the database of the job server. In an undisturbed world calls succeed, nobody else writes,
  no row is locked and rows come back in the order of insertion, while time passes as it likes;
  there every method of the data store has a definite result. \<open>tables_inv\<close> is the
  well-formedness of the tables.
\<close>

section \<open>Undisturbed worlds\<close>

definition calm :: "event \<Rightarrow> bool" where
  "calm ev \<longleftrightarrow> ev_meanwhile ev = (\<lambda>t. t) \<and> ev_locked ev = [] \<and> ev_order ev = (\<lambda>n. [0..<n]) \<and> \<not> ev_down ev"

definition undisturbed :: "world \<Rightarrow> bool" where
  "undisturbed w \<longleftrightarrow> (\<forall>ev \<in> set (w_env w). calm ev)"

text \<open>What a call of the database may change in such a world, besides the tables.\<close>

definition later :: "world \<Rightarrow> world \<Rightarrow> bool" where
  "later w w' \<longleftrightarrow> undisturbed w' \<and> w_workers w' = w_workers w \<and> w_commands w' = w_commands w \<and>
     w_instant w \<le> w_instant w'"

lemma later_refl [simp]: "later w w \<longleftrightarrow> undisturbed w"
  by (simp add: later_def)

lemma later_undisturbed: "later w w' \<Longrightarrow> undisturbed w'"
  by (simp add: later_def)

lemma later_trans: "later w w' \<Longrightarrow> later w' w'' \<Longrightarrow> later w w''"
  by (auto simp: later_def)

lemma calm_quiet [simp]: "calm quiet"
  by (simp add: calm_def quiet_def)

lemma scan_calm [simp]: "calm ev \<Longrightarrow> scan ev rows = rows"
  by (simp add: scan_def calm_def map_nth)

lemma next_event_calm:
  assumes "undisturbed w"
  obtains ev w' where "next_event w = (ev, w')" and "calm ev" and "later w w'" and "w_tables w' = w_tables w"
proof -
  let ?ev = "case w_env w of [] \<Rightarrow> quiet | ev # _ \<Rightarrow> ev"
  have calm: "calm ?ev" using assms by (auto simp: undisturbed_def split: list.split)
  have "set (tl (w_env w)) \<subseteq> set (w_env w)" by (cases "w_env w") auto
  with assms calm have "later w (snd (next_event w))" "w_tables (snd (next_event w)) = w_tables w"
    by (auto simp: later_def undisturbed_def next_event_def Let_def calm_def)
  with calm that show ?thesis by (auto simp: next_event_def Let_def)
qed

lemma wp_query:
  assumes "undisturbed w"
    and "\<And>ev w'. calm ev \<Longrightarrow> later w w' \<Longrightarrow> w_tables w' = w_tables w \<Longrightarrow>
      (case stmt ev (w_db_now w') (w_tables w) of
         (None, t) \<Rightarrow> Q (Inl e) (w'\<lparr>w_tables := t\<rparr>) | (Some x, t) \<Rightarrow> Q (Inr x) (w'\<lparr>w_tables := t\<rparr>))"
  shows "wp (query e stmt) Q w"
proof -
  obtain ev w' where ev: "next_event w = (ev, w')" "calm ev" "later w w'" "w_tables w' = w_tables w"
    by (rule next_event_calm [OF assms(1)])
  obtain x t where res: "stmt ev (w_db_now w') (w_tables w) = (x, t)" by force
  from ev(2) have "\<not> ev_down ev" by (simp add: calm_def)
  with assms(2) [OF ev(2, 3, 4)] res ev(1, 4) show ?thesis by (cases x) (simp_all add: wp_def query_def)
qed

lemma later_tables [simp]: "later w (w'\<lparr>w_tables := t\<rparr>) \<longleftrightarrow> later w w'"
  by (simp add: later_def undisturbed_def)

lemma later_tables_left [simp]: "later (w\<lparr>w_tables := t\<rparr>) w' \<longleftrightarrow> later w w'"
  by (simp add: later_def)

lemma undisturbed_tables [simp]: "undisturbed (w\<lparr>w_tables := t\<rparr>) \<longleftrightarrow> undisturbed w"
  by (simp add: undisturbed_def)

text \<open>A statement with a definite outcome.\<close>

lemma wp_query_result:
  assumes "undisturbed w" and "\<And>ev now. calm ev \<Longrightarrow> stmt ev now (w_tables w) = (Some x, t)"
    and "\<And>w'. later w w' \<Longrightarrow> w_tables w' = t \<Longrightarrow> Q (Inr x) w'"
  shows "wp (query e stmt) Q w"
  by (rule wp_query [OF assms(1)]) (auto simp: assms(2) intro!: assms(3))

lemma wp_select:
  assumes "undisturbed w" and "\<And>ev t. calm ev \<Longrightarrow> f ev t = g t"
    and "\<And>w'. later w w' \<Longrightarrow> w_tables w' = w_tables w \<Longrightarrow> Q (Inr (g (w_tables w))) w'"
  shows "wp (query e (select f)) Q w"
  by (rule wp_query_result [OF assms(1)]) (auto simp: select_def assms(2) intro: assms(3))

lemma wp_execute:
  assumes "undisturbed w" and "\<And>w'. later w w' \<Longrightarrow> w_tables w' = f (w_tables w) \<Longrightarrow> Q (Inr ()) w'"
  shows "wp (query e (execute f)) Q w"
  by (rule wp_query_result [OF assms(1)]) (auto simp: execute_def intro: assms(2))

lemma wp_get_shard:
  assumes "undisturbed w" and "\<And>w'. later w w' \<Longrightarrow> w_tables w' = w_tables w \<Longrightarrow> Q (Inr ()) w'"
  shows "wp get_shard Q w"
  unfolding get_shard_def by (rule wp_execute [OF assms(1)]) (simp add: assms(2))

lemma wp_send_on:
  assumes "undisturbed w" and "\<And>w'. later w w' \<Longrightarrow> w_tables w' = w_tables w \<Longrightarrow> Q (Inr ()) (f w')"
  shows "wp (send_on f) Q w"
proof -
  obtain ev w' where ev: "next_event w = (ev, w')" "calm ev" "later w w'" "w_tables w' = w_tables w"
    by (rule next_event_calm [OF assms(1)])
  with assms(2) [OF ev(3, 4)] show ?thesis by (simp add: wp_def send_on_def calm_def)
qed


text \<open>The two shapes of a method: a connection is taken, then rows are read or a change is made.\<close>

lemma wp_read:
  assumes "undisturbed w" and "\<And>ev t. calm ev \<Longrightarrow> f ev t = g t"
    and "\<And>w'. later w w' \<Longrightarrow> w_tables w' = w_tables w \<Longrightarrow> wp (k (g (w_tables w))) Q w'"
  shows "wp (and_then get_shard (\<lambda>_. and_then (query e (select f)) k)) Q w"
proof (simp, rule wp_get_shard [OF assms(1)], simp)
  fix w1
  assume w1: "later w w1" "w_tables w1 = w_tables w"
  show "wp (query e (select f)) (\<lambda>r s. case r of Inl e \<Rightarrow> Q (Inl e) s | Inr x \<Rightarrow> wp (k x) Q s) w1"
    by (rule wp_select [OF later_undisturbed [OF w1(1)] assms(2)]) (use w1 in \<open>auto intro: assms(3) later_trans\<close>)
qed

lemma wp_write:
  assumes "undisturbed w" and "\<And>w'. later w w' \<Longrightarrow> w_tables w' = f (w_tables w) \<Longrightarrow> Q (Inr ()) w'"
  shows "wp (and_then get_shard (\<lambda>_. query e (execute f))) Q w"
proof (simp, rule wp_get_shard [OF assms(1)], simp)
  fix w1
  assume w1: "later w w1" "w_tables w1 = w_tables w"
  show "wp (query e (execute f)) (\<lambda>r. Q r) w1"
    by (rule wp_execute [OF later_undisturbed [OF w1(1)]]) (use w1 in \<open>auto intro: assms(2) later_trans\<close>)
qed

section \<open>States and their texts\<close>

lemma job_state_roundtrip [simp]: "job_state_from_str (job_state_to_string s) = Inr s"
  by (induct s; code_simp)

lemma group_state_roundtrip [simp]: "group_state_from_str (group_state_to_string s) = Inr s"
  by (induct s; code_simp)

lemma project_state_roundtrip [simp]: "project_state_from_str (project_state_to_string s) = Inr s"
  by (induct s; code_simp)

lemma job_state_to_string_inject [simp]: "job_state_to_string s = job_state_to_string s' \<longleftrightarrow> s = s'"
  using job_state_roundtrip by (metis sum.inject(2))

lemma group_state_to_string_inject [simp]: "group_state_to_string s = group_state_to_string s' \<longleftrightarrow> s = s'"
  using group_state_roundtrip by (metis sum.inject(2))

lemma project_state_to_string_inject [simp]: "project_state_to_string s = project_state_to_string s' \<longleftrightarrow> s = s'"
  using project_state_roundtrip by (metis sum.inject(2))

text \<open>Texts that occur in the stored procedures.\<close>

lemma state_texts:
  "''Pending'' = job_state_to_string Pending" "''Dispatched'' = job_state_to_string Dispatched"
  "''CancelPending'' = job_state_to_string CancelPending"
  "''Pending'' = group_state_to_string GroupPending" "''Dispatching'' = group_state_to_string GroupDispatching"
  "''Queued'' = group_state_to_string GroupQueued" "''Complete'' = group_state_to_string GroupComplete"
  "''Canceled'' = group_state_to_string GroupCanceled"
  "''NotStarted'' = project_state_to_string NotStarted" "''InProgress'' = project_state_to_string InProgress"
  "''Failure'' = project_state_to_string Failure" "''Canceled'' = project_state_to_string Canceled"
  "''Success'' = project_state_to_string Success"
  by simp_all

definition project_of_job :: "job_state \<Rightarrow> project_state" where
  "project_of_job s =
     (if s = Complete then Success else if s = Rejected then NotStarted else if s = Failed then Failure
      else if s \<in> {Pending, Processing, Dispatched} then InProgress else Canceled)"

lemma project_state_of_job: "project_state_of_job s = project_state_to_string (project_of_job s)"
  by (cases s) (simp_all add: project_of_job_def)

definition valid_job_state :: "string \<Rightarrow> bool" where
  "valid_job_state s \<longleftrightarrow> (case job_state_from_str s of Inl _ \<Rightarrow> False | Inr st \<Rightarrow> job_state_to_string st = s)"

definition valid_group_state :: "string \<Rightarrow> bool" where
  "valid_group_state s \<longleftrightarrow> (case group_state_from_str s of Inl _ \<Rightarrow> False | Inr st \<Rightarrow> group_state_to_string st = s)"

definition valid_project_state :: "string \<Rightarrow> bool" where
  "valid_project_state s \<longleftrightarrow> (case project_state_from_str s of Inl _ \<Rightarrow> False | Inr st \<Rightarrow> project_state_to_string st = s)"

lemma valid_job_state_iff: "valid_job_state s \<longleftrightarrow> (\<exists>st. s = job_state_to_string st)"
  by (auto simp: valid_job_state_def split: sum.split)

lemma valid_group_state_iff: "valid_group_state s \<longleftrightarrow> (\<exists>st. s = group_state_to_string st)"
  by (auto simp: valid_group_state_def split: sum.split)

lemma valid_project_state_iff: "valid_project_state s \<longleftrightarrow> (\<exists>st. s = project_state_to_string st)"
  by (auto simp: valid_project_state_def split: sum.split)

lemma valid_states [simp]:
  "valid_job_state (job_state_to_string js)" "valid_group_state (group_state_to_string gs)"
  "valid_project_state (project_state_to_string ps)" "valid_project_state (project_state_of_job js)"
  by (auto simp: valid_job_state_iff valid_group_state_iff valid_project_state_iff project_state_of_job)

section \<open>Well-formed tables\<close>

definition job_row_ok :: "job_row \<Rightarrow> bool" where
  "job_row_ok r \<longleftrightarrow> valid_job_state (jr_job_state r) \<and> CHR ''/'' \<in> set (jr_project_name r) \<and> jr_vcs r = ''git'' \<and>
     (case jr_vcs_arguments r of [Some _, None] \<Rightarrow> True | [Some _, Some i] \<Rightarrow> parse_u32 i \<noteq> None | _ \<Rightarrow> False) \<and>
     (jr_net_error_msg r = None \<longleftrightarrow> jr_net_error_code r = None)"

definition well_named_deps :: "string list \<Rightarrow> bool" where
  "well_named_deps deps \<longleftrightarrow> list_all (\<lambda>d. short_name d \<noteq> None) deps"

definition tables_inv :: "tables \<Rightarrow> bool" where
  "tables_inv t \<longleftrightarrow>
     distinct (map jr_id (tb_jobs t)) \<and> list_all job_row_ok (tb_jobs t) \<and>
     distinct (map gr_id (tb_groups t)) \<and> list_all (\<lambda>g. valid_group_state (gr_group_state g)) (tb_groups t) \<and>
     distinct (map pr_id (tb_group_projects t)) \<and>
     list_all (\<lambda>p. pr_id p \<le> tb_group_projects_seq t \<and> valid_project_state (pr_project_state p) \<and>
       CHR ''/'' \<in> set (pr_project_name p)) (tb_group_projects t) \<and>
     distinct (map (\<lambda>p. (pr_owner_id p, pr_project_name p)) (tb_group_projects t)) \<and>
     list_all (\<lambda>g. gr_id g \<in> pr_owner_id ` set (tb_group_projects t)) (tb_groups t) \<and>
     distinct (map pk_ident (tb_graph_packages t)) \<and>
     list_all (\<lambda>p. well_named_deps (pk_deps p)) (tb_graph_packages t)"

text \<open>What a well-formed row means.\<close>

definition job_of_row :: "externals \<Rightarrow> job_row \<Rightarrow> job" where
  "job_of_row X row =
     (let name_split = split_on (CHR ''/'') (jr_project_name row)
      in \<lparr>jb_id = jr_id row, jb_owner_id = jr_owner_id row, jb_state = projr (job_state_from_str (jr_job_state row)),
          jb_project = \<lparr>op_id = jr_project_id row, op_origin_name = name_split ! 0,
            op_package_name = name_split ! 1, op_name = jr_project_name row,
            op_plan_path = jr_project_plan_path row, op_owner_id = jr_project_owner_id row, op_vcs_type = ''git'',
            op_vcs_data = (case jr_vcs_arguments row of Some d # _ \<Rightarrow> d | _ \<Rightarrow> []),
            op_vcs_installation_id = (case jr_vcs_arguments row of _ # Some i # _ \<Rightarrow> parse_u32 i | _ \<Rightarrow> None)\<rparr>,
          jb_error = (case (jr_net_error_msg row, jr_net_error_code row) of
            (Some msg, Some code) \<Rightarrow> map_option (\<lambda>c. \<lparr>ne_code = c, ne_msg = msg\<rparr>) (err_code_from_i32 code) | _ \<Rightarrow> None),
          jb_created_at = ex_rfc3339 X (jr_created_at row),
          jb_build_started_at = map_option (ex_rfc3339 X) (jr_build_started_at row),
          jb_build_finished_at = map_option (ex_rfc3339 X) (jr_build_finished_at row),
          jb_package_ident = map_option origin_ident_from_str (jr_package_ident row),
          jb_is_archived = jr_archived row, jb_integrations = [], jb_channel = jr_channel row,
          jb_project_integrations = [], jb_worker = jr_worker row\<rparr>)"

lemma split_on_parts: "c \<in> set s \<Longrightarrow> 1 < length (split_on c s)"
proof -
  assume "c \<in> set s"
  then obtain xs ys where "s = xs @ c # ys" "c \<notin> set xs" using split_list_first by metis
  then show ?thesis by (simp add: split_on_append)
qed

lemma row_to_job_ok:
  assumes "job_row_ok r"
  shows "row_to_job X r = ok (job_of_row X r)"
proof -
  from assms obtain st where st: "jr_job_state r = job_state_to_string st"
    by (auto simp: job_row_ok_def valid_job_state_iff)
  from assms have "CHR ''/'' \<in> set (jr_project_name r)" by (simp add: job_row_ok_def)
  then have parts: "1 < length (split_on (CHR ''/'') (jr_project_name r))" by (rule split_on_parts)
  from assms obtain d i where args: "jr_vcs_arguments r = [Some d, i]" "\<forall>s. i = Some s \<longrightarrow> parse_u32 s \<noteq> None"
    by (auto simp: job_row_ok_def split: list.splits option.splits)
  from assms have "jr_vcs r = ''git''" "jr_net_error_msg r = None \<longleftrightarrow> jr_net_error_code r = None"
    by (auto simp: job_row_ok_def)
  with st parts args show ?thesis
    by (auto simp: row_to_job_def job_of_row_def from_result_def assert_that_def unwrap_def Let_def split: option.splits)
qed

text \<open>The projects of a group, and the group.\<close>

definition project_of_row :: "project_row \<Rightarrow> job_group_project" where
  "project_of_row row =
     \<lparr>gp_name = pr_project_name row, gp_ident = pr_project_ident row,
      gp_state = projr (project_state_from_str (pr_project_state row)), gp_job_id = pr_job_id row\<rparr>"

definition projects_of :: "tables \<Rightarrow> u64 \<Rightarrow> job_group_project list" where
  "projects_of t gid = map project_of_row (filter (\<lambda>p. pr_owner_id p = gid) (tb_group_projects t))"

definition group_of_row :: "externals \<Rightarrow> tables \<Rightarrow> group_row \<Rightarrow> job_group" where
  "group_of_row X t g =
     \<lparr>jg_id = gr_id g, jg_state = projr (group_state_from_str (gr_group_state g)), jg_projects = projects_of t (gr_id g),
      jg_created_at = ex_rfc3339 X (gr_created_at g), jg_project_name = gr_project_name g\<rparr>"

lemma collect_ok:
  assumes "\<And>x. x \<in> set xs \<Longrightarrow> f x = ok (g x)"
  shows "collect f xs = ok (map g xs)"
proof -
  have "for_fold (\<lambda>x ys. and_then (f x) (\<lambda>y. ok (ys @ [y]))) xs ys = ok (ys @ map g xs)" for ys
    using assms by (induction xs arbitrary: ys) simp_all
  then show ?thesis by (simp add: collect_def)
qed

lemma project_row_ok:
  "valid_project_state (pr_project_state p) \<Longrightarrow> row_to_job_group_project p = Inr (project_of_row p)"
  by (auto simp: valid_project_state_iff row_to_job_group_project_def project_of_row_def)

lemma rows_to_job_group_projects_ok:
  assumes "list_all (\<lambda>p. valid_project_state (pr_project_state p)) rows"
  shows "rows_to_job_group_projects rows = ok (map project_of_row rows)"
  unfolding rows_to_job_group_projects_def
  by (rule collect_ok) (use assms in \<open>simp add: list_all_iff project_row_ok from_result_def\<close>)


section \<open>Methods of the data store in an undisturbed world\<close>

lemma filter_id_find:
  assumes "distinct (map f xs)"
  shows "filter (\<lambda>x. f x = k) xs = (case find (\<lambda>x. f x = k) xs of None \<Rightarrow> [] | Some x \<Rightarrow> [x])"
  using assms
proof (induction xs)
  case (Cons x xs)
  have "filter (\<lambda>y. f y = f x) xs = []" using Cons.prems by (simp add: filter_empty_conv image_iff) metis
  with Cons show ?case by auto
qed simp

lemma find_mem: "find P xs = Some x \<Longrightarrow> x \<in> set xs \<and> P x"
  by (auto simp: find_Some_iff)

lemma tables_inv_jobs:
  assumes "tables_inv t" and "r \<in> set (tb_jobs t)"
  shows "job_row_ok r"
  using assms by (simp add: tables_inv_def list_all_iff)

definition job_row :: "tables \<Rightarrow> u64 \<Rightarrow> job_row option" where
  "job_row t jid = find (\<lambda>r. jr_id r = jid) (tb_jobs t)"

lemma wp_get_job:
  assumes "undisturbed w" and "tables_inv (w_tables w)"
    and "\<And>w'. later w w' \<Longrightarrow> w_tables w' = w_tables w \<Longrightarrow> Q (Inr (map_option (job_of_row X) (job_row (w_tables w) jid))) w'"
  shows "wp (get_job X jid) Q w"
proof -
  let ?t = "w_tables w"
  have rows: "filter (\<lambda>r. jr_id r = jid) (tb_jobs ?t) = (case job_row ?t jid of None \<Rightarrow> [] | Some r \<Rightarrow> [r])"
    unfolding job_row_def by (rule filter_id_find) (use assms(2) in \<open>simp add: tables_inv_def\<close>)
  have ok_row: "job_row_ok r" if "job_row ?t jid = Some r" for r
    using that assms(2) by (auto simp: job_row_def dest!: find_mem intro: tables_inv_jobs)
  show ?thesis
    unfolding get_job_def get_job_v1_def
  proof (rule wp_read [OF assms(1)])
    fix w'
    assume "later w w'" "w_tables w' = w_tables w"
    then have "Q (Inr (map_option (job_of_row X) (job_row ?t jid))) w'" by (rule assms(3))
    then show "wp (case filter (\<lambda>r. jr_id r = jid) (tb_jobs ?t) of [] \<Rightarrow> ok None
        | row # _ \<Rightarrow> and_then (row_to_job X row) (\<lambda>job. ok (Some job))) Q w'"
      by (auto simp: rows row_to_job_ok [OF ok_row] split: option.split)
  qed simp
qed


definition package_row :: "tables \<Rightarrow> string \<Rightarrow> graph_package_row option" where
  "package_row t ident = find (\<lambda>p. pk_ident p = ident) (tb_graph_packages t)"

lemma wp_get_job_graph_package:
  assumes "undisturbed w" and "tables_inv (w_tables w)"
    and "\<And>w'. later w w' \<Longrightarrow> w_tables w' = w_tables w \<Longrightarrow>
      Q (case package_row (w_tables w) ident of None \<Rightarrow> Inl UnknownJobGraphPackage
         | Some p \<Rightarrow> Inr (row_to_job_graph_package p)) w'"
  shows "wp (get_job_graph_package ident) Q w"
proof -
  let ?t = "w_tables w"
  have rows: "filter (\<lambda>p. pk_ident p = ident) (tb_graph_packages ?t) = (case package_row ?t ident of None \<Rightarrow> [] | Some r \<Rightarrow> [r])"
    unfolding package_row_def by (rule filter_id_find) (use assms(2) in \<open>simp add: tables_inv_def\<close>)
  show ?thesis
    unfolding get_job_graph_package_def get_graph_package_v1_def
  proof (rule wp_read [OF assms(1)])
    fix w'
    assume "later w w'" "w_tables w' = w_tables w"
    note Q = assms(3) [OF this]
    let ?rows = "filter (\<lambda>p. pk_ident p = ident) (tb_graph_packages ?t)"
    from Q show "wp (if ?rows = [] then err UnknownJobGraphPackage
        else and_then (assert_that (length ?rows = 1)) (\<lambda>_. ok (row_to_job_graph_package (?rows ! 0)))) Q w'"
      unfolding rows by (auto split: option.splits)
  qed simp
qed

definition group_row :: "tables \<Rightarrow> u64 \<Rightarrow> group_row option" where
  "group_row t gid = find (\<lambda>g. gr_id g = gid) (tb_groups t)"

definition group_state_of :: "tables \<Rightarrow> u64 \<Rightarrow> group_state option" where
  "group_state_of t gid = map_option (\<lambda>g. projr (group_state_from_str (gr_group_state g))) (group_row t gid)"

lemma row_to_job_group_ok:
  "valid_group_state (gr_group_state g) \<Longrightarrow> row_to_job_group X g = Inr ((group_of_row X t g)\<lparr>jg_projects := []\<rparr>)"
  by (auto simp: valid_group_state_iff row_to_job_group_def group_of_row_def)

lemma projects_of_not_empty:
  "tables_inv t \<Longrightarrow> g \<in> set (tb_groups t) \<Longrightarrow> projects_of t (gr_id g) \<noteq> []"
  by (force simp: tables_inv_def projects_of_def list_all_iff filter_empty_conv)

lemma wp_read_projects:
  assumes "undisturbed w" and "tables_inv (w_tables w)"
    and "\<And>w'. later w w' \<Longrightarrow> w_tables w' = w_tables w \<Longrightarrow>
      wp (k (filter (\<lambda>p. pr_owner_id p = gid) (tb_group_projects (w_tables w)))) Q w'"
  shows "wp (and_then (query e (get_group_projects_for_group_v1 gid)) k) Q w"
  unfolding get_group_projects_for_group_v1_def
  by (simp, rule wp_select [OF assms(1)]) (auto intro: assms(3))

lemma wp_with_projects:
  assumes "undisturbed w" and "tables_inv (w_tables w)" and "g \<in> set (tb_groups (w_tables w))"
    and "\<And>w'. later w w' \<Longrightarrow> w_tables w' = w_tables w \<Longrightarrow> Q (Inr (group_of_row X (w_tables w) g)) w'"
  shows "wp (with_projects X e g) Q w" and "wp (with_some_projects X g) Q w"
proof -
  let ?t = "w_tables w"
  have grp: "row_to_job_group X g = Inr ((group_of_row X ?t g)\<lparr>jg_projects := []\<rparr>)"
    by (rule row_to_job_group_ok) (use assms(2, 3) in \<open>auto simp: tables_inv_def list_all_iff\<close>)
  have rows: "rows_to_job_group_projects (filter (\<lambda>p. pr_owner_id p = gr_id g) (tb_group_projects ?t)) = ok (projects_of ?t (gr_id g))"
    unfolding projects_of_def
    by (rule rows_to_job_group_projects_ok) (use assms(2) in \<open>auto simp: tables_inv_def list_all_iff\<close>)
  have some: "filter (\<lambda>p. pr_owner_id p = gr_id g) (tb_group_projects ?t) \<noteq> []"
    using projects_of_not_empty [OF assms(2, 3)] by (auto simp: projects_of_def)
  have id: "jg_id (group_of_row X ?t g) = gr_id g"
    and eq: "(group_of_row X ?t g)\<lparr>jg_projects := projects_of ?t (gr_id g)\<rparr> = group_of_row X ?t g"
    by (simp_all add: group_of_row_def)
  show "wp (with_projects X e g) Q w"
    unfolding with_projects_def grp
    by (simp del: wp_and_then, rule wp_read_projects [OF assms(1, 2)])
      (simp add: id rows eq assms(4))
  show "wp (with_some_projects X g) Q w"
    unfolding with_some_projects_def grp
    by (simp del: wp_and_then, rule wp_read_projects [OF assms(1, 2)])
      (simp add: id rows eq some assms(4))
qed


lemma group_row_mem: "group_row t gid = Some g \<Longrightarrow> g \<in> set (tb_groups t) \<and> gr_id g = gid"
  unfolding group_row_def by (drule find_mem) simp

lemma wp_get_job_group:
  assumes "undisturbed w" and "tables_inv (w_tables w)"
    and "\<And>w'. later w w' \<Longrightarrow> w_tables w' = w_tables w \<Longrightarrow>
      Q (Inr (map_option (group_of_row X (w_tables w)) (group_row (w_tables w) gid))) w'"
  shows "wp (get_job_group X gid) Q w"
proof -
  let ?t = "w_tables w"
  have rows: "filter (\<lambda>g. gr_id g = gid) (tb_groups ?t) = (case group_row ?t gid of None \<Rightarrow> [] | Some r \<Rightarrow> [r])"
    unfolding group_row_def by (rule filter_id_find) (use assms(2) in \<open>simp add: tables_inv_def\<close>)
  show ?thesis
    unfolding get_job_group_def get_group_v1_def
  proof (rule wp_read [OF assms(1)])
    fix w'
    assume w': "later w w'" "w_tables w' = ?t"
    let ?rows = "filter (\<lambda>g. gr_id g = gid) (tb_groups ?t)"
    show "wp (if ?rows = [] then ok None
        else and_then (assert_that (length ?rows = 1)) (\<lambda>_.
          and_then (with_some_projects X (?rows ! 0)) (\<lambda>grp. ok (Some grp)))) Q w'"
    proof (cases "group_row ?t gid")
      case None
      with assms(3) [OF w'] show ?thesis by (simp add: rows)
    next
      case (Some g)
      have "wp (with_some_projects X g) (\<lambda>r s. case r of Inl e \<Rightarrow> Q (Inl e) s | Inr x \<Rightarrow> wp (ok (Some x)) Q s) w'"
        by (rule wp_with_projects(2) [OF later_undisturbed [OF w'(1)]])
          (use w' assms(2) group_row_mem [OF Some] assms(3) Some in \<open>auto intro: later_trans\<close>)
      with Some show ?thesis by (simp add: rows)
    qed
  qed simp
qed

lemma wp_get_group:
  assumes "undisturbed w" and "tables_inv (w_tables w)"
    and "\<And>w'. later w w' \<Longrightarrow> w_tables w' = w_tables w \<Longrightarrow>
      Q (case group_row (w_tables w) gid of None \<Rightarrow> Inl UnknownJobGroup | Some g \<Rightarrow> Inr (group_of_row X (w_tables w) g)) w'"
  shows "wp (get_group X gid) Q w"
  unfolding get_group_def
  by (simp, rule wp_get_job_group [OF assms(1, 2)]) (auto split: option.split dest: assms(3))

section \<open>Changes of projects, groups and jobs\<close>

definition update_project :: "u64 \<Rightarrow> string \<Rightarrow> (project_row \<Rightarrow> project_row) \<Rightarrow> tables \<Rightarrow> tables" where
  "update_project gid n f = tb_group_projects_update (update_where (\<lambda>p. pr_owner_id p = gid \<and> pr_project_name p = n) f)"

definition set_group :: "u64 \<Rightarrow> group_state \<Rightarrow> tables \<Rightarrow> tables" where
  "set_group gid s = tb_groups_update (update_where (\<lambda>g. gr_id g = gid) (gr_group_state_update (\<lambda>_. group_state_to_string s)))"

definition set_project :: "u64 \<Rightarrow> string \<Rightarrow> project_state \<Rightarrow> tables \<Rightarrow> tables" where
  "set_project gid n s = update_project gid n (pr_project_state_update (\<lambda>_. project_state_to_string s))"

text \<open>Changes of a project that leave its place in the table alone and give it a proper state.\<close>

definition project_change :: "(project_row \<Rightarrow> project_row) \<Rightarrow> bool" where
  "project_change f \<longleftrightarrow> (\<forall>p. pr_id (f p) = pr_id p \<and> pr_owner_id (f p) = pr_owner_id p \<and>
     pr_project_name (f p) = pr_project_name p \<and> valid_project_state (pr_project_state (f p)))"

lemma map_update_where:
  "(\<And>r. g (f r) = g r) \<Longrightarrow> map g (update_where P f rows) = map g rows"
  by (induction rows) (simp_all add: update_where_def)

lemma list_all_update_where:
  "list_all Q rows \<Longrightarrow> (\<And>r. Q r \<Longrightarrow> Q (f r)) \<Longrightarrow> list_all Q (update_where P f rows)"
  by (induction rows) (simp_all add: update_where_def)

lemma update_where_id: "(\<And>r. r \<in> set rows \<Longrightarrow> \<not> P r) \<Longrightarrow> update_where P f rows = rows"
  by (induction rows) (simp_all add: update_where_def)

lemma image_update_where: "(\<And>r. g (f r) = g r) \<Longrightarrow> g ` set (update_where P f rows) = g ` set rows"
  by (metis map_update_where list.set_map)

lemma tables_inv_update_project:
  assumes "tables_inv t" and "project_change f"
  shows "tables_inv (update_project gid n f t)"
proof -
  from assms have "list_all (\<lambda>p. pr_id p \<le> tb_group_projects_seq t \<and> valid_project_state (pr_project_state p) \<and>
        CHR ''/'' \<in> set (pr_project_name p))
      (update_where (\<lambda>p. pr_owner_id p = gid \<and> pr_project_name p = n) f (tb_group_projects t))"
    by (intro list_all_update_where) (auto simp: tables_inv_def project_change_def)
  with assms show ?thesis
    by (simp add: tables_inv_def update_project_def project_change_def map_update_where image_update_where)
qed

lemma tables_inv_set_group: "tables_inv t \<Longrightarrow> tables_inv (set_group gid s t)"
  by (simp add: tables_inv_def set_group_def map_update_where list_all_update_where)

lemma project_change_state [simp]: "project_change (pr_project_state_update (\<lambda>_. project_state_to_string s))"
  by (simp add: project_change_def)

lemma tables_inv_set_project: "tables_inv t \<Longrightarrow> tables_inv (set_project gid n s t)"
  by (simp add: set_project_def tables_inv_update_project)

lemma projects_of_update_project:
  assumes "project_change f"
  shows "projects_of (update_project gid n f t) gid' =
    map (\<lambda>p. project_of_row (if gid' = gid \<and> pr_project_name p = n then f p else p))
      (filter (\<lambda>p. pr_owner_id p = gid') (tb_group_projects t))"
proof -
  have "filter (\<lambda>p. pr_owner_id p = gid') (update_where P f rows) =
      map (\<lambda>p. if P p then f p else p) (filter (\<lambda>p. pr_owner_id p = gid') rows)" for P rows
    using assms by (induction rows) (simp_all add: update_where_def project_change_def)
  then show ?thesis by (auto simp: projects_of_def update_project_def)
qed

lemma projects_of_set_project [simp]:
  "projects_of (set_project gid n s t) gid' =
    (if gid' = gid then map (\<lambda>p. if gp_name p = n then p\<lparr>gp_state := s\<rparr> else p) (projects_of t gid) else projects_of t gid')"
  unfolding set_project_def projects_of_update_project [OF project_change_state]
  by (auto simp: projects_of_def project_of_row_def)

lemma projects_of_set_group [simp]: "projects_of (set_group gid s t) gid' = projects_of t gid'"
  by (simp add: projects_of_def set_group_def)

lemma set_project_simps [simp]:
  "tb_groups (set_project gid n s t) = tb_groups t" "tb_jobs (set_project gid n s t) = tb_jobs t"
  "tb_graph_packages (set_project gid n s t) = tb_graph_packages t"
  "tb_busy_workers (set_project gid n s t) = tb_busy_workers t"
  by (simp_all add: set_project_def update_project_def)

lemma set_group_simps [simp]:
  "tb_group_projects (set_group gid s t) = tb_group_projects t" "tb_jobs (set_group gid s t) = tb_jobs t"
  "tb_graph_packages (set_group gid s t) = tb_graph_packages t"
  "tb_busy_workers (set_group gid s t) = tb_busy_workers t"
  by (simp_all add: set_group_def)

lemma find_update_where:
  assumes "\<And>r. g (f r) = g r"
  shows "find (\<lambda>r. g r = k) (update_where P f rows) = map_option (\<lambda>r. if P r then f r else r) (find (\<lambda>r. g r = k) rows)"
  using assms by (induction rows) (auto simp: update_where_def)

lemma group_row_set_group:
  "group_row (set_group gid s t) gid' =
    map_option (\<lambda>g. if gid' = gid then g\<lparr>gr_group_state := group_state_to_string s\<rparr> else g) (group_row t gid')"
  unfolding group_row_def set_group_def
  by (auto simp: find_update_where dest: find_mem intro!: option.map_cong)

lemma group_state_of_set_group [simp]:
  "group_state_of (set_group gid s t) gid' =
    (if gid' = gid \<and> group_row t gid \<noteq> None then Some s else group_state_of t gid')"
  by (cases "group_row t gid'") (auto simp: group_state_of_def group_row_set_group)

lemma package_row_set [simp]:
  "package_row (set_project gid n s t) = package_row t" "package_row (set_group gid gs t) = package_row t"
  by (simp_all add: package_row_def fun_eq_iff)

lemma group_row_set_project [simp]: "group_row (set_project gid n s t) = group_row t"
  by (simp add: group_row_def fun_eq_iff)

lemma wp_set_job_group_state:
  assumes "undisturbed w" and "\<And>w'. later w w' \<Longrightarrow> w_tables w' = set_group gid s (w_tables w) \<Longrightarrow> Q (Inr ()) w'"
  shows "wp (set_job_group_state gid s) Q w"
  unfolding set_job_group_state_def set_group_state_v1_def
  by (rule wp_write [OF assms(1)]) (simp add: assms(2) set_group_def)

lemma wp_set_job_group_project_state:
  assumes "undisturbed w" and "\<And>w'. later w w' \<Longrightarrow> w_tables w' = set_project gid n s (w_tables w) \<Longrightarrow> Q (Inr ()) w'"
  shows "wp (set_job_group_project_state gid n s) Q w"
  unfolding set_job_group_project_state_def set_group_project_name_state_v1_def
  by (rule wp_write [OF assms(1)]) (simp add: assms(2) set_project_def update_project_def)


text \<open>The change that \<open>set_job_group_job_state\<close> makes to the project of a job.\<close>

definition job_change :: "job \<Rightarrow> project_row \<Rightarrow> project_row" where
  "job_change job p =
     (let p = p\<lparr>pr_project_state := project_state_of_job (jb_state job), pr_job_id := jb_id job\<rparr>
      in if jb_state job = Complete
         then p\<lparr>pr_project_ident := origin_ident_to_string (case jb_package_ident job of Some i \<Rightarrow> i
                  | None \<Rightarrow> \<lparr>oi_origin = [], oi_name = [], oi_version = [], oi_release = []\<rparr>)\<rparr>
         else p)"

lemma project_change_job [simp]: "project_change (job_change job)"
  using valid_states(4) [of "jb_state job"]
  by (auto simp: project_change_def job_change_def Let_def simp del: project_state_of_job.simps)

lemma filter_singleton_iff:
  assumes "distinct (map f xs)" and "x \<in> set xs"
  shows "filter (\<lambda>y. f y = f x) xs = [x]"
  using assms
proof (induction xs)
  case (Cons y ys)
  show ?case
  proof (cases "x = y")
    case True
    then have "filter (\<lambda>z. f z = f x) ys = []" using Cons.prems by (simp add: filter_empty_conv image_iff) metis
    with True show ?thesis by simp
  next
    case False
    with Cons.prems have "x \<in> set ys" "f y \<noteq> f x" by (auto simp: image_iff)
    with Cons show ?thesis by simp
  qed
qed simp

lemma update_where_key:
  assumes "distinct (map f xs)" and "distinct (map g xs)" and "x \<in> set xs"
  shows "update_where (\<lambda>y. f y = f x) h xs = update_where (\<lambda>y. g y = g x) h xs"
proof -
  have "f y = f x \<longleftrightarrow> g y = g x" if "y \<in> set xs" for y
    using assms that by (auto simp: distinct_map inj_on_def)
  then show ?thesis by (simp add: update_where_def)
qed

definition project_row :: "tables \<Rightarrow> u64 \<Rightarrow> string \<Rightarrow> project_row option" where
  "project_row t gid n = find (\<lambda>p. (pr_owner_id p, pr_project_name p) = (gid, n)) (tb_group_projects t)"

lemma wp_set_job_group_job_state:
  fixes job :: job
  assumes "undisturbed w" and "tables_inv (w_tables w)"
  defines "gid \<equiv> jb_owner_id job" and "n \<equiv> op_name (jb_project job)"
  assumes "\<And>w'. later w w' \<Longrightarrow> project_row (w_tables w) gid n = None \<Longrightarrow> w_tables w' = w_tables w \<Longrightarrow>
      Q (Inl UnknownJobGroupProjectState) w'"
    and "\<And>w' p. later w w' \<Longrightarrow> project_row (w_tables w) gid n = Some p \<Longrightarrow>
      w_tables w' = update_project gid n (job_change job) (w_tables w) \<Longrightarrow> Q (Inr ()) w'"
  shows "wp (set_job_group_job_state job) Q w"
proof -
  let ?t = "w_tables w"
  let ?key = "\<lambda>p. (pr_owner_id p, pr_project_name p)"
  have dist: "distinct (map ?key (tb_group_projects ?t))" "distinct (map pr_id (tb_group_projects ?t))"
    using assms(2) by (simp_all add: tables_inv_def)
  have rows: "filter (\<lambda>p. pr_owner_id p = gid \<and> pr_project_name p = n) (tb_group_projects ?t) =
      (case project_row ?t gid n of None \<Rightarrow> [] | Some p \<Rightarrow> [p])"
    unfolding project_row_def using filter_id_find [OF dist(1), of "(gid, n)"] by simp
  have update: "tb_group_projects_update (update_where (\<lambda>q. pr_id q = pr_id p) f) ?t = update_project gid n f ?t"
    if "project_row ?t gid n = Some p" for f p
  proof -
    have p: "p \<in> set (tb_group_projects ?t)" "?key p = (gid, n)"
      using that unfolding project_row_def by (auto dest: find_mem)
    from update_where_key [OF dist(2, 1) p(1)] p(2) show ?thesis by (cases ?t) (simp add: update_project_def)
  qed
  show ?thesis
    unfolding set_job_group_job_state_def find_group_project_v1_def gid_def [symmetric] n_def [symmetric]
  proof (rule wp_read [OF assms(1)])
    fix w'
    assume w': "later w w'" "w_tables w' = ?t"
    note und = later_undisturbed [OF w'(1)]
    have changed: "wp (query e (execute (tb_group_projects_update (update_where (\<lambda>q. pr_id q = pr_id p) (job_change job))))) Q w'"
      if "project_row ?t gid n = Some p" for e p
      by (rule wp_execute [OF und])
        (use w' update [OF that] in \<open>auto intro: assms(6) [OF _ that] later_trans\<close>)
    let ?rows = "filter (\<lambda>p. pr_owner_id p = gid \<and> pr_project_name p = n) (tb_group_projects ?t)"
    show "wp (if ?rows = [] then err UnknownJobGroupProjectState
        else and_then (assert_that (length ?rows = 1)) (\<lambda>_.
          let pid = pr_id (?rows ! 0); state = project_state_of_job (jb_state job)
          in if jb_state job = Complete then
               let ident = (case jb_package_ident job of Some i \<Rightarrow> i
                   | None \<Rightarrow> \<lparr>oi_origin = [], oi_name = [], oi_version = [], oi_release = []\<rparr>)
               in query JobGroupProjectSetState
                    (set_group_project_state_ident_v1 pid (jb_id job) state (origin_ident_to_string ident))
             else query JobGroupProjectSetState (set_group_project_state_v1 pid (jb_id job) state))) Q w'"
    proof (cases "project_row ?t gid n")
      case None
      with assms(5) [OF w'(1) None w'(2)] show ?thesis by (simp add: rows)
    next
      case (Some p)
      with changed [OF Some, of JobGroupProjectSetState] show ?thesis
        by (cases "jb_state job = Complete")
          (simp_all add: rows Let_def set_group_project_state_ident_v1_def set_group_project_state_v1_def job_change_def [abs_def])
    qed
  qed simp
qed


lemma parse_u32_decimal: "parse_u32 (decimal (uint i)) = Some i" for i :: "32 word"
proof -
  have "show_u64 (ucast i) = decimal (uint i)" by (simp add: show_u64_def uint_up_ucast is_up)
  then have "parse_u64 (decimal (uint i)) = Some (ucast i)" by (metis parse_show_u64)
  moreover have "(ucast i :: u64) < 2 ^ 32"
    using uint_lt2p [of i] by (simp add: word_less_def uint_up_ucast is_up)
  ultimately show ?thesis by (simp add: parse_u32_def ucast_down_ucast_id is_down)
qed

text \<open>The row of a new job.\<close>

definition new_job_row :: "job \<Rightarrow> u64 \<Rightarrow> int \<Rightarrow> job_row" where
  "new_job_row job jid now =
     (let project = jb_project job
      in \<lparr>jr_id = jid, jr_owner_id = jb_owner_id job, jr_job_state = ''Pending'', jr_project_id = op_id project,
          jr_project_name = op_name project, jr_project_owner_id = op_owner_id project,
          jr_project_plan_path = op_plan_path project, jr_vcs = op_vcs_type project,
          jr_vcs_arguments = [Some (op_vcs_data project), map_option (\<lambda>i. decimal (uint i)) (op_vcs_installation_id project)],
          jr_net_error_code = None, jr_net_error_msg = None, jr_scheduler_sync = False, jr_created_at = now,
          jr_build_started_at = None, jr_build_finished_at = None, jr_package_ident = None, jr_archived = False,
          jr_channel = jb_channel job, jr_sync_count = 0, jr_worker = None\<rparr>)"

lemma new_job_row_ok:
  assumes "op_vcs_type (jb_project job) = ''git''" and "CHR ''/'' \<in> set (op_name (jb_project job))"
  shows "job_row_ok (new_job_row job jid now)"
  using assms valid_states(1) [of Pending]
  by (auto simp: job_row_ok_def new_job_row_def Let_def parse_u32_decimal split: option.split)

definition add_job :: "job_row \<Rightarrow> tables \<Rightarrow> tables" where
  "add_job row t = t\<lparr>tb_job_id_seq := tb_job_id_seq t + 1, tb_jobs := tb_jobs t @ [row]\<rparr>"

lemma tables_inv_add_job:
  "tables_inv t \<Longrightarrow> job_row_ok row \<Longrightarrow> jr_id row \<notin> jr_id ` set (tb_jobs t) \<Longrightarrow> tables_inv (add_job row t)"
  by (simp add: tables_inv_def add_job_def)

lemma tables_inv_seq [simp]: "tables_inv (t\<lparr>tb_job_id_seq := n\<rparr>) \<longleftrightarrow> tables_inv t"
  by (simp add: tables_inv_def)

lemma wp_create_job:
  assumes "undisturbed w" and "tables_inv (w_tables w)" and "CHR ''/'' \<in> set (op_name (jb_project job))"
    and "\<And>w' row. later w w' \<Longrightarrow> op_vcs_type (jb_project job) = ''git'' \<Longrightarrow>
      row = new_job_row job (jr_id row) (jr_created_at row) \<Longrightarrow> job_row_ok row \<Longrightarrow>
      jr_id row \<notin> jr_id ` set (tb_jobs (w_tables w)) \<Longrightarrow> w_tables w' = add_job row (w_tables w) \<Longrightarrow> Q (Inr (job_of_row X row)) w'"
    and "\<And>w'. later w w' \<Longrightarrow> op_vcs_type (jb_project job) = ''git'' \<Longrightarrow>
      w_tables w' = (w_tables w)\<lparr>tb_job_id_seq := tb_job_id_seq (w_tables w) + 1\<rparr> \<Longrightarrow> Q (Inl JobCreate) w'"
    and "\<And>w'. later w w' \<Longrightarrow> op_vcs_type (jb_project job) \<noteq> ''git'' \<Longrightarrow> w_tables w' = w_tables w \<Longrightarrow> Q (Inl UnknownVCS) w'"
  shows "wp (create_job X job) Q w"
  unfolding create_job_def
proof (simp only: wp_and_then, rule wp_get_shard [OF assms(1)], simp only: sum.case, goal_cases)
  case (1 w1)
  show ?case
  proof (cases "op_vcs_type (jb_project job) = ''git''")
    case False
    with 1 assms(6) show ?thesis by simp
  next
    case git: True
    show ?thesis
    proof (simp add: git Let_def, rule wp_query [OF later_undisturbed [OF 1(1)]], goal_cases)
      case (1 ev w2)
      let ?row = "new_job_row job (next_id_v1 (w_db_now w2) (tb_job_id_seq (w_tables w) + 1)) (w_db_now w2)"
      have row: "job_row_ok ?row" by (rule new_job_row_ok [OF git assms(3)])
      have ids: "jr_id ?row = next_id_v1 (w_db_now w2) (tb_job_id_seq (w_tables w) + 1)" "jr_created_at ?row = w_db_now w2"
        by (simp_all add: new_job_row_def Let_def)
      show ?case
        using later_trans [OF \<open>later w w1\<close> 1(2)] \<open>w_tables w1 = w_tables w\<close> 1(3) git row ids
          assms(4) [of "w2\<lparr>w_tables := add_job ?row (w_tables w)\<rparr>" ?row]
          assms(5) [of "w2\<lparr>w_tables := (w_tables w)\<lparr>tb_job_id_seq := tb_job_id_seq (w_tables w) + 1\<rparr>\<rparr>"]
        by (auto simp: insert_job_v2_def Let_def new_job_row_def add_job_def row_to_job_ok)
    qed
  qed
qed


definition oldest_pending :: "tables \<Rightarrow> group_row option" where
  "oldest_pending t =
     (case sort_key gr_created_at (filter (\<lambda>g. gr_group_state g = group_state_to_string GroupPending) (tb_groups t)) of
        [] \<Rightarrow> None | g # _ \<Rightarrow> Some g)"

lemma oldest_pending_mem:
  assumes "oldest_pending t = Some g"
  shows "g \<in> set (tb_groups t)" and "gr_group_state g = group_state_to_string GroupPending"
proof -
  let ?gs = "sort_key gr_created_at (filter (\<lambda>g. gr_group_state g = group_state_to_string GroupPending) (tb_groups t))"
  have "set ?gs = {g \<in> set (tb_groups t). gr_group_state g = group_state_to_string GroupPending}" by simp
  moreover have "g \<in> set ?gs" using assms by (cases ?gs) (simp_all add: oldest_pending_def)
  ultimately show "g \<in> set (tb_groups t)" and "gr_group_state g = group_state_to_string GroupPending" by auto
qed

lemma oldest_pending_None:
  "oldest_pending t = None \<longleftrightarrow> (\<forall>g \<in> set (tb_groups t). gr_group_state g \<noteq> group_state_to_string GroupPending)"
proof -
  let ?P = "\<lambda>g. gr_group_state g = group_state_to_string GroupPending"
  have "oldest_pending t = None \<longleftrightarrow> sort_key gr_created_at (filter ?P (tb_groups t)) = []"
    by (simp add: oldest_pending_def split: list.split)
  also have "\<dots> \<longleftrightarrow> filter ?P (tb_groups t) = []" by (metis length_0_conv length_sort)
  finally show ?thesis by (simp add: filter_empty_conv)
qed

lemma group_row_of_mem:
  assumes "tables_inv t" and "g \<in> set (tb_groups t)"
  shows "group_row t (gr_id g) = Some g"
proof -
  have "filter (\<lambda>h. gr_id h = gr_id g) (tb_groups t) = [g]"
    by (rule filter_singleton_iff) (use assms in \<open>simp_all add: tables_inv_def\<close>)
  moreover have "filter (\<lambda>h. gr_id h = gr_id g) (tb_groups t) = (case group_row t (gr_id g) of None \<Rightarrow> [] | Some r \<Rightarrow> [r])"
    unfolding group_row_def by (rule filter_id_find) (use assms in \<open>simp add: tables_inv_def\<close>)
  ultimately show ?thesis by (simp split: option.splits)
qed

lemma wp_pending_job_groups:
  assumes "undisturbed w" and "tables_inv (w_tables w)"
    and "\<And>w'. later w w' \<Longrightarrow> oldest_pending (w_tables w) = None \<Longrightarrow> w_tables w' = w_tables w \<Longrightarrow> Q (Inr []) w'"
    and "\<And>w' g g'. later w w' \<Longrightarrow> oldest_pending (w_tables w) = Some g \<Longrightarrow>
      w_tables w' = set_group (gr_id g) GroupDispatching (w_tables w) \<Longrightarrow> group_row (w_tables w') (gr_id g) = Some g' \<Longrightarrow>
      gr_id g' = gr_id g \<Longrightarrow> jg_state (group_of_row X (w_tables w') g') = GroupDispatching \<Longrightarrow>
      Q (Inr [group_of_row X (w_tables w') g']) w'"
  shows "wp (pending_job_groups X 1) Q w"
  unfolding pending_job_groups_def
proof (simp only: wp_and_then, rule wp_get_shard [OF assms(1)], simp only: sum.case, goal_cases)
  case (1 w1)
  note w1 = this
  let ?t = "w_tables w"
  show ?case
  proof (rule wp_query [OF later_undisturbed [OF w1(1)]], goal_cases)
    case (1 ev w2)
    note lw = later_trans [OF w1(1) 1(2)]
    have t2: "w_tables w2 = ?t" using w1(2) 1(3) by simp
    have locked: "ev_locked ev = []" using 1(1) by (simp add: calm_def)
    let ?gs = "sort_key gr_created_at (filter (\<lambda>g. gr_group_state g = ''Pending'') (tb_groups ?t))"
    show ?case
    proof (cases "oldest_pending ?t")
      case None
      then have "?gs = []" by (simp add: oldest_pending_def split: list.splits)
      moreover have "tb_groups_update (update_where (\<lambda>g. False) f) t = t" for f and t :: tables
        by (cases t) (simp add: update_where_id)
      ultimately show ?thesis
        using assms(3) [OF _ None, of "w2\<lparr>w_tables := ?t\<rparr>"] lw t2 w1(2) 1(1) locked
        by (simp add: pending_groups_v1_def collect_def)
    next
      case (Some g)
      then have gs: "take 1 ?gs = [g]" by (auto simp: oldest_pending_def split: list.splits)
      let ?t' = "set_group (gr_id g) GroupDispatching ?t" and ?g' = "g\<lparr>gr_group_state := ''Dispatching''\<rparr>"
      let ?w' = "w2\<lparr>w_tables := ?t'\<rparr>"
      have inv: "tables_inv ?t'" by (rule tables_inv_set_group [OF assms(2)])
      have mem: "g \<in> set (tb_groups ?t)" by (rule oldest_pending_mem [OF Some])
      have row: "group_row ?t' (gr_id g) = Some ?g'"
        using group_row_of_mem [OF assms(2) mem] by (simp add: group_row_set_group)
      then have mem': "?g' \<in> set (tb_groups ?t')" by (simp add: group_row_mem)
      have state: "jg_state (group_of_row X ?t' ?g') = GroupDispatching"
        using group_state_roundtrip [of GroupDispatching] by (simp add: group_of_row_def)
      have "wp (with_projects X JobGroupPending ?g') (\<lambda>r s. case r of Inl e \<Rightarrow> Q (Inl e) s | Inr x \<Rightarrow> Q (Inr [x]) s) ?w'"
      proof (rule wp_with_projects(1))
        fix w'
        assume "later ?w' w'" "w_tables w' = w_tables ?w'"
        then have "later w w'" "w_tables w' = ?t'" using later_trans [OF lw] by simp_all
        with assms(4) [OF this(1) Some] row state
        show "case Inr (group_of_row X (w_tables ?w') ?g') of Inl e \<Rightarrow> Q (Inl e) w' | Inr x \<Rightarrow> Q (Inr [x]) w'" by simp
      qed (use lw mem' inv in \<open>simp_all add: later_undisturbed\<close>)
      moreover have "pending_groups_v1 1 ev (w_db_now w2) (w_tables w1) = (Some [?g'], ?t')"
        using gs 1(1) locked w1(2) by (simp add: pending_groups_v1_def set_group_def Let_def)
      ultimately show ?thesis by (simp add: collect_def cong: sum.case_cong)
    qed
  qed
qed

lemma wp_notify:
  assumes "undisturbed w" and "\<And>w'. later w w' \<Longrightarrow> w_tables w' = w_tables w \<Longrightarrow> Q (Inr ()) w'"
  shows "wp notify_work Q w" and "wp notify_scheduler Q w"
  unfolding notify_work_def notify_scheduler_def
  by (rule wp_send_on [OF assms(1)], rule assms(2); simp add: later_def undisturbed_def)+

end
