(* ===== verification/Scheduler_Facts.thy ===== *)
theory Scheduler_Facts
  imports Job_Store_Facts
begin

text \<open>
  What the scheduler guarantees for the groups of an undisturbed database: a project is started only
  when the projects of its group that it depends on are built, a failed project takes exactly
  its dependents with it, a group that waits has something to wait for, and the loop over the pending
  groups ends.
\<close>

section \<open>Dependencies within a group\<close>

text \<open>The names a package depends on.\<close>

definition dep_names :: "tables \<Rightarrow> string \<Rightarrow> string set" where
  "dep_names t ident =
     (case package_row t ident of None \<Rightarrow> {} | Some row \<Rightarrow> set (map (the \<circ> short_name) (pk_deps row)))"

definition known :: "tables \<Rightarrow> string \<Rightarrow> bool" where
  "known t ident \<longleftrightarrow> ident = [] \<or> package_row t ident \<noteq> None"

definition can_build :: "tables \<Rightarrow> job_group_project list \<Rightarrow> job_group_project \<Rightarrow> bool" where
  "can_build t ps p \<longleftrightarrow> gp_ident p = [] \<or>
     list_all (\<lambda>q. gp_name q \<in> dep_names t (gp_ident p) \<longrightarrow> gp_state q = Success) ps"

definition not_started :: "job_group_project list \<Rightarrow> job_group_project list" where
  "not_started ps = filter (\<lambda>x. gp_state x = NotStarted) ps"

lemma package_row_deps:
  assumes "tables_inv t" and "package_row t ident = Some row"
  shows "well_named_deps (pk_deps row)"
  using assms by (auto simp: tables_inv_def package_row_def list_all_iff dest!: find_mem)

lemma deps_dispatchable_eq:
  "well_named_deps deps \<Longrightarrow>
    deps_dispatchable grp deps = Some (list_all (\<lambda>d. check_dispatchable grp (the (short_name d))) deps)"
  by (induction deps) (auto simp: well_named_deps_def)

lemma any_skipped_eq:
  "well_named_deps deps \<Longrightarrow> any_skipped S deps = Some (list_ex (\<lambda>d. the (short_name d) \<in> set S) deps)"
  by (induction deps) (auto simp: well_named_deps_def)

lemma deps_checked:
  assumes "package_row t (gp_ident p) = Some row" and "gp_ident p \<noteq> []"
  shows "list_all (\<lambda>d. check_dispatchable grp (the (short_name d))) (pk_deps row) \<longleftrightarrow> can_build t (jg_projects grp) p"
  using assms by (auto simp: can_build_def dep_names_def check_dispatchable_def list_all_iff)

text \<open>One project of the loop of \<open>dispatchable_projects\<close>.\<close>

lemma wp_check_project:
  assumes "undisturbed w" and "tables_inv (w_tables w)"
    and "\<And>w'. later w w' \<Longrightarrow> w_tables w' = w_tables w \<Longrightarrow> known (w_tables w) (gp_ident p) \<Longrightarrow>
      Q (Inr (can_build (w_tables w) (jg_projects grp) p)) w'"
    and "\<And>w'. later w w' \<Longrightarrow> w_tables w' = w_tables w \<Longrightarrow> \<not> known (w_tables w) (gp_ident p) \<Longrightarrow>
      Q (Inl UnknownJobGraphPackage) w'"
  shows "wp (if gp_ident p = [] then ok True
    else and_then (get_job_graph_package (gp_ident p)) (\<lambda>package. unwrap (deps_dispatchable grp (jp_deps package)))) Q w"
proof (cases "gp_ident p = []")
  case True
  then have "known (w_tables w) (gp_ident p)" "can_build (w_tables w) (jg_projects grp) p"
    by (simp_all add: known_def can_build_def)
  with True assms(1) assms(3) [of w] show ?thesis by simp
next
  case False
  show ?thesis
  proof (simp add: False del: wp_unwrap, rule wp_get_job_graph_package [OF assms(1, 2)], goal_cases)
    case (1 w')
    show ?case
    proof (cases "package_row (w_tables w) (gp_ident p)")
      case None
      with False 1 assms(4) [of w'] show ?thesis by (simp add: known_def)
    next
      case (Some row)
      with False 1 assms(3) [of w'] deps_checked [OF Some False, of grp]
        deps_dispatchable_eq [OF package_row_deps [OF assms(2) Some], of grp]
      show ?thesis by (simp add: known_def row_to_job_graph_package_def)
    qed
  qed
qed

lemma wp_dispatchable_loop:
  assumes "undisturbed w" and "tables_inv (w_tables w)"
    and "\<And>w'. later w w' \<Longrightarrow> w_tables w' = w_tables w \<Longrightarrow> list_all (\<lambda>p. known (w_tables w) (gp_ident p)) ps \<Longrightarrow>
      Q (Inr (acc @ filter (can_build (w_tables w) (jg_projects grp)) ps)) w'"
    and "\<And>w'. later w w' \<Longrightarrow> w_tables w' = w_tables w \<Longrightarrow> \<not> list_all (\<lambda>p. known (w_tables w) (gp_ident p)) ps \<Longrightarrow>
      Q (Inl UnknownJobGraphPackage) w'"
  shows "wp (for_fold (\<lambda>project projects.
      and_then
        (if gp_ident project = [] then ok True
         else and_then (get_job_graph_package (gp_ident project)) (\<lambda>package.
           unwrap (deps_dispatchable grp (jp_deps package)))) (\<lambda>dispatchable.
      ok (if dispatchable then projects @ [project] else projects))) ps acc) Q w"
  using assms
proof (induction ps arbitrary: acc w)
  case Nil
  then show ?case by simp
next
  case (Cons p ps)
  let ?t = "w_tables w"
  show ?case
  proof (simp only: for_fold.simps wp_and_then, rule wp_check_project [OF Cons.prems(1, 2)], goal_cases)
    case (1 w')
    let ?acc = "if can_build ?t (jg_projects grp) p then acc @ [p] else acc"
    have "wp (for_fold (\<lambda>project projects.
        and_then
          (if gp_ident project = [] then ok True
           else and_then (get_job_graph_package (gp_ident project)) (\<lambda>package.
             unwrap (deps_dispatchable grp (jp_deps package)))) (\<lambda>dispatchable.
        ok (if dispatchable then projects @ [project] else projects))) ps ?acc) Q w'"
    proof (rule Cons.IH)
      fix w''
      assume "later w' w''" "w_tables w'' = w_tables w'" "list_all (\<lambda>p. known (w_tables w') (gp_ident p)) ps"
      with 1 Cons.prems(3) [of w''] show "Q (Inr (?acc @ filter (can_build (w_tables w') (jg_projects grp)) ps)) w''"
        by (auto dest: later_trans)
    next
      fix w''
      assume "later w' w''" "w_tables w'' = w_tables w'" "\<not> list_all (\<lambda>p. known (w_tables w') (gp_ident p)) ps"
      with 1 Cons.prems(4) [of w''] show "Q (Inl UnknownJobGraphPackage) w''" by (auto dest: later_trans)
    qed (use 1 Cons.prems(2) in \<open>simp_all add: later_undisturbed\<close>)
    then show ?case by simp
  next
    case (2 w')
    with Cons.prems(4) [of w'] show ?case by simp
  qed
qed


definition all_known :: "tables \<Rightarrow> job_group_project list \<Rightarrow> bool" where
  "all_known t ps \<longleftrightarrow> list_all (\<lambda>p. known t (gp_ident p)) (not_started ps)"

definition buildable :: "tables \<Rightarrow> job_group_project list \<Rightarrow> job_group_project list" where
  "buildable t ps = filter (can_build t ps) (not_started ps)"

lemma wp_dispatchable_projects:
  assumes "undisturbed w" and "tables_inv (w_tables w)"
    and "\<And>w'. later w w' \<Longrightarrow> w_tables w' = w_tables w \<Longrightarrow> all_known (w_tables w) (jg_projects grp) \<Longrightarrow>
      Q (Inr (buildable (w_tables w) (jg_projects grp))) w'"
    and "\<And>w'. later w w' \<Longrightarrow> w_tables w' = w_tables w \<Longrightarrow> \<not> all_known (w_tables w) (jg_projects grp) \<Longrightarrow>
      Q (Inl UnknownJobGraphPackage) w'"
  shows "wp (dispatchable_projects grp) Q w"
  unfolding dispatchable_projects_def
  by (rule wp_dispatchable_loop [OF assms(1, 2)])
    (use assms(3, 4) in \<open>simp_all add: all_known_def buildable_def not_started_def\<close>)

section \<open>Skipping dependents\<close>

text \<open>The names that the loop of \<open>skip_projects\<close> marks, starting from the names in \<open>S\<close>.\<close>

fun skip_names :: "tables \<Rightarrow> job_group_project list \<Rightarrow> string set \<Rightarrow> string list" where
  "skip_names t [] S = []"
| "skip_names t (p # ps) S =
     (if dep_names t (gp_ident p) \<inter> S \<noteq> {} then gp_name p # skip_names t ps (insert (gp_name p) S)
      else skip_names t ps S)"

definition set_projects :: "u64 \<Rightarrow> string list \<Rightarrow> project_state \<Rightarrow> tables \<Rightarrow> tables" where
  "set_projects gid ns s t = fold (\<lambda>n. set_project gid n s) ns t"

lemma set_projects_simps [simp]:
  "set_projects gid [] s t = t" "set_projects gid (n # ns) s t = set_projects gid ns s (set_project gid n s t)"
  by (simp_all add: set_projects_def)

lemma set_projects_keeps [simp]:
  "tb_groups (set_projects gid ns s t) = tb_groups t" "tb_jobs (set_projects gid ns s t) = tb_jobs t"
  "tb_graph_packages (set_projects gid ns s t) = tb_graph_packages t"
  "tb_busy_workers (set_projects gid ns s t) = tb_busy_workers t"
  by (induction ns arbitrary: t) simp_all

lemma tables_inv_set_projects: "tables_inv t \<Longrightarrow> tables_inv (set_projects gid ns s t)"
  by (induction ns arbitrary: t) (simp_all add: tables_inv_set_project)

lemma projects_of_set_projects:
  "projects_of (set_projects gid ns s t) gid' =
    (if gid' = gid then map (\<lambda>p. if gp_name p \<in> set ns then p\<lparr>gp_state := s\<rparr> else p) (projects_of t gid)
     else projects_of t gid')"
  by (induction ns arbitrary: t) (auto simp: o_def)

lemma package_row_set_projects [simp]: "package_row (set_projects gid ns s t) = package_row t"
  by (simp add: package_row_def fun_eq_iff)

lemma group_row_set_projects [simp]: "group_row (set_projects gid ns s t) = group_row t"
  by (simp add: group_row_def fun_eq_iff)

lemma dep_names_cong: "package_row t = package_row t' \<Longrightarrow> dep_names t = dep_names t'"
  by (simp add: dep_names_def fun_eq_iff)

lemma skip_names_cong: "dep_names t = dep_names t' \<Longrightarrow> skip_names t ps S = skip_names t' ps S"
  by (induction ps arbitrary: S) simp_all

lemma hit_iff:
  "package_row t ident = Some row \<Longrightarrow>
    list_ex (\<lambda>d. the (short_name d) \<in> set S) (pk_deps row) \<longleftrightarrow> dep_names t ident \<inter> set S \<noteq> {}"
  by (auto simp: dep_names_def list_ex_iff)

lemma wp_skip_loop:
  assumes "undisturbed w" and "tables_inv (w_tables w)"
    and "\<And>w' S'. later w w' \<Longrightarrow> w_tables w' = set_projects (jg_id grp) (skip_names (w_tables w) ps (set S)) Skipped (w_tables w) \<Longrightarrow>
      set S' = set S \<union> set (skip_names (w_tables w) ps (set S)) \<Longrightarrow> Q (Inr S') w'"
  shows "wp (for_fold (\<lambda>project skipped.
      match_result (get_job_graph_package (gp_ident project)) (\<lambda>r. case r of
        Inl _ \<Rightarrow> ok skipped
      | Inr package \<Rightarrow>
          and_then (unwrap (any_skipped skipped (jp_deps package))) (\<lambda>skip.
          if skip then
            and_then (set_job_group_project_state (jg_id grp) (gp_name project) Skipped) (\<lambda>_.
            ok (List.insert (gp_name project) skipped))
          else ok skipped))) ps S) Q w"
    (is "wp (for_fold ?F ps S) Q w")
  using assms
proof (induction ps arbitrary: S w)
  case Nil
  then show ?case by simp
next
  case (Cons p ps)
  let ?t = "w_tables w"
  have miss: "wp (for_fold ?F ps S) Q w'"
    if "later w w'" "w_tables w' = ?t" "dep_names ?t (gp_ident p) \<inter> set S = {}" for w'
    by (rule Cons.IH) (use that Cons.prems in \<open>auto simp: later_undisturbed dest: later_trans\<close>)
  have hit: "wp (for_fold ?F ps (List.insert (gp_name p) S)) Q w'"
    if "later w w'" "w_tables w' = set_project (jg_id grp) (gp_name p) Skipped ?t" "dep_names ?t (gp_ident p) \<inter> set S \<noteq> {}" for w'
  proof -
    have deps: "dep_names (set_project (jg_id grp) (gp_name p) Skipped ?t) = dep_names ?t" by (rule dep_names_cong) simp
    show ?thesis
      by (rule Cons.IH)
        (use that Cons.prems in \<open>auto simp: later_undisturbed tables_inv_set_project skip_names_cong [OF deps] dest: later_trans\<close>)
  qed
  show ?case
  proof (simp only: for_fold.simps wp_and_then wp_match_result, rule wp_get_job_graph_package [OF Cons.prems(1, 2)], goal_cases)
    case (1 w')
    show ?case
    proof (cases "package_row ?t (gp_ident p)")
      case None
      with miss [OF 1] show ?thesis by (simp add: dep_names_def)
    next
      case (Some row)
      have skip: "any_skipped S (pk_deps row) = Some (dep_names ?t (gp_ident p) \<inter> set S \<noteq> {})"
        using any_skipped_eq [OF package_row_deps [OF Cons.prems(2) Some], of S] hit_iff [OF Some, of S] by simp
      show ?thesis
      proof (cases "dep_names ?t (gp_ident p) \<inter> set S = {}")
        case True
        with Some skip miss [OF 1 True] show ?thesis by (simp add: row_to_job_graph_package_def)
      next
        case False
        have "wp (set_job_group_project_state (jg_id grp) (gp_name p) Skipped)
            (\<lambda>r s. case r of Inl e \<Rightarrow> Q (Inl e) s | Inr x \<Rightarrow> wp (for_fold ?F ps (List.insert (gp_name p) S)) Q s) w'"
          by (rule wp_set_job_group_project_state)
            (use 1 in \<open>auto simp: later_undisturbed intro!: hit [OF _ _ False] dest: later_trans\<close>)
        with Some skip False show ?thesis by (simp add: row_to_job_graph_package_def cong: sum.case_cong)
      qed
    qed
  qed
qed

lemma wp_skip_projects:
  fixes grp :: job_group and n :: string
  assumes "undisturbed w" and "tables_inv (w_tables w)"
  defines "ns \<equiv> skip_names (w_tables w) (not_started (jg_projects grp)) {n}"
  assumes "\<And>w' S. later w w' \<Longrightarrow> w_tables w' = set_projects (jg_id grp) ns Skipped (w_tables w) \<Longrightarrow>
    set S = insert n (set ns) \<Longrightarrow> Q (Inr S) w'"
  shows "wp (skip_projects grp n) Q w"
  unfolding skip_projects_def
  by (rule wp_skip_loop [OF assms(1, 2)]) (use assms(4) in \<open>simp_all add: ns_def not_started_def\<close>)


text \<open>The edges from a name to the projects of a list that depend on it directly.\<close>

definition dep_rel :: "tables \<Rightarrow> job_group_project list \<Rightarrow> (string \<times> string) set" where
  "dep_rel t ps = (\<Union>p \<in> set ps. dep_names t (gp_ident p) \<times> {gp_name p})"

text \<open>No project comes before one it depends on, and none depends on itself.\<close>

fun build_ordered :: "tables \<Rightarrow> job_group_project list \<Rightarrow> bool" where
  "build_ordered t [] \<longleftrightarrow> True"
| "build_ordered t (p # ps) \<longleftrightarrow>
     list_all (\<lambda>q. gp_name q \<notin> dep_names t (gp_ident p)) (p # ps) \<and> build_ordered t ps"

lemma dep_rel_Cons: "dep_rel t (p # ps) = dep_names t (gp_ident p) \<times> {gp_name p} \<union> dep_rel t ps"
  by (simp add: dep_rel_def)

lemma dep_rel_target: "(a, b) \<in> dep_rel t ps \<Longrightarrow> b \<in> gp_name ` set ps"
  by (auto simp: dep_rel_def)

lemma dep_rel_trancl_target: "(a, b) \<in> (dep_rel t ps)\<^sup>+ \<Longrightarrow> b \<in> gp_name ` set ps"
  by (erule tranclE) (auto dest: dep_rel_target)

text \<open>Paths that start in \<open>S\<close> when one project is put in front of the others.\<close>

lemma dep_rel_paths_Cons:
  assumes "build_ordered t (p # ps)" and "gp_name p \<notin> gp_name ` set ps"
  shows "(a, b) \<in> (dep_rel t (p # ps))\<^sup>+ \<longleftrightarrow>
    (a, b) \<in> (dep_rel t ps)\<^sup>+ \<or> a \<in> dep_names t (gp_ident p) \<and> (gp_name p, b) \<in> (dep_rel t ps)\<^sup>*"
proof
  assume "(a, b) \<in> (dep_rel t (p # ps))\<^sup>+"
  then show "(a, b) \<in> (dep_rel t ps)\<^sup>+ \<or> a \<in> dep_names t (gp_ident p) \<and> (gp_name p, b) \<in> (dep_rel t ps)\<^sup>*"
  proof (induction rule: trancl_induct)
    case (base b)
    then show ?case by (auto simp: dep_rel_Cons)
  next
    case (step b c)
    show ?case
    proof (cases "(b, c) \<in> dep_rel t ps")
      case True
      with step.IH show ?thesis by (meson rtrancl.rtrancl_into_rtrancl trancl.trancl_into_trancl)
    next
      case False
      with step.hyps(2) have new: "b \<in> dep_names t (gp_ident p)" "c = gp_name p" by (auto simp: dep_rel_Cons)
      with assms(1) have "b \<notin> gp_name ` set (p # ps)" by (auto simp: list_all_iff)
      with step.IH have "b = gp_name p" by (auto dest: dep_rel_trancl_target simp: rtrancl_eq_or_trancl)
      with \<open>b \<notin> gp_name ` set (p # ps)\<close> show ?thesis by simp
    qed
  qed
next
  have mono: "(dep_rel t ps)\<^sup>+ \<subseteq> (dep_rel t (p # ps))\<^sup>+" "(dep_rel t ps)\<^sup>* \<subseteq> (dep_rel t (p # ps))\<^sup>*"
    by (auto simp: dep_rel_Cons intro: trancl_mono rtrancl_mono [THEN subsetD])
  assume "(a, b) \<in> (dep_rel t ps)\<^sup>+ \<or> a \<in> dep_names t (gp_ident p) \<and> (gp_name p, b) \<in> (dep_rel t ps)\<^sup>*"
  then show "(a, b) \<in> (dep_rel t (p # ps))\<^sup>+"
  proof
    assume "a \<in> dep_names t (gp_ident p) \<and> (gp_name p, b) \<in> (dep_rel t ps)\<^sup>*"
    then have "(a, gp_name p) \<in> dep_rel t (p # ps)" "(gp_name p, b) \<in> (dep_rel t (p # ps))\<^sup>*"
      using mono(2) by (auto simp: dep_rel_Cons)
    then show ?thesis by (rule rtrancl_into_trancl2)
  qed (use mono(1) in blast)
qed

lemma skip_names_reachable:
  assumes "build_ordered t ps" and "distinct (map gp_name ps)"
  shows "set (skip_names t ps S) = (dep_rel t ps)\<^sup>+ `` S"
  using assms
proof (induction ps arbitrary: S)
  case Nil
  then show ?case by (simp add: dep_rel_def)
next
  case (Cons p ps)
  have new: "gp_name p \<notin> gp_name ` set ps" using Cons.prems(2) by simp
  have IH: "set (skip_names t ps S') = (dep_rel t ps)\<^sup>+ `` S'" for S' by (rule Cons.IH) (use Cons.prems in simp_all)
  have paths: "(dep_rel t (p # ps))\<^sup>+ `` S = (dep_rel t ps)\<^sup>+ `` S \<union>
      (if dep_names t (gp_ident p) \<inter> S \<noteq> {} then (dep_rel t ps)\<^sup>* `` {gp_name p} else {})"
    by (auto simp: dep_rel_paths_Cons [OF Cons.prems(1) new])
  also have "\<dots> = set (skip_names t (p # ps) S)" by (auto simp: IH rtrancl_eq_or_trancl)
  finally show ?case by simp
qed


section \<open>The state of a group\<close>

lemma group_of_row_simps [simp]:
  "jg_id (group_of_row X t g) = gr_id g" "jg_projects (group_of_row X t g) = projects_of t (gr_id g)"
  "jg_created_at (group_of_row X t g) = ex_rfc3339 X (gr_created_at g)"
  by (simp_all add: group_of_row_def)

lemma jg_state_group_of_row: "group_row t gid = Some g \<Longrightarrow> jg_state (group_of_row X t g) = the (group_state_of t gid)"
  by (simp add: group_of_row_def group_state_of_def)

lemma wp_update_group_state:
  assumes "undisturbed w" and "tables_inv (w_tables w)"
    and "\<And>w'. later w w' \<Longrightarrow> w_tables w' = w_tables w \<Longrightarrow> group_state_of (w_tables w) gid = None \<Longrightarrow> Q (Inl UnknownJobGroup) w'"
    and "\<And>w' s. later w w' \<Longrightarrow> w_tables w' = w_tables w \<Longrightarrow> group_state_of (w_tables w) gid = Some s \<Longrightarrow>
      s \<noteq> GroupDispatching \<Longrightarrow> Q (Inr ()) w'"
    and "\<And>w'. later w w' \<Longrightarrow> group_state_of (w_tables w) gid = Some GroupDispatching \<Longrightarrow>
      all_known (w_tables w) (projects_of (w_tables w) gid) \<Longrightarrow>
      w_tables w' = set_group gid (new_group_state (projects_of (w_tables w) gid)
        (buildable (w_tables w) (projects_of (w_tables w) gid) \<noteq> [])) (w_tables w) \<Longrightarrow> Q (Inr ()) w'"
    and "\<And>w'. later w w' \<Longrightarrow> w_tables w' = w_tables w \<Longrightarrow> group_state_of (w_tables w) gid = Some GroupDispatching \<Longrightarrow>
      \<not> all_known (w_tables w) (projects_of (w_tables w) gid) \<Longrightarrow> Q (Inl UnknownJobGraphPackage) w'"
  shows "wp (update_group_state X gid) Q w"
  unfolding update_group_state_def
proof (simp only: wp_and_then, rule wp_get_group [OF assms(1, 2)], goal_cases)
  case (1 w1)
  let ?t = "w_tables w"
  show ?case
  proof (cases "group_row ?t gid")
    case None
    with 1 assms(3) [of w1] show ?thesis by (simp add: group_state_of_def)
  next
    case (Some g)
    then have gid: "gr_id g = gid" by (simp add: group_row_mem)
    obtain s where s: "group_state_of ?t gid = Some s" "jg_state (group_of_row X ?t g) = s"
      using Some jg_state_group_of_row [OF Some, of X] by (cases "group_state_of ?t gid") (simp_all add: group_state_of_def)
    show ?thesis
    proof (cases "s = GroupDispatching")
      case False
      with 1 Some s assms(4) [OF _ _ s(1)] show ?thesis by simp
    next
      case True
      note dispatching = s(1) [unfolded True]
      let ?new = "new_group_state (projects_of ?t gid) (buildable ?t (projects_of ?t gid) \<noteq> [])"
      have finish: "wp (and_then (set_job_group_state gid ?new) (\<lambda>_. if ?new = GroupPending then notify_scheduler else ok ())) Q w2"
        if "later w w2" "w_tables w2 = ?t" "all_known ?t (projects_of ?t gid)" for w2
      proof (simp only: wp_and_then, rule wp_set_job_group_state [OF later_undisturbed [OF that(1)]], goal_cases)
        case (1 w3)
        have "Q (Inr ()) w4" if "later w3 w4" "w_tables w4 = w_tables w3" for w4
          by (rule assms(5) [OF _ dispatching]) (use that 1 \<open>later w w2\<close> \<open>w_tables w2 = ?t\<close>
            \<open>all_known ?t (projects_of ?t gid)\<close> in \<open>auto dest: later_trans\<close>)
        with 1 show ?case by (auto intro: wp_notify simp: later_undisturbed)
      qed
      have "wp (dispatchable_projects (group_of_row X ?t g)) (\<lambda>r s. case r of Inl e \<Rightarrow> Q (Inl e) s
          | Inr dispatchable \<Rightarrow> wp (let new_state = new_group_state (projects_of ?t gid) (dispatchable \<noteq> [])
              in and_then (set_job_group_state gid new_state) (\<lambda>_. if new_state = GroupPending then notify_scheduler else ok ())) Q s) w1"
        by (rule wp_dispatchable_projects [OF later_undisturbed [OF 1(1)]])
          (use 1 gid assms(2) finish assms(6) [OF _ _ dispatching] in \<open>auto simp: Let_def dest: later_trans simp del: wp_and_then\<close>)
      with Some s True gid show ?thesis by (simp del: wp_and_then) (simp only: wp_and_then)
    qed
  qed
qed


section \<open>Dispatching\<close>

text \<open>
  How a pass over a group may change it: no project returns to \<open>NotStarted\<close> or becomes \<open>Success\<close>, only
  the projects in \<open>D\<close> are started, other groups stay as they are.
\<close>

definition project_advanced :: "string set \<Rightarrow> job_group_project \<Rightarrow> job_group_project \<Rightarrow> bool" where
  "project_advanced D p q \<longleftrightarrow> gp_name q = gp_name p \<and> gp_ident q = gp_ident p \<and>
     (gp_state p \<noteq> NotStarted \<longrightarrow> gp_state q \<noteq> NotStarted) \<and> (gp_state q = Success \<longrightarrow> gp_state p = Success) \<and>
     (gp_state q = InProgress \<longrightarrow> gp_state p = InProgress \<or> gp_name p \<in> D)"

definition advanced :: "u64 \<Rightarrow> string set \<Rightarrow> tables \<Rightarrow> tables \<Rightarrow> bool" where
  "advanced gid D t t' \<longleftrightarrow> tables_inv t' \<and> tb_graph_packages t' = tb_graph_packages t \<and>
     list_all2 (project_advanced D) (projects_of t gid) (projects_of t' gid) \<and>
     (\<forall>g. g \<noteq> gid \<longrightarrow> projects_of t' g = projects_of t g \<and> group_state_of t' g = group_state_of t g) \<and>
     map gr_id (tb_groups t') = map gr_id (tb_groups t) \<and>
     (group_state_of t' gid = group_state_of t gid \<or> group_state_of t' gid = Some GroupFailed)"

lemma advanced_inv: "advanced gid D t t' \<Longrightarrow> tables_inv t'"
  by (simp add: advanced_def)

lemma project_advanced_refl: "project_advanced D p p"
  by (simp add: project_advanced_def)

lemma advanced_refl: "tables_inv t \<Longrightarrow> advanced gid D t t"
  by (simp add: advanced_def list_all2_refl project_advanced_refl)

lemma project_advanced_trans:
  "project_advanced D p q \<Longrightarrow> project_advanced D' q r \<Longrightarrow> D \<subseteq> E \<Longrightarrow> D' \<subseteq> E \<Longrightarrow> project_advanced E p r"
  by (auto simp: project_advanced_def)

lemma advanced_trans:
  assumes "advanced gid D t t'" and "advanced gid D' t' t''" and "D \<subseteq> E" and "D' \<subseteq> E"
  shows "advanced gid E t t''"
proof -
  have "list_all2 (project_advanced E) (projects_of t gid) (projects_of t'' gid)"
    by (rule list_all2_trans [of "project_advanced D" "project_advanced D'"])
      (use assms in \<open>auto simp: advanced_def intro: project_advanced_trans\<close>)
  with assms(1, 2) show ?thesis by (auto simp: advanced_def)
qed

lemma list_all2_map_self: "(\<And>x. x \<in> set xs \<Longrightarrow> P x (f x)) \<Longrightarrow> list_all2 P xs (map f xs)"
  by (simp add: list_all2_conv_all_nth)

lemma group_state_of_cong: "tb_groups t = tb_groups t' \<Longrightarrow> group_state_of t = group_state_of t'"
  by (simp add: group_state_of_def group_row_def fun_eq_iff)

lemma advanced_set_project:
  assumes "tables_inv t" and "s \<notin> {NotStarted, Success, InProgress}"
  shows "advanced gid D t (set_project gid n s t)"
  using assms
  by (auto simp: advanced_def tables_inv_set_project project_advanced_def
      intro!: list_all2_map_self fun_cong [OF group_state_of_cong])

lemma advanced_set_projects:
  assumes "tables_inv t" and "s \<notin> {NotStarted, Success, InProgress}"
  shows "advanced gid D t (set_projects gid ns s t)"
  using assms
  by (auto simp: advanced_def tables_inv_set_projects projects_of_set_projects project_advanced_def
      intro!: list_all2_map_self fun_cong [OF group_state_of_cong])

lemma map_gr_id_set_group [simp]: "map gr_id (tb_groups (set_group gid s t)) = map gr_id (tb_groups t)"
  by (simp add: set_group_def map_update_where)

lemma advanced_set_failed:
  assumes "tables_inv t" and "group_row t gid \<noteq> None"
  shows "advanced gid D t (set_group gid GroupFailed t)"
  using assms by (simp add: advanced_def tables_inv_set_group list_all2_refl project_advanced_refl)

lemma update_project_simps [simp]:
  "tb_groups (update_project gid n f t) = tb_groups t" "tb_graph_packages (update_project gid n f t) = tb_graph_packages t"
  "tb_jobs (update_project gid n f t) = tb_jobs t" "tb_busy_workers (update_project gid n f t) = tb_busy_workers t"
  by (simp_all add: update_project_def)

lemma add_job_simps [simp]:
  "tb_groups (add_job row t) = tb_groups t" "tb_graph_packages (add_job row t) = tb_graph_packages t"
  "projects_of (add_job row t) g = projects_of t g" "tb_group_projects (add_job row t) = tb_group_projects t"
  by (simp_all add: add_job_def projects_of_def)

text \<open>What a pending job does to its project.\<close>

lemma projects_of_job_change:
  assumes "jb_state job = Pending"
  shows "projects_of (update_project gid n (job_change job) t) gid' =
    (if gid' = gid then map (\<lambda>p. if gp_name p = n then p\<lparr>gp_state := InProgress, gp_job_id := jb_id job\<rparr> else p) (projects_of t gid)
     else projects_of t gid')"
  unfolding projects_of_update_project [OF project_change_job]
  using assms project_state_roundtrip [of InProgress]
  by (auto simp: projects_of_def job_change_def project_of_row_def)

lemma advanced_started:
  assumes "tables_inv t" and "jb_state job = Pending" and "n \<in> D" and "job_row_ok row" and "jr_id row \<notin> jr_id ` set (tb_jobs t)"
  shows "advanced gid D t (update_project gid n (job_change job) (add_job row t))"
proof -
  have "tables_inv (update_project gid n (job_change job) (add_job row t))"
    by (intro tables_inv_update_project tables_inv_add_job) (use assms in simp_all)
  with assms(3) show ?thesis
    by (auto simp: advanced_def projects_of_job_change [OF assms(2)] project_advanced_def
        intro!: list_all2_map_self fun_cong [OF group_state_of_cong])
qed

text \<open>The origin service returns the project it was asked for.\<close>

definition origins_ok :: "origins \<Rightarrow> bool" where
  "origins_ok O' \<longleftrightarrow> (\<forall>n p. og_project O' n = Inr p \<longrightarrow> op_name p = n)"

lemma wp_schedule_job:
  assumes "undisturbed w" and "tables_inv (w_tables w)" and "origins_ok O'" and "CHR ''/'' \<in> set n"
    and "\<And>w'. later w w' \<Longrightarrow> w_tables w' = w_tables w \<Longrightarrow> Q (Inr None) w'"
    and "\<And>w' row job. later w w' \<Longrightarrow> w_tables w' = add_job row (w_tables w) \<Longrightarrow> job_row_ok row \<Longrightarrow>
      jr_id row \<notin> jr_id ` set (tb_jobs (w_tables w)) \<Longrightarrow> job = job_of_row X row \<Longrightarrow> jb_state job = Pending \<Longrightarrow>
      jb_owner_id job = gid \<Longrightarrow> op_name (jb_project job) = n \<Longrightarrow> Q (Inr (Some job)) w'"
    and "\<And>w' e k. later w w' \<Longrightarrow> w_tables w' = (w_tables w)\<lparr>tb_job_id_seq := k\<rparr> \<Longrightarrow> Q (Inl e) w'"
  shows "wp (schedule_job X O' gid n) Q w"
proof (cases "og_project O' n")
  case (Inl e)
  with assms(1, 5) show ?thesis by (simp add: schedule_job_def)
next
  case (Inr project)
  then have name: "op_name project = n" using assms(3) by (simp add: origins_ok_def)
  let ?job = "job_of_spec \<lparr>js_owner_id = gid, js_project = project, js_channel = Some (bldr_channel_name gid)\<rparr>"
  show ?thesis
  proof (simp only: schedule_job_def Inr sum.case wp_and_then, rule wp_create_job [OF assms(1, 2)], goal_cases)
    case 1
    with name assms(4) show ?case by (simp add: job_of_spec_def)
  next
    case (2 w' row)
    have state: "jb_state (job_of_row X row) = Pending" "jb_owner_id (job_of_row X row) = gid"
        "op_name (jb_project (job_of_row X row)) = n"
      using name job_state_roundtrip [of Pending]
      by (subst 2(3), simp add: job_of_row_def new_job_row_def job_of_spec_def Let_def)+
    then show ?case
      by (simp, intro wp_notify) (use 2 assms(6) state in \<open>auto simp: later_undisturbed dest: later_trans\<close>)
  next
    case (3 w')
    with assms(7) show ?case by simp
  next
    case (4 w')
    with assms(7) [of w' "tb_job_id_seq (w_tables w)"] show ?case by simp
  qed
qed


definition settled :: "tables \<Rightarrow> u64 \<Rightarrow> string set \<Rightarrow> bool" where
  "settled t gid N \<longleftrightarrow> (\<forall>q \<in> set (projects_of t gid). gp_name q \<in> N \<longrightarrow> gp_state q \<noteq> NotStarted)"

lemma advanced_pair:
  assumes "advanced gid D t t'" and "q \<in> set (projects_of t' gid)"
  obtains p where "p \<in> set (projects_of t gid)" and "project_advanced D p q"
  using assms by (force simp: advanced_def list_all2_conv_all_nth in_set_conv_nth)

lemma advanced_pair':
  assumes "advanced gid D t t'" and "p \<in> set (projects_of t gid)"
  obtains q where "q \<in> set (projects_of t' gid)" and "project_advanced D p q"
  using assms by (force simp: advanced_def list_all2_conv_all_nth in_set_conv_nth)

lemma advanced_settled:
  assumes "advanced gid D t t'" and "settled t gid N"
  shows "settled t' gid N"
  unfolding settled_def
proof (intro ballI impI)
  fix q
  assume "q \<in> set (projects_of t' gid)" "gp_name q \<in> N"
  obtain p where "p \<in> set (projects_of t gid)" "project_advanced D p q"
    by (rule advanced_pair [OF assms(1) \<open>q \<in> set (projects_of t' gid)\<close>])
  with assms(2) \<open>gp_name q \<in> N\<close> show "gp_state q \<noteq> NotStarted" by (auto simp: settled_def project_advanced_def)
qed

lemma settled_Un [simp]: "settled t gid (M \<union> N) \<longleftrightarrow> settled t gid M \<and> settled t gid N"
  by (auto simp: settled_def)

lemma settled_empty [simp]: "settled t gid {}"
  by (simp add: settled_def)

lemma settled_set_projects: "s \<noteq> NotStarted \<Longrightarrow> settled (set_projects gid ns s t) gid (set ns)"
  by (auto simp: settled_def projects_of_set_projects)

lemma settled_set_project: "s \<noteq> NotStarted \<Longrightarrow> settled (set_project gid n s t) gid {n}"
  using settled_set_projects [of s gid "[n]" t] by simp

lemma project_row_mem:
  assumes "n \<in> gp_name ` set (projects_of t gid)"
  shows "project_row t gid n \<noteq> None"
  using assms by (auto simp: project_row_def projects_of_def find_None_iff project_of_row_def)

lemma project_name_slash:
  "tables_inv t \<Longrightarrow> n \<in> gp_name ` set (projects_of t gid) \<Longrightarrow> CHR ''/'' \<in> set n"
  by (auto simp: tables_inv_def projects_of_def list_all_iff project_of_row_def)

lemma advanced_names: "advanced gid D t t' \<Longrightarrow> map gp_name (projects_of t' gid) = map gp_name (projects_of t gid)"
  by (auto simp: advanced_def list_all2_conv_all_nth project_advanced_def intro!: nth_equalityI)

lemma advanced_group_row: "advanced gid D t t' \<Longrightarrow> group_row t' g = None \<longleftrightarrow> group_row t g = None"
proof -
  assume "advanced gid D t t'"
  then have "map gr_id (tb_groups t') = map gr_id (tb_groups t)" by (simp add: advanced_def)
  then have "gr_id ` set (tb_groups t') = gr_id ` set (tb_groups t)" by (metis list.set_map)
  moreover have "group_row u g = None \<longleftrightarrow> g \<notin> gr_id ` set (tb_groups u)" for u
    by (auto simp: group_row_def find_None_iff)
  ultimately show ?thesis by simp
qed

lemma advanced_seq: "advanced gid D t u \<Longrightarrow> advanced gid D t (u\<lparr>tb_job_id_seq := k\<rparr>)"
  by (simp add: advanced_def projects_of_def group_state_of_def group_row_def)

text \<open>The three ways a project of the loop is handled.\<close>

lemma wp_skip_branch:
  assumes "undisturbed w" and "tables_inv (w_tables w)" and "jg_id grp = gid"
    and "\<And>w' S. later w w' \<Longrightarrow> advanced gid D (w_tables w) (w_tables w') \<Longrightarrow> settled (w_tables w') gid (insert n (set S)) \<Longrightarrow>
      wp (k S) Q w'"
  shows "wp (and_then (set_job_group_project_state gid n Skipped) (\<lambda>_. and_then (skip_projects grp n) k)) Q w"
proof (simp only: wp_and_then, rule wp_set_job_group_project_state [OF assms(1)], simp only: sum.case, goal_cases)
  case (1 w1)
  let ?t = "w_tables w" and ?t1 = "set_project gid n Skipped (w_tables w)"
  have inv1: "tables_inv ?t1" by (rule tables_inv_set_project [OF assms(2)])
  show ?case
  proof (rule wp_skip_projects [OF later_undisturbed [OF 1(1)]], simp add: 1(2) inv1, simp only: sum.case, goal_cases)
    case (1 w2 S)
    let ?ns = "skip_names (w_tables w1) (not_started (jg_projects grp)) {n}"
    have t2: "w_tables w2 = set_projects gid ?ns Skipped ?t1" using 1(2) \<open>w_tables w1 = ?t1\<close> assms(3) by simp
    have adv: "advanced gid D ?t ?t1" "advanced gid D ?t1 (w_tables w2)"
      unfolding t2 by (simp_all add: advanced_set_project advanced_set_projects assms(2) inv1)
    have "settled (w_tables w2) gid (set ?ns)" unfolding t2 by (rule settled_set_projects) simp
    moreover have "settled (w_tables w2) gid {n}" by (rule advanced_settled [OF adv(2)]) (simp add: settled_set_project)
    ultimately have "settled (w_tables w2) gid (insert n (set S))" using 1(3) by (auto simp: settled_def)
    with assms(4) [OF later_trans [OF \<open>later w w1\<close> 1(1)] advanced_trans [OF adv]] show ?case by simp
  qed
qed

lemma wp_start_branch:
  assumes "undisturbed w" and "tables_inv (w_tables w)" and "jb_owner_id job = gid" and "op_name (jb_project job) = n"
    and "n \<in> gp_name ` set (projects_of (w_tables w) gid)"
    and "\<And>w'. later w w' \<Longrightarrow> w_tables w' = update_project gid n (job_change job) (w_tables w) \<Longrightarrow> wp k Q w'"
  shows "wp (and_then (unwrap_result (set_job_group_job_state job)) (\<lambda>_. k)) Q w"
proof -
  have found: "project_row (w_tables w) gid n \<noteq> None" by (rule project_row_mem [OF assms(5)])
  have "wp (set_job_group_job_state job) (\<lambda>r s. r = Inr () \<and> wp k Q s) w"
    by (rule wp_set_job_group_job_state [OF assms(1, 2)]) (use found assms(3, 4, 6) in auto)
  then show ?thesis by (simp add: unwrap_result_def) (erule wp_mono, simp)
qed

lemma wp_fail_branch:
  assumes "undisturbed w" and "tables_inv (w_tables w)" and "group_row (w_tables w) gid \<noteq> None"
    and "\<And>w'. later w w' \<Longrightarrow> advanced gid D (w_tables w) (w_tables w') \<Longrightarrow> group_state_of (w_tables w') gid = Some GroupFailed \<Longrightarrow>
      Q (Inr ()) w'"
  shows "wp (and_then (set_job_group_state gid GroupFailed) (\<lambda>_. set_job_group_project_state gid n Failure)) Q w"
proof (simp only: wp_and_then, rule wp_set_job_group_state [OF assms(1)], simp only: sum.case, goal_cases)
  case (1 w1)
  have adv: "advanced gid D (w_tables w) (w_tables w1)"
    unfolding 1(2) by (rule advanced_set_failed [OF assms(2, 3)])
  have failed: "group_state_of (w_tables w1) gid = Some GroupFailed" using 1(2) assms(3) by simp
  show ?case
  proof (rule wp_set_job_group_project_state [OF later_undisturbed [OF 1(1)]], goal_cases)
    case (1 w2)
    have "advanced gid D (w_tables w1) (w_tables w2)"
      unfolding 1(2) by (rule advanced_set_project) (simp_all add: advanced_inv [OF adv])
    moreover have "group_state_of (w_tables w2) gid = Some GroupFailed"
      using failed 1(2) group_state_of_cong [of "w_tables w2" "w_tables w1"] by simp
    ultimately show ?case
      using assms(4) [OF later_trans [OF \<open>later w w1\<close> 1(1)] advanced_trans [OF adv]] by simp
  qed
qed


definition dispatched :: "u64 \<Rightarrow> string set \<Rightarrow> world \<Rightarrow> job_error + unit \<Rightarrow> world \<Rightarrow> bool" where
  "dispatched gid D w r w' \<longleftrightarrow> r = Inr () \<and> later w w' \<and> advanced gid D (w_tables w) (w_tables w') \<and>
     (group_state_of (w_tables w') gid = Some GroupFailed \<or> settled (w_tables w') gid D)"

text \<open>The rest of the loop after one project was settled.\<close>

lemma dispatched_Cons:
  assumes "dispatched gid D w1 r w2" and "later w w1" and "advanced gid (insert n D) (w_tables w) (w_tables w1)"
    and "settled (w_tables w1) gid {n}"
  shows "dispatched gid (insert n D) w r w2"
proof -
  from assms(1) have adv: "advanced gid D (w_tables w1) (w_tables w2)" by (simp add: dispatched_def)
  have "settled (w_tables w2) gid {n}" by (rule advanced_settled [OF adv assms(4)])
  moreover have "advanced gid (insert n D) (w_tables w) (w_tables w2)" by (rule advanced_trans [OF assms(3) adv]) auto
  ultimately show ?thesis
    using assms(1, 2) settled_Un [of "w_tables w2" gid "{n}" D] by (auto simp: dispatched_def dest: later_trans)
qed

lemma wp_dispatch_projects:
  assumes "undisturbed w" and "tables_inv (w_tables w)" and "origins_ok O'" and "jg_id grp = gid"
    and "group_row (w_tables w) gid \<noteq> None" and "settled (w_tables w) gid (set skipped)"
    and "\<forall>p \<in> set ds. gp_state p = NotStarted \<and> gp_name p \<in> gp_name ` set (projects_of (w_tables w) gid)"
  shows "wp (dispatch_projects X O' grp ds skipped) (dispatched gid (gp_name ` set ds) w) w"
  using assms
proof (induction ds arbitrary: skipped w)
  case Nil
  then show ?case by (simp add: dispatched_def advanced_refl)
next
  case (Cons d ds)
  let ?t = "w_tables w" and ?n = "gp_name d" and ?D = "gp_name ` set ds"
  have d: "gp_state d = NotStarted" "?n \<in> gp_name ` set (projects_of ?t gid)" using Cons.prems(7) by simp_all
  have rest: "wp (dispatch_projects X O' grp ds skipped') (dispatched gid (insert ?n ?D) w) w1"
    if w1: "later w w1" "advanced gid (insert ?n ?D) ?t (w_tables w1)" "settled (w_tables w1) gid (insert ?n (set skipped'))"
    for w1 skipped'
  proof (rule wp_mono [OF Cons.IH])
    have "gp_name ` set (projects_of (w_tables w1) gid) = gp_name ` set (projects_of ?t gid)"
      using advanced_names [OF w1(2)] by (metis list.set_map)
    with Cons.prems(7) show "\<forall>p \<in> set ds. gp_state p = NotStarted \<and> gp_name p \<in> gp_name ` set (projects_of (w_tables w1) gid)"
      by simp
    show "group_row (w_tables w1) gid \<noteq> None" using advanced_group_row [OF w1(2)] Cons.prems(5) by simp
    show "settled (w_tables w1) gid (set skipped')" using w1(3) by (simp add: settled_def)
    show "dispatched gid (insert ?n ?D) w r w2" if "dispatched gid ?D w1 r w2" for r w2
      by (rule dispatched_Cons [OF that w1(1, 2)]) (use w1(3) in \<open>simp add: settled_def\<close>)
  qed (use w1 Cons.prems(3, 4) in \<open>simp_all add: later_undisturbed advanced_inv\<close>)
  show ?case
  proof (cases "?n \<in> set skipped")
    case True
    then show ?thesis using rest [of w skipped] Cons.prems(1, 2, 6) by (simp add: advanced_refl insert_absorb)
  next
    case False
    note slash = project_name_slash [OF Cons.prems(2) d(2)]
    show ?thesis
    proof (simp only: dispatch_projects.simps False if_False d(1) refl assert_that_simps and_then_ok wp_match_result,
        rule wp_schedule_job [OF Cons.prems(1-3) slash], goal_cases)
      case (1 w1)
      have "wp (and_then (set_job_group_project_state gid ?n Skipped) (\<lambda>_. and_then (skip_projects grp ?n)
          (\<lambda>S. dispatch_projects X O' grp ds (S @ skipped)))) (dispatched gid (insert ?n ?D) w) w1"
      proof (rule wp_skip_branch [OF later_undisturbed [OF 1(1)]])
        fix w2 S
        assume "later w1 w2" "settled (w_tables w2) gid (insert ?n (set S))"
          and adv: "advanced gid (insert ?n ?D) (w_tables w1) (w_tables w2)"
        then show "wp (dispatch_projects X O' grp ds (S @ skipped)) (dispatched gid (insert ?n ?D) w) w2"
          by (intro rest) (use 1 advanced_settled [OF adv] Cons.prems(6) in \<open>auto simp: settled_def dest: later_trans\<close>)
      qed (use 1 Cons.prems(2, 4) in simp_all)
      with Cons.prems(4) show ?case by simp
    next
      case (2 w1 row job)
      let ?t2 = "update_project gid ?n (job_change job) (w_tables w1)"
      have adv: "advanced gid (insert ?n ?D) ?t ?t2" unfolding 2(2) by (rule advanced_started) (use 2 Cons.prems(2) in simp_all)
      have "settled ?t2 gid {?n}" using 2(6) by (auto simp: settled_def projects_of_job_change)
      then have set2: "settled ?t2 gid (insert ?n (set skipped))"
        using advanced_settled [OF adv Cons.prems(6)] by (auto simp: settled_def)
      have inv1: "tables_inv (w_tables w1)" unfolding 2(2) by (rule tables_inv_add_job) (use 2 Cons.prems(2) in simp_all)
      have "wp (and_then (unwrap_result (set_job_group_job_state job)) (\<lambda>_. dispatch_projects X O' grp ds skipped))
          (dispatched gid (insert ?n ?D) w) w1"
      proof (rule wp_start_branch [OF later_undisturbed [OF 2(1)] inv1])
        show "wp (dispatch_projects X O' grp ds skipped) (dispatched gid (insert ?n ?D) w) w2"
          if "later w1 w2" "w_tables w2 = ?t2" for w2
          by (rule rest) (use that 2(1) adv set2 in \<open>auto dest: later_trans\<close>)
      qed (use d(2) 2 Cons.prems(4) in simp_all)
      then show ?case by simp
    next
      case (3 w1 e k)
      have adv: "advanced gid (insert ?n ?D) ?t (w_tables w1)"
        using advanced_seq [OF advanced_refl [OF Cons.prems(2)]] 3(2) by simp
      have "wp (and_then (set_job_group_state gid GroupFailed) (\<lambda>_. set_job_group_project_state gid ?n Failure))
          (dispatched gid (insert ?n ?D) w) w1"
      proof (rule wp_fail_branch [where D = "insert ?n ?D", OF later_undisturbed [OF 3(1)] advanced_inv [OF adv]])
        show "group_row (w_tables w1) gid \<noteq> None" using Cons.prems(5) advanced_group_row [OF adv] by simp
      qed (use 3(1) advanced_trans [OF adv _ subset_refl subset_refl] in \<open>auto simp: dispatched_def dest: later_trans\<close>)
      with Cons.prems(4) show ?case by simp
    qed
  qed
qed


section \<open>The loop over pending groups\<close>

lemma dep_names_advanced: "advanced gid D t t' \<Longrightarrow> dep_names t' = dep_names t"
  by (rule dep_names_cong) (simp add: advanced_def package_row_def fun_eq_iff)

text \<open>After all buildable projects were settled, no other project has become buildable.\<close>

lemma nothing_buildable:
  assumes adv: "advanced gid D t t'" and settled: "settled t' gid (gp_name ` set (buildable t (projects_of t gid)))"
  shows "buildable t' (projects_of t' gid) = []"
proof (rule ccontr)
  let ?ps = "projects_of t gid" and ?qs = "projects_of t' gid"
  assume "buildable t' ?qs \<noteq> []"
  then obtain q where q: "q \<in> set ?qs" "gp_state q = NotStarted" "can_build t' ?qs q"
    by (auto simp: buildable_def not_started_def filter_empty_conv)
  obtain p where p: "p \<in> set ?ps" "project_advanced D p q" by (rule advanced_pair [OF adv q(1)])
  have "gp_state r = Success" if "r \<in> set ?ps" "gp_name r \<in> dep_names t (gp_ident p)" "gp_ident p \<noteq> []" for r
  proof -
    obtain s where s: "s \<in> set ?qs" "project_advanced D r s" by (rule advanced_pair' [OF adv \<open>r \<in> set ?ps\<close>])
    with that(2, 3) p(2) q(3) show ?thesis
      by (auto simp: project_advanced_def can_build_def dep_names_advanced [OF adv] list_all_iff)
  qed
  with p q(2) have "p \<in> set (buildable t ?ps)"
    by (auto simp: buildable_def not_started_def can_build_def project_advanced_def list_all_iff)
  with settled q p(2) show False by (auto simp: settled_def project_advanced_def)
qed

definition pending_groups :: "tables \<Rightarrow> u64 set" where
  "pending_groups t = {g. group_state_of t g = Some GroupPending}"

lemma finite_pending: "finite (pending_groups t)"
proof (rule finite_subset)
  show "pending_groups t \<subseteq> gr_id ` set (tb_groups t)"
    by (auto simp: pending_groups_def group_state_of_def dest!: group_row_mem)
qed simp

lemma buildable_mem: "p \<in> set (buildable t ps) \<Longrightarrow> p \<in> set ps \<and> gp_state p = NotStarted"
  by (auto simp: buildable_def not_started_def)

lemma wp_work_on_group:
  assumes "undisturbed w" and "tables_inv (w_tables w)" and "origins_ok O'"
    and "group_row (w_tables w) gid = Some g" and "group_state_of (w_tables w) gid = Some GroupDispatching"
  shows "wp (work_on_group X O' (group_of_row X (w_tables w) g)) (\<lambda>r w'. later w w' \<and> tables_inv (w_tables w') \<and>
    pending_groups (w_tables w') = pending_groups (w_tables w)) w"
proof -
  let ?t = "w_tables w" and ?grp = "group_of_row X (w_tables w) g" and ?ps = "projects_of (w_tables w) gid"
  let ?D = "gp_name ` set (buildable ?t ?ps)"
  have gid: "gr_id g = gid" using assms(4) by (simp add: group_row_mem)
  have state: "jg_state ?grp = GroupDispatching" using jg_state_group_of_row [OF assms(4), of X] assms(5) by simp
  have same: "pending_groups t' = pending_groups ?t"
    if "\<forall>h. h \<noteq> gid \<longrightarrow> group_state_of t' h = group_state_of ?t h" "group_state_of t' gid \<noteq> Some GroupPending" for t'
  proof -
    have "group_state_of t' h = Some GroupPending \<longleftrightarrow> group_state_of ?t h = Some GroupPending" for h
      using that assms(5) by (cases "h = gid") simp_all
    then show ?thesis by (simp add: pending_groups_def)
  qed
  have update: "wp (update_group_state X gid) (\<lambda>r w'. later w w' \<and> tables_inv (w_tables w') \<and>
      pending_groups (w_tables w') = pending_groups ?t) w2" if post: "later w w1" "w_tables w1 = ?t" "dispatched gid ?D w1 r w2" for r w1 w2
  proof -
    let ?t2 = "w_tables w2"
    from post have adv: "advanced gid ?D ?t ?t2" "later w w2" by (auto simp: dispatched_def dest: later_trans)
    note inv2 = advanced_inv [OF adv(1)]
    have others: "\<forall>h. h \<noteq> gid \<longrightarrow> group_state_of ?t2 h = group_state_of ?t h" using adv(1) by (simp add: advanced_def)
    have st2: "group_state_of ?t2 gid = Some GroupDispatching \<or> group_state_of ?t2 gid = Some GroupFailed"
      using adv(1) assms(5) by (auto simp: advanced_def)
    have none: "buildable ?t2 (projects_of ?t2 gid) = []" if "group_state_of ?t2 gid = Some GroupDispatching"
      by (rule nothing_buildable [OF adv(1)]) (use that post(3) in \<open>simp add: dispatched_def\<close>)
    have new: "new_group_state qs False \<noteq> GroupPending" for qs by (simp add: new_group_state_def Let_def)
    show ?thesis
      by (rule wp_update_group_state [OF later_undisturbed [OF adv(2)] inv2])
        (use st2 adv(2) inv2 none new others in
          \<open>auto simp: tables_inv_set_group intro!: same dest: later_trans split: if_splits\<close>)
  qed
  show ?thesis
    unfolding work_on_group_def dispatch_group_def
  proof (simp only: state simp_thms assert_that_simps and_then_ok wp_and_then, rule wp_dispatchable_projects [OF assms(1, 2)], simp_all only: sum.case, goal_cases)
    case (1 w1)
    have "wp (dispatch_projects X O' ?grp (buildable ?t ?ps) []) (dispatched gid ?D w1) w1"
      by (rule wp_dispatch_projects) (use 1 assms gid in \<open>auto simp: later_undisturbed dest!: buildable_mem\<close>)
    then have "wp (dispatch_projects X O' ?grp (buildable ?t ?ps) []) (\<lambda>r w2. r = Inr () \<and>
        wp (update_group_state X gid) (\<lambda>r w'. later w w' \<and> tables_inv (w_tables w') \<and> pending_groups (w_tables w') = pending_groups ?t) w2) w1"
      by (rule wp_mono) (use 1 update in \<open>auto simp: dispatched_def [of _ _ _ "Inr ()"] dest: dispatched_def [THEN iffD1]\<close>)
    then show ?case using gid by (simp, elim wp_mono) auto
  next
    case (2 w1)
    with assms(2) show ?case by simp
  qed
qed


lemma sched_process_work_unfold:
  "sched_process_work X O' = and_then (pending_job_groups X 1) (\<lambda>groups.
     if groups = [] then ok () else and_then (work_on_group X O' (last groups)) (\<lambda>_. sched_process_work X O'))"
  by (rule ext, subst sched_process_work.simps)
    (auto simp: and_then_def ok_def split: option.split sum.split)

lemma pending_set_dispatching:
  assumes "tables_inv t" and "oldest_pending t = Some g"
  shows "gr_id g \<in> pending_groups t"
    and "pending_groups (set_group (gr_id g) GroupDispatching t) = pending_groups t - {gr_id g}"
proof -
  have row: "group_row t (gr_id g) = Some g" by (rule group_row_of_mem [OF assms(1) oldest_pending_mem(1) [OF assms(2)]])
  with oldest_pending_mem(2) [OF assms(2)] show "gr_id g \<in> pending_groups t"
    using group_state_roundtrip [of GroupPending] by (simp add: pending_groups_def group_state_of_def)
  show "pending_groups (set_group (gr_id g) GroupDispatching t) = pending_groups t - {gr_id g}"
    using row by (auto simp: pending_groups_def)
qed

lemma no_pending_groups:
  assumes "tables_inv t" and "oldest_pending t = None"
  shows "pending_groups t = {}"
proof -
  have "group_state_of t h \<noteq> Some GroupPending" for h
  proof
    assume "group_state_of t h = Some GroupPending"
    then obtain g where g: "g \<in> set (tb_groups t)" "projr (group_state_from_str (gr_group_state g)) = GroupPending"
      by (auto simp: group_state_of_def dest: group_row_mem)
    moreover from assms(1) g(1) obtain s where "gr_group_state g = group_state_to_string s"
      by (auto simp: tables_inv_def list_all_iff valid_group_state_iff)
    ultimately show False using assms(2) by (auto simp: oldest_pending_None)
  qed
  then show ?thesis by (simp add: pending_groups_def)
qed

lemma wp_sched_process_work:
  assumes "undisturbed w" and "tables_inv (w_tables w)" and "origins_ok O'"
  shows "wp (sched_process_work X O') (\<lambda>r w'. later w w' \<and> tables_inv (w_tables w') \<and>
    (r = Inr () \<longrightarrow> pending_groups (w_tables w') = {})) w"
  using assms
proof (induction "card (pending_groups (w_tables w))" arbitrary: w rule: less_induct)
  case less
  let ?t = "w_tables w"
  let ?Q = "\<lambda>w r w'. later w w' \<and> tables_inv (w_tables w') \<and> (r = Inr () \<longrightarrow> pending_groups (w_tables w') = {})"
  show ?case
  proof (subst sched_process_work_unfold, simp only: wp_and_then, rule wp_pending_job_groups [OF less.prems(1, 2)], goal_cases)
    case (1 w1)
    with less.prems(2) no_pending_groups show ?case by simp
  next
    case (2 w1 g g')
    note pending = pending_set_dispatching [OF less.prems(2) 2(2)]
    have smaller: "card (pending_groups (w_tables w1)) < card (pending_groups ?t)"
      using pending card_Diff1_less [OF finite_pending pending(1)] by (simp add: 2(3))
    have inv1: "tables_inv (w_tables w1)" unfolding 2(3) by (rule tables_inv_set_group [OF less.prems(2)])
    have state: "group_state_of (w_tables w1) (gr_id g) = Some GroupDispatching"
      using 2(3, 4) group_row_of_mem [OF less.prems(2) oldest_pending_mem(1) [OF 2(2)]] by simp
    have "wp (work_on_group X O' (group_of_row X (w_tables w1) g')) (\<lambda>r w2. later w1 w2 \<and> tables_inv (w_tables w2) \<and>
        pending_groups (w_tables w2) = pending_groups (w_tables w1)) w1"
      by (rule wp_work_on_group [OF later_undisturbed [OF 2(1)] inv1 less.prems(3) 2(4) state])
    then have "wp (work_on_group X O' (group_of_row X (w_tables w1) g'))
        (\<lambda>r w2. case r of Inl e \<Rightarrow> ?Q w (Inl e) w2 | Inr _ \<Rightarrow> wp (sched_process_work X O') (?Q w) w2) w1"
    proof (rule wp_mono, goal_cases)
      case (1 r w2)
      have "wp (sched_process_work X O') (?Q w2) w2"
        by (rule less.hyps) (use 1 smaller less.prems(3) in \<open>auto intro: later_undisturbed\<close>)
      then have "wp (sched_process_work X O') (?Q w) w2"
        by (rule wp_mono) (use 1 2(1) in \<open>auto dest: later_trans\<close>)
      with 1 2(1) show ?case by (auto split: sum.split dest: later_trans)
    qed
    then show ?case by simp
  qed
qed


section \<open>Finishing a job\<close>

lemma project_of_job_failed: "jb_state job = Failed \<Longrightarrow>
    projects_of (update_project gid n (job_change job) t) gid' =
    (if gid' = gid then map (\<lambda>p. if gp_name p = n then p\<lparr>gp_state := Failure, gp_job_id := jb_id job\<rparr> else p) (projects_of t gid)
     else projects_of t gid')"
  unfolding projects_of_update_project [OF project_change_job]
  using project_state_roundtrip [of Failure]
  by (auto simp: projects_of_def job_change_def project_of_row_def)

lemma dep_rel_cong: "dep_names t = dep_names t' \<Longrightarrow> dep_rel t ps = dep_rel t' ps"
  by (simp add: dep_rel_def)

lemma build_ordered_cong: "dep_names t = dep_names t' \<Longrightarrow> build_ordered t ps = build_ordered t' ps"
  by (induction ps) simp_all

lemma distinct_project_names: "tables_inv t \<Longrightarrow> distinct (map gp_name (projects_of t gid))"
proof -
  assume "tables_inv t"
  then have "distinct (map (\<lambda>p. (pr_owner_id p, pr_project_name p)) (tb_group_projects t))" by (simp add: tables_inv_def)
  then show ?thesis
    unfolding projects_of_def by (induction "tb_group_projects t" arbitrary: t) (auto simp: distinct_map inj_on_def project_of_row_def)
qed

lemma distinct_map_not_started: "distinct (map f ps) \<Longrightarrow> distinct (map f (not_started ps))"
  by (simp add: not_started_def distinct_map_filter)

lemma wp_set_job_sync:
  assumes "undisturbed w" and "\<And>w'. later w w' \<Longrightarrow>
    w_tables w' = tb_jobs_update (update_where (\<lambda>r. jr_id r = jid)
      (\<lambda>r. r\<lparr>jr_scheduler_sync := True, jr_sync_count := jr_sync_count r - 1\<rparr>)) (w_tables w) \<Longrightarrow> Q (Inr ()) w'"
  shows "wp (set_job_sync jid) Q w"
  unfolding set_job_sync_def set_jobs_sync_v2_def by (rule wp_write [OF assms(1)]) (rule assms(2))

lemma projects_of_jobs_update [simp]: "projects_of (tb_jobs_update f t) gid = projects_of t gid"
  by (simp add: projects_of_def)

text \<open>The last two steps of \<open>process_status\<close> do not touch projects.\<close>

lemma wp_close_job:
  assumes "undisturbed w" and "tables_inv (w_tables w)" and "\<And>r w'. projects_of (w_tables w') gid = projects_of (w_tables w) gid \<Longrightarrow> Q r w'"
  shows "wp (and_then (update_group_state X h) (\<lambda>_. set_job_sync jid)) Q w"
proof (simp only: wp_and_then, rule wp_update_group_state [OF assms(1, 2)], simp_all only: sum.case, goal_cases)
  case (1 w')
  then show ?case by (simp add: assms(3))
next
  case (2 w')
  then show ?case by (intro wp_set_job_sync) (auto simp: later_undisturbed intro: assms(3))
next
  case (3 w')
  then show ?case by (intro wp_set_job_sync) (auto simp: later_undisturbed intro: assms(3))
next
  case (4 w')
  then show ?case by (simp add: assms(3))
qed


text \<open>The projects of a group after one of them failed.\<close>

definition after_failure :: "tables \<Rightarrow> string \<Rightarrow> u64 \<Rightarrow> job_group_project list \<Rightarrow> job_group_project list" where
  "after_failure t n jid ps =
     map (\<lambda>p. if gp_name p = n then p\<lparr>gp_state := Failure, gp_job_id := jid\<rparr>
       else if gp_state p = NotStarted \<and> (n, gp_name p) \<in> (dep_rel t (not_started ps))\<^sup>+ then p\<lparr>gp_state := Skipped\<rparr> else p) ps"

lemma projects_after_failure:
  fixes job :: job
  assumes "tables_inv t" and "jb_state job = Failed"
    and "\<forall>p \<in> set (projects_of t gid). gp_name p = n \<longrightarrow> gp_state p \<noteq> NotStarted"
    and "build_ordered t (not_started (projects_of t gid))"
  shows "projects_of (set_projects gid (skip_names t (not_started (projects_of t gid)) {n}) Skipped
    (update_project gid n (job_change job) t)) gid = after_failure t n (jb_id job) (projects_of t gid)"
proof -
  let ?ps = "projects_of t gid"
  let ?ns = "skip_names t (not_started ?ps) {n}"
  note distinct = distinct_project_names [OF assms(1), of gid]
  have names: "set ?ns = (dep_rel t (not_started ?ps))\<^sup>+ `` {n}"
    by (rule skip_names_reachable [OF assms(4) distinct_map_not_started [OF distinct]])
  have "gp_state p = NotStarted" if p: "p \<in> set ?ps" "gp_name p \<in> set ?ns" for p
  proof -
    have "gp_name p \<in> gp_name ` set (not_started ?ps)" using p(2) unfolding names by (auto dest: dep_rel_trancl_target)
    then obtain q where "q \<in> set ?ps" "gp_state q = NotStarted" "gp_name q = gp_name p" by (auto simp: not_started_def)
    with p(1) distinct show ?thesis by (metis distinct_map inj_onD)
  qed
  then show ?thesis
    using assms(3)
    by (auto simp: projects_of_set_projects project_of_job_failed [OF assms(2)] after_failure_def names)
qed

lemma wp_failed_job:
  fixes job :: job and g :: group_row
  assumes "undisturbed w" and "tables_inv (w_tables w)" and "jb_state job = Failed"
  defines "t \<equiv> w_tables w" and "gid \<equiv> jb_owner_id job" and "n \<equiv> op_name (jb_project job)"
  assumes "group_row t gid = Some g" and "log_group_job X (group_of_row X t g) job = ok ()"
    and "n \<in> gp_name ` set (projects_of t gid)" and "\<forall>p \<in> set (projects_of t gid). gp_name p = n \<longrightarrow> gp_state p \<noteq> NotStarted"
    and "build_ordered t (not_started (projects_of t gid))"
  shows "wp (process_job_sync X job) (\<lambda>r w'. projects_of (w_tables w') gid = after_failure t n (jb_id job) (projects_of t gid)) w"
    (is "wp _ ?Q w")
proof -
  let ?grp = "group_of_row X t g" and ?t1 = "update_project gid n (job_change job) t"
  let ?ns = "skip_names t (not_started (projects_of t gid)) {n}"
  let ?finish = "and_then (update_group_state X gid) (\<lambda>_. set_job_sync (jb_id job))"
  have id: "gr_id g = gid" using group_row_mem [OF assms(7)] by simp
  have inv: "tables_inv t" "tables_inv ?t1" using assms(2) by (simp_all add: t_def tables_inv_update_project)
  have found: "project_row t gid n \<noteq> None" by (rule project_row_mem [OF assms(9)])
  have deps: "skip_names ?t1 qs S = skip_names t qs S" for qs S
    by (rule skip_names_cong, rule dep_names_cong) (simp add: package_row_def fun_eq_iff)
  note projects = projects_after_failure [OF inv(1) assms(3, 10, 11)]
  have finish: "wp ?finish ?Q w'" if "later w w'" "w_tables w' = set_projects gid ?ns Skipped ?t1" for w'
    by (rule wp_close_job [where gid = gid]) (use that inv in \<open>auto simp: projects tables_inv_set_projects intro: later_undisturbed\<close>)
  have skip: "wp (skip_projects ?grp n) (\<lambda>r. wp ?finish ?Q) w'" if "later w w'" "w_tables w' = ?t1" for w'
    by (rule wp_skip_projects) (use that inv id finish in \<open>auto simp: deps intro: later_undisturbed dest: later_trans\<close>)
  have set: "wp (set_job_group_job_state job) (\<lambda>r s. r = Inr () \<and> wp (skip_projects ?grp n) (\<lambda>r. wp ?finish ?Q) s) w'"
    if "later w w'" "w_tables w' = t" for w'
    by (rule wp_set_job_group_job_state [of _ job, folded gid_def n_def])
      (use that inv found skip in \<open>auto intro: later_undisturbed dest: later_trans\<close>)
  show ?thesis
    unfolding process_job_sync_def gid_def [symmetric] n_def [symmetric]
  proof (simp only: wp_match_result, rule wp_get_group [OF assms(1, 2)], goal_cases)
    case (1 w')
    from set [OF 1(1)] 1(2)
    have "wp (set_job_group_job_state job) (\<lambda>r s. r = Inr () \<and> wp (skip_projects ?grp n) (\<lambda>r. wp ?finish ?Q) s) w'"
      by (simp add: t_def)
    with assms(3, 7, 8) show ?case by (simp add: t_def [symmetric], elim wp_mono) (auto elim!: wp_mono)
  qed
qed


section \<open>When a group waits\<close>

lemma length_filter_all: "length (filter P xs) = length xs \<longleftrightarrow> list_all P xs"
proof (induction xs)
  case (Cons x xs)
  then show ?case using length_filter_le [of P xs] by (auto simp del: length_filter_le)
qed simp

lemma count_finished:
  "length (filter (\<lambda>p. gp_state p = Success) ps) + length (filter (\<lambda>p. gp_state p = Skipped) ps) +
    length (filter (\<lambda>p. gp_state p = Failure) ps) = length (filter (\<lambda>p. gp_state p \<in> {Success, Skipped, Failure}) ps)"
  by (induction ps) auto

lemma new_group_state_eq:
  "new_group_state ps d =
    (if list_all (\<lambda>p. gp_state p \<in> {Success, Skipped, Failure}) ps then GroupComplete
     else if list_ex (\<lambda>p. gp_state p = Canceled) ps then GroupCanceled
     else if d then GroupPending else GroupDispatching)"
  unfolding new_group_state_def Let_def count_finished length_filter_all
  by (auto simp: list_ex_iff filter_empty_conv)

text \<open>If nothing is in progress or canceled, the first project that was not started can be built.\<close>

lemma first_is_buildable:
  assumes "build_ordered t (not_started ps)" and "not_started ps = p # rest"
    and "\<forall>p \<in> set ps. gp_state p = NotStarted \<longrightarrow>
      (\<forall>q \<in> set ps. gp_name q \<in> dep_names t (gp_ident p) \<longrightarrow> gp_state q \<notin> {Failure, Skipped})"
    and "\<forall>p \<in> set ps. gp_state p \<notin> {InProgress, Canceled}"
  shows "p \<in> set (buildable t ps)"
proof -
  have p: "p \<in> set ps" "gp_state p = NotStarted" using assms(2) by (auto simp: not_started_def filter_eq_Cons_iff)
  have "gp_state q = Success" if q: "q \<in> set ps" "gp_name q \<in> dep_names t (gp_ident p)" for q
  proof -
    have "q \<notin> set (not_started ps)" using assms(1, 2) q(2) by (auto simp: list_all_iff)
    with q(1) have "gp_state q \<noteq> NotStarted" by (simp add: not_started_def)
    moreover have "gp_state q \<notin> {Failure, Skipped, InProgress, Canceled}" using assms(3, 4) p q by auto
    ultimately show ?thesis by (cases "gp_state q") auto
  qed
  with assms(2) show ?thesis by (auto simp: buildable_def can_build_def list_all_iff)
qed

lemma waiting_project:
  assumes "build_ordered t (not_started ps)"
    and "\<forall>p \<in> set ps. gp_state p = NotStarted \<longrightarrow>
      (\<forall>q \<in> set ps. gp_name q \<in> dep_names t (gp_ident p) \<longrightarrow> gp_state q \<notin> {Failure, Skipped})"
    and "new_group_state ps (buildable t ps \<noteq> []) = GroupDispatching"
  shows "\<exists>p \<in> set ps. gp_state p = InProgress"
proof (rule ccontr)
  assume "\<not> ?thesis"
  with assms(3) have idle: "\<forall>p \<in> set ps. gp_state p \<notin> {InProgress, Canceled}" and none: "buildable t ps = []"
    and open': "\<not> list_all (\<lambda>p. gp_state p \<in> {Success, Skipped, Failure}) ps"
    by (auto simp: new_group_state_eq list_ex_iff split: if_splits)
  then obtain p where "p \<in> set ps" "gp_state p \<notin> {Success, Skipped, Failure, InProgress, Canceled}"
    by (auto simp: list_all_iff)
  then have "p \<in> set (not_started ps)" by (cases "gp_state p") (auto simp: not_started_def)
  then obtain q rest where "not_started ps = q # rest" by (cases "not_started ps") auto
  with first_is_buildable [OF assms(1) _ assms(2) idle] none show False by fastforce
qed

section \<open>What the scheduler promises\<close>

lemma wp_dispatch_group:
  assumes "undisturbed w" and "tables_inv (w_tables w)" and "origins_ok O'" and "group_row (w_tables w) gid = Some g"
  shows "wp (dispatch_group X O' (group_of_row X (w_tables w) g)) (\<lambda>r w'.
    advanced gid (gp_name ` set (buildable (w_tables w) (projects_of (w_tables w) gid))) (w_tables w) (w_tables w')) w"
  unfolding dispatch_group_def
proof (simp only: wp_and_then, rule wp_dispatchable_projects [OF assms(1, 2)], simp_all only: sum.case, goal_cases)
  case (1 w1)
  have id: "gr_id g = gid" using group_row_mem [OF assms(4)] by simp
  have "wp (dispatch_projects X O' (group_of_row X (w_tables w) g) (buildable (w_tables w) (projects_of (w_tables w) gid)) [])
      (dispatched gid (gp_name ` set (buildable (w_tables w) (projects_of (w_tables w) gid))) w1) w1"
    by (rule wp_dispatch_projects) (use 1 assms id in \<open>auto simp: later_undisturbed dest!: buildable_mem\<close>)
  then show ?case using 1 id by (simp, elim wp_mono) (simp add: dispatched_def)
next
  case (2 w1)
  with assms(2) show ?case by (simp add: advanced_refl)
qed

text \<open>A small database: four packages, and a group in which the first of them is being built.\<close>

definition example_externals :: externals where
  "example_externals =
     \<lparr>ex_parse_date = (\<lambda>s. map_option uint (parse_u64 s)), ex_rfc3339 = decimal, ex_regex_match = (\<lambda>_ _. False)\<rparr>"

definition example_project :: "string \<Rightarrow> origin_project" where
  "example_project name =
     \<lparr>op_id = 5, op_origin_name = ''core'', op_package_name = ''glibc'', op_name = name, op_plan_path = ''plan.sh'',
      op_owner_id = 3, op_vcs_type = ''git'', op_vcs_data = ''url'', op_vcs_installation_id = Some 12\<rparr>"

definition example_origins :: origins where
  "example_origins =
     \<lparr>og_project = (\<lambda>n. if n = ''core/zlib'' then Inl \<lparr>ne_code = ENTITY_NOT_FOUND, ne_msg = []\<rparr> else Inr (example_project n)),
      og_integrations = (\<lambda>_. Inr []), og_project_integrations = (\<lambda>_ _. Inr []), og_decrypt = Some\<rparr>"

definition example_job :: job where
  "example_job = (job_of_spec \<lparr>js_owner_id = 1, js_project = example_project ''core/glibc'', js_channel = None\<rparr>)\<lparr>jb_id := 7\<rparr>"

definition example_package :: "string \<Rightarrow> string list \<Rightarrow> graph_package_row" where
  "example_package ident deps = \<lparr>pk_ident = ident, pk_deps = deps, pk_target = Some ''x86_64-linux''\<rparr>"

definition example_project_row :: "nat \<Rightarrow> string \<Rightarrow> string \<Rightarrow> project_row" where
  "example_project_row n name state =
     \<lparr>pr_id = n, pr_owner_id = 1, pr_project_name = name, pr_project_ident = name @ ''/1/1'', pr_project_state = state, pr_job_id = 7\<rparr>"

definition example_tables :: tables where
  "example_tables =
     \<lparr>tb_jobs = [(new_job_row example_job 7 5)\<lparr>jr_job_state := ''Processing''\<rparr>], tb_job_id_seq = 1, tb_busy_workers = [],
      tb_graph_packages = [example_package ''core/glibc/1/1'' [], example_package ''core/gcc/1/1'' [''core/glibc/1/1''],
        example_package ''core/tool/1/1'' [''core/gcc''], example_package ''core/zlib/1/1'' []],
      tb_groups = [\<lparr>gr_id = 1, gr_group_state = ''Dispatching'', gr_project_name = ''core/glibc'', gr_created_at = 2\<rparr>],
      tb_groups_id_seq = 1,
      tb_group_projects = [example_project_row 1 ''core/glibc'' ''InProgress'', example_project_row 2 ''core/gcc'' ''NotStarted'',
        example_project_row 3 ''core/tool'' ''NotStarted'', example_project_row 4 ''core/zlib'' ''NotStarted''],
      tb_group_projects_seq = 4\<rparr>"

definition example_world :: world where
  "example_world =
     \<lparr>w_tables = example_tables, w_env = [], w_instant = 0, w_db_now = 2000000000000, w_scheduler_notices = 0,
      w_worker_notices = 0, w_workers = [], w_commands = []\<rparr>"

lemma example_world_ok: "undisturbed example_world" "tables_inv (w_tables example_world)" "origins_ok example_origins"
proof -
  show "undisturbed example_world" by (simp add: undisturbed_def example_world_def)
  show "tables_inv (w_tables example_world)" by code_simp
  show "origins_ok example_origins" by (auto simp: origins_ok_def example_origins_def example_project_def split: if_splits)
qed


lemma wp_unknown_group:
  assumes "undisturbed w" and "tables_inv (w_tables w)" and "group_row (w_tables w) (jb_owner_id job) = None"
  shows "wp (process_job_sync X job) (\<lambda>r w'. r = Inr () \<and>
    w_tables w' = tb_jobs_update (update_where (\<lambda>r. jr_id r = jb_owner_id job)
      (\<lambda>r. r\<lparr>jr_scheduler_sync := True, jr_sync_count := jr_sync_count r - 1\<rparr>)) (w_tables w)) w"
  unfolding process_job_sync_def
proof (simp only: wp_match_result, rule wp_get_group [OF assms(1, 2)], goal_cases)
  case (1 w')
  have "undisturbed w'" using 1(1) by (rule later_undisturbed)
  with 1 assms(3) show ?case by (simp, intro wp_set_job_sync) simp_all
qed

lemma log_group_job_panics:
  assumes "jb_build_started_at job = Some a" and "ex_parse_date X a = Some start"
    and "jb_build_finished_at job = Some b" and "ex_parse_date X b = Some stop"
    and "ex_parse_date X (jg_created_at grp) = Some created" and "start < created \<or> stop < start"
  shows "log_group_job X grp job w = None"
  using assms by (auto simp: log_group_job_def and_then_def unwrap_def assert_that_def ok_def panic_def)

text \<open>C19: Dispatching a group returns, keeps the tables well-formed, and puts in progress only projects whose
  dependencies within the group had all been built.\<close>

theorem builds_wait_for_dependencies:
  assumes "undisturbed w" and "tables_inv (w_tables w)" and "origins_ok O'" and "group_row (w_tables w) gid = Some g"
  shows "\<exists>r w'. dispatch_group X O' (group_of_row X (w_tables w) g) w = Some (r, w') \<and> tables_inv (w_tables w') \<and>
    (\<forall>p \<in> set (projects_of (w_tables w') gid). gp_state p = InProgress \<longrightarrow>
      (\<exists>p0 \<in> set (projects_of (w_tables w) gid). gp_name p0 = gp_name p \<and> gp_ident p0 = gp_ident p \<and>
        (gp_state p0 = InProgress \<or> gp_state p0 = NotStarted \<and> (gp_ident p = [] \<or>
          (\<forall>q \<in> set (projects_of (w_tables w) gid). gp_name q \<in> dep_names (w_tables w) (gp_ident p) \<longrightarrow> gp_state q = Success)))))"
proof -
  let ?t = "w_tables w" and ?ps = "projects_of (w_tables w) gid"
  obtain r w' where run: "dispatch_group X O' (group_of_row X ?t g) w = Some (r, w')"
    and adv: "advanced gid (gp_name ` set (buildable ?t ?ps)) ?t (w_tables w')"
    by (rule wpE [OF wp_dispatch_group [OF assms, of X]])
  have "\<exists>p0 \<in> set ?ps. gp_name p0 = gp_name p \<and> gp_ident p0 = gp_ident p \<and>
      (gp_state p0 = InProgress \<or> gp_state p0 = NotStarted \<and> can_build ?t ?ps p0)"
    if p: "p \<in> set (projects_of (w_tables w') gid)" "gp_state p = InProgress" for p
  proof -
    obtain p0 where p0: "p0 \<in> set ?ps" "project_advanced (gp_name ` set (buildable ?t ?ps)) p0 p"
      using advanced_pair [OF adv p(1)] by blast
    show ?thesis
    proof (cases "gp_state p0 = InProgress")
      case False
      with p0(2) p(2) obtain b where b: "b \<in> set (buildable ?t ?ps)" "gp_name b = gp_name p0"
        by (auto simp: project_advanced_def)
      then have "b = p0"
        using p0(1) buildable_mem [OF b(1)] distinct_project_names [OF assms(2), of gid] by (auto simp: distinct_map dest: inj_onD)
      with b(1) p0 buildable_mem [OF b(1)] show ?thesis
        by (intro bexI [of _ p0]) (auto simp: project_advanced_def buildable_def)
    qed (use p0 in \<open>auto simp: project_advanced_def\<close>)
  qed
  with run advanced_inv [OF adv] show ?thesis by (fastforce simp: can_build_def list_all_iff)
qed

theorem builds_wait_for_dependencies_witness:
  "\<exists>r w'. dispatch_group example_externals example_origins (group_of_row example_externals example_tables (hd (tb_groups example_tables)))
      example_world = Some (r, w') \<and> tables_inv (w_tables w') \<and>
    (\<forall>p \<in> set (projects_of (w_tables w') 1). gp_state p = InProgress \<longrightarrow>
      (\<exists>p0 \<in> set (projects_of example_tables 1). gp_name p0 = gp_name p \<and> gp_ident p0 = gp_ident p \<and>
        (gp_state p0 = InProgress \<or> gp_state p0 = NotStarted \<and> (gp_ident p = [] \<or>
          (\<forall>q \<in> set (projects_of example_tables 1). gp_name q \<in> dep_names example_tables (gp_ident p) \<longrightarrow> gp_state q = Success)))))"
proof -
  have t: "w_tables example_world = example_tables" by (simp add: example_world_def)
  have "group_row example_tables 1 = Some (hd (tb_groups example_tables))" by code_simp
  then show ?thesis
    using builds_wait_for_dependencies [OF example_world_ok, of 1 "hd (tb_groups example_tables)" example_externals]
    unfolding t by blast
qed






text \<open>C22: A round of the scheduler over the pending groups ends, without a panic, and leaves the tables well-formed; if
  it ends without an error, no group is pending any more.\<close>

theorem scheduling_round_ends:
  assumes "undisturbed w" and "tables_inv (w_tables w)" and "origins_ok O'"
  shows "\<exists>r w'. sched_process_work X O' w = Some (r, w') \<and> tables_inv (w_tables w') \<and>
    (r = Inr () \<longrightarrow> (\<forall>gid. group_state_of (w_tables w') gid \<noteq> Some GroupPending))"
  using wp_sched_process_work [OF assms, of X] by (auto simp: wp_result pending_groups_def)

theorem scheduling_round_ends_witness:
  "\<exists>r w'. sched_process_work example_externals example_origins example_world = Some (r, w') \<and> tables_inv (w_tables w') \<and>
    (r = Inr () \<longrightarrow> (\<forall>gid. group_state_of (w_tables w') gid \<noteq> Some GroupPending))"
  using scheduling_round_ends [OF example_world_ok] .

text \<open>The scheduler panics on the status of a build that, by the clocks of the workers, started before its group was
  created or ended before it started.\<close>

theorem clock_skew_panics_scheduler:
  assumes "undisturbed w" and "tables_inv (w_tables w)" and "group_row (w_tables w) (jb_owner_id job) = Some g"
    and "jb_build_started_at job = Some a" and "ex_parse_date X a = Some start"
    and "jb_build_finished_at job = Some b" and "ex_parse_date X b = Some stop"
    and "ex_parse_date X (ex_rfc3339 X (gr_created_at g)) = Some created" and "start < created \<or> stop < start"
  shows "process_job_sync X job w = None"
proof -
  have "jg_created_at (group_of_row X (w_tables w) g) = ex_rfc3339 X (gr_created_at g)" by (simp add: group_of_row_def)
  with assms have log: "log_group_job X (group_of_row X (w_tables w) g) job w' = None" for w'
    by (intro log_group_job_panics) simp_all
  have "wp (get_group X (jb_owner_id job)) (\<lambda>r w'. r = Inr (group_of_row X (w_tables w) g)) w"
    by (rule wp_get_group [OF assms(1, 2)]) (simp add: assms(3))
  then obtain w' where "get_group X (jb_owner_id job) w = Some (Inr (group_of_row X (w_tables w) g), w')"
    by (rule wpE) auto
  with log show ?thesis by (simp add: process_job_sync_def match_result_def and_then_def)
qed

theorem clock_skew_panics_scheduler_witness:
  "process_job_sync example_externals
     (example_job\<lparr>jb_state := Complete, jb_build_started_at := Some ''1'', jb_build_finished_at := Some ''9''\<rparr>) example_world = None"
proof (rule clock_skew_panics_scheduler [OF example_world_ok(1, 2), where a = "''1''" and start = 1 and b = "''9''" and stop = 9
      and g = "hd (tb_groups example_tables)" and created = 2])
  show "group_row (w_tables example_world)
      (jb_owner_id (example_job\<lparr>jb_state := Complete, jb_build_started_at := Some ''1'', jb_build_finished_at := Some ''9''\<rparr>)) =
    Some (hd (tb_groups example_tables))"
    by code_simp
qed code_simp+

text \<open>The status of a job whose owner is no group is never marked as seen: the mark goes to the job whose number is
  the number of the owner.\<close>

theorem unowned_job_stays_unsynced:
  assumes "undisturbed w" and "tables_inv (w_tables w)" and "group_row (w_tables w) (jb_owner_id job) = None"
    and "jb_owner_id job \<noteq> jb_id job"
  shows "\<exists>w'. process_job_sync X job w = Some (Inr (), w') \<and>
    job_row (w_tables w') (jb_id job) = job_row (w_tables w) (jb_id job)"
proof -
  have "find (\<lambda>r. jr_id r = jb_id job) (update_where (\<lambda>r. jr_id r = jb_owner_id job) f rows) =
      find (\<lambda>r. jr_id r = jb_id job) rows" if "\<And>r. jr_id (f r) = jr_id r" for f and rows :: "job_row list"
    using that assms(4) by (induction rows) (auto simp: update_where_def)
  then show ?thesis using wp_unknown_group [OF assms(1-3), of X] by (auto simp: wp_result job_row_def)
qed

theorem unowned_job_stays_unsynced_witness:
  "\<exists>w'. process_job_sync example_externals (example_job\<lparr>jb_owner_id := 3\<rparr>) example_world = Some (Inr (), w') \<and>
    job_row (w_tables w') 7 = job_row example_tables 7"
proof -
  have t: "w_tables example_world = example_tables" by (simp add: example_world_def)
  have j: "jb_id (example_job\<lparr>jb_owner_id := 3\<rparr>) = 7" "jb_owner_id (example_job\<lparr>jb_owner_id := 3\<rparr>) = 3" by code_simp+
  have "group_row example_tables 3 = None" by code_simp
  then show ?thesis
    using unowned_job_stays_unsynced [OF example_world_ok(1, 2), of "example_job\<lparr>jb_owner_id := 3\<rparr>" example_externals]
    unfolding j t by simp
qed

end
