(* ===== verification/Worker_Facts.thy ===== *)
theory Worker_Facts
  imports Scheduler_Facts
begin

text \<open>
  Laws of the worker manager in an undisturbed world. \<open>mgr_inv\<close> says that the table of workers is
  ordered by expiry, that the table of busy workers in the database mirrors it, and that every job
  that is dispatched or being processed is in the hands of a worker. It holds in every state the
  manager can reach, whatever the other threads do to jobs they are allowed to change.
\<close>

section \<open>Jobs in the database\<close>

text \<open>A date that was printed parses to itself.\<close>

definition dates_ok :: "externals \<Rightarrow> bool" where
  "dates_ok X \<longleftrightarrow> (\<forall>t. ex_parse_date X (ex_rfc3339 X t) = Some t)"

definition dates_parse :: "externals \<Rightarrow> job \<Rightarrow> bool" where
  "dates_parse X job \<longleftrightarrow>
     pred_option (\<lambda>d. ex_parse_date X d \<noteq> None) (jb_build_started_at job) \<and>
     pred_option (\<lambda>d. ex_parse_date X d \<noteq> None) (jb_build_finished_at job)"

definition write_job :: "externals \<Rightarrow> job \<Rightarrow> job_row \<Rightarrow> job_row" where
  "write_job X job r =
     r\<lparr>jr_job_state := job_state_to_string (jb_state job), jr_scheduler_sync := False, jr_sync_count := jr_sync_count r + 1,
       jr_build_started_at := map_option (the \<circ> ex_parse_date X) (jb_build_started_at job),
       jr_build_finished_at := map_option (the \<circ> ex_parse_date X) (jb_build_finished_at job),
       jr_package_ident := map_option origin_ident_to_string (jb_package_ident job),
       jr_net_error_code := map_option (err_code_value \<circ> ne_code) (jb_error job),
       jr_net_error_msg := map_option ne_msg (jb_error job)\<rparr>"

definition put_job :: "externals \<Rightarrow> job \<Rightarrow> tables \<Rightarrow> tables" where
  "put_job X job = tb_jobs_update (update_where (\<lambda>r. jr_id r = jb_id job) (write_job X job))"

lemma parse_set_date_ok:
  "pred_option (\<lambda>d. ex_parse_date X d \<noteq> None) date \<Longrightarrow>
    parse_set_date X date = ok (map_option (the \<circ> ex_parse_date X) date)"
  by (auto simp: parse_set_date_def unwrap_def split: option.split)

lemma wp_update_job:
  assumes "undisturbed w" and "dates_parse X job"
    and "\<And>w'. later w w' \<Longrightarrow> w_tables w' = put_job X job (w_tables w) \<Longrightarrow> Q (Inr ()) w'"
  shows "wp (update_job X job) Q w"
proof -
  have "update_job X job = and_then get_shard (\<lambda>_. query JobSetState (execute (put_job X job)))"
    using assms(2) by (simp add: update_job_def dates_parse_def parse_set_date_ok update_job_v3_def put_job_def write_job_def [abs_def])
  then show ?thesis by (simp only:) (rule wp_write [OF assms(1)], rule assms(3))
qed

lemma dates_parse_row: "dates_ok X \<Longrightarrow> dates_parse X (job_of_row X r)"
  by (auto simp: dates_ok_def dates_parse_def job_of_row_def Let_def pred_option_def option.set_map)

lemma dates_parse_update [simp]:
  "dates_parse X (job\<lparr>jb_state := s\<rparr>) \<longleftrightarrow> dates_parse X job"
  by (simp add: dates_parse_def)

lemma job_row_ok_write [simp]: "job_row_ok r \<Longrightarrow> job_row_ok (write_job X job r)"
  by (auto simp: job_row_ok_def write_job_def)

lemma write_job_simps [simp]:
  "jr_id (write_job X job r) = jr_id r" "jr_created_at (write_job X job r) = jr_created_at r"
  "jr_job_state (write_job X job r) = job_state_to_string (jb_state job)"
  by (simp_all add: write_job_def)

lemma tables_inv_jobs_update:
  assumes "tables_inv t" and "\<And>r. jr_id (f r) = jr_id r" and "\<And>r. job_row_ok r \<Longrightarrow> job_row_ok (f r)"
  shows "tables_inv (tb_jobs_update (update_where P f) t)"
proof -
  have "map jr_id (update_where P f rows) = map jr_id rows" for rows
    using assms(2) by (simp add: update_where_def)
  moreover have "list_all job_row_ok rows \<Longrightarrow> list_all job_row_ok (update_where P f rows)" for rows
    using assms(3) by (auto simp: update_where_def list_all_iff)
  ultimately show ?thesis using assms(1) by (simp add: tables_inv_def)
qed

lemma tables_inv_put_job [simp]: "tables_inv t \<Longrightarrow> tables_inv (put_job X job t)"
  unfolding put_job_def by (rule tables_inv_jobs_update) simp_all

text \<open>The state of a job.\<close>

definition job_state_of :: "tables \<Rightarrow> u64 \<Rightarrow> job_state option" where
  "job_state_of t jid = map_option (\<lambda>r. projr (job_state_from_str (jr_job_state r))) (job_row t jid)"

lemma job_row_update:
  assumes "\<And>r. jr_id (f r) = jr_id r"
  shows "job_row (tb_jobs_update (update_where (\<lambda>r. jr_id r = k) f) t) jid =
    map_option (\<lambda>r. if jid = k then f r else r) (job_row t jid)"
  unfolding job_row_def using assms
  by (auto simp: find_update_where dest: find_mem intro!: option.map_cong)

lemma job_state_of_put_job:
  "job_state_of (put_job X job t) jid =
    (if jid = jb_id job then map_option (\<lambda>_. jb_state job) (job_state_of t jid) else job_state_of t jid)"
  by (auto simp: job_state_of_def put_job_def job_row_update option.map_comp comp_def intro!: option.map_cong)

lemma jb_id_job_of_row [simp]: "jb_id (job_of_row X r) = jr_id r"
  by (simp add: job_of_row_def Let_def)

lemma job_row_id: "job_row t jid = Some r \<Longrightarrow> jr_id r = jid"
  by (auto simp: job_row_def dest: find_mem)

lemma jb_state_job_of_row: "job_row t jid = Some r \<Longrightarrow> job_state_of t jid = Some (jb_state (job_of_row X r))"
  by (simp add: job_state_of_def job_of_row_def Let_def)

lemma job_row_of_mem:
  assumes "tables_inv t" and "r \<in> set (tb_jobs t)"
  shows "job_row t (jr_id r) = Some r"
proof -
  have "filter (\<lambda>h. jr_id h = jr_id r) (tb_jobs t) = [r]"
    by (rule filter_singleton_iff) (use assms in \<open>simp_all add: tables_inv_def\<close>)
  moreover have "filter (\<lambda>h. jr_id h = jr_id r) (tb_jobs t) = (case job_row t (jr_id r) of None \<Rightarrow> [] | Some r \<Rightarrow> [r])"
    unfolding job_row_def by (rule filter_id_find) (use assms in \<open>simp add: tables_inv_def\<close>)
  ultimately show ?thesis by (simp split: option.splits)
qed


section \<open>Steps of the manager\<close>

text \<open>A step that may send commands.\<close>

definition passed :: "world \<Rightarrow> world \<Rightarrow> bool" where
  "passed w w' \<longleftrightarrow> undisturbed w' \<and> w_workers w' = w_workers w \<and> w_instant w \<le> w_instant w'"

lemma later_passed: "later w w' \<Longrightarrow> passed w w'"
  by (simp add: later_def passed_def)

lemma passed_trans: "passed w w' \<Longrightarrow> passed w' w'' \<Longrightarrow> passed w w''"
  by (auto simp: passed_def)

lemma passed_undisturbed: "passed w w' \<Longrightarrow> undisturbed w'"
  by (simp add: passed_def)

lemma passed_refl [simp]: "passed w w \<longleftrightarrow> undisturbed w"
  by (simp add: passed_def)

lemma wp_instant_now [simp]: "wp instant_now Q w \<longleftrightarrow> Q (Inr (w_instant w)) w"
  by (simp add: wp_def instant_now_def)

lemma wp_the_workers [simp]: "wp the_workers Q w \<longleftrightarrow> Q (Inr (w_workers w)) w"
  by (simp add: wp_def the_workers_def)

lemma wp_change_workers [simp]: "wp (change_workers f) Q w \<longleftrightarrow> Q (Inr ()) (w_workers_update f w)"
  by (simp add: wp_def change_workers_def)

lemma wp_send_command:
  assumes "undisturbed w"
    and "\<And>w'. passed w w' \<Longrightarrow> w_tables w' = w_tables w \<Longrightarrow> w_commands w' = w_commands w @ [(ident, op, job)] \<Longrightarrow> Q (Inr ()) w'"
  shows "wp (send_command op job ident) Q w"
proof -
  have step: "wp (send_on id) (\<lambda>r s. r = Inr () \<and> later w s \<and> w_tables s = w_tables w) s"
    if "later w s" "w_tables s = w_tables w" for s
    by (rule wp_send_on) (use that in \<open>auto intro: later_undisturbed later_trans\<close>)
  have last: "wp (send_on (w_commands_update (\<lambda>cs. cs @ [(ident, op, job)]))) Q s"
    if "later w s" "w_tables s = w_tables w" for s
  proof (rule wp_send_on [OF later_undisturbed [OF that(1)]])
    fix w'
    assume "later s w'" "w_tables w' = w_tables s"
    with later_trans [OF that(1)] that(2)
    show "Q (Inr ()) (w_commands_update (\<lambda>cs. cs @ [(ident, op, job)]) w')"
      by (intro assms(2)) (auto simp: later_def passed_def undisturbed_def)
  qed
  show ?thesis
    unfolding send_command_def using assms(1)
    by (simp, intro wp_mono [OF step]) (auto intro!: wp_mono [OF step] last)
qed

lemma wp_cancel_on_worker:
  assumes "undisturbed w" and "dates_parse X job"
    and "\<And>w'. passed w w' \<Longrightarrow> w_tables w' = put_job X (job\<lparr>jb_state := CancelProcessing\<rparr>) (w_tables w) \<Longrightarrow> Q (Inr ()) w'"
  shows "wp (cancel_on_worker X job ident) Q w"
  unfolding cancel_on_worker_def worker_cancel_job_def
proof (simp only: wp_match_result, rule wp_send_command [OF assms(1)], simp only: sum.case, goal_cases)
  case (1 w1)
  show ?case
    by (rule wp_update_job) (use 1 assms(2) in \<open>auto intro: passed_undisturbed assms(3) passed_trans later_passed\<close>)
qed

text \<open>The rows of busy workers.\<close>

definition busy_pairs :: "tables \<Rightarrow> (string \<times> u64) set" where
  "busy_pairs t = (\<lambda>b. (bw_ident b, bw_job_id b)) ` set (tb_busy_workers t)"

lemma busy_pairs_put_job [simp]: "busy_pairs (put_job X job t) = busy_pairs t"
  by (simp add: busy_pairs_def put_job_def)

lemma busy_table_simps [simp]:
  "tables_inv (tb_busy_workers_update f t) \<longleftrightarrow> tables_inv t"
  "job_state_of (tb_busy_workers_update f t) jid = job_state_of t jid"
  "job_row (tb_busy_workers_update f t) jid = job_row t jid"
  by (simp_all add: tables_inv_def job_state_of_def job_row_def)

lemma wp_save_worker:
  assumes "undisturbed w" and "wk_job_id wk = Some jid"
    and "\<And>w' f. later w w' \<Longrightarrow> w_tables w' = tb_busy_workers_update f (w_tables w) \<Longrightarrow>
      busy_pairs (w_tables w') = insert (wk_ident wk, jid) (busy_pairs (w_tables w)) \<Longrightarrow> Q (Inr ()) w'"
  shows "wp (save_worker wk) Q w"
proof -
  let ?same = "\<lambda>b. bw_ident b = wk_ident wk \<and> bw_job_id b = jid"
  let ?f = "\<lambda>bs. if \<exists>b \<in> set bs. ?same b then update_where ?same (bw_quarantined_update (\<lambda>_. False)) bs
    else bs @ [\<lparr>bw_ident = wk_ident wk, bw_job_id = jid, bw_quarantined = False\<rparr>]"
  have "(\<lambda>b. (bw_ident b, bw_job_id b)) ` set (?f bs) = insert (wk_ident wk, jid) ((\<lambda>b. (bw_ident b, bw_job_id b)) ` set bs)" for bs
  proof (cases "\<exists>b \<in> set bs. ?same b")
    case True
    have "(\<lambda>b. (bw_ident b, bw_job_id b)) ` set (update_where ?same (bw_quarantined_update (\<lambda>_. False)) bs) =
        (\<lambda>b. (bw_ident b, bw_job_id b)) ` set bs"
      unfolding update_where_def set_map image_image by (rule image_cong) simp_all
    with True show ?thesis by force
  qed auto
  then have pairs: "busy_pairs (tb_busy_workers_update ?f t) = insert (wk_ident wk, jid) (busy_pairs t)" for t
    by (simp add: busy_pairs_def)
  have "save_worker wk = and_then get_shard (\<lambda>_. query BusyWorkerUpsert (execute (tb_busy_workers_update ?f)))"
    using assms(2) by (simp add: save_worker_def busy_row_def unwrap_def upsert_busy_worker_def upsert_busy_worker_v1_def Let_def)
  then show ?thesis
    by (simp only:) (rule wp_write [OF assms(1)], rule assms(3), simp_all only: pairs)
qed

lemma wp_delete_worker:
  assumes "undisturbed w" and "wk_job_id wk = Some jid"
    and "\<And>w' f. later w w' \<Longrightarrow> w_tables w' = tb_busy_workers_update f (w_tables w) \<Longrightarrow>
      busy_pairs (w_tables w') = busy_pairs (w_tables w) - {(wk_ident wk, jid)} \<Longrightarrow> Q (Inr ()) w'"
  shows "wp (delete_worker wk) Q w"
proof -
  let ?f = "filter (\<lambda>b. \<not> (bw_ident b = wk_ident wk \<and> bw_job_id b = jid))"
  have pairs: "busy_pairs (tb_busy_workers_update ?f t) = busy_pairs t - {(wk_ident wk, jid)}" for t
    by (auto simp: busy_pairs_def)
  have "delete_worker wk = and_then get_shard (\<lambda>_. query BusyWorkerDelete (execute (tb_busy_workers_update ?f)))"
    using assms(2) by (simp add: delete_worker_def busy_row_def unwrap_def delete_busy_worker_def delete_busy_worker_v1_def)
  then show ?thesis
    by (simp only:) (rule wp_write [OF assms(1)], rule assms(3), simp_all only: pairs)
qed

lemma wp_get_busy_workers:
  assumes "undisturbed w" and "\<And>w'. later w w' \<Longrightarrow> w_tables w' = w_tables w \<Longrightarrow> Q (Inr (tb_busy_workers (w_tables w))) w'"
  shows "wp get_busy_workers Q w"
  unfolding get_busy_workers_def get_busy_workers_v1_def
proof (simp only: wp_and_then, rule wp_get_shard [OF assms(1)], simp only: sum.case, goal_cases)
  case (1 w1)
  show ?case
    by (rule wp_select [where g = tb_busy_workers]) (use 1 in \<open>auto intro: later_undisturbed assms(2) later_trans\<close>)
qed

lemma wp_get_jobs:
  assumes "undisturbed w" and "tables_inv (w_tables w)"
    and "\<And>w'. later w w' \<Longrightarrow> w_tables w' = w_tables w \<Longrightarrow>
      Q (Inr (map (job_of_row X) (filter P (tb_jobs (w_tables w))))) w'"
  shows "wp (and_then get_shard (\<lambda>_. and_then (query e (select (\<lambda>ev t. filter P (scan ev (tb_jobs t))))) (collect (row_to_job X)))) Q w"
proof (rule wp_read [OF assms(1)])
  fix w'
  assume "later w w'" "w_tables w' = w_tables w"
  moreover have "collect (row_to_job X) (filter P (tb_jobs (w_tables w))) = ok (map (job_of_row X) (filter P (tb_jobs (w_tables w))))"
    by (rule collect_ok, rule row_to_job_ok) (use assms(2) in \<open>auto intro: tables_inv_jobs\<close>)
  ultimately show "wp (collect (row_to_job X) (filter P (tb_jobs (w_tables w)))) Q w'" using assms(3) by simp
qed simp


section \<open>The invariant of the manager\<close>

definition table_ok :: "int \<Rightarrow> (string \<times> worker) list \<Rightarrow> bool" where
  "table_ok now ws \<longleftrightarrow> distinct (map fst ws) \<and> sorted (map (wk_expiry \<circ> snd) ws) \<and>
     list_all (\<lambda>(i, wk). wk_ident wk = i \<and> (wk_state wk = Busy \<longleftrightarrow> wk_job_id wk \<noteq> None) \<and>
       wk_expiry wk \<le> now + uint WORKER_TIMEOUT_MS) ws"

text \<open>The workers and the jobs they work on.\<close>

definition hands :: "(string \<times> worker) list \<Rightarrow> (string \<times> u64) set" where
  "hands ws = {(i, j). \<exists>wk. (i, wk) \<in> set ws \<and> wk_job_id wk = Some j}"

definition running :: "job_state option \<Rightarrow> bool" where
  "running s \<longleftrightarrow> s = Some Dispatched \<or> s = Some Processing"

definition mgr_inv :: "world \<Rightarrow> bool" where
  "mgr_inv w \<longleftrightarrow> undisturbed w \<and> tables_inv (w_tables w) \<and> table_ok (w_instant w) (w_workers w) \<and>
     busy_pairs (w_tables w) = hands (w_workers w) \<and>
     (\<forall>jid. running (job_state_of (w_tables w) jid) \<longrightarrow> jid \<in> snd ` hands (w_workers w))"

lemma table_ok_later: "table_ok now ws \<Longrightarrow> now \<le> now' \<Longrightarrow> table_ok now' ws"
  by (fastforce simp: table_ok_def list_all_iff)

lemma hands_Nil [simp]: "hands [] = {}"
  by (simp add: hands_def)

lemma hands_Cons: "hands ((i, wk) # ws) = (case wk_job_id wk of None \<Rightarrow> {} | Some j \<Rightarrow> {(i, j)}) \<union> hands ws"
  by (auto simp: hands_def split: option.split)

lemma hands_append [simp]: "hands (ws @ vs) = hands ws \<union> hands vs"
  by (auto simp: hands_def)

lemma hands_remove: "hands (lhm_remove i ws) = {(k, j) \<in> hands ws. k \<noteq> i}"
  by (auto simp: hands_def lhm_remove_def)

lemma hands_insert:
  "hands (lhm_insert i wk ws) = {(k, j) \<in> hands ws. k \<noteq> i} \<union> (case wk_job_id wk of None \<Rightarrow> {} | Some j \<Rightarrow> {(i, j)})"
  by (simp add: lhm_insert_def hands_remove hands_Cons)

lemma hands_worker:
  assumes "distinct (map fst ws)" and "map_of ws i = Some wk"
  shows "(i, j) \<in> hands ws \<longleftrightarrow> wk_job_id wk = Some j"
  using assms(2) by (auto simp: hands_def simp flip: map_of_eq_Some_iff [OF assms(1)])

lemma hands_unknown: "map_of ws i = None \<Longrightarrow> (i, j) \<notin> hands ws"
  by (force simp: hands_def map_of_eq_None_iff)

lemma sorted_map_filter: "sorted (map f xs) \<Longrightarrow> sorted (map f (filter P xs))"
  by (rule sorted_filter)

lemma table_ok_remove: "table_ok now ws \<Longrightarrow> table_ok now (lhm_remove i ws)"
  by (auto simp: table_ok_def lhm_remove_def list_all_iff distinct_map_filter sorted_map_filter)

text \<open>A worker that was just heard of goes to the back.\<close>

lemma table_ok_insert:
  assumes "table_ok now ws" and "wk_ident wk = i" and "wk_state wk = Busy \<longleftrightarrow> wk_job_id wk \<noteq> None"
    and "wk_expiry wk = now + uint WORKER_TIMEOUT_MS"
  shows "table_ok now (lhm_insert i wk ws)"
proof -
  have "table_ok now (lhm_remove i ws)" using assms(1) by (rule table_ok_remove)
  then show ?thesis
    using assms(2-) by (auto simp: table_ok_def lhm_insert_def sorted_append list_all_iff lhm_remove_def)
qed

lemma table_ok_tl: "table_ok now (t # ws) \<Longrightarrow> table_ok now ws"
  by (auto simp: table_ok_def)

section \<open>Expiry\<close>

fun requeued :: "job_state \<Rightarrow> job_state" where
  "requeued Processing = Pending"
| "requeued Dispatched = Pending"
| "requeued CancelPending = CancelComplete"
| "requeued CancelProcessing = CancelComplete"
| "requeued s = s"

lemma requeued_idem [simp]: "requeued (requeued s) = requeued s"
  by (cases s) simp_all

text \<open>The jobs of a set change their state by a function, the others keep it.\<close>

definition restated :: "(job_state \<Rightarrow> job_state) \<Rightarrow> u64 set \<Rightarrow> tables \<Rightarrow> tables \<Rightarrow> bool" where
  "restated f J t t' \<longleftrightarrow> tables_inv t' \<and>
     (\<forall>k. job_state_of t' k = map_option (if k \<in> J then f else id) (job_state_of t k))"

abbreviation requeued_in :: "u64 set \<Rightarrow> tables \<Rightarrow> tables \<Rightarrow> bool" where
  "requeued_in \<equiv> restated requeued"

lemma restated_empty [simp]: "restated f {} t t \<longleftrightarrow> tables_inv t"
  by (simp add: restated_def option.map_id)

lemma restated_trans: "(\<And>s. f (f s) = f s) \<Longrightarrow> restated f J t u \<Longrightarrow> restated f K u v \<Longrightarrow> restated f (J \<union> K) t v"
  by (auto simp: restated_def option.map_comp comp_def option.map_id option.map_ident)

lemmas requeued_in_trans = restated_trans [OF requeued_idem]

lemma not_running_requeued: "\<not> running (map_option requeued s)"
  by (cases s; cases "the s") (auto simp: running_def)

lemma requeued_in_running:
  "requeued_in J t t' \<Longrightarrow> running (job_state_of t' k) \<Longrightarrow> k \<notin> J \<and> running (job_state_of t k)"
  by (cases "k \<in> J") (auto simp: restated_def not_running_requeued option.map_id)

lemma wp_requeue_job:
  assumes "undisturbed w" and "tables_inv (w_tables w)" and "dates_ok X"
    and "\<And>w'. later w w' \<Longrightarrow> requeued_in {jid} (w_tables w) (w_tables w') \<Longrightarrow>
      busy_pairs (w_tables w') = busy_pairs (w_tables w) \<Longrightarrow> Q (Inr ()) w'"
  shows "wp (requeue_job X jid) Q w"
  unfolding requeue_job_def
proof (simp only: wp_and_then, rule wp_get_job [OF assms(1, 2)], simp only: sum.case, goal_cases)
  case (1 w1)
  show ?case
  proof (cases "job_row (w_tables w) jid")
    case None
    with 1 assms(2) show ?thesis by (auto intro!: assms(4) simp: restated_def job_state_of_def option.map_id)
  next
    case (Some r)
    let ?job = "job_of_row X r"
    note state = jb_state_job_of_row [OF Some, of X] and id = job_row_id [OF Some]
    have put: "wp (update_job X (?job\<lparr>jb_state := requeued (jb_state ?job)\<rparr>)) Q w1"
      by (rule wp_update_job)
        (use 1 assms(2) state id dates_parse_row [OF assms(3)] in \<open>auto simp: restated_def job_state_of_put_job option.map_id
            option.map_ident intro!: assms(4) intro: later_undisturbed later_trans\<close>)
    have stay: "Q (Inr ()) w1" if "requeued (jb_state ?job) = jb_state ?job"
      by (rule assms(4)) (use 1 assms(2) state that in \<open>auto simp: restated_def option.map_id\<close>)
    show ?thesis using put stay Some by (cases "jb_state ?job") simp_all
  qed
qed

lemma wp_expire_worker:
  assumes "undisturbed w" and "tables_inv (w_tables w)" and "dates_ok X" and "wk_state wk = Busy \<longleftrightarrow> wk_job_id wk \<noteq> None"
    and "\<And>w'. later w w' \<Longrightarrow> requeued_in (set_option (wk_job_id wk)) (w_tables w) (w_tables w') \<Longrightarrow>
      busy_pairs (w_tables w') = busy_pairs (w_tables w) - hands [(wk_ident wk, wk)] \<Longrightarrow> Q (Inr ()) w'"
  shows "wp (expire_worker X wk) Q w"
proof (cases "wk_job_id wk")
  case None
  with assms(4) have "wk_state wk \<noteq> Busy" by simp
  then show ?thesis using assms(1, 2) None by (auto simp: expire_worker_def hands_Cons intro!: assms(5))
next
  case (Some jid)
  have delete: "wp (delete_worker wk) Q w1" if "later w w1" "requeued_in {jid} (w_tables w) (w_tables w1)"
    "busy_pairs (w_tables w1) = busy_pairs (w_tables w)" for w1
    by (rule wp_delete_worker [OF later_undisturbed [OF that(1)] Some])
      (use that Some in \<open>auto simp: restated_def hands_Cons intro!: assms(5) intro: later_trans\<close>)
  have "wp (requeue_job X jid) (\<lambda>r s. r = Inr () \<and> wp (delete_worker wk) Q s) w"
    by (rule wp_requeue_job [OF assms(1-3)]) (simp add: delete)
  with Some assms(4) show ?thesis by (simp add: expire_worker_def, elim wp_mono) auto
qed


lemma expire_workers_unfold:
  "expire_workers X w =
    (case w_workers w of
       [] \<Rightarrow> ok () w
     | t # rest \<Rightarrow>
         if \<not> is_expired (w_instant w) (snd t) then ok () w
         else and_then (expire_worker X (snd t)) (\<lambda>_. expire_workers X) (w\<lparr>w_workers := rest\<rparr>))"
  by (subst expire_workers.simps)
    (auto simp: and_then_def ok_def split: list.split option.split sum.split prod.split)

definition expired_from :: "world \<Rightarrow> world \<Rightarrow> bool" where
  "expired_from w w' \<longleftrightarrow> undisturbed w' \<and> w_commands w' = w_commands w \<and> w_instant w \<le> w_instant w' \<and>
     (\<exists>gone. w_workers w = gone @ w_workers w' \<and> (\<forall>t \<in> set gone. is_expired (w_instant w') (snd t)) \<and>
       (\<forall>t \<in> set (w_workers w'). \<not> is_expired (w_instant w') (snd t)) \<and>
       requeued_in (snd ` hands gone) (w_tables w) (w_tables w') \<and>
       busy_pairs (w_tables w') = busy_pairs (w_tables w) - hands gone)"

lemma unexpired_rest:
  assumes "table_ok now (t # ws)" and "\<not> is_expired now' (snd t)" and "u \<in> set (t # ws)"
  shows "\<not> is_expired now' (snd u)"
  using assms by (cases t) (fastforce simp: table_ok_def is_expired_def)

lemma is_expired_later: "is_expired now wk \<Longrightarrow> now \<le> now' \<Longrightarrow> is_expired now' wk"
  by (simp add: is_expired_def)

lemma expired_from_step:
  assumes "w_workers w = (i, wk) # ws" and "wk_ident wk = i" and "is_expired (w_instant w) wk"
    and "later (w\<lparr>w_workers := ws\<rparr>) w1" and "requeued_in (set_option (wk_job_id wk)) (w_tables w) (w_tables w1)"
    and "busy_pairs (w_tables w1) = busy_pairs (w_tables w) - hands [(i, wk)]" and "expired_from w1 w'"
  shows "expired_from w w'"
proof -
  have w1: "w_workers w1 = ws" "w_instant w \<le> w_instant w1" using assms(4) by (simp_all add: later_def)
  from assms(7) obtain gone where gone: "ws = gone @ w_workers w'" "\<forall>t \<in> set gone. is_expired (w_instant w') (snd t)"
    "\<forall>t \<in> set (w_workers w'). \<not> is_expired (w_instant w') (snd t)"
    "requeued_in (snd ` hands gone) (w_tables w1) (w_tables w')"
    "busy_pairs (w_tables w') = busy_pairs (w_tables w1) - hands gone" "w_instant w1 \<le> w_instant w'"
    by (auto simp: expired_from_def w1)
  have hs: "snd ` hands ((i, wk) # gone) = set_option (wk_job_id wk) \<union> snd ` hands gone"
    by (auto simp: hands_Cons split: option.split)
  have "requeued_in (snd ` hands ((i, wk) # gone)) (w_tables w) (w_tables w')"
    unfolding hs by (rule requeued_in_trans [OF assms(5) gone(4)])
  moreover have "is_expired (w_instant w') wk" using assms(3) w1(2) gone(6) by (auto intro: is_expired_later)
  moreover have "busy_pairs (w_tables w') = busy_pairs (w_tables w) - hands ((i, wk) # gone)"
    using assms(6) gone(5) by (auto simp: hands_Cons)
  moreover have "undisturbed w'" "w_commands w' = w_commands w" using assms(4, 7) by (auto simp: expired_from_def later_def)
  ultimately show ?thesis
    using gone w1(2) by (auto simp: expired_from_def assms(1) intro!: exI [of _ "(i, wk) # gone"])
qed

lemma wp_expire_workers:
  assumes "undisturbed w" and "tables_inv (w_tables w)" and "table_ok (w_instant w) (w_workers w)" and "dates_ok X"
  shows "wp (expire_workers X) (\<lambda>r w'. r = Inr () \<and> expired_from w w') w"
  using assms(1-3)
proof (induction "w_workers w" arbitrary: w)
  case Nil
  then show ?case by (auto simp: wp_def expire_workers_unfold [of X w] ok_def expired_from_def)
next
  case (Cons t ws)
  obtain i wk where t: "t = (i, wk)" by force
  note ws = Cons.hyps(2) [symmetric, unfolded t]
  have wk: "wk_ident wk = i" "wk_state wk = Busy \<longleftrightarrow> wk_job_id wk \<noteq> None"
    using Cons.prems(3) by (auto simp: table_ok_def ws)
  show ?case
  proof (cases "is_expired (w_instant w) wk")
    case False
    with Cons.prems show ?thesis
      using unexpired_rest [of "w_instant w" "(i, wk)" ws "w_instant w"]
      by (auto simp: wp_def expire_workers_unfold [of X w] ok_def expired_from_def ws)
  next
    case True
    have "wp (expire_worker X wk) (\<lambda>r s. r = Inr () \<and> wp (expire_workers X) (\<lambda>r w'. r = Inr () \<and> expired_from w w') s)
        (w\<lparr>w_workers := ws\<rparr>)"
    proof (rule wp_expire_worker [OF _ _ assms(4) wk(2)], goal_cases)
      case (3 w1)
      have "wp (expire_workers X) (\<lambda>r w'. r = Inr () \<and> expired_from w1 w') w1"
        by (rule Cons.hyps(1))
          (use 3 Cons.prems(3) in \<open>auto simp: restated_def later_def ws intro: table_ok_later dest!: table_ok_tl\<close>)
      then show ?case
        using 3 by (auto elim!: wp_mono intro: expired_from_step [OF ws wk(1) True] simp: wk(1))
    qed (use Cons.prems in \<open>simp_all add: undisturbed_def\<close>)
    then have "wp (and_then (expire_worker X wk) (\<lambda>_. expire_workers X)) (\<lambda>r w'. r = Inr () \<and> expired_from w w')
        (w\<lparr>w_workers := ws\<rparr>)"
      by (simp, elim wp_mono) auto
    with True show ?thesis by (simp add: wp_def expire_workers_unfold [of X w] ws)
  qed
qed

lemma hands_disjoint: "distinct (map fst (ws @ vs)) \<Longrightarrow> hands ws \<inter> hands vs = {}"
  by (force simp: hands_def)

lemma expired_from_inv:
  assumes "mgr_inv w" and "expired_from w w'"
  shows "mgr_inv w'"
proof -
  from assms(2) obtain gone where gone: "w_workers w = gone @ w_workers w'"
    "requeued_in (snd ` hands gone) (w_tables w) (w_tables w')"
    "busy_pairs (w_tables w') = busy_pairs (w_tables w) - hands gone" "w_instant w \<le> w_instant w'" "undisturbed w'"
    by (auto simp: expired_from_def)
  have ok: "table_ok (w_instant w) (gone @ w_workers w')" using assms(1) gone(1) by (simp add: mgr_inv_def)
  then have "table_ok (w_instant w) (w_workers w')" by (auto simp: table_ok_def sorted_append)
  then have "table_ok (w_instant w') (w_workers w')" using gone(4) by (rule table_ok_later)
  moreover have "hands gone \<inter> hands (w_workers w') = {}" using ok by (intro hands_disjoint) (simp add: table_ok_def)
  then have "busy_pairs (w_tables w') = hands (w_workers w')" using assms(1) gone(1, 3) by (auto simp: mgr_inv_def)
  moreover have "jid \<in> snd ` hands (w_workers w')" if "running (job_state_of (w_tables w') jid)" for jid
    using requeued_in_running [OF gone(2) that] assms(1) gone(1) by (auto simp: mgr_inv_def image_Un)
  ultimately show ?thesis using gone(2, 5) by (simp add: mgr_inv_def restated_def)
qed


section \<open>Handing out work\<close>

definition dispatch_row :: "string \<Rightarrow> job_row \<Rightarrow> job_row" where
  "dispatch_row ident r = r\<lparr>jr_job_state := job_state_to_string Dispatched, jr_scheduler_sync := False, jr_worker := Some ident\<rparr>"

definition dispatch_job :: "string \<Rightarrow> u64 \<Rightarrow> tables \<Rightarrow> tables" where
  "dispatch_job ident jid = tb_jobs_update (update_where (\<lambda>r. jr_id r = jid) (dispatch_row ident))"

lemma dispatch_row_simps [simp]:
  "jr_id (dispatch_row ident r) = jr_id r" "jr_created_at (dispatch_row ident r) = jr_created_at r"
  "jr_job_state (dispatch_row ident r) = job_state_to_string Dispatched"
  "job_row_ok r \<Longrightarrow> job_row_ok (dispatch_row ident r)"
  using valid_states(1) [of Dispatched] by (auto simp: dispatch_row_def job_row_ok_def)

lemma tables_inv_dispatch_job [simp]: "tables_inv t \<Longrightarrow> tables_inv (dispatch_job ident jid t)"
  unfolding dispatch_job_def by (rule tables_inv_jobs_update) simp_all

lemma busy_pairs_dispatch_job [simp]: "busy_pairs (dispatch_job ident jid t) = busy_pairs t"
  by (simp add: busy_pairs_def dispatch_job_def)

lemma job_row_dispatch_job:
  "job_row (dispatch_job ident jid t) k = map_option (\<lambda>r. if k = jid then dispatch_row ident r else r) (job_row t k)"
  unfolding dispatch_job_def by (rule job_row_update) simp

lemma job_state_of_dispatch_job:
  "job_state_of (dispatch_job ident jid t) k =
    (if k = jid then map_option (\<lambda>_. Dispatched) (job_state_of t k) else job_state_of t k)"
proof -
  have "projr (job_state_from_str (job_state_to_string Dispatched)) = Dispatched" by (simp del: job_state_to_string.simps)
  then show ?thesis
    by (auto simp: job_state_of_def job_row_dispatch_job option.map_comp comp_def simp del: job_state_to_string.simps intro!: option.map_cong)
qed

definition pending_rows :: "tables \<Rightarrow> job_row list" where
  "pending_rows t = filter (\<lambda>r. jr_job_state r = job_state_to_string Pending) (tb_jobs t)"

definition created :: "tables \<Rightarrow> u64 \<Rightarrow> int" where
  "created t jid = jr_created_at (the (job_row t jid))"

lemma created_dispatch_job [simp]: "job_row t k \<noteq> None \<Longrightarrow> created (dispatch_job ident jid t) k = created t k"
  by (auto simp: created_def job_row_dispatch_job)

lemma job_state_pending:
  assumes "tables_inv t"
  shows "job_state_of t jid = Some Pending \<longleftrightarrow> (\<exists>r \<in> set (pending_rows t). jr_id r = jid)"
proof
  assume "job_state_of t jid = Some Pending"
  then obtain r where r: "job_row t jid = Some r" "projr (job_state_from_str (jr_job_state r)) = Pending"
    by (auto simp: job_state_of_def)
  then have mem: "r \<in> set (tb_jobs t)" "jr_id r = jid" by (auto simp: job_row_def dest: find_mem)
  with assms obtain s where "jr_job_state r = job_state_to_string s"
    using tables_inv_jobs by (auto simp: job_row_ok_def valid_job_state_iff)
  with r(2) mem show "\<exists>r \<in> set (pending_rows t). jr_id r = jid"
    by (auto simp: pending_rows_def simp del: job_state_to_string.simps)
next
  assume "\<exists>r \<in> set (pending_rows t). jr_id r = jid"
  then obtain r where r: "r \<in> set (tb_jobs t)" "jr_id r = jid" "jr_job_state r = job_state_to_string Pending"
    by (auto simp: pending_rows_def)
  then have "job_row t jid = Some r" using job_row_of_mem [OF assms] by blast
  with r(3) show "job_state_of t jid = Some Pending" by (simp add: job_state_of_def del: job_state_to_string.simps)
qed

lemma wp_next_pending_job:
  assumes "undisturbed w" and "tables_inv (w_tables w)"
    and "\<And>w'. later w w' \<Longrightarrow> w_tables w' = w_tables w \<Longrightarrow> (\<And>jid. job_state_of (w_tables w) jid \<noteq> Some Pending) \<Longrightarrow> Q (Inr None) w'"
    and "\<And>w' job jid. later w w' \<Longrightarrow> w_tables w' = dispatch_job ident jid (w_tables w) \<Longrightarrow> jb_id job = jid \<Longrightarrow>
      dates_ok X \<longrightarrow> dates_parse X job \<Longrightarrow> job_state_of (w_tables w) jid = Some Pending \<Longrightarrow>
      (\<And>k. job_state_of (w_tables w) k = Some Pending \<Longrightarrow> created (w_tables w) jid \<le> created (w_tables w) k) \<Longrightarrow>
      Q (Inr (Some job)) w'"
  shows "wp (next_pending_job X ident) Q w"
  unfolding next_pending_job_def
proof (simp only: wp_and_then, rule wp_get_shard [OF assms(1)], simp only: sum.case, goal_cases)
  case (1 w1)
  note w1 = this
  let ?t = "w_tables w"
  let ?rows = "sort_key jr_created_at (pending_rows ?t)"
  have pend: "jr_job_state r = ''Pending'' \<longleftrightarrow> jr_job_state r = job_state_to_string Pending" for r :: job_row by simp
  have stmt: "next_pending_job_v1 ident ev now ?t =
      (case ?rows of [] \<Rightarrow> (Some [], ?t) | r # _ \<Rightarrow> (Some [dispatch_row ident r], dispatch_job ident (jr_id r) ?t))"
    if "calm ev" for ev now
    using that by (auto simp: next_pending_job_v1_def calm_def pending_rows_def dispatch_row_def [abs_def] dispatch_job_def
      scan_calm [OF that] Let_def filter_True split: list.split)
  show ?case
  proof (rule wp_query [OF later_undisturbed [OF w1(1)]], goal_cases)
    case (1 ev w2)
    note lw = later_trans [OF w1(1) 1(2)]
    show ?case
    proof (cases ?rows)
      case Nil
      then have "pending_rows ?t = []" by (metis length_0_conv length_sort)
      then have "job_state_of ?t jid \<noteq> Some Pending" for jid by (simp add: job_state_pending [OF assms(2)])
      then show ?thesis using assms(3) [of "w2\<lparr>w_tables := ?t\<rparr>"] lw w1(2) 1 Nil by (simp add: stmt)
    next
      case (Cons r rs)
      have "set ?rows = set (pending_rows ?t)" by simp
      with Cons have r: "r \<in> set (pending_rows ?t)" by auto
      have oldest: "jr_created_at r \<le> jr_created_at q" if "q \<in> set (pending_rows ?t)" for q
        using that sorted_sort_key [of jr_created_at "pending_rows ?t"] \<open>set ?rows = _\<close> Cons by auto
      have row: "job_row ?t (jr_id q) = Some q" if "q \<in> set (pending_rows ?t)" for q
        using that by (intro job_row_of_mem [OF assms(2)]) (simp add: pending_rows_def)
      have ok_r: "job_row_ok (dispatch_row ident r)"
        using r tables_inv_jobs [OF assms(2)] by (simp add: pending_rows_def)
      have "Q (Inr (Some (job_of_row X (dispatch_row ident r)))) (w2\<lparr>w_tables := dispatch_job ident (jr_id r) ?t\<rparr>)"
        by (rule assms(4)) (use lw r oldest row job_state_pending [OF assms(2)] in \<open>auto simp: dates_parse_row created_def\<close>)
      then show ?thesis using w1(2) 1 Cons by (simp add: stmt row_to_job_ok [OF ok_r])
    qed
  qed
qed


text \<open>A job is given to a ready worker.\<close>

definition started :: "string \<Rightarrow> u64 \<Rightarrow> world \<Rightarrow> world \<Rightarrow> bool" where
  "started i jid w w' \<longleftrightarrow> undisturbed w' \<and> w_instant w \<le> w_instant w' \<and>
     (\<exists>job. jb_id job = jid \<and> w_commands w' = w_commands w @ [(i, StartJob, job)]) \<and>
     (\<exists>wk n. wk_ident wk = i \<and> wk_state wk = Busy \<and> wk_job_id wk = Some jid \<and> wk_expiry wk = n + uint WORKER_TIMEOUT_MS \<and>
       w_instant w \<le> n \<and> n \<le> w_instant w' \<and> w_workers w' = lhm_insert i wk (w_workers w)) \<and>
     (\<exists>f. w_tables w' = tb_busy_workers_update f (w_tables w)) \<and>
     busy_pairs (w_tables w') = insert (i, jid) (busy_pairs (w_tables w))"

lemma jb_id_add_integrations [simp]:
  "jb_id (add_integrations_to_job O' job) = jb_id job" "jb_id (add_project_integrations_to_job O' job) = jb_id job"
  by (simp_all add: add_integrations_to_job_def add_project_integrations_to_job_def split: sum.split)

lemma lhm_insert_remove [simp]: "lhm_insert i wk (lhm_remove i ws) = lhm_insert i wk ws"
  by (simp add: lhm_insert_def lhm_remove_def)

lemma wp_start_on_worker:
  assumes "undisturbed w" and "map_of (w_workers w) i = Some wk" and "wk_ident wk = i" and "wk_job_id wk = None"
  shows "wp (start_on_worker X O' jt job i) (\<lambda>r w'. r = Inr True \<and> started i (jb_id job) w w') w"
proof -
  let ?job = "add_project_integrations_to_job O' (add_integrations_to_job O' job)"
  let ?busy = "\<lambda>n. wk\<lparr>wk_state := Busy, wk_expiry := n + uint WORKER_TIMEOUT_MS, wk_job_id := Some (jb_id job),
    wk_job_expiry := Some (n + uint (jt * JOB_TIMEOUT_CONVERT_MS))\<rparr>"
  have busy: "worker_busy (jb_id job) jt n wk = Some (?busy n)" for n by (simp add: worker_busy_def assms(4))
  let ?Q = "\<lambda>r w'. r = Inr True \<and> started i (jb_id job) w w'"
  have save: "wp (save_worker (?busy (w_instant w1)))
      (\<lambda>r s. r = Inr () \<and> ?Q (Inr True) (w_workers_update (lhm_insert i (?busy (w_instant w1))) s))
      (w_workers_update (lhm_remove i) w1)"
    if w1: "passed w w1" "w_tables w1 = w_tables w" "w_commands w1 = w_commands w @ [(i, StartJob, ?job)]" for w1
  proof (rule wp_save_worker [where jid = "jb_id job"], goal_cases)
    case (3 w2 f)
    let ?w' = "w_workers_update (lhm_insert i (?busy (w_instant w1))) w2"
    have "undisturbed ?w'" "w_instant w \<le> w_instant ?w'" "w_workers ?w' = lhm_insert i (?busy (w_instant w1)) (w_workers w)"
      "w_instant w \<le> w_instant w1" "w_instant w1 \<le> w_instant ?w'" "w_commands ?w' = w_commands w @ [(i, StartJob, ?job)]"
      using w1 3(1) by (auto simp: later_def passed_def undisturbed_def)
    moreover have "w_tables ?w' = tb_busy_workers_update f (w_tables w)"
      "busy_pairs (w_tables ?w') = insert (i, jb_id job) (busy_pairs (w_tables w))"
      using 3(2, 3) w1(2) assms(3) by simp_all
    ultimately show ?case unfolding started_def using assms(3)
      by (intro conjI exI [of _ ?job] exI [of _ "?busy (w_instant w1)"] exI [of _ "w_instant w1"] exI [of _ f]) simp_all
  qed (use w1 in \<open>simp_all add: passed_def undisturbed_def\<close>)
  show ?thesis
    unfolding start_on_worker_def worker_start_job_def Let_def
  proof (simp only: wp_match_result, rule wp_send_command [OF assms(1)], goal_cases)
    case (1 w1)
    have "map_of (w_workers w1) i = Some wk" using assms(2) 1(1) by (simp add: passed_def)
    with save [OF 1] show ?case by (simp add: busy, elim wp_mono) auto
  qed
qed

text \<open>What a round of \<open>process_work\<close> does to the jobs.\<close>

definition handed_out :: "world \<Rightarrow> world \<Rightarrow> bool" where
  "handed_out w w' \<longleftrightarrow> (\<exists>cs. w_commands w' = w_commands w @ cs) \<and>
     (\<forall>jid. job_state_of (w_tables w') jid = job_state_of (w_tables w) jid \<or>
       job_state_of (w_tables w) jid = Some Pending \<and> job_state_of (w_tables w') jid = Some Dispatched \<and>
       (\<exists>i job. (i, jid) \<in> hands (w_workers w') \<and> (i, StartJob, job) \<in> set (w_commands w') \<and> jb_id job = jid)) \<and>
     (\<forall>j k. job_state_of (w_tables w) j = Some Pending \<longrightarrow> job_state_of (w_tables w') j = Some Dispatched \<longrightarrow>
       job_state_of (w_tables w') k = Some Pending \<longrightarrow> created (w_tables w) j \<le> created (w_tables w) k) \<and>
     (\<forall>j. job_row (w_tables w) j \<noteq> None \<longrightarrow> created (w_tables w') j = created (w_tables w) j) \<and>
     hands (w_workers w) \<subseteq> hands (w_workers w')"

lemma handed_out_refl: "handed_out w w"
  by (auto simp: handed_out_def)

lemma job_state_row: "job_state_of t j = Some s \<Longrightarrow> job_row t j \<noteq> None"
  by (auto simp: job_state_of_def)

lemma handed_out_cases:
  assumes "handed_out w w'"
  shows "job_state_of (w_tables w') jid = job_state_of (w_tables w) jid \<or>
    job_state_of (w_tables w) jid = Some Pending \<and> job_state_of (w_tables w') jid = Some Dispatched"
  using assms unfolding handed_out_def by blast

lemma handed_out_fifo:
  assumes "handed_out w w'" and "job_state_of (w_tables w) j = Some Pending" and "job_state_of (w_tables w') j = Some Dispatched"
    and "job_state_of (w_tables w') k = Some Pending"
  shows "created (w_tables w) j \<le> created (w_tables w) k"
  using assms unfolding handed_out_def by blast

lemma handed_out_created:
  "handed_out w w' \<Longrightarrow> job_state_of (w_tables w) j = Some s \<Longrightarrow> created (w_tables w') j = created (w_tables w) j"
  unfolding handed_out_def using job_state_row by blast

lemma handed_out_fifo_trans:
  assumes "handed_out w w1" and "handed_out w1 w2" and "job_state_of (w_tables w) j = Some Pending"
    and "job_state_of (w_tables w2) j = Some Dispatched" and "job_state_of (w_tables w2) k = Some Pending"
  shows "created (w_tables w) j \<le> created (w_tables w) k"
proof -
  have k1: "job_state_of (w_tables w1) k = Some Pending" using assms(5) handed_out_cases [OF assms(2), of k] by auto
  then have k: "job_state_of (w_tables w) k = Some Pending" using handed_out_cases [OF assms(1), of k] by auto
  show ?thesis
  proof (cases "job_state_of (w_tables w1) j = Some Pending")
    case True
    show ?thesis
      using handed_out_fifo [OF assms(2) True assms(4, 5)]
      by (simp add: handed_out_created [OF assms(1) k] handed_out_created [OF assms(1, 3)])
  next
    case False
    then show ?thesis using handed_out_fifo [OF assms(1, 3) _ k1] handed_out_cases [OF assms(1), of j] assms(3) by auto
  qed
qed

lemma handed_out_command:
  assumes "handed_out w w'" and "job_state_of (w_tables w') jid \<noteq> job_state_of (w_tables w) jid"
  shows "\<exists>i job. (i, jid) \<in> hands (w_workers w') \<and> (i, StartJob, job) \<in> set (w_commands w') \<and> jb_id job = jid"
  using assms unfolding handed_out_def by blast

lemma handed_out_trans:
  assumes "handed_out w w1" and "handed_out w1 w2"
  shows "handed_out w w2"
proof -
  note c1 = handed_out_cases [OF assms(1)] and c2 = handed_out_cases [OF assms(2)]
  obtain cs1 cs2 where cs: "w_commands w1 = w_commands w @ cs1" "w_commands w2 = w_commands w1 @ cs2"
    using assms unfolding handed_out_def by blast
  have hs: "hands (w_workers w) \<subseteq> hands (w_workers w1)" "hands (w_workers w1) \<subseteq> hands (w_workers w2)"
    using assms unfolding handed_out_def by blast+
  have rows: "job_row (w_tables w1) j \<noteq> None" if "job_row (w_tables w) j \<noteq> None" for j
    using that c1 [of j] by (auto simp: job_state_of_def)
  have commands: "\<exists>i job. (i, jid) \<in> hands (w_workers w2) \<and> (i, StartJob, job) \<in> set (w_commands w2) \<and> jb_id job = jid"
    if "job_state_of (w_tables w2) jid \<noteq> job_state_of (w_tables w) jid" for jid
  proof (cases "job_state_of (w_tables w2) jid = job_state_of (w_tables w1) jid")
    case True
    with that show ?thesis using handed_out_command [OF assms(1), of jid] hs(2) unfolding cs(2) by fastforce
  qed (rule handed_out_command [OF assms(2)])
  have created: "created (w_tables w2) j = created (w_tables w) j" if "job_row (w_tables w) j \<noteq> None" for j
    using that rows [OF that] assms unfolding handed_out_def by simp
  have states: "job_state_of (w_tables w2) jid = job_state_of (w_tables w) jid \<or>
    job_state_of (w_tables w) jid = Some Pending \<and> job_state_of (w_tables w2) jid = Some Dispatched" for jid
    using c1 [of jid] c2 [of jid] by auto
  show ?thesis
    unfolding handed_out_def
  proof (intro conjI allI impI)
    show "\<exists>cs. w_commands w2 = w_commands w @ cs" by (simp add: cs)
    show "hands (w_workers w) \<subseteq> hands (w_workers w2)" using hs by blast
  qed (use handed_out_fifo_trans [OF assms] created states commands in \<open>blast+\<close>)
qed

lemma handed_out_started:
  assumes "started i jid w1 w2" and "w_tables w1 = dispatch_job i jid (w_tables w)" and "w_workers w1 = w_workers w"
    and "w_commands w1 = w_commands w" and "job_state_of (w_tables w) jid = Some Pending"
    and "\<And>k. job_state_of (w_tables w) k = Some Pending \<Longrightarrow> created (w_tables w) jid \<le> created (w_tables w) k"
    and "\<And>j. (i, j) \<notin> hands (w_workers w)"
  shows "handed_out w w2"
proof -
  from assms(1) obtain job wk f where s: "jb_id job = jid" "w_commands w2 = w_commands w @ [(i, StartJob, job)]"
    "wk_job_id wk = Some jid" "w_workers w2 = lhm_insert i wk (w_workers w)"
    "w_tables w2 = tb_busy_workers_update f (dispatch_job i jid (w_tables w))"
    by (auto simp: started_def assms(2-4))
  have state: "job_state_of (w_tables w2) k = (if k = jid then Some Dispatched else job_state_of (w_tables w) k)" for k
    using assms(5) by (simp add: s(5) job_state_of_dispatch_job)
  have created: "created (w_tables w2) k = created (w_tables w) k" if "job_row (w_tables w) k \<noteq> None" for k
    using created_dispatch_job [OF that] by (simp add: s(5) created_def)
  have hands: "hands (w_workers w2) = insert (i, jid) (hands (w_workers w))"
    using assms(7) by (auto simp: s(3, 4) hands_insert)
  show ?thesis
    unfolding handed_out_def using s(1, 2) assms(5, 6) by (auto simp: state created hands)
qed


lemma mgr_inv_later:
  assumes "mgr_inv w" and "later w w'" and "w_tables w' = w_tables w"
  shows "mgr_inv w'"
  using assms by (auto simp: mgr_inv_def later_def intro: table_ok_later)

lemma mgr_inv_started:
  assumes "mgr_inv w" and "later w w1" and "w_tables w1 = dispatch_job i jid (w_tables w)" and "started i jid w1 w2"
    and "\<And>j. (i, j) \<notin> hands (w_workers w)"
  shows "mgr_inv w2"
proof -
  from assms(4) obtain wk n f where s: "wk_ident wk = i" "wk_state wk = Busy" "wk_job_id wk = Some jid"
    "wk_expiry wk = n + uint WORKER_TIMEOUT_MS" "w_instant w1 \<le> n" "n \<le> w_instant w2"
    "w_workers w2 = lhm_insert i wk (w_workers w1)" "w_tables w2 = tb_busy_workers_update f (w_tables w1)"
    "busy_pairs (w_tables w2) = insert (i, jid) (busy_pairs (w_tables w1))" "undisturbed w2"
    by (auto simp: started_def)
  have ws: "w_workers w1 = w_workers w" "w_instant w \<le> w_instant w1" using assms(2) by (simp_all add: later_def)
  have "table_ok n (w_workers w)" using assms(1) ws(2) s(5) by (auto simp: mgr_inv_def intro: table_ok_later)
  then have "table_ok n (w_workers w2)" unfolding s(7) ws(1) by (rule table_ok_insert) (simp_all add: s)
  then have "table_ok (w_instant w2) (w_workers w2)" using s(6) by (rule table_ok_later)
  moreover have hands: "hands (w_workers w2) = insert (i, jid) (hands (w_workers w))"
    using assms(5) by (auto simp: s(3, 7) ws(1) hands_insert)
  moreover have "job_state_of (w_tables w2) k = job_state_of (w_tables w) k" if "k \<noteq> jid" for k
    using that by (simp add: s(8) assms(3) job_state_of_dispatch_job)
  then have "k \<in> snd ` hands (w_workers w2)" if "running (job_state_of (w_tables w2) k)" for k
    using that assms(1) unfolding hands by (cases "k = jid") (auto simp: mgr_inv_def)
  ultimately show ?thesis using assms(1) s(8, 9, 10) by (auto simp: mgr_inv_def assms(3))
qed

abbreviation ready_workers :: "world \<Rightarrow> (string \<times> worker) list" where
  "ready_workers w \<equiv> filter (\<lambda>t. wk_state (snd t) = Ready) (w_workers w)"

lemma ready_after_start:
  assumes "started i jid w1 w2" and "w_workers w1 = w_workers w" and "(i, wk) \<in> set (w_workers w)" and "wk_state wk = Ready"
  shows "length (ready_workers w2) < length (ready_workers w)"
proof -
  obtain wk' where wk': "wk_state wk' = Busy" "w_workers w2 = lhm_insert i wk' (w_workers w)"
    using assms(1, 2) by (auto simp: started_def)
  have "ready_workers w2 = filter (\<lambda>t. fst t \<noteq> i) (ready_workers w)"
    using wk' by (auto simp: lhm_insert_def lhm_remove_def intro!: filter_cong)
  moreover have "(i, wk) \<in> set (ready_workers w)" using assms(3, 4) by simp
  then have "length (filter (\<lambda>t. fst t \<noteq> i) (ready_workers w)) < length (ready_workers w)"
    by (rule length_filter_less) simp
  ultimately show ?thesis by simp
qed

lemma mgr_process_work_unfold:
  "mgr_process_work X O' jt w =
    (case find (\<lambda>t. wk_state (snd t) = Ready) (w_workers w) of
       None \<Rightarrow> ok () w
     | Some t \<Rightarrow> and_then (next_pending_job X (fst t)) (\<lambda>job_opt. case job_opt of
         None \<Rightarrow> ok ()
       | Some job \<Rightarrow> and_then (start_on_worker X O' jt job (fst t)) (\<lambda>go_on.
           if go_on then mgr_process_work X O' jt else ok ())) w)"
  by (subst mgr_process_work.simps)
    (auto simp: and_then_def ok_def split: option.split sum.split prod.split)

definition work_done :: "world \<Rightarrow> bool" where
  "work_done w \<longleftrightarrow> ready_workers w = [] \<or> (\<forall>jid. job_state_of (w_tables w) jid \<noteq> Some Pending)"

lemma wp_mgr_process_work:
  assumes "mgr_inv w"
  shows "wp (mgr_process_work X O' jt) (\<lambda>r w'. r = Inr () \<and> mgr_inv w' \<and> handed_out w w' \<and> work_done w') w"
  using assms
proof (induction "length (ready_workers w)" arbitrary: w rule: less_induct)
  case less
  let ?Q = "\<lambda>w r w'. r = Inr () \<and> mgr_inv w' \<and> handed_out w w' \<and> work_done w'"
  note inv = less.prems [unfolded mgr_inv_def]
  show ?case
  proof (cases "find (\<lambda>t. wk_state (snd t) = Ready) (w_workers w)")
    case None
    then have "ready_workers w = []" by (auto simp: find_None_iff filter_empty_conv)
    with None less.prems show ?thesis
      by (simp add: wp_def mgr_process_work_unfold [of X O' jt w] ok_def handed_out_refl work_done_def)
  next
    case (Some t)
    obtain i wk where t: "t = (i, wk)" by force
    have wk: "(i, wk) \<in> set (w_workers w)" "wk_state wk = Ready" using find_mem [OF Some] t by auto
    then have table: "wk_ident wk = i" "wk_job_id wk = None" "map_of (w_workers w) i = Some wk"
      using inv by (auto simp: table_ok_def list_all_iff)
    have free: "(i, j) \<notin> hands (w_workers w)" for j
      using hands_worker [OF _ table(3)] inv table(2) by (simp add: table_ok_def)
    have "wp (next_pending_job X i) (\<lambda>r s. case r of Inl e \<Rightarrow> False
        | Inr None \<Rightarrow> ?Q w (Inr ()) s
        | Inr (Some job) \<Rightarrow> wp (start_on_worker X O' jt job i) (\<lambda>r s. r = Inr True \<and> wp (mgr_process_work X O' jt) (?Q w) s) s) w"
    proof (rule wp_next_pending_job, goal_cases)
      case (3 w1)
      then show ?case
        using mgr_inv_later [OF less.prems] by (simp add: handed_out_def work_done_def later_def)
    next
      case (4 w1 job jid)
      have ws: "w_workers w1 = w_workers w" "w_commands w1 = w_commands w" using 4(1) by (simp_all add: later_def)
      have "wp (start_on_worker X O' jt job i) (\<lambda>r w2. r = Inr True \<and> started i jid w1 w2) w1"
        unfolding 4(3) [symmetric] by (rule wp_start_on_worker) (use 4(1) ws table in \<open>auto intro: later_undisturbed\<close>)
      moreover have "wp (mgr_process_work X O' jt) (?Q w) w2" if w2: "started i jid w1 w2" for w2
      proof -
        have "wp (mgr_process_work X O' jt) (?Q w2) w2"
          by (rule less.hyps [OF ready_after_start [OF w2 ws(1) wk]])
            (rule mgr_inv_started [OF less.prems 4(1, 2) w2 free])
        moreover have "handed_out w w2" by (rule handed_out_started [OF w2 4(2) ws 4(5, 6) free])
        ultimately show ?thesis by (auto elim!: wp_mono intro: handed_out_trans)
      qed
      ultimately show ?case by (simp, elim wp_mono) auto
    qed (use inv in simp_all)
    then have "wp (and_then (next_pending_job X i) (\<lambda>job_opt. case job_opt of
         None \<Rightarrow> ok ()
       | Some job \<Rightarrow> and_then (start_on_worker X O' jt job i) (\<lambda>go_on.
           if go_on then mgr_process_work X O' jt else ok ()))) (?Q w) w"
      by (simp, elim wp_mono) (auto split: sum.splits option.splits elim!: wp_mono)
    with Some t show ?thesis by (simp add: wp_def mgr_process_work_unfold [of X O' jt w])
  qed
qed


section \<open>Heartbeats, cancellations and reports\<close>

lemma mgr_inv_put_job:
  assumes "mgr_inv w" and "passed w w'" and "w_tables w' = put_job X job (w_tables w)"
    and "running (Some (jb_state job)) \<Longrightarrow> jb_id job \<in> snd ` hands (w_workers w)"
  shows "mgr_inv w'"
proof -
  have "k \<in> snd ` hands (w_workers w)" if "running (job_state_of (w_tables w') k)" for k
    using that assms(1, 4) by (cases "k = jb_id job")
      (auto simp: assms(3) job_state_of_put_job mgr_inv_def running_def)
  with assms(1-3) show ?thesis by (auto simp: mgr_inv_def passed_def intro: table_ok_later)
qed

text \<open>What a heartbeat leaves of the worker it comes from.\<close>

definition beaten :: "string \<Rightarrow> worker \<Rightarrow> world \<Rightarrow> worker \<Rightarrow> world \<Rightarrow> bool" where
  "beaten i wk w wk' w' \<longleftrightarrow> passed w w' \<and> wk_ident wk' = i \<and> (wk_state wk' = Busy \<longleftrightarrow> wk_job_id wk' \<noteq> None) \<and>
     wk_expiry wk' = w_instant w' + uint WORKER_TIMEOUT_MS \<and> tables_inv (w_tables w') \<and>
     (\<forall>k. running (job_state_of (w_tables w') k) \<longrightarrow> running (job_state_of (w_tables w) k)) \<and>
     busy_pairs (w_tables w') = busy_pairs (w_tables w) - hands [(i, wk)] \<union> hands [(i, wk')] \<and>
     (wk_job_id wk' = wk_job_id wk \<or>
       wk_job_id wk' = None \<and> (\<forall>j. wk_job_id wk = Some j \<longrightarrow> \<not> running (job_state_of (w_tables w') j)))"

lemma beaten_refresh:
  assumes "passed w w'" and "wk_ident wk = i" and "wk_state wk = Busy \<longleftrightarrow> wk_job_id wk \<noteq> None" and "tables_inv (w_tables w')"
    and "\<And>k. running (job_state_of (w_tables w') k) \<Longrightarrow> running (job_state_of (w_tables w) k)"
    and "busy_pairs (w_tables w') = busy_pairs (w_tables w)" and "hands [(i, wk)] \<subseteq> busy_pairs (w_tables w)"
  shows "beaten i wk w (worker_refresh (w_instant w') wk) w'"
  using assms by (auto simp: beaten_def worker_refresh_def hands_Cons)

lemma wp_mgr_cancel_job:
  assumes "undisturbed w" and "tables_inv (w_tables w)" and "dates_ok X"
  shows "wp (mgr_cancel_job X jid i) (\<lambda>r w'. r = Inr () \<and> passed w w' \<and> tables_inv (w_tables w') \<and>
    (\<forall>k. running (job_state_of (w_tables w') k) \<longrightarrow> running (job_state_of (w_tables w) k)) \<and>
    busy_pairs (w_tables w') = busy_pairs (w_tables w)) w"
  unfolding mgr_cancel_job_def
proof (simp only: wp_and_then, rule wp_get_job [OF assms(1, 2)], simp only: sum.case, goal_cases)
  case (1 w1)
  show ?case
  proof (cases "job_row (w_tables w) jid")
    case None
    with 1 assms(2) show ?thesis by (simp add: later_passed)
  next
    case (Some r)
    then show ?thesis
      using 1 assms(2) by (auto intro!: wp_cancel_on_worker dates_parse_row [OF assms(3)]
        simp: job_state_of_put_job running_def intro: later_undisturbed passed_trans later_passed split: if_splits)
  qed
qed

lemma wp_is_job_complete:
  assumes "undisturbed w" and "tables_inv (w_tables w)"
    and "\<And>w' b. later w w' \<Longrightarrow> w_tables w' = w_tables w \<Longrightarrow> (b \<Longrightarrow> \<not> running (job_state_of (w_tables w) jid)) \<Longrightarrow> Q (Inr b) w'"
  shows "wp (is_job_complete X jid) Q w"
  unfolding is_job_complete_def
proof (simp only: wp_and_then, rule wp_get_job [OF assms(1, 2)], simp only: sum.case wp_ok, rule assms(3), goal_cases)
  case (3 w1)
  then show ?case
    using jb_state_job_of_row [of "w_tables w" jid _ X] by (auto simp: running_def split: option.splits)
qed

lemma wp_beat:
  assumes "undisturbed w" and "tables_inv (w_tables w)" and "dates_ok X" and "wk_ident wk = i"
    and "wk_state wk = Busy \<longleftrightarrow> wk_job_id wk \<noteq> None" and "hands [(i, wk)] \<subseteq> busy_pairs (w_tables w)"
  shows "wp (beat X st i wk) (\<lambda>r w'. case r of Inl e \<Rightarrow> False
    | Inr None \<Rightarrow> wk_state wk = Ready \<and> w' = w | Inr (Some wk') \<Rightarrow> beaten i wk w wk' w') w"
    (is "wp _ ?Q w")
proof (cases "wk_state wk")
  case Ready
  then have "wk_job_id wk = None" using assms(5) by simp
  then show ?thesis
    using assms by (cases st) (auto simp: beat_def Ready beaten_def worker_ready_def hands_Cons)
next
  case Busy
  then obtain jid where jid: "wk_job_id wk = Some jid" using assms(5) by auto
  show ?thesis
  proof (cases st)
    case st: Busy
    have "wp (if is_job_expired (w_instant w) wk then mgr_cancel_job X jid i else ok ())
        (\<lambda>r w'. r = Inr () \<and> ?Q (Inr (Some (worker_refresh (w_instant w') wk))) w') w"
      using wp_mgr_cancel_job [OF assms(1-3), of jid i] assms by (auto elim!: wp_mono intro!: beaten_refresh)
    then have "wp (and_then (if is_job_expired (w_instant w) wk then mgr_cancel_job X jid i else ok ())
        (\<lambda>_. and_then instant_now (\<lambda>now. ok (Some (worker_refresh now wk))))) ?Q w"
      by (simp only: wp_and_then, elim wp_mono) auto
    then show ?thesis by (simp add: beat_def Busy st jid)
  next
    case st: Ready
    have delete: "wp (delete_worker wk) (\<lambda>r w'. r = Inr () \<and> ?Q (Inr (Some (worker_ready (w_instant w') wk))) w') w1"
      if w1: "later w w1" "w_tables w1 = w_tables w" "\<not> running (job_state_of (w_tables w) jid)" for w1
    proof (rule wp_delete_worker [OF later_undisturbed [OF w1(1)] jid], goal_cases)
      case (1 w' f)
      then have "passed w w'" using w1(1) by (blast intro: later_passed later_trans)
      with 1 w1 assms(2, 4) jid show ?case by (auto simp: beaten_def worker_ready_def hands_Cons)
    qed
    have "wp (is_job_complete X jid) (\<lambda>r s. \<exists>b. r = Inr b \<and>
        (if \<not> b then ?Q (Inr (Some (worker_refresh (w_instant s) wk))) s
         else wp (delete_worker wk) (\<lambda>r w'. r = Inr () \<and> ?Q (Inr (Some (worker_ready (w_instant w') wk))) w') s)) w"
      by (rule wp_is_job_complete [OF assms(1, 2)])
        (use assms delete in \<open>auto intro!: beaten_refresh later_passed\<close>)
    then show ?thesis by (simp add: beat_def Busy st jid, elim wp_mono) (auto elim!: wp_mono split: if_splits)
  qed
qed


lemma mgr_inv_beaten:
  assumes "mgr_inv w" and "beaten i wk (w_workers_update (lhm_remove i) w) wk' w'"
    and "{(k, j) \<in> hands (w_workers w). k = i} = hands [(i, wk)]"
  shows "mgr_inv (w_workers_update (lhm_insert i wk') w')"
proof -
  note inv = assms(1) [unfolded mgr_inv_def] and b = assms(2) [unfolded beaten_def]
  let ?ws = "lhm_insert i wk' (w_workers w)"
  have ws: "w_workers (w_workers_update (lhm_insert i wk') w') = ?ws" using b by (simp add: passed_def)
  have now: "w_instant w \<le> w_instant w'" using b by (simp add: passed_def)
  have "table_ok (w_instant w') ?ws"
    by (rule table_ok_insert [OF table_ok_later [OF _ now]]) (use inv b in simp_all)
  moreover have hands: "hands ?ws = {(k, j) \<in> hands (w_workers w). k \<noteq> i} \<union> hands [(i, wk')]"
    by (simp add: hands_insert hands_Cons)
  moreover have "busy_pairs (w_tables w') = hands ?ws" using inv b assms(3) by (auto simp: hands)
  moreover have "k \<in> snd ` hands ?ws" if k: "running (job_state_of (w_tables w') k)" for k
  proof -
    obtain i0 where i0: "(i0, k) \<in> hands (w_workers w)" using k b inv by force
    show ?thesis
    proof (cases "i0 = i")
      case True
      then have "(i, k) \<in> hands [(i, wk)]" using i0 assms(3) by blast
      then have "wk_job_id wk = Some k" by (simp add: hands_Cons split: option.splits)
      then have "wk_job_id wk' = Some k" using b k by auto
      then show ?thesis by (force simp: hands hands_Cons)
    qed (use i0 in \<open>force simp: hands\<close>)
  qed
  ultimately show ?thesis using inv b ws by (auto simp: mgr_inv_def passed_def undisturbed_def)
qed

lemma mgr_inv_drop:
  assumes "mgr_inv w" and "\<And>j. (i, j) \<notin> hands (w_workers w)"
  shows "mgr_inv (w_workers_update (lhm_remove i) w)"
proof -
  have "hands (lhm_remove i (w_workers w)) = hands (w_workers w)" using assms(2) by (auto simp: hands_remove)
  with assms(1) show ?thesis by (simp add: mgr_inv_def undisturbed_def table_ok_remove)
qed

lemma wp_beat_and_insert:
  assumes "mgr_inv w" and "dates_ok X" and "wk_ident wk = i" and "wk_state wk = Busy \<longleftrightarrow> wk_job_id wk \<noteq> None"
    and "{(k, j) \<in> hands (w_workers w). k = i} = hands [(i, wk)]"
  shows "wp (and_then (beat X st i wk) (\<lambda>beaten. case beaten of
      None \<Rightarrow> ok ()
    | Some worker \<Rightarrow>
        and_then instant_now (\<lambda>now.
        and_then (assert_that (\<not> is_expired now worker)) (\<lambda>_.
        change_workers (lhm_insert i worker))))) (\<lambda>r w'. r = Inr () \<and> mgr_inv w') (w_workers_update (lhm_remove i) w)"
proof -
  let ?w = "w_workers_update (lhm_remove i) w"
  note inv = assms(1) [unfolded mgr_inv_def]
  have "hands [(i, wk)] \<subseteq> busy_pairs (w_tables ?w)" using inv assms(5) by auto
  then have "wp (beat X st i wk) (\<lambda>r w'. case r of Inl e \<Rightarrow> False
      | Inr None \<Rightarrow> wk_state wk = Ready \<and> w' = ?w | Inr (Some wk') \<Rightarrow> beaten i wk ?w wk' w') ?w"
    by (intro wp_beat) (use inv assms in \<open>simp_all add: undisturbed_def\<close>)
  moreover have "mgr_inv ?w" if "wk_state wk = Ready"
    using that assms(4, 5) by (intro mgr_inv_drop [OF assms(1)]) (auto simp: hands_Cons)
  moreover have "\<not> is_expired (w_instant w') wk'" if "beaten i wk ?w wk' w'" for wk' w'
    using that by (simp add: beaten_def is_expired_def WORKER_TIMEOUT_MS_def)
  ultimately show ?thesis
    by (simp, elim wp_mono)
      (auto split: sum.splits option.splits intro: mgr_inv_beaten [OF assms(1) _ assms(5)])
qed

lemma wp_process_heartbeat:
  assumes "mgr_inv w" and "dates_ok X"
  shows "wp (process_heartbeat X (Inr hb)) (\<lambda>r w'. r = Inr () \<and> mgr_inv w') w"
proof -
  let ?i = "hb_endpoint hb"
  have distinct: "distinct (map fst (w_workers w))" using assms(1) by (simp add: mgr_inv_def table_ok_def)
  show ?thesis
  proof (cases "map_of (w_workers w) ?i")
    case (Some wk)
    then have "(?i, wk) \<in> set (w_workers w)" by (rule map_of_SomeD)
    then have "wk_ident wk = ?i" "wk_state wk = Busy \<longleftrightarrow> wk_job_id wk \<noteq> None"
      using assms(1) by (auto simp: mgr_inv_def table_ok_def list_all_iff)
    moreover have "{(k, j) \<in> hands (w_workers w). k = ?i} = hands [(?i, wk)]"
      using hands_worker [OF distinct Some] by (auto simp: hands_Cons split: option.splits)
    ultimately show ?thesis
      using wp_beat_and_insert [OF assms, of wk ?i "hb_state hb"] Some by (simp add: process_heartbeat_def Let_def)
  next
    case None
    let ?wk = "worker_new ?i (w_instant w)"
    have wk: "wk_ident ?wk = ?i" "wk_state ?wk = Busy \<longleftrightarrow> wk_job_id ?wk \<noteq> None" by (simp_all add: worker_new_def)
    have free: "(?i, j) \<notin> hands (w_workers w)" for j by (rule hands_unknown [OF None])
    then have "{(k, j) \<in> hands (w_workers w). k = ?i} = hands [(?i, ?wk)]" by (auto simp: hands_Cons worker_new_def)
    note new = wp_beat_and_insert [OF assms wk this, of "hb_state hb"]
    show ?thesis
    proof (cases "hb_state hb = Ready")
      case True
      with new None show ?thesis by (simp add: process_heartbeat_def Let_def)
    next
      case False
      with mgr_inv_drop [OF assms(1) free] None show ?thesis by (simp add: process_heartbeat_def Let_def)
    qed
  qed
qed

lemma wp_process_job_status:
  assumes "mgr_inv w" and "dates_parse X job" and "running (Some (jb_state job)) \<Longrightarrow> jb_id job \<in> snd ` hands (w_workers w)"
  shows "wp (process_job_status X (Inr job)) (\<lambda>r w'. r = Inr () \<and> mgr_inv w' \<and>
    job_state_of (w_tables w') (jb_id job) = map_option (\<lambda>_. jb_state job) (job_state_of (w_tables w) (jb_id job))) w"
    (is "wp _ ?Q w")
proof -
  have und: "undisturbed w" using assms(1) by (simp add: mgr_inv_def)
  have "wp (update_job X job) (\<lambda>r s. r = Inr () \<and> wp notify_scheduler ?Q s) w"
  proof (rule wp_update_job [OF und assms(2)], goal_cases)
    case (1 w1)
    have inv: "mgr_inv w1" by (rule mgr_inv_put_job [OF assms(1) later_passed [OF 1(1)] 1(2)]) (rule assms(3))
    have "wp notify_scheduler ?Q w1"
      unfolding notify_scheduler_def
    proof (rule wp_send_on [OF later_undisturbed [OF 1(1)]])
      fix w2
      assume w2: "later w1 w2" "w_tables w2 = w_tables w1"
      have "mgr_inv w2" by (rule mgr_inv_later [OF inv w2])
      with 1(2) w2(2) show "?Q (Inr ()) (w_scheduler_notices_update Suc w2)"
        by (simp add: mgr_inv_def undisturbed_def job_state_of_put_job)
    qed
    then show ?case by simp
  qed
  then show ?thesis by (simp add: process_job_status_def, elim wp_mono) auto
qed


lemma worker_of_job_Some: "worker_of_job jid ws = Some t \<Longrightarrow> (fst t, jid) \<in> hands ws"
  by (cases t) (auto simp: worker_of_job_def hands_def dest!: find_mem)

lemma worker_of_job_None: "worker_of_job jid ws = None \<longleftrightarrow> jid \<notin> snd ` hands ws"
  by (force simp: worker_of_job_def hands_def find_None_iff)

lemma wp_process_cancelations:
  assumes "mgr_inv w" and "dates_ok X"
  shows "wp (process_cancelations X) (\<lambda>r w'. mgr_inv w') w"
  unfolding process_cancelations_def get_cancel_pending_jobs_def get_cancel_pending_jobs_v1_def
proof (simp only: wp_and_then [of _ "for_each _"], rule wp_get_jobs, simp_all only: sum.case, goal_cases)
  case (3 w1)
  show ?case
  proof (rule wp_for_each)
    show "mgr_inv w1" by (rule mgr_inv_later [OF assms(1) 3])
    fix job s
    assume job: "job \<in> set (map (job_of_row X) (filter (\<lambda>r. jr_job_state r = ''CancelPending'') (tb_jobs (w_tables w))))"
      and s: "mgr_inv s"
    have dates: "dates_parse X job" using job dates_parse_row [OF assms(2)] by auto
    have und: "undisturbed s" using s by (simp add: mgr_inv_def)
    have complete: "wp (update_job X (job\<lparr>jb_state := CancelComplete\<rparr>)) (\<lambda>r. mgr_inv) s"
      by (rule wp_update_job [OF und])
        (use dates in \<open>auto simp: running_def intro: mgr_inv_put_job [OF s later_passed]\<close>)
    have cancel: "wp (cancel_on_worker X job i) (\<lambda>r. mgr_inv) s" for i
      by (rule wp_cancel_on_worker [OF und dates]) (auto simp: running_def intro: mgr_inv_put_job [OF s])
    show "wp (and_then the_workers (\<lambda>workers. case worker_of_job (jb_id job) workers of
        None \<Rightarrow> update_job X (job\<lparr>jb_state := CancelComplete\<rparr>) | Some t \<Rightarrow> cancel_on_worker X job (fst t))) (\<lambda>r. mgr_inv) s"
      using complete cancel by (simp split: option.split)
  qed
qed (use assms(1) in \<open>simp_all add: mgr_inv_def\<close>)

section \<open>Start and restart\<close>

lemma wp_load_rows:
  assumes "table_ok (w_instant w) (w_workers w)" and "distinct (map bw_ident bs)"
    and "fst ` set (w_workers w) \<inter> bw_ident ` set bs = {}"
  shows "wp (for_each (\<lambda>worker.
       and_then instant_now (\<lambda>now.
       and_then (unwrap (worker_busy (bw_job_id worker) jt now (worker_new (bw_ident worker) now))) (\<lambda>bw.
       change_workers (lhm_insert (bw_ident worker) bw)))) bs)
    (\<lambda>r w'. r = Inr () \<and> (\<exists>ws. w' = w\<lparr>w_workers := ws\<rparr> \<and> table_ok (w_instant w) ws \<and>
      hands ws = hands (w_workers w) \<union> (\<lambda>b. (bw_ident b, bw_job_id b)) ` set bs)) w"
  using assms
proof (induction bs arbitrary: w)
  case (Cons b bs)
  let ?wk = "(worker_new (bw_ident b) (w_instant w))\<lparr>wk_state := Busy, wk_expiry := w_instant w + uint WORKER_TIMEOUT_MS,
    wk_job_id := Some (bw_job_id b), wk_job_expiry := Some (w_instant w + uint (jt * JOB_TIMEOUT_CONVERT_MS))\<rparr>"
  let ?ws = "lhm_insert (bw_ident b) ?wk (w_workers w)" and ?w = "w_workers_update (lhm_insert (bw_ident b) ?wk) w"
  have busy: "worker_busy (bw_job_id b) jt (w_instant w) (worker_new (bw_ident b) (w_instant w)) = Some ?wk"
    by (simp add: worker_busy_def worker_new_def)
  have free: "(bw_ident b, j) \<notin> hands (w_workers w)" for j using Cons.prems(3) by (force simp: hands_def)
  have hands: "hands ?ws = insert (bw_ident b, bw_job_id b) (hands (w_workers w))"
    using free by (auto simp: hands_insert)
  have ok: "table_ok (w_instant ?w) (w_workers ?w)"
    using table_ok_insert [OF Cons.prems(1), of ?wk "bw_ident b"] by (simp add: worker_new_def)
  have fresh: "fst ` set (w_workers ?w) \<inter> bw_ident ` set bs = {}"
    using Cons.prems(2, 3) by (auto simp: lhm_insert_def lhm_remove_def)
  show ?case
    using Cons.IH [OF ok _ fresh] Cons.prems(2) by (simp add: busy, elim wp_mono) (auto simp: hands)
qed (auto intro!: exI [of _ "w_workers _"])

lemma wp_load_workers:
  assumes "undisturbed w" and "w_workers w = []" and "distinct (map bw_ident (tb_busy_workers (w_tables w)))"
  shows "wp (load_workers jt) (\<lambda>r w'. r = Inr () \<and> undisturbed w' \<and> w_tables w' = w_tables w \<and>
    table_ok (w_instant w') (w_workers w') \<and> hands (w_workers w') = busy_pairs (w_tables w)) w"
  unfolding load_workers_def
proof (simp only: wp_and_then [of _ "for_each _"], rule wp_get_busy_workers [OF assms(1)], simp only: sum.case, goal_cases)
  case (1 w1)
  have ws: "w_workers w1 = []" using 1(1) assms(2) by (simp add: later_def)
  show ?case
    by (rule wp_mono [OF wp_load_rows])
      (use ws assms(3) 1 in \<open>auto simp: table_ok_def busy_pairs_def later_def undisturbed_def\<close>)
qed

text \<open>Of the listed jobs only those in the hands of a worker are still running.\<close>

definition left_running :: "u64 set \<Rightarrow> world \<Rightarrow> world \<Rightarrow> bool" where
  "left_running J w w' \<longleftrightarrow> later w w' \<and> tables_inv (w_tables w') \<and> busy_pairs (w_tables w') = busy_pairs (w_tables w) \<and>
     (\<forall>k. running (job_state_of (w_tables w') k) \<longrightarrow>
       job_state_of (w_tables w') k = job_state_of (w_tables w) k \<and> (k \<in> J \<longrightarrow> k \<in> snd ` hands (w_workers w)))"

lemma left_running_in_hand:
  "left_running J w w' \<Longrightarrow> j \<in> snd ` hands (w_workers w) \<Longrightarrow> left_running (insert j J) w w'"
  by (auto simp: left_running_def)

lemma left_running_requeued:
  assumes "left_running J w1 w'" and "later w w1" and "w_tables w1 = put_job X (job\<lparr>jb_state := Pending\<rparr>) (w_tables w)"
  shows "left_running (insert (jb_id job) J) w w'"
proof -
  have "job_state_of (w_tables w') k = job_state_of (w_tables w) k \<and> k \<noteq> jb_id job \<and> (k \<in> J \<longrightarrow> k \<in> snd ` hands (w_workers w))"
    if k: "running (job_state_of (w_tables w') k)" for k
  proof -
    have same: "job_state_of (w_tables w') k = job_state_of (w_tables w1) k" "k \<in> J \<longrightarrow> k \<in> snd ` hands (w_workers w)"
      using assms(1, 2) k by (auto simp: left_running_def later_def)
    have "k \<noteq> jb_id job"
      using k unfolding same(1) assms(3) by (auto simp: job_state_of_put_job running_def)
    with same show ?thesis by (simp add: assms(3) job_state_of_put_job)
  qed
  with assms show ?thesis by (auto simp: left_running_def intro: later_trans)
qed

lemma wp_requeue_list:
  assumes "undisturbed w" and "tables_inv (w_tables w)" and "\<forall>job \<in> set jobs. dates_parse X job"
  shows "wp (for_each (\<lambda>job.
       and_then the_workers (\<lambda>workers.
       if worker_of_job (jb_id job) workers = None then update_job X (job\<lparr>jb_state := Pending\<rparr>) else ok ())) jobs)
    (\<lambda>r w'. r = Inr () \<and> left_running (jb_id ` set jobs) w w') w"
  using assms
proof (induction jobs arbitrary: w)
  case Nil
  then show ?case by (simp add: left_running_def)
next
  case (Cons job jobs)
  let ?f = "for_each (\<lambda>job. and_then the_workers (\<lambda>workers.
       if worker_of_job (jb_id job) workers = None then update_job X (job\<lparr>jb_state := Pending\<rparr>) else ok ()))"
  let ?Q = "\<lambda>r w'. r = Inr () \<and> left_running (jb_id ` set (job # jobs)) w w'"
  show ?case
  proof (cases "jb_id job \<in> snd ` hands (w_workers w)")
    case True
    then have "wp (?f jobs) ?Q w"
      using Cons.IH [of w] Cons.prems by (auto elim!: wp_mono intro: left_running_in_hand)
    with True show ?thesis by (simp add: worker_of_job_None)
  next
    case False
    have "wp (update_job X (job\<lparr>jb_state := Pending\<rparr>)) (\<lambda>r s. r = Inr () \<and> wp (?f jobs) ?Q s) w"
    proof (rule wp_update_job [OF Cons.prems(1)], goal_cases)
      case (2 w1)
      have "wp (?f jobs) (\<lambda>r w'. r = Inr () \<and> left_running (jb_id ` set jobs) w1 w') w1"
        by (rule Cons.IH) (use 2 Cons.prems in \<open>auto intro: later_undisturbed\<close>)
      then show ?case using left_running_requeued [OF _ 2] by (auto elim!: wp_mono)
    qed (use Cons.prems(3) in simp)
    with False show ?thesis by (simp add: worker_of_job_None, elim wp_mono) auto
  qed
qed

lemma job_state_listed:
  assumes "tables_inv t" and "job_state_of t k = Some s"
  shows "k \<in> jb_id ` set (map (job_of_row X) (filter (\<lambda>r. jr_job_state r = job_state_to_string s) (tb_jobs t)))"
proof -
  obtain r where r: "job_row t k = Some r" "projr (job_state_from_str (jr_job_state r)) = s"
    using assms(2) by (auto simp: job_state_of_def)
  then have mem: "r \<in> set (tb_jobs t)" "jr_id r = k" by (auto simp: job_row_def dest: find_mem)
  with assms(1) obtain s' where "jr_job_state r = job_state_to_string s'"
    using tables_inv_jobs by (auto simp: job_row_ok_def valid_job_state_iff)
  with r(2) have "jr_job_state r = job_state_to_string s" by simp
  with mem show ?thesis by (force simp: image_image)
qed

lemma mgr_inv_restored:
  assumes "left_running J w w'" and "table_ok (w_instant w) (w_workers w)" and "hands (w_workers w) = busy_pairs (w_tables w)"
    and "\<And>k. job_state_of (w_tables w) k = Some Dispatched \<Longrightarrow> k \<in> J"
    and "\<And>k. job_state_of (w_tables w) k = Some Processing \<Longrightarrow> k \<in> snd ` hands (w_workers w)"
  shows "mgr_inv w'"
proof -
  have w': "undisturbed w'" "w_workers w' = w_workers w" "w_instant w \<le> w_instant w'"
    using assms(1) by (auto simp: left_running_def later_def)
  have "k \<in> snd ` hands (w_workers w)" if "running (job_state_of (w_tables w') k)" for k
  proof -
    have "job_state_of (w_tables w') k = job_state_of (w_tables w) k" "k \<in> J \<longrightarrow> k \<in> snd ` hands (w_workers w)"
      using assms(1) that by (auto simp: left_running_def)
    with that assms(4, 5) show ?thesis unfolding running_def by metis
  qed
  with w' assms(1-3) show ?thesis by (auto simp: mgr_inv_def left_running_def intro: table_ok_later)
qed

lemma wp_start_manager:
  assumes "undisturbed w" and "tables_inv (w_tables w)" and "dates_ok X" and "w_workers w = []"
    and "distinct (map bw_ident (tb_busy_workers (w_tables w)))"
    and "\<And>jid. job_state_of (w_tables w) jid = Some Processing \<Longrightarrow> jid \<in> snd ` busy_pairs (w_tables w)"
  shows "wp (start_manager X jt) (\<lambda>r w'. r = Inr () \<and> mgr_inv w') w"
proof -
  have "wp (requeue_jobs X) (\<lambda>r w'. r = Inr () \<and> mgr_inv w') w1"
    if w1: "undisturbed w1" "w_tables w1 = w_tables w" "table_ok (w_instant w1) (w_workers w1)"
      "hands (w_workers w1) = busy_pairs (w_tables w)" for w1
    unfolding requeue_jobs_def get_dispatched_jobs_def get_dispatched_jobs_v1_def
  proof (simp only: wp_and_then [of _ "for_each _"], rule wp_get_jobs [OF w1(1)], simp_all only: sum.case, goal_cases)
    case (2 w2)
    let ?jobs = "map (job_of_row X) (filter (\<lambda>r. jr_job_state r = ''Dispatched'') (tb_jobs (w_tables w1)))"
    have w2: "w_workers w2 = w_workers w1" "w_instant w1 \<le> w_instant w2" using 2(1) by (simp_all add: later_def)
    have "mgr_inv w'" if "left_running (jb_id ` set ?jobs) w2 w'" for w'
      by (rule mgr_inv_restored [OF that])
        (use w1 w2 2(2) assms(6) job_state_listed [OF assms(2), of _ Dispatched X] in \<open>auto intro: table_ok_later\<close>)
    moreover have "\<forall>job \<in> set ?jobs. dates_parse X job" using dates_parse_row [OF assms(3)] by auto
    ultimately show ?case
      by (intro wp_mono [OF wp_requeue_list [OF later_undisturbed [OF 2(1)]]]) (use 2 w1 assms(2) in simp_all)
  qed (use w1 assms(2) in simp)
  then show ?thesis
    unfolding start_manager_def using wp_load_workers [OF assms(1, 4, 5), of jt]
    by (simp, elim wp_mono) auto
qed


section \<open>Everything the manager can reach\<close>

text \<open>
  What the other threads may do to the tables: they do not touch the busy workers, and they put no
  job into a state in which it needs a worker.
\<close>

definition others :: "tables \<Rightarrow> tables \<Rightarrow> bool" where
  "others t t' \<longleftrightarrow> tables_inv t' \<and> tb_busy_workers t' = tb_busy_workers t \<and>
     (\<forall>jid. running (job_state_of t' jid) \<longrightarrow> running (job_state_of t jid))"

lemma others_groups:
  assumes "tables_inv t'" and "tb_busy_workers t' = tb_busy_workers t" and "tb_jobs t' = tb_jobs t"
  shows "others t t'"
  using assms by (simp add: others_def job_state_of_def job_row_def)

lemma others_add_job:
  assumes "tables_inv t" and "job_row_ok (new_job_row job jid now)" and "jid \<notin> jr_id ` set (tb_jobs t)"
  shows "others t (add_job (new_job_row job jid now) t)"
proof -
  have row: "jr_id (new_job_row job k now) = k" "projr (job_state_from_str (jr_job_state (new_job_row job k now))) = Pending" for k
    using job_state_roundtrip [of Pending] by (simp_all add: new_job_row_def Let_def)
  have "find P (xs @ [x]) = (case find P xs of None \<Rightarrow> if P x then Some x else None | Some y \<Rightarrow> Some y)" for P and x :: job_row and xs
    by (induction xs) auto
  then have "job_state_of (add_job (new_job_row job jid now) t) k =
      (case job_state_of t k of None \<Rightarrow> if k = jid then Some Pending else None | Some s \<Rightarrow> Some s)" for k
    using row by (simp add: job_state_of_def job_row_def add_job_def split: option.split)
  then have "running (job_state_of (add_job (new_job_row job jid now) t) k) \<Longrightarrow> running (job_state_of t k)" for k
    by (auto simp: running_def split: option.splits if_splits)
  moreover have "tb_busy_workers (add_job (new_job_row job jid now) t) = tb_busy_workers t" by (simp add: add_job_def)
  ultimately show ?thesis using assms row(1) by (simp add: others_def tables_inv_add_job)
qed

lemma others_put_job:
  assumes "tables_inv t" and "\<not> running (Some (jb_state job))"
  shows "others t (put_job X job t)"
proof -
  have "tb_busy_workers (put_job X job t) = tb_busy_workers t" by (simp add: put_job_def)
  with assms show ?thesis by (auto simp: others_def job_state_of_put_job running_def split: if_splits)
qed

lemma others_keep_state:
  assumes "tables_inv t" and "\<And>r. jr_id (f r) = jr_id r" and "\<And>r. jr_job_state (f r) = jr_job_state r"
    and "\<And>r. job_row_ok r \<Longrightarrow> job_row_ok (f r)"
  shows "others t (tb_jobs_update (update_where (\<lambda>r. jr_id r = jid) f) t)"
proof -
  have "job_state_of (tb_jobs_update (update_where (\<lambda>r. jr_id r = jid) f) t) k = job_state_of t k" for k
    by (cases "job_row t k") (simp_all add: job_state_of_def job_row_update assms(2, 3))
  then show ?thesis using tables_inv_jobs_update [OF assms(1, 2, 4)] by (simp add: others_def)
qed

text \<open>
  The handlers of the manager in any order, with time and the other threads in between. A report that
  a job runs comes from a worker that has this job.
\<close>

inductive mgr_step :: "externals \<Rightarrow> origins \<Rightarrow> u64 \<Rightarrow> world \<Rightarrow> world \<Rightarrow> bool" for X O' jt where
  heartbeat: "process_heartbeat X (Inr hb) w = Some (r, w') \<Longrightarrow> mgr_step X O' jt w w'"
| expiry: "expire_workers X w = Some (r, w') \<Longrightarrow> mgr_step X O' jt w w'"
| report: "dates_parse X job \<Longrightarrow>
    (running (Some (jb_state job)) \<longrightarrow> jb_id job \<in> snd ` hands (w_workers w)) \<Longrightarrow>
    process_job_status X (Inr job) w = Some (r, w') \<Longrightarrow> mgr_step X O' jt w w'"
| cancelations: "process_cancelations X w = Some (r, w') \<Longrightarrow> mgr_step X O' jt w w'"
| work: "mgr_process_work X O' jt w = Some (r, w') \<Longrightarrow> mgr_step X O' jt w w'"
| other_thread: "others (w_tables w) t \<Longrightarrow> mgr_step X O' jt w (w\<lparr>w_tables := t\<rparr>)"
| time: "0 \<le> d \<Longrightarrow> \<forall>ev \<in> set env. calm ev \<Longrightarrow> mgr_step X O' jt w (w\<lparr>w_instant := w_instant w + d, w_env := env\<rparr>)"

lemma wp_step: "wp m (\<lambda>r w'. P w') w \<Longrightarrow> m w = Some (r, w') \<Longrightarrow> P w'"
  by (simp add: wp_def)

lemma mgr_inv_step:
  assumes "mgr_step X O' jt w w'" and "mgr_inv w" and "dates_ok X"
  shows "mgr_inv w'"
  using assms
proof (induction rule: mgr_step.induct)
  case (heartbeat hb w r w')
  then show ?case using wp_process_heartbeat [of w X hb] by (simp add: wp_def)
next
  case (expiry w r w')
  then have "wp (expire_workers X) (\<lambda>r w'. r = Inr () \<and> expired_from w w') w"
    by (intro wp_expire_workers) (simp_all add: mgr_inv_def)
  with expiry show ?case by (auto simp: wp_def intro: expired_from_inv)
next
  case (report job w r w')
  then show ?case using wp_process_job_status [of w X job] by (simp add: wp_def)
next
  case (cancelations w r w')
  then show ?case using wp_process_cancelations [of w X] by (simp add: wp_def)
next
  case (work w r w')
  then show ?case using wp_mgr_process_work [of w X O' jt] by (simp add: wp_def)
next
  case (other_thread w t)
  then show ?case by (auto simp: others_def mgr_inv_def undisturbed_def busy_pairs_def)
next
  case (time d env w)
  then show ?case by (auto simp: mgr_inv_def undisturbed_def intro: table_ok_later)
qed

lemma mgr_inv_steps:
  assumes "(mgr_step X O' jt)\<^sup>*\<^sup>* w w'" and "mgr_inv w" and "dates_ok X"
  shows "mgr_inv w'"
  using assms by (induction rule: rtranclp_induct) (auto intro: mgr_inv_step)

lemma handlers_return:
  assumes "mgr_inv w" and "dates_ok X"
  shows "process_heartbeat X (Inr hb) w \<noteq> None" and "expire_workers X w \<noteq> None" and "process_cancelations X w \<noteq> None"
    and "mgr_process_work X O' jt w \<noteq> None"
  using wp_process_heartbeat [OF assms, of hb] wp_process_cancelations [OF assms] wp_mgr_process_work [OF assms(1), of X O' jt]
    wp_expire_workers [of w X] assms
  by (auto simp: wp_result mgr_inv_def)

text \<open>One round of the loop.\<close>

lemma wp_pass_heartbeat:
  assumes "mgr_inv w" and "dates_ok X"
  shows "wp (case hb of None \<Rightarrow> ok () | Some hb \<Rightarrow> warn_on_error (process_heartbeat X hb)) (\<lambda>r s. r = Inr () \<and> mgr_inv s) w"
proof (cases hb)
  case (Some received)
  then show ?thesis
    using assms(1) wp_process_heartbeat [OF assms, of "projr received"]
    by (cases received) (auto simp: process_heartbeat_def elim!: wp_mono)
qed (use assms(1) in simp)

lemma wp_pass_expiry:
  assumes "mgr_inv w" and "dates_ok X"
  shows "wp (warn_on_error (expire_workers X)) (\<lambda>r s. r = Inr () \<and> mgr_inv s) w"
proof -
  have "wp (expire_workers X) (\<lambda>r w'. r = Inr () \<and> expired_from w w') w"
    by (rule wp_expire_workers) (use assms in \<open>simp_all add: mgr_inv_def\<close>)
  then show ?thesis by (auto elim!: wp_mono intro: expired_from_inv [OF assms(1)])
qed

lemma wp_pass_report:
  assumes "mgr_inv w" and "\<And>job. status = Some (Inr job) \<Longrightarrow> dates_parse X job \<and> \<not> running (Some (jb_state job))"
  shows "wp (case status of None \<Rightarrow> ok () | Some job \<Rightarrow> warn_on_error (process_job_status X job)) (\<lambda>r s. r = Inr () \<and> mgr_inv s) w"
proof (cases status)
  case (Some received)
  have "wp (process_job_status X received) (\<lambda>r. mgr_inv) w"
  proof (cases received)
    case (Inl e)
    with assms(1) show ?thesis by (simp add: process_job_status_def)
  next
    case (Inr job)
    with Some assms(2) have "dates_parse X job" "\<not> running (Some (jb_state job))" by auto
    then show ?thesis unfolding Inr by (intro wp_mono [OF wp_process_job_status [OF assms(1)]]) auto
  qed
  with Some show ?thesis by simp
qed (use assms(1) in simp)

lemma wp_pass_notice:
  assumes "mgr_inv w"
  shows "wp (if b then warn_on_error (send_on (w_worker_notices_update f)) else ok ()) (\<lambda>r s. r = Inr () \<and> mgr_inv s) w"
proof -
  have "wp (send_on (w_worker_notices_update f)) (\<lambda>r. mgr_inv) w"
    by (rule wp_send_on) (use assms in \<open>auto simp: mgr_inv_def undisturbed_def later_def intro: table_ok_later\<close>)
  with assms show ?thesis by simp
qed

lemma wp_pass_work:
  assumes "mgr_inv w" and "dates_ok X"
  shows "wp (and_then (warn_on_error (process_cancelations X)) (\<lambda>_.
    and_then (warn_on_error (mgr_process_work X O' jt)) (\<lambda>_. ok v))) (\<lambda>r s. r = Inr v \<and> mgr_inv s \<and> work_done s) w"
proof -
  have "wp (mgr_process_work X O' jt) (\<lambda>r s. mgr_inv s \<and> work_done s) s" if "mgr_inv s" for s
    using wp_mgr_process_work [OF that] by (rule wp_mono) simp
  then have "wp (process_cancelations X) (\<lambda>r s. wp (mgr_process_work X O' jt) (\<lambda>r s. mgr_inv s \<and> work_done s) s) w"
    using wp_process_cancelations [OF assms] by (blast intro: wp_mono)
  then show ?thesis by simp
qed

lemma wp_seq:
  assumes "wp m (\<lambda>r s. r = Inr () \<and> I s) w" and "\<And>s. I s \<Longrightarrow> wp (k ()) Q s"
  shows "wp (and_then m k) Q w"
  using assms(1) by (simp, elim wp_mono) (auto intro: assms(2))

lemma wp_mgr_pass:
  assumes "mgr_inv w" and "dates_ok X"
    and "\<And>job. mi_status input = Some (Inr job) \<Longrightarrow> dates_parse X job \<and> \<not> running (Some (jb_state job))"
  shows "wp (mgr_pass X O' jt input vars) (\<lambda>r w'. mgr_inv w' \<and>
    (\<exists>n. r = Inr (fst vars \<or> mi_notice input, n)) \<and> (fst vars \<or> mi_notice input \<longrightarrow> work_done w')) w"
  unfolding mgr_pass_def
proof (intro wp_seq [where I = mgr_inv], goal_cases)
  case 1
  show ?case by (rule wp_pass_heartbeat [OF assms(1, 2)])
next
  case (2 s)
  then show ?case by (rule wp_pass_expiry [OF _ assms(2)])
next
  case (3 s1 s)
  then show ?case by (intro wp_pass_report assms(3))
next
  case (4 s1 s2 s)
  then show ?case by (intro wp_pass_notice)
next
  case (5 s1 s2 s3 s)
  note work = wp_pass_work [OF 5(4) assms(2), of O' jt "(fst vars \<or> mi_notice input, w_instant s)"]
  show ?case
  proof (cases "(fst vars \<or> mi_notice input) \<or> snd vars + uint DEFAULT_POLL_TIMEOUT_MS < w_instant s")
    case True
    then show ?thesis
      unfolding Let_def wp_and_then [of instant_now] wp_instant_now sum.case
      by (simp only: if_True) (rule wp_mono [OF work], blast)
  next
    case False
    with 5(4) show ?thesis by (simp add: Let_def)
  qed
qed


section \<open>What the manager promises\<close>

text \<open>Dates in unary, and a database with a job in the hands of a worker and one that waits.\<close>

definition unary_dates :: externals where
  "unary_dates =
     \<lparr>ex_parse_date = (\<lambda>s. case s of [] \<Rightarrow> None | c # ds \<Rightarrow> Some (if c = CHR ''-'' then - int (length ds) else int (length ds))),
      ex_rfc3339 = (\<lambda>t. (if t < 0 then CHR ''-'' else CHR ''+'') # replicate (nat \<bar>t\<bar>) (CHR ''1'')),
      ex_regex_match = (\<lambda>_ _. False)\<rparr>"

definition example_queue :: world where
  "example_queue = example_world\<lparr>w_tables := example_tables\<lparr>
     tb_jobs := [(new_job_row example_job 7 5)\<lparr>jr_job_state := ''Processing''\<rparr>, new_job_row example_job 8 6],
     tb_busy_workers := [\<lparr>bw_ident = ''w1'', bw_job_id = 7, bw_quarantined = False\<rparr>]\<rparr>\<rparr>"

lemma unary_dates_ok: "dates_ok unary_dates"
  by (simp add: dates_ok_def unary_dates_def)

lemma example_queue_ok:
  "undisturbed example_queue" "tables_inv (w_tables example_queue)" "w_workers example_queue = []"
  "distinct (map bw_ident (tb_busy_workers (w_tables example_queue)))"
  "job_state_of (w_tables example_queue) jid = Some Processing \<Longrightarrow> jid \<in> snd ` busy_pairs (w_tables example_queue)"
proof -
  show "undisturbed example_queue" "w_workers example_queue = []"
    by (simp_all add: undisturbed_def example_queue_def example_world_def)
  show "tables_inv (w_tables example_queue)" "distinct (map bw_ident (tb_busy_workers (w_tables example_queue)))" by code_simp+
  assume "job_state_of (w_tables example_queue) jid = Some Processing"
  moreover have "projr (job_state_from_str ''Pending'') \<noteq> Processing" by code_simp
  ultimately show "jid \<in> snd ` busy_pairs (w_tables example_queue)"
    by (auto simp: job_state_of_def job_row_def example_queue_def new_job_row_def Let_def busy_pairs_def split: if_splits)
qed

lemma example_started: "\<exists>w. start_manager unary_dates 60 example_queue = Some (Inr (), w) \<and> mgr_inv w"
  using wp_start_manager [OF example_queue_ok(1, 2) unary_dates_ok example_queue_ok(3-5), of 60]
  by (auto simp: wp_result)



text \<open>C24: Expiry looks only at the front of the table, but it removes exactly the workers whose time is over, as
  scanning all of them would. A job one of them had is queued again, or its cancellation is
  completed, and no other job changes its state.\<close>

theorem expiry_removes_exactly_silent_workers:
  assumes "mgr_inv w" and "dates_ok X"
  shows "\<exists>w'. expire_workers X w = Some (Inr (), w') \<and>
    w_workers w' = filter (\<lambda>t. \<not> is_expired (w_instant w') (snd t)) (w_workers w) \<and>
    (\<forall>jid. job_state_of (w_tables w') jid =
      map_option (if \<exists>t \<in> set (w_workers w). is_expired (w_instant w') (snd t) \<and> wk_job_id (snd t) = Some jid then requeued else id)
        (job_state_of (w_tables w) jid))"
proof -
  obtain w' where run: "expire_workers X w = Some (Inr (), w')" and e: "expired_from w w'"
    using wp_expire_workers [of w X] assms by (auto simp: wp_result mgr_inv_def)
  from e obtain gone where gone: "w_workers w = gone @ w_workers w'" "\<forall>t \<in> set gone. is_expired (w_instant w') (snd t)"
    "\<forall>t \<in> set (w_workers w'). \<not> is_expired (w_instant w') (snd t)" "requeued_in (snd ` hands gone) (w_tables w) (w_tables w')"
    by (auto simp: expired_from_def)
  have "filter (\<lambda>t. \<not> is_expired (w_instant w') (snd t)) (w_workers w) = w_workers w'"
    using gone(2, 3) by (simp add: gone(1) filter_empty_conv)
  moreover have "jid \<in> snd ` hands gone \<longleftrightarrow>
      (\<exists>t \<in> set (w_workers w). is_expired (w_instant w') (snd t) \<and> wk_job_id (snd t) = Some jid)" for jid
    using gone(2, 3) by (force simp: gone(1) hands_def)
  ultimately show ?thesis using run gone(4) by (simp add: restated_def)
qed

theorem expiry_removes_exactly_silent_workers_witness:
  "\<exists>w1 w'. start_manager unary_dates 60 example_queue = Some (Inr (), w1) \<and>
    expire_workers unary_dates (w1\<lparr>w_instant := w_instant w1 + 40000\<rparr>) = Some (Inr (), w') \<and>
    w_workers w' = filter (\<lambda>t. \<not> is_expired (w_instant w') (snd t)) (w_workers w1)"
proof -
  obtain w1 where w1: "start_manager unary_dates 60 example_queue = Some (Inr (), w1)" "mgr_inv w1"
    using example_started by blast
  have "mgr_inv (w1\<lparr>w_instant := w_instant w1 + 40000\<rparr>)"
    using w1(2) by (auto simp: mgr_inv_def undisturbed_def intro: table_ok_later)
  from expiry_removes_exactly_silent_workers [OF this unary_dates_ok] w1(1) show ?thesis by auto
qed

text \<open>C23: Handing out work ends without an error. Afterwards no worker is ready or no job is pending; a job changed
  its state only from pending to dispatched, with a start command sent to a worker that now has it,
  and no job was passed over for a younger one.\<close>

theorem work_is_handed_out_in_order:
  assumes "mgr_inv w"
  shows "\<exists>w'. mgr_process_work X O' jt w = Some (Inr (), w') \<and>
    (list_all (\<lambda>t. wk_state (snd t) \<noteq> Ready) (w_workers w') \<or> (\<forall>jid. job_state_of (w_tables w') jid \<noteq> Some Pending)) \<and>
    (\<forall>jid. job_state_of (w_tables w') jid = job_state_of (w_tables w) jid \<or>
      job_state_of (w_tables w) jid = Some Pending \<and> job_state_of (w_tables w') jid = Some Dispatched \<and>
      (\<exists>i wk job. (i, wk) \<in> set (w_workers w') \<and> wk_job_id wk = Some jid \<and>
        (i, StartJob, job) \<in> set (w_commands w') \<and> jb_id job = jid)) \<and>
    (\<forall>j k. job_state_of (w_tables w) j = Some Pending \<longrightarrow> job_state_of (w_tables w') j = Some Dispatched \<longrightarrow>
      job_state_of (w_tables w') k = Some Pending \<longrightarrow> created (w_tables w) j \<le> created (w_tables w) k)"
proof -
  obtain w' where run: "mgr_process_work X O' jt w = Some (Inr (), w')" and h: "handed_out w w'" and d: "work_done w'"
    using wp_mgr_process_work [OF assms, of X O' jt] by (auto simp: wp_result)
  have "list_all (\<lambda>t. wk_state (snd t) \<noteq> Ready) (w_workers w') \<or> (\<forall>jid. job_state_of (w_tables w') jid \<noteq> Some Pending)"
    using d by (auto simp: work_done_def list_all_iff filter_empty_conv)
  moreover have "\<exists>i wk job. (i, wk) \<in> set (w_workers w') \<and> wk_job_id wk = Some jid \<and>
      (i, StartJob, job) \<in> set (w_commands w') \<and> jb_id job = jid"
    if "job_state_of (w_tables w') jid \<noteq> job_state_of (w_tables w) jid" for jid
    using handed_out_command [OF h that] by (auto simp: hands_def)
  ultimately show ?thesis using run handed_out_cases [OF h] handed_out_fifo [OF h] by blast
qed

theorem work_is_handed_out_in_order_witness:
  "\<exists>w1 w'. start_manager unary_dates 60 example_queue = Some (Inr (), w1) \<and>
    mgr_process_work unary_dates example_origins 60 w1 = Some (Inr (), w') \<and>
    (list_all (\<lambda>t. wk_state (snd t) \<noteq> Ready) (w_workers w') \<or> (\<forall>jid. job_state_of (w_tables w') jid \<noteq> Some Pending))"
proof -
  obtain w1 where w1: "start_manager unary_dates 60 example_queue = Some (Inr (), w1)" "mgr_inv w1"
    using example_started by blast
  from work_is_handed_out_in_order [OF w1(2), of unary_dates example_origins 60] w1(1) show ?thesis by blast
qed

text \<open>C37: A report that arrives after its worker expired takes the job out of the queue: the job then counts as being
  processed although no worker the manager knows has it.\<close>

theorem late_report_loses_job:
  assumes "mgr_inv w" and "job_state_of (w_tables w) (jb_id job) = Some Pending"
    and "\<forall>t \<in> set (w_workers w). wk_job_id (snd t) \<noteq> Some (jb_id job)"
    and "jb_state job = Processing" and "dates_parse X job"
  shows "\<exists>w'. process_job_status X (Inr job) w = Some (Inr (), w') \<and>
    job_state_of (w_tables w') (jb_id job) = Some Processing \<and>
    (\<forall>t \<in> set (w_workers w'). wk_job_id (snd t) \<noteq> Some (jb_id job))"
proof -
  let ?Q = "\<lambda>r w'. r = Inr () \<and> job_state_of (w_tables w') (jb_id job) = Some Processing \<and> w_workers w' = w_workers w"
  have "wp (update_job X job) (\<lambda>r s. r = Inr () \<and> wp notify_scheduler ?Q s) w"
  proof (rule wp_update_job [OF _ assms(5)], goal_cases)
    case (2 w1)
    have "wp notify_scheduler ?Q w1"
      unfolding notify_scheduler_def
      by (rule wp_send_on [OF later_undisturbed [OF 2(1)]])
        (use 2 assms(2, 4) in \<open>simp add: job_state_of_put_job later_def\<close>)
    then show ?case by simp
  qed (use assms(1) in \<open>simp add: mgr_inv_def\<close>)
  then have "wp (process_job_status X (Inr job)) ?Q w" by (simp add: process_job_status_def, elim wp_mono) auto
  with assms(3) show ?thesis by (auto simp: wp_result)
qed


theorem late_report_loses_job_witness:
  "\<exists>w1 w'. start_manager unary_dates 60 example_queue = Some (Inr (), w1) \<and>
    process_job_status unary_dates (Inr (example_job\<lparr>jb_id := 8, jb_state := Processing\<rparr>)) w1 = Some (Inr (), w') \<and>
    job_state_of (w_tables w') 8 = Some Processing \<and> (\<forall>t \<in> set (w_workers w'). wk_job_id (snd t) \<noteq> Some 8)"
proof -
  let ?job = "example_job\<lparr>jb_id := 8, jb_state := Processing\<rparr>"
  obtain w1 where w1: "start_manager unary_dates 60 example_queue = Some (Inr (), w1)" "mgr_inv w1"
    using example_started by blast
  have "case start_manager unary_dates 60 example_queue of None \<Rightarrow> False
      | Some (r, w) \<Rightarrow> job_state_of (w_tables w) 8 = Some Pending \<and> list_all (\<lambda>t. wk_job_id (snd t) \<noteq> Some 8) (w_workers w)"
    by code_simp
  then have "job_state_of (w_tables w1) 8 = Some Pending" "\<forall>t \<in> set (w_workers w1). wk_job_id (snd t) \<noteq> Some 8"
    by (simp_all add: w1(1) list_all_iff)
  moreover have "jb_id ?job = 8" "jb_state ?job = Processing" "dates_parse unary_dates ?job" by code_simp+
  ultimately show ?thesis using late_report_loses_job [OF w1(2), of ?job unary_dates] w1(1) by simp
qed

end
