(* ===== verification/Log_Stream.thy ===== *)
theory Log_Stream
  imports Job_Server
begin

text \<open>
  The log of a build on its page in the web interface (\<open>components/builder-web/app\<close>): the action
  \<open>fetchBuildLog\<close>, which asks for the lines from a given one on and, while the build runs, asks again
  two seconds later from where the answer stopped, and the reducer \<open>builds\<close>, which hands the lines to
  the page. The page appends every value of the subject \<open>content\<close> to what it shows
  (\<open>watchForLogs\<close>), so the subject is the list of its values since the page subscribed. The
  HTTP server in between passes requests and answers on for builds the user may see. Line numbers are below the range
  in which numbers of the browser are exact.
\<close>

record selected_build =
  sb_start :: "u64 option"
  sb_stop :: "u64 option"
  sb_content :: "string list list"
  sb_is_complete :: "bool option"
  sb_stream :: bool

section \<open>The reducer\<close>

definition stream_build_log :: "bool \<Rightarrow> selected_build \<Rightarrow> selected_build" where
  "stream_build_log setting s = s\<lparr>sb_stream := setting\<rparr>"

definition clear_build_log :: "selected_build \<Rightarrow> selected_build" where
  "clear_build_log s =
     s\<lparr>sb_start := None, sb_stop := None, sb_content := sb_content s @ [[]], sb_is_complete := None\<rparr>"

definition populate_build_log :: "job_log option \<Rightarrow> selected_build \<Rightarrow> selected_build" where
  "populate_build_log payload_opt s =
     (case payload_opt of
        None \<Rightarrow> s
      | Some payload \<Rightarrow>
          let content =
            (if jl_start payload = 0 \<and> \<not> jl_is_complete payload then sb_content s @ [jl_content payload]
             else if jl_content payload \<noteq> [] then sb_content s @ [jl_content payload]
             else sb_content s)
          in s\<lparr>sb_start := Some (jl_start payload), sb_stop := Some (jl_stop payload), sb_content := content,
               sb_is_complete := Some (jl_is_complete payload)\<rparr>)"

section \<open>The action\<close>

text \<open>What is dispatched when the timer runs out.\<close>

datatype follow_up = NoFollowUp | FetchBuild | FetchBuildLog u64

definition fetch_build_log :: "(u64 \<Rightarrow> job_log option) \<Rightarrow> u64 \<Rightarrow> selected_build \<Rightarrow> selected_build \<times> follow_up" where
  "fetch_build_log get start s =
     (let s = (if start = 0 then clear_build_log s else s)
      in case get start of
           None \<Rightarrow> (populate_build_log None s, NoFollowUp)
         | Some data \<Rightarrow>
             let s = populate_build_log (Some data) s; complete = jl_is_complete data
             in (s, if complete \<and> jl_start data \<noteq> 0 then FetchBuild
                    else if \<not> complete \<and> sb_stream s then FetchBuildLog (jl_stop data)
                    else NoFollowUp))"

text \<open>The requests of a page, one after the other; each element is how its request is answered.\<close>

fun watch_build_log :: "(u64 \<Rightarrow> job_log option) list \<Rightarrow> u64 \<Rightarrow> selected_build \<Rightarrow> selected_build" where
  "watch_build_log [] start s = s"
| "watch_build_log (get # gets) start s =
     (case fetch_build_log get start s of
        (s, FetchBuildLog stop) \<Rightarrow> watch_build_log gets stop s
      | (s, _) \<Rightarrow> s)"

definition shown :: "selected_build \<Rightarrow> string list" where
  "shown s = concat (sb_content s)"

text \<open>An answer other than a log is an error of the request.\<close>

definition get_build_log :: "externals \<Rightarrow> u64 \<Rightarrow> world \<times> log_store \<Rightarrow> u64 \<Rightarrow> job_log option" where
  "get_build_log X job_id = (\<lambda>(w, logs) start.
     case job_log_get X logs job_id start w of
       Some (Inr (LogReply log), _) \<Rightarrow> Some log
     | _ \<Rightarrow> None)"

end
