(* ===== verification/Job_Server_Facts.thy ===== *)
theory Job_Server_Facts
  imports Worker_Facts Package_Graph_Facts Log_Stream
begin

text \<open>
  Laws of the request handlers of the job server: what a new group contains and that it can be
  built, what canceling a group does, how a client reads a log piece by piece, and when the
  scheduler sees a report of a worker.
\<close>

section \<open>New groups\<close>

definition new_group_row :: "u64 \<Rightarrow> int \<Rightarrow> string \<Rightarrow> group_row" where
  "new_group_row gid now root =
     \<lparr>gr_id = gid, gr_group_state = group_state_to_string GroupQueued, gr_project_name = root, gr_created_at = now\<rparr>"

definition new_project_rows :: "u64 \<Rightarrow> nat \<Rightarrow> (string \<times> string) list \<Rightarrow> project_row list" where
  "new_project_rows gid k ps = map (\<lambda>x. \<lparr>pr_id = fst x, pr_owner_id = gid, pr_project_name = fst (snd x),
     pr_project_ident = snd (snd x), pr_project_state = project_state_to_string NotStarted, pr_job_id = 0\<rparr>) (enumerate k ps)"

definition add_group :: "u64 \<Rightarrow> int \<Rightarrow> string \<Rightarrow> (string \<times> string) list \<Rightarrow> tables \<Rightarrow> tables" where
  "add_group gid now root ps t =
     t\<lparr>tb_groups_id_seq := tb_groups_id_seq t + 1, tb_groups := tb_groups t @ [new_group_row gid now root],
       tb_group_projects := tb_group_projects t @ new_project_rows gid (tb_group_projects_seq t + 1) ps,
       tb_group_projects_seq := tb_group_projects_seq t + length ps\<rparr>"

definition fresh_projects :: "(string \<times> string) list \<Rightarrow> job_group_project list" where
  "fresh_projects ps = map (\<lambda>(name, ident). \<lparr>gp_name = name, gp_ident = ident, gp_state = NotStarted, gp_job_id = 0\<rparr>) ps"

text \<open>Every project belongs to a group.\<close>

definition owned :: "tables \<Rightarrow> bool" where
  "owned t \<longleftrightarrow> list_all (\<lambda>p. pr_owner_id p \<in> gr_id ` set (tb_groups t)) (tb_group_projects t)"

lemma new_project_rows_simps:
  "length (new_project_rows gid k ps) = length ps"
  "map pr_id (new_project_rows gid k ps) = [k..<k + length ps]"
  "map (\<lambda>p. (pr_owner_id p, pr_project_name p)) (new_project_rows gid k ps) = map (\<lambda>x. (gid, fst x)) ps"
  "list_all (\<lambda>p. pr_owner_id p = gid) (new_project_rows gid k ps)"
  "map project_of_row (new_project_rows gid k ps) = fresh_projects ps"
proof -
  have snds: "map (\<lambda>x. f (snd x)) (enumerate k ps) = map f ps" for f :: "string \<times> string \<Rightarrow> 'b"
    using map_snd_enumerate [of k ps] by (metis (no_types, lifting) list.map_comp comp_apply map_cong)
  show "length (new_project_rows gid k ps) = length ps" by (simp add: new_project_rows_def)
  show "map pr_id (new_project_rows gid k ps) = [k..<k + length ps]"
    by (simp add: new_project_rows_def comp_def)
  show "map (\<lambda>p. (pr_owner_id p, pr_project_name p)) (new_project_rows gid k ps) = map (\<lambda>x. (gid, fst x)) ps"
    using snds [of "\<lambda>x. (gid, fst x)"] by (simp add: new_project_rows_def comp_def)
  show "list_all (\<lambda>p. pr_owner_id p = gid) (new_project_rows gid k ps)"
    by (auto simp: new_project_rows_def list_all_iff)
  show "map project_of_row (new_project_rows gid k ps) = fresh_projects ps"
    using snds [of "\<lambda>(name, ident). \<lparr>gp_name = name, gp_ident = ident, gp_state = NotStarted, gp_job_id = 0\<rparr>"]
    by (simp add: new_project_rows_def comp_def fresh_projects_def project_of_row_def case_prod_beta
      del: project_state_to_string.simps)
qed


lemma new_project_row_mem:
  assumes "p \<in> set (new_project_rows gid k ps)"
  shows "k \<le> pr_id p" "pr_id p < k + length ps" "pr_owner_id p = gid" "pr_project_name p \<in> fst ` set ps"
    "valid_project_state (pr_project_state p)"
proof -
  from assms obtain n x where x: "(n, x) \<in> set (enumerate k ps)" and p: "pr_id p = n" "pr_owner_id p = gid"
    "pr_project_name p = fst x" "pr_project_state p = project_state_to_string NotStarted"
    by (auto simp: new_project_rows_def simp del: project_state_to_string.simps)
  then have "k \<le> n" "n < k + length ps" "x \<in> set ps" by (auto simp: in_set_enumerate_eq)
  with p show "k \<le> pr_id p" "pr_id p < k + length ps" "pr_owner_id p = gid" "pr_project_name p \<in> fst ` set ps"
    "valid_project_state (pr_project_state p)"
    by (simp_all del: project_state_to_string.simps)
qed

lemma distinct_append_map:
  "distinct (map f (xs @ ys)) \<longleftrightarrow> distinct (map f xs) \<and> distinct (map f ys) \<and> (\<forall>x \<in> set xs. \<forall>y \<in> set ys. f x \<noteq> f y)"
  by (auto simp: image_iff)

lemma tables_inv_add_group:
  assumes "tables_inv t" and "owned t" and "gid \<notin> gr_id ` set (tb_groups t)" and "ps \<noteq> []" and "distinct (map fst ps)"
    and "\<forall>n \<in> fst ` set ps. CHR ''/'' \<in> set n"
  shows "tables_inv (add_group gid now root ps t)"
proof -
  let ?k = "tb_group_projects_seq t + 1" and ?old = "tb_group_projects t"
  let ?new = "new_project_rows gid ?k ps"
  note new = new_project_rows_simps [of gid ?k ps] and mem = new_project_row_mem [of _ gid ?k ps]
  note old = assms(1) [unfolded tables_inv_def]
  have ids: "\<forall>p \<in> set ?old. pr_id p \<le> tb_group_projects_seq t" using old by (simp add: list_all_iff)
  have owners: "\<forall>p \<in> set ?old. pr_owner_id p \<noteq> gid" using assms(2, 3) by (auto simp: owned_def list_all_iff)
  have "distinct (map pr_id (?old @ ?new))"
    unfolding distinct_append_map new(2) using old ids mem(1) by fastforce
  moreover have "list_all (\<lambda>p. pr_id p \<le> tb_group_projects_seq t + length ps \<and> valid_project_state (pr_project_state p) \<and>
      CHR ''/'' \<in> set (pr_project_name p)) ?old"
    using old by (auto simp: list_all_iff)
  moreover have "list_all (\<lambda>p. pr_id p \<le> tb_group_projects_seq t + length ps \<and> valid_project_state (pr_project_state p) \<and>
      CHR ''/'' \<in> set (pr_project_name p)) ?new"
    using mem(2, 4, 5) assms(6) by (fastforce simp: list_all_iff)
  moreover have "distinct (map (\<lambda>p. (pr_owner_id p, pr_project_name p)) (?old @ ?new))"
  proof -
    have "distinct (map (\<lambda>x. (gid, fst x)) ps)" using assms(5) by (simp add: distinct_map inj_on_def)
    then show ?thesis unfolding distinct_append_map new(3) using old owners mem(3) by blast
  qed
  moreover obtain p where "p \<in> set ?new" using new(1) assms(4) by (cases ?new) auto
  then have "gid \<in> pr_owner_id ` set ?new" using mem(3) by force
  moreover have "list_all (\<lambda>g. gr_id g \<in> pr_owner_id ` set (?old @ ?new)) (tb_groups t)"
    using old by (auto simp: list_all_iff)
  ultimately show ?thesis
    using old assms(3) valid_states(2) [of GroupQueued]
    by (simp add: tables_inv_def add_group_def new_group_row_def image_Un)
qed

lemma find_append: "find P (xs @ ys) = (case find P xs of None \<Rightarrow> find P ys | Some x \<Rightarrow> Some x)"
  by (induction xs) auto

lemma projects_of_add_group:
  assumes "owned t" and "gid \<notin> gr_id ` set (tb_groups t)"
  shows "projects_of (add_group gid now root ps t) gid = fresh_projects ps"
proof -
  have "filter (\<lambda>p. pr_owner_id p = gid) (tb_group_projects t) = []"
    using assms by (auto simp: owned_def list_all_iff filter_empty_conv)
  moreover have "filter (\<lambda>p. pr_owner_id p = gid) (new_project_rows gid k ps) = new_project_rows gid k ps" for k
    using new_project_rows_simps(4) by (simp add: filter_id_conv list_all_iff)
  ultimately show ?thesis by (simp add: projects_of_def add_group_def new_project_rows_simps(5))
qed

lemma group_row_add_group:
  "gid \<notin> gr_id ` set (tb_groups t) \<Longrightarrow> group_row (add_group gid now root ps t) gid = Some (new_group_row gid now root)"
  by (auto simp: group_row_def add_group_def find_append new_group_row_def find_None_iff split: option.split dest: find_mem)

lemma wp_create_job_group:
  assumes "undisturbed w" and "tables_inv (w_tables w)" and "owned (w_tables w)" and "ps \<noteq> []"
    and "\<And>w' gid now. later w w' \<Longrightarrow> gid \<notin> gr_id ` set (tb_groups (w_tables w)) \<Longrightarrow>
      w_tables w' = add_group gid now (origin @ ''/'' @ package) ps (w_tables w) \<Longrightarrow>
      Q (Inr (group_of_row X (w_tables w') (new_group_row gid now (origin @ ''/'' @ package)))) w'"
    and "\<And>w'. later w w' \<Longrightarrow> w_tables w' = (w_tables w)\<lparr>tb_groups_id_seq := tb_groups_id_seq (w_tables w) + 1\<rparr> \<Longrightarrow>
      Q (Inl JobGroupCreate) w'"
  shows "wp (create_job_group X origin package ps) Q w"
  unfolding create_job_group_def
proof (simp only: wp_and_then [of get_shard], rule wp_get_shard [OF assms(1)], simp only: sum.case, goal_cases)
  case (1 w1)
  note w1 = this
  let ?t = "w_tables w" and ?root = "origin @ ''/'' @ package"
  let ?gid = "\<lambda>now. next_id_v1 now (tb_groups_id_seq ?t + 1)"
  have insert: "insert_group_v2 root (map fst ps) (map snd ps) ev now ?t =
      (if ?gid now \<in> gr_id ` set (tb_groups ?t) then (None, ?t\<lparr>tb_groups_id_seq := tb_groups_id_seq ?t + 1\<rparr>)
       else (Some (new_group_row (?gid now) now root), add_group (?gid now) now root ps ?t))" for ev now root
    by (simp add: insert_group_v2_def Let_def new_group_row_def add_group_def new_project_rows_def zip_map_fst_snd case_prod_beta)
  have row: "row_to_job_group X (new_group_row gid now root) = Inr ((group_of_row X t (new_group_row gid now root))\<lparr>jg_projects := []\<rparr>)"
    for gid now root t
    by (rule row_to_job_group_ok) (use valid_states(2) [of GroupQueued] in \<open>simp add: new_group_row_def\<close>)
  have grp: "(group_of_row X (add_group gid now root ps ?t) (new_group_row gid now root))\<lparr>jg_projects := fresh_projects ps\<rparr> =
      group_of_row X (add_group gid now root ps ?t) (new_group_row gid now root)"
    if "gid \<notin> gr_id ` set (tb_groups ?t)" for gid now root
    using projects_of_add_group [OF assms(3) that, of now root ps] by (simp add: group_of_row_def new_group_row_def)
  show ?case
    unfolding fresh_projects_def [symmetric]
  proof (simp add: assms(4) Let_def, rule wp_query [OF later_undisturbed [OF w1(1)]], goal_cases)
    case (1 ev w2)
    note lw = later_trans [OF w1(1) 1(2)]
    let ?now = "w_db_now w2"
    show ?case
    proof (cases "?gid ?now \<in> gr_id ` set (tb_groups ?t)")
      case True
      with lw w1(2) assms(6) show ?thesis by (simp add: insert)
    next
      case False
      let ?w = "w2\<lparr>w_tables := add_group (?gid ?now) ?now ?root ps ?t\<rparr>"
      have "Q (Inr (group_of_row X (w_tables ?w) (new_group_row (?gid ?now) ?now ?root))) ?w"
        by (rule assms(5) [OF _ False]) (use lw in simp_all)
      with False w1(2) grp [OF False, of ?now] row [where t = "add_group (?gid ?now) ?now ?root ps ?t"] show ?thesis
        by (simp add: insert)
    qed
  qed
qed

lemma wp_get_queued_none:
  assumes "undisturbed w" and "\<forall>g \<in> set (tb_groups (w_tables w)). \<not> (gr_project_name g = name \<and> gr_group_state g = ''Queued'')"
    and "\<And>w'. later w w' \<Longrightarrow> w_tables w' = w_tables w \<Longrightarrow> Q (Inr None) w'"
  shows "wp (get_queued_job_group X name) Q w"
  unfolding get_queued_job_group_def get_queued_group_v1_def
proof (rule wp_read [OF assms(1)])
  fix w'
  assume "later w w'" "w_tables w' = w_tables w"
  moreover have "filter (\<lambda>g. gr_project_name g = name \<and> gr_group_state g = ''Queued'') (tb_groups (w_tables w)) = []"
    using assms(2) by (simp add: filter_empty_conv)
  ultimately show "wp (if filter (\<lambda>g. gr_project_name g = name \<and> gr_group_state g = ''Queued'') (tb_groups (w_tables w)) = [] then ok None
     else and_then (assert_that (length (filter (\<lambda>g. gr_project_name g = name \<and> gr_group_state g = ''Queued'') (tb_groups (w_tables w))) = 1)) (\<lambda>_.
       and_then (with_some_projects X (filter (\<lambda>g. gr_project_name g = name \<and> gr_group_state g = ''Queued'') (tb_groups (w_tables w)) ! 0))
         (\<lambda>group. ok (Some group)))) Q w'"
    using assms(3) by simp
qed simp


section \<open>A new group can be built\<close>

text \<open>The database knows the latest versions of the graph, with dependencies that the graph has too.\<close>

definition graph_stored :: "tables \<Rightarrow> ('g \<Rightarrow> (nat \<times> nat) multiset) \<Rightarrow> 'g package_graph \<Rightarrow> bool" where
  "graph_stored t E pg \<longleftrightarrow> (\<forall>m i. pg_resolve m pg = Some i \<longrightarrow>
     package_row t i \<noteq> None \<and> (\<forall>d \<in> dep_names t i. (d, m) \<in># pg_edges E pg))"

lemma build_ordered_fresh:
  assumes "sorted_wrt (\<lambda>a b. (b, a) \<notin> R) (map fst ps)"
    and "\<forall>(m, i) \<in> set ps. (m, m) \<notin> R \<and> (\<forall>d \<in> dep_names t i. (d, m) \<in> R)"
  shows "build_ordered t (fresh_projects ps)"
  using assms
proof (induction ps)
  case (Cons p ps)
  obtain m i where p: "p = (m, i)" by force
  have "gp_name q \<notin> dep_names t i" if "q \<in> set (fresh_projects ps)" for q
    using that Cons.prems unfolding p fresh_projects_def by fastforce
  moreover have "m \<notin> dep_names t i" using Cons.prems(2) p by auto
  ultimately show ?case
    using Cons.IH Cons.prems unfolding p by (auto simp: fresh_projects_def list_all_iff)
qed (simp add: fresh_projects_def)

lemma not_started_fresh [simp]: "not_started (fresh_projects ps) = fresh_projects ps"
  by (auto simp: not_started_def fresh_projects_def filter_id_conv)

lemma resolved_name:
  assumes "pg_inv L E pg" and "pg_resolve m pg = Some i"
  shows "CHR ''/'' \<in> set m" and "m \<in> set (pg_package_names pg)"
proof -
  obtain ident where "hm_get (pg_latest_map pg) m = Some ident" using assms(2) by (auto simp: pg_resolve_def)
  then have "m = pi_origin ident @ ''/'' @ pi_name ident" "m \<in> set (pg_package_names pg)"
    using assms(1) unfolding pg_inv_def by metis+
  then show "CHR ''/'' \<in> set m" and "m \<in> set (pg_package_names pg)" by (metis in_set_conv_decomp append_Cons, simp)
qed

lemma group_projects_ok:
  assumes "graph_library L E" and "pg_inv L E pg" and "\<not> sp_package_only msg" and "\<not> sp_deps_only msg"
    and "pg_resolve root pg = Some i" and "root = sp_origin msg @ ''/'' @ sp_package msg"
  obtains ps where "group_projects L msg pg = Some ((root, i) # ps)" "distinct (root # map fst ps)"
    "fst ` set ps = {m. (root, m) \<in> (set_mset (pg_edges E pg))\<^sup>+ \<and>
      (sp_origin_only msg \<longrightarrow> split_on (CHR ''/'') m ! 0 = sp_origin msg)}"
    "sorted_wrt (\<lambda>a b. (b, a) \<notin> (set_mset (pg_edges E pg))\<^sup>+) (root # map fst ps)"
    "\<forall>(m, i) \<in> set ((root, i) # ps). pg_resolve m pg = Some i"
proof -
  let ?R = "(set_mset (pg_edges E pg))\<^sup>+"
  obtain v where v: "pg_rdeps L root pg = Some (Some v)" "distinct (map fst v)" "set (map fst v) = {m. (root, m) \<in> ?R}"
    "sorted_wrt (\<lambda>a b. (b, a) \<notin> ?R) (map fst v)" "\<forall>(m, i) \<in> set v. pg_resolve m pg = Some i"
    by (rule graph_library.pg_rdeps_ok [OF assms(1, 2) resolved_name(2) [OF assms(2, 5)]])
  have acyclic: "(m, m) \<notin> ?R" for m using pg_acyclic [OF assms(2)] by (simp add: acyclic_def)
  let ?P = "\<lambda>s. \<not> sp_origin_only msg \<or> split_on (CHR ''/'') (fst s) ! 0 = sp_origin msg"
  have "group_projects L msg pg = Some ((root, i) # filter ?P v)"
    unfolding group_projects_def Let_def assms(6) [symmetric] using assms(3-5) v(1) by simp
  moreover have names: "fst ` set (filter ?P v) = {m. (root, m) \<in> ?R \<and>
      (sp_origin_only msg \<longrightarrow> split_on (CHR ''/'') m ! 0 = sp_origin msg)}"
  proof -
    have "fst ` {s \<in> set v. Q (fst s)} = {m \<in> fst ` set v. Q m}" for Q by auto
    from this [of "\<lambda>m. \<not> sp_origin_only msg \<or> split_on (CHR ''/'') m ! 0 = sp_origin msg"] v(3) show ?thesis
      by (simp only: set_filter set_map) blast
  qed
  moreover have "distinct (root # map fst (filter ?P v))"
  proof -
    have "root \<notin> fst ` set (filter ?P v)" unfolding names using acyclic by blast
    then show ?thesis using distinct_map_filter [OF v(2), of ?P] by (simp only: distinct.simps set_map) blast
  qed
  moreover have "sorted_wrt (\<lambda>a b. (b, a) \<notin> ?R) (root # map fst (filter ?P v))"
  proof -
    have "(m, root) \<notin> ?R" if "(root, m) \<in> ?R" for m using that acyclic trancl_trans by metis
    moreover have "sorted_wrt (\<lambda>a b. (b, a) \<notin> ?R) (map fst (filter ?P v))"
      using v(4) by (simp add: sorted_wrt_map sorted_wrt_filter)
    ultimately show ?thesis unfolding sorted_wrt.simps set_map names by blast
  qed
  moreover have "\<forall>(m, i) \<in> set ((root, i) # filter ?P v). pg_resolve m pg = Some i" using v(5) assms(5) by simp
  ultimately show ?thesis by (intro that [of "filter ?P v"])
qed

lemma dep_names_add_group [simp]: "dep_names (add_group gid now root ps t) = dep_names t"
  by (rule dep_names_cong) (simp add: package_row_def add_group_def fun_eq_iff)

lemma package_row_add_group [simp]: "package_row (add_group gid now root ps t) = package_row t"
  by (simp add: package_row_def add_group_def fun_eq_iff)

lemma wp_route_reply:
  assumes "undisturbed w" and "\<And>w'. later w w' \<Longrightarrow> w_tables w' = w_tables w \<Longrightarrow> Q (Inr r) w'"
  shows "wp (route_reply r) Q w"
  unfolding route_reply_def by (simp, rule wp_send_on [OF assms(1)]) (simp add: assms(2))

text \<open>What the handler leaves behind: the group it returns, stored in the database.\<close>

definition group_stored :: "externals \<Rightarrow> string \<Rightarrow> (string \<times> string) list \<Rightarrow> world \<Rightarrow> job_error + reply \<Rightarrow> world \<Rightarrow> bool" where
  "group_stored X root ps w r w' \<longleftrightarrow> r = Inl JobGroupCreate \<or>
     (\<exists>gid now. gid \<notin> gr_id ` set (tb_groups (w_tables w)) \<and> w_tables w' = add_group gid now root ps (w_tables w) \<and>
       r = Inr (GroupReply (group_of_row X (w_tables w') (new_group_row gid now root))))"

lemma wp_job_group_create:
  assumes "undisturbed w" and "tables_inv (w_tables w)" and "owned (w_tables w)" and "tg_graph (sp_target msg) tg = Some pg"
    and "group_projects L msg pg = Some ps" and "ps \<noteq> []" and "root = sp_origin msg @ ''/'' @ sp_package msg"
    and "\<forall>g \<in> set (tb_groups (w_tables w)). \<not> (gr_project_name g = root \<and> gr_group_state g = ''Queued'')"
  shows "wp (job_group_create X L tg msg) (group_stored X root ps w) w"
proof -
  let ?Q = "group_stored X root ps w"
  have reply: "wp notify_scheduler (\<lambda>r s. r = Inr () \<and> wp (route_reply (GroupReply grp)) ?Q s) w2"
    if "undisturbed w2" "\<And>s. w_tables s = w_tables w2 \<Longrightarrow> ?Q (Inr (GroupReply grp)) s" for w2 grp
    by (rule wp_notify(2) [OF that(1)]) (auto intro!: wp_route_reply that(2) intro: later_undisturbed)
  have create: "wp (create_job_group X (sp_origin msg) (sp_package msg) ps) (\<lambda>r s. case r of Inl e \<Rightarrow> ?Q (Inl e) s
      | Inr grp \<Rightarrow> wp notify_scheduler (\<lambda>r s. r = Inr () \<and> wp (route_reply (GroupReply grp)) ?Q s) s) w1"
    if w1: "later w w1" "w_tables w1 = w_tables w" for w1
  proof (rule wp_create_job_group [OF later_undisturbed [OF w1(1)] _ _ assms(6)], goal_cases)
    case (3 w2 gid now)
    then show ?case
      using w1(2) by (simp only: sum.case flip: assms(7)) (intro reply, auto simp: group_stored_def intro: later_undisturbed)
  qed (use w1(2) assms(2, 3) in \<open>auto simp: group_stored_def\<close>)
  have "wp (get_queued_job_group X root) (\<lambda>r s. r = Inr None \<and>
      wp (create_job_group X (sp_origin msg) (sp_package msg) ps) (\<lambda>r s. case r of Inl e \<Rightarrow> ?Q (Inl e) s
        | Inr grp \<Rightarrow> wp notify_scheduler (\<lambda>r s. r = Inr () \<and> wp (route_reply (GroupReply grp)) ?Q s) s) s) w"
    by (rule wp_get_queued_none [OF assms(1, 8)]) (simp add: create)
  then show ?thesis
    using assms(4-6) unfolding job_group_create_def assms(7) [symmetric]
    by (simp, elim wp_mono) (auto elim!: wp_mono split: sum.splits)
qed


section \<open>Canceling a group\<close>

definition cancel_rows :: "u64 \<Rightarrow> tables \<Rightarrow> tables" where
  "cancel_rows gid t = set_group gid GroupCanceled (t\<lparr>tb_group_projects :=
     update_where (\<lambda>p. pr_owner_id p = gid \<and> pr_project_state p = project_state_to_string NotStarted)
       (pr_project_state_update (\<lambda>_. project_state_to_string Canceled)) (tb_group_projects t)\<rparr>)"

lemma wp_cancel_job_group:
  assumes "undisturbed w" and "\<And>w'. later w w' \<Longrightarrow> w_tables w' = cancel_rows gid (w_tables w) \<Longrightarrow> Q (Inr ()) w'"
  shows "wp (cancel_job_group gid) Q w"
  unfolding cancel_job_group_def cancel_group_v1_def
  by (rule wp_write [OF assms(1)]) (simp add: assms(2) cancel_rows_def set_group_def)

lemma tables_inv_cancel_rows [simp]:
  assumes "tables_inv t"
  shows "tables_inv (cancel_rows gid t)"
proof -
  let ?rows = "update_where (\<lambda>p. pr_owner_id p = gid \<and> pr_project_state p = project_state_to_string NotStarted)
    (pr_project_state_update (\<lambda>_. project_state_to_string Canceled)) (tb_group_projects t)"
  let ?ok = "\<lambda>p. pr_id p \<le> tb_group_projects_seq t \<and> valid_project_state (pr_project_state p) \<and> CHR ''/'' \<in> set (pr_project_name p)"
  have "list_all ?ok ?rows"
    by (rule list_all_update_where) (use assms in \<open>simp_all add: tables_inv_def del: project_state_to_string.simps\<close>)
  with assms show ?thesis
    unfolding cancel_rows_def
    by (intro tables_inv_set_group) (simp add: tables_inv_def map_update_where image_update_where del: project_state_to_string.simps)
qed

lemma job_state_of_cancel_rows [simp]: "job_state_of (cancel_rows gid t) = job_state_of t"
  by (simp add: cancel_rows_def set_group_def job_state_of_def job_row_def fun_eq_iff)

lemma group_state_of_cancel_rows: "group_row t gid \<noteq> None \<Longrightarrow> group_state_of (cancel_rows gid t) gid = Some GroupCanceled"
  unfolding cancel_rows_def by (simp add: group_row_def)

definition stopped :: "job_group_project \<Rightarrow> job_group_project" where
  "stopped p = (if gp_state p = NotStarted then p\<lparr>gp_state := Canceled\<rparr> else p)"

lemma filter_update_where:
  "(\<And>r. Q (f r) = Q r) \<Longrightarrow> filter Q (update_where P f rows) = map (\<lambda>r. if P r then f r else r) (filter Q rows)"
  by (induction rows) (auto simp: update_where_def)

lemma projects_of_cancel_rows:
  assumes "tables_inv t"
  shows "projects_of (cancel_rows gid t) g = map (if g = gid then stopped else id) (projects_of t g)"
proof -
  have "project_of_row (if pr_project_state p = project_state_to_string NotStarted
        then p\<lparr>pr_project_state := project_state_to_string Canceled\<rparr> else p) = stopped (project_of_row p)"
    if "p \<in> set (tb_group_projects t)" for p
    using that assms by (auto simp: tables_inv_def list_all_iff valid_project_state_iff project_of_row_def stopped_def
        simp del: project_state_to_string.simps)
  then show ?thesis
    by (auto simp: projects_of_def cancel_rows_def set_group_def filter_update_where simp del: project_state_to_string.simps)
qed

definition same_groups :: "tables \<Rightarrow> tables \<Rightarrow> bool" where
  "same_groups t t' \<longleftrightarrow> tb_groups t' = tb_groups t \<and> tb_group_projects t' = tb_group_projects t"

lemma same_groups_simps [simp]: "same_groups t t" "same_groups t (put_job X job t') \<longleftrightarrow> same_groups t t'"
  by (simp_all add: same_groups_def put_job_def)

lemma same_groups_trans: "same_groups t u \<Longrightarrow> same_groups u v \<Longrightarrow> same_groups t v"
  by (simp add: same_groups_def)

lemma same_groups_reads: "same_groups t t' \<Longrightarrow> projects_of t' = projects_of t \<and> group_state_of t' = group_state_of t"
  by (simp add: same_groups_def projects_of_def group_state_of_def group_row_def fun_eq_iff)

abbreviation cancel_pending :: "u64 set \<Rightarrow> tables \<Rightarrow> tables \<Rightarrow> bool" where
  "cancel_pending \<equiv> restated (\<lambda>_. CancelPending)"

lemma wp_cancel_project:
  assumes "undisturbed w" and "tables_inv (w_tables w)" and "dates_ok X"
    and "\<And>w'. later w w' \<Longrightarrow> cancel_pending {gp_job_id p} (w_tables w) (w_tables w') \<Longrightarrow>
      same_groups (w_tables w) (w_tables w') \<Longrightarrow> Q (Inr ()) w'"
  shows "wp (cancel_project X p) Q w"
  unfolding cancel_project_def
proof (simp only: wp_and_then, rule wp_get_job [OF assms(1, 2)], simp only: sum.case, goal_cases)
  case (1 w1)
  show ?case
  proof (cases "job_row (w_tables w) (gp_job_id p)")
    case None
    with 1 assms(2) show ?thesis by (auto intro!: assms(4) simp: restated_def job_state_of_def option.map_id)
  next
    case (Some r)
    have "wp (update_job X ((job_of_row X r)\<lparr>jb_state := CancelPending\<rparr>)) Q w1"
      by (rule wp_update_job)
        (use 1 assms(2) job_row_id [OF Some] dates_parse_row [OF assms(3)] in \<open>auto simp: restated_def job_state_of_put_job
            option.map_id intro!: assms(4) intro: later_undisturbed later_trans\<close>)
    with Some show ?thesis by simp
  qed
qed

lemma wp_cancel_projects:
  assumes "undisturbed w" and "tables_inv (w_tables w)" and "dates_ok X"
    and "\<And>w'. later w w' \<Longrightarrow> cancel_pending (gp_job_id ` set ps) (w_tables w) (w_tables w') \<Longrightarrow>
      same_groups (w_tables w) (w_tables w') \<Longrightarrow> Q (Inr ()) w'"
  shows "wp (for_each (cancel_project X) ps) Q w"
  using assms(1, 2, 4)
proof (induction ps arbitrary: w)
  case Nil
  then show ?case by simp
next
  case (Cons p ps)
  show ?case
  proof (simp only: for_each.simps wp_and_then, rule wp_cancel_project [OF Cons.prems(1, 2) assms(3)], simp only: sum.case, goal_cases)
    case (1 w1)
    have inv: "tables_inv (w_tables w1)" using 1(2) by (simp add: restated_def)
    show ?case
    proof (rule Cons.IH [OF later_undisturbed [OF 1(1)] inv])
      fix w'
      assume w': "later w1 w'" "cancel_pending (gp_job_id ` set ps) (w_tables w1) (w_tables w')" "same_groups (w_tables w1) (w_tables w')"
      have "cancel_pending (gp_job_id ` set (p # ps)) (w_tables w) (w_tables w')"
        using restated_trans [OF refl 1(2) w'(2)] by simp
      then show "Q (Inr ()) w'" using Cons.prems(3) later_trans [OF 1(1) w'(1)] same_groups_trans [OF 1(3) w'(3)] by blast
    qed
  qed
qed

section \<open>Reading a log\<close>

text \<open>
  How a request for the log of a job finds it: still a file that contains the given lines, or
  archived with these lines.
\<close>

definition serves :: "u64 \<Rightarrow> bool \<Rightarrow> string list \<Rightarrow> world \<times> log_store \<Rightarrow> bool" where
  "serves jid archived ls = (\<lambda>(w, logs). undisturbed w \<and> tables_inv (w_tables w) \<and>
     map_option jr_archived (job_row (w_tables w) jid) = Some archived \<and>
     (if archived then ls_retrieve logs jid = Inr ls else ls_file logs jid = Some (map Some ls)))"

lemma collect_unwrap: "collect unwrap (map Some ls) = ok ls"
proof -
  have "collect unwrap (map Some ls) = ok (map the (map Some ls))" by (rule collect_ok) (auto simp: unwrap_def)
  then show ?thesis by (simp add: comp_def)
qed

lemma wp_job_log_get:
  assumes "serves jid archived ls (w, logs)" and "unat start \<le> length ls" and "length ls < 2 ^ 64"
    and "\<And>w'. Q (Inr (LogReply \<lparr>jl_start = start, jl_stop = word_of_nat (length ls), jl_content = drop (unat start) ls,
      jl_is_complete = archived\<rparr>)) w'"
  shows "wp (job_log_get X logs jid start) Q w"
proof -
  obtain r where r: "job_row (w_tables w) jid = Some r" "jr_archived r = archived"
    using assms(1) by (auto simp: serves_def)
  then have job: "jb_is_archived (job_of_row X r) = archived" "jr_id r = jid"
    using job_row_id [OF r(1)] by (simp_all add: job_of_row_def Let_def)
  have stop: "start + word_of_nat (length (drop (unat start) ls)) = word_of_nat (length ls)"
    using assms(2) by (simp add: of_nat_diff)
  have segment: "(if start > word_of_nat (length ls) - 1 then ok [] else unwrap (slice_from start ls)) = ok (drop (unat start) ls)"
  proof (cases "ls = []")
    case False
    then have "unat (word_of_nat (length ls) - 1 :: u64) = length ls - 1"
      using assms(3) by (simp add: unat_sub_if' unat_of_nat word_le_nat_alt Suc_le_eq)
    with assms(2) False show ?thesis by (auto simp: word_less_nat_alt slice_from_def unwrap_def)
  qed (use assms(2) in \<open>simp add: slice_from_def unwrap_def\<close>)
  show ?thesis
    unfolding job_log_get_def
  proof (simp only: wp_match_result, rule wp_get_job, goal_cases)
    case (3 w1)
    then have w1: "undisturbed w1" using assms(1) by (auto simp: serves_def intro: later_undisturbed)
    show ?case
    proof (cases archived)
      case True
      with assms(1) have "ls_retrieve logs jid = Inr ls" by (simp add: serves_def)
      moreover have "wp (route_reply (LogReply \<lparr>jl_start = start, jl_stop = word_of_nat (length ls),
          jl_content = drop (unat start) ls, jl_is_complete = True\<rparr>)) Q w1"
        by (rule wp_route_reply [OF w1]) (use assms(4) True in simp)
      ultimately show ?thesis using True by (simp add: r job archived_log_def Let_def segment)
    next
      case False
      with assms(1) have "ls_file logs jid = Some (map Some ls)" by (simp add: serves_def)
      moreover have "wp (route_reply (LogReply \<lparr>jl_start = start, jl_stop = word_of_nat (length ls),
          jl_content = drop (unat start) ls, jl_is_complete = False\<rparr>)) Q w1"
        by (rule wp_route_reply [OF w1]) (use assms(4) False in simp)
      ultimately show ?thesis using False by (simp add: r job get_log_content_def drop_map collect_unwrap stop del: length_drop)
    qed
  qed (use assms(1) in \<open>simp_all add: serves_def\<close>)
qed

lemma get_build_log_serves:
  assumes "serves jid archived ls s" and "unat start \<le> length ls" and "length ls < 2 ^ 64"
  shows "get_build_log X jid s start = Some \<lparr>jl_start = start, jl_stop = word_of_nat (length ls),
    jl_content = drop (unat start) ls, jl_is_complete = archived\<rparr>"
proof -
  obtain w logs where s: "s = (w, logs)" by (cases s)
  show ?thesis
    unfolding s get_build_log_def prod.case
    by (rule wpE [OF wp_job_log_get [OF assms(1) [unfolded s] assms(2, 3),
          of "\<lambda>r _. r = Inr (LogReply \<lparr>jl_start = start, jl_stop = word_of_nat (length ls), jl_content = drop (unat start) ls,
            jl_is_complete = archived\<rparr>)" X, OF refl]]) simp
qed

lemma shown_populate:
  "shown (populate_build_log (Some log) sb) = shown sb @ jl_content log"
  "sb_is_complete (populate_build_log (Some log) sb) = Some (jl_is_complete log)"
  "sb_stream (populate_build_log (Some log) sb) = sb_stream sb"
  by (simp_all add: populate_build_log_def shown_def Let_def)

lemma shown_clear: "shown (clear_build_log sb) = shown sb" "sb_stream (clear_build_log sb) = sb_stream sb"
  by (simp_all add: clear_build_log_def shown_def)

lemma fetch_build_log_serves:
  assumes "serves jid archived ls s" and "k \<le> length ls" and "length ls < 2 ^ 64" and "sb_stream sb"
  shows "\<exists>sb' f. fetch_build_log (get_build_log X jid s) (word_of_nat k) sb = (sb', f) \<and> shown sb' = shown sb @ drop k ls \<and>
    sb_stream sb' \<and> sb_is_complete sb' = Some archived \<and>
    (if archived then \<forall>stop. f \<noteq> FetchBuildLog stop else f = FetchBuildLog (word_of_nat (length ls)))"
proof -
  have k: "unat (word_of_nat k :: u64) = k" using assms(2, 3) by (simp add: unat_of_nat)
  show ?thesis
    using get_build_log_serves [OF assms(1) _ assms(3), of "word_of_nat k" X] assms(2, 4)
    by (auto simp: fetch_build_log_def k shown_populate shown_clear Let_def)
qed

lemma watch_build_log_serves:
  assumes "list_all (\<lambda>(ls, s). serves jid False ls s) pieces" and "serves jid True whole s"
    and "sorted_wrt prefix (map fst pieces @ [whole])" and "list_all (\<lambda>ls. k \<le> length ls) (map fst pieces @ [whole])"
    and "length whole < 2 ^ 64" and "sb_stream sb"
  shows "\<exists>sb'. watch_build_log (map (get_build_log X jid) (map snd pieces @ [s])) (word_of_nat k) sb = sb' \<and>
    shown sb' = shown sb @ drop k whole \<and> sb_is_complete sb' = Some True"
  using assms(1, 3, 4, 6)
proof (induction pieces arbitrary: k sb)
  case Nil
  then obtain sb' f where "fetch_build_log (get_build_log X jid s) (word_of_nat k) sb = (sb', f)"
      "shown sb' = shown sb @ drop k whole" "sb_is_complete sb' = Some True" "\<forall>stop. f \<noteq> FetchBuildLog stop"
    using fetch_build_log_serves [OF assms(2) _ assms(5), of k sb X] by auto
  then show ?case by (cases f) simp_all
next
  case (Cons piece pieces)
  obtain ls s1 where p: "piece = (ls, s1)" by (cases piece)
  have pre: "\<forall>l \<in> set (map fst pieces @ [whole]). prefix ls l" and ls: "serves jid False ls s1" "k \<le> length ls"
    using Cons.prems by (simp_all add: p)
  then have len: "length ls < 2 ^ 64" using assms(5) by (auto dest: prefix_length_le)
  obtain sb1 where sb1: "fetch_build_log (get_build_log X jid s1) (word_of_nat k) sb = (sb1, FetchBuildLog (word_of_nat (length ls)))"
      "shown sb1 = shown sb @ drop k ls" "sb_stream sb1"
    using fetch_build_log_serves [OF ls len Cons.prems(4), of X] by auto
  have "list_all (\<lambda>l. length ls \<le> length l) (map fst pieces @ [whole])"
    using pre by (auto simp: list_all_iff dest: prefix_length_le)
  moreover have "drop k ls @ drop (length ls) whole = drop k whole" using pre ls(2) by (auto simp: prefix_def)
  ultimately show ?case
    using Cons.IH [of "length ls" sb1] Cons.prems sb1 by (auto simp: p)
qed

section \<open>Reports and the scheduler\<close>

definition unsynced :: "job_row \<Rightarrow> bool" where
  "unsynced r \<longleftrightarrow> \<not> jr_scheduler_sync r \<or> jr_sync_count r > 0"

lemma sync_rows:
  assumes "list_all job_row_ok rows"
  shows "for_fold (\<lambda>row jobs. match_result (row_to_job X row) (\<lambda>r. ok (case r of Inl _ \<Rightarrow> jobs | Inr job \<Rightarrow> jobs @ [job]))) rows jobs =
    ok (jobs @ map (job_of_row X) rows)"
  using assms by (induction rows arbitrary: jobs) (simp_all add: row_to_job_ok)

lemma wp_sync_jobs:
  assumes "undisturbed w" and "tables_inv (w_tables w)"
    and "\<And>w'. later w w' \<Longrightarrow> w_tables w' = w_tables w \<Longrightarrow>
      Q (Inr (map (job_of_row X) (filter unsynced (tb_jobs (w_tables w))))) w'"
  shows "wp (sync_jobs X) Q w"
  unfolding sync_jobs_def sync_jobs_v2_def
proof (rule wp_read [OF assms(1), of _ "\<lambda>t. filter unsynced (tb_jobs t)"], goal_cases)
  case (2 w')
  have "list_all job_row_ok (filter unsynced (tb_jobs (w_tables w)))"
    using assms(2) by (auto simp: list_all_iff intro: tables_inv_jobs)
  with assms(3) [OF 2] show ?case by (simp add: sync_rows)
qed (simp add: unsynced_def [abs_def])

lemma unsynced_listed:
  assumes "tables_inv t" and "job_row t jid = Some r"
  shows "jid \<in> jb_id ` set (map (job_of_row X) (filter unsynced (tb_jobs t))) \<longleftrightarrow> unsynced r"
proof
  assume "jid \<in> jb_id ` set (map (job_of_row X) (filter unsynced (tb_jobs t)))"
  then obtain r' where "r' \<in> set (tb_jobs t)" "unsynced r'" "jid = jr_id r'" by auto
  with job_row_of_mem [OF assms(1)] assms(2) show "unsynced r" by simp
next
  assume "unsynced r"
  moreover have "r \<in> set (tb_jobs t)" using assms(2) by (auto simp: job_row_def dest: find_mem)
  ultimately show "jid \<in> jb_id ` set (map (job_of_row X) (filter unsynced (tb_jobs t)))"
    using job_row_id [OF assms(2)] by (force simp: image_iff)
qed

section \<open>What the handlers promise\<close>

definition example_store :: world where
  "example_store = example_world\<lparr>w_tables := example_tables\<lparr>
     tb_graph_packages := [example_package ''core/glibc/2.22/1'' [], example_package ''core/tool/1.0/1'' [''core/gcc'', ''core/glibc''],
       example_package ''core/gcc/5.2/1'' [''core/glibc/2.22/1'']]\<rparr>\<rparr>"

definition example_targets :: "list_graph target_graph" where
  "example_targets = tg_put ''x86_64-linux'' example_graph (the (target_graph_new list_graph_lib))"

definition example_spec :: job_group_spec where
  "example_spec = \<lparr>sp_origin = ''core'', sp_package = ''glibc'', sp_deps_only = False, sp_target = ''x86_64-linux'',
     sp_origin_only = False, sp_package_only = False\<rparr>"

lemma graph_stored_check:
  assumes "list_all (\<lambda>(m, ident). package_row t (ident_to_string ident) \<noteq> None \<and>
      (\<forall>d \<in> dep_names t (ident_to_string ident). (d, m) \<in> set_mset (pg_edges E pg))) (pg_latest_map pg)"
  shows "graph_stored t E pg"
  using assms by (fastforce simp: graph_stored_def pg_resolve_def hm_get_def list_all_iff dest: map_of_SomeD)

lemma example_store_ok:
  "undisturbed example_store" "tables_inv (w_tables example_store)" "owned (w_tables example_store)"
  "tg_graph ''x86_64-linux'' example_targets = Some example_graph"
  "graph_stored (w_tables example_store) list_edges example_graph"
proof -
  show "undisturbed example_store" by (simp add: undisturbed_def example_store_def example_world_def)
  show "tables_inv (w_tables example_store)" "owned (w_tables example_store)" by code_simp+
  have "map_option (\<lambda>pg. pg = example_graph) (tg_graph ''x86_64-linux'' example_targets) = Some True"
    unfolding example_targets_def example_graph_eq by code_simp
  then show "tg_graph ''x86_64-linux'' example_targets = Some example_graph" by auto
  show "graph_stored (w_tables example_store) list_edges example_graph"
    unfolding example_graph_eq by (rule graph_stored_check) code_simp
qed








text \<open>C26: A page that watches a build and asks for its log whenever it likes, before and after lines are added, and at
  last when the log is archived, shows the whole log: every line once and in order. The job server
  and the page agree on where a piece of the log starts and stops, however many pieces there are.\<close>

theorem watched_log_is_the_whole_log:
  assumes "list_all (\<lambda>(ls, s). serves jid False ls s) pieces" and "serves jid True whole s"
    and "sorted_wrt prefix (map fst pieces @ [whole])" and "length whole < 2 ^ 64" and "sb_stream sb"
  shows "shown (watch_build_log (map (get_build_log X jid) (map snd pieces @ [s])) 0 sb) = shown sb @ whole \<and>
    sb_is_complete (watch_build_log (map (get_build_log X jid) (map snd pieces @ [s])) 0 sb) = Some True"
  using watch_build_log_serves [OF assms(1-3) _ assms(4, 5), of 0 X] by (simp add: list_all_iff)

definition example_logs :: log_store where
  "example_logs = \<lparr>ls_retrieve = (\<lambda>_. Inr [''a'', ''b'', ''c'']), ls_file = (\<lambda>_. Some [Some ''a''])\<rparr>"

definition example_archived :: world where
  "example_archived = example_world\<lparr>w_tables := example_tables\<lparr>tb_jobs := map (jr_archived_update (\<lambda>_. True)) (tb_jobs example_tables)\<rparr>\<rparr>"

theorem watched_log_is_the_whole_log_witness:
  "shown (watch_build_log (map (get_build_log example_externals 7) [(example_world, example_logs), (example_archived, example_logs)]) 0
     (stream_build_log True \<lparr>sb_start = None, sb_stop = None, sb_content = [[]], sb_is_complete = None, sb_stream = False\<rparr>)) =
   [''a'', ''b'', ''c'']"
proof -
  have live: "serves 7 False [''a''] (example_world, example_logs)"
    unfolding serves_def prod.case by (rule conjI [OF example_world_ok(1)], rule conjI [OF example_world_ok(2)]) code_simp
  have "undisturbed example_archived" by (simp add: undisturbed_def example_archived_def example_world_def)
  then have archived: "serves 7 True [''a'', ''b'', ''c''] (example_archived, example_logs)"
    unfolding serves_def prod.case by (rule conjI) code_simp
  show ?thesis
    using watched_log_is_the_whole_log [of 7 "[([''a''], (example_world, example_logs))]", OF _ archived] live
    by (simp add: stream_build_log_def shown_def)
qed


text \<open>C38: A report that a worker makes while the scheduler handles the same job is seen in the next round exactly if the
  count of updates of the job was positive before the report. Since a new job starts with a count
  of zero that the scheduler reduces each time it has seen the job, this is the case only when
  there were several reports since the scheduler last looked; otherwise the report is lost.\<close>

theorem report_during_sync_is_seen_iff_counted:
  assumes "undisturbed w" and "tables_inv (w_tables w)" and "dates_parse X job" and "job_row (w_tables w) (jb_id job) = Some r"
  shows "\<exists>jobs w'. and_then (update_job X job) (\<lambda>_. and_then (set_job_sync (jb_id job)) (\<lambda>_. sync_jobs X)) w = Some (Inr jobs, w') \<and>
    job_state_of (w_tables w') (jb_id job) = Some (jb_state job) \<and> (jb_id job \<in> jb_id ` set jobs \<longleftrightarrow> jr_sync_count r > 0)"
proof -
  let ?seen = "\<lambda>r. r\<lparr>jr_scheduler_sync := True, jr_sync_count := jr_sync_count r - 1\<rparr>"
  let ?t = "tb_jobs_update (update_where (\<lambda>r. jr_id r = jb_id job) ?seen) (put_job X job (w_tables w))"
  have row: "job_row ?t (jb_id job) = Some (?seen (write_job X job r))"
    unfolding put_job_def by (subst job_row_update, simp)+ (simp add: assms(4))
  have inv: "tables_inv ?t" by (rule tables_inv_jobs_update) (use assms(2) in \<open>simp_all add: job_row_ok_def\<close>)
  have run: "wp (and_then (update_job X job) (\<lambda>_. and_then (set_job_sync (jb_id job)) (\<lambda>_. sync_jobs X)))
      (\<lambda>res w'. w_tables w' = ?t \<and> res = Inr (map (job_of_row X) (filter unsynced (tb_jobs ?t)))) w"
    by (simp only: wp_and_then, rule wp_update_job [OF assms(1, 3)], simp only: sum.case, rule wp_set_job_sync,
        erule later_undisturbed, simp only: sum.case, rule wp_sync_jobs, erule later_undisturbed) (simp_all only: inv)
  have listed: "jb_id job \<in> jb_id ` set (map (job_of_row X) (filter unsynced (tb_jobs ?t))) \<longleftrightarrow> jr_sync_count r > 0"
    unfolding unsynced_listed [OF inv row] by (simp add: unsynced_def write_job_def)
  have state: "job_state_of ?t (jb_id job) = Some (jb_state job)" unfolding job_state_of_def row by simp
  show ?thesis
  proof (rule wpE [OF run])
    fix res w'
    assume go: "and_then (update_job X job) (\<lambda>_. and_then (set_job_sync (jb_id job)) (\<lambda>_. sync_jobs X)) w = Some (res, w')"
      and w': "w_tables w' = ?t \<and> res = Inr (map (job_of_row X) (filter unsynced (tb_jobs ?t)))"
    show ?thesis by (intro exI conjI, rule go [unfolded conjunct2 [OF w']], simp only: w' state, rule listed)
  qed
qed

theorem report_during_sync_is_seen_iff_counted_witness:
  "\<exists>jobs w'. and_then (update_job example_externals (example_job\<lparr>jb_state := Complete\<rparr>)) (\<lambda>_. and_then (set_job_sync 7)
     (\<lambda>_. sync_jobs example_externals)) example_world = Some (Inr jobs, w') \<and>
     job_state_of (w_tables w') 7 = Some Complete \<and> 7 \<notin> jb_id ` set jobs"
proof -
  let ?job = "example_job\<lparr>jb_state := Complete\<rparr>"
  have id: "jb_id ?job = 7" by (simp add: example_job_def)
  have row: "job_row (w_tables example_world) (jb_id ?job) = Some ((new_job_row example_job 7 5)\<lparr>jr_job_state := ''Processing''\<rparr>)"
    by code_simp
  have dates: "dates_parse example_externals ?job" by (simp add: dates_parse_def example_job_def job_of_spec_def)
  from report_during_sync_is_seen_iff_counted [OF example_world_ok(1, 2) dates row]
  show ?thesis unfolding id by (simp add: new_job_row_def Let_def)
qed

end
