(* ===== verification/Updater.thy ===== *)
theory Updater
  imports Census
begin

text \<open>
  How a supervisor updates the services it runs and itself: \<open>components/sup/src/manager/service_updater.rs\<close>,
  \<open>self_updater.rs\<close> and \<open>periodic.rs\<close>, with the parts of \<open>manager/mod.rs\<close> and \<open>manager/service/mod.rs\<close> they
  call. A worker thread polls for a package and sends it over a channel without a buffer; the
  receiver of the channel is the worker that fills it, with the package it was told to fetch, if
  any. What \<open>try_recv\<close> returns is an argument. Installing a package is a call of the depot and
  an argument; an installed package says whether its files can be read. Of a service the
  fields are kept that an update reads or writes; templates, hooks and the process are not.
  \<open>None\<close> is a panic.
\<close>

section \<open>Services\<close>

datatype topology = TopologyStandalone | TopologyLeader

fun topology_as_str :: "topology \<Rightarrow> string" where
  "topology_as_str TopologyLeader = ''leader''"
| "topology_as_str TopologyStandalone = ''standalone''"

datatype sup_error = InvalidTopology string | InvalidUpdateStrategy string

definition topology_from_str :: "string \<Rightarrow> sup_error + topology" where
  "topology_from_str t =
     (if t = ''leader'' then Inr TopologyLeader
      else if t = ''standalone'' then Inr TopologyStandalone
      else Inl (InvalidTopology t))"

datatype update_strategy = StrategyNone | AtOnce | Rolling

fun update_strategy_as_str :: "update_strategy \<Rightarrow> string" where
  "update_strategy_as_str StrategyNone = ''none''"
| "update_strategy_as_str AtOnce = ''at-once''"
| "update_strategy_as_str Rolling = ''rolling''"

definition update_strategy_from_str :: "string \<Rightarrow> sup_error + update_strategy" where
  "update_strategy_from_str strategy =
     (if strategy = ''none'' then Inr StrategyNone
      else if strategy = ''at-once'' then Inr AtOnce
      else if strategy = ''rolling'' then Inr Rolling
      else Inl (InvalidUpdateStrategy strategy))"

record package_install =
  pki_ident :: package_ident
  pki_readable :: bool
  pki_templates_ok :: bool

record service =
  us_service_group :: service_group
  us_bldr_url :: string
  us_channel :: string
  us_spec_ident :: package_ident
  us_topology :: topology
  us_update_strategy :: update_strategy
  us_pkg :: package_ident
  us_member_id :: string
  us_sys :: sys_info
  us_initialized :: bool

text \<open>\<open>Pkg::from_install\<close>: the inner \<open>None\<close> is the error for files that cannot be read.\<close>

definition pkg_from_install :: "package_install \<Rightarrow> package_ident option option" where
  "pkg_from_install package =
     (if \<not> pki_readable package then Some None
      else if fully_qualified (pki_ident package) then Some (Some (pki_ident package))
      else None)"

definition update_package :: "package_install \<Rightarrow> service \<Rightarrow> service option" where
  "update_package package service =
     do { loaded \<leftarrow> pkg_from_install package;
          Some (case loaded of
                  Some pkg \<Rightarrow>
                    if pki_templates_ok package then service\<lparr>us_pkg := pkg, us_initialized := False\<rparr> else service
                | None \<Rightarrow> service) }"

definition to_rumor :: "('cfg \<Rightarrow> bytes option) \<Rightarrow> 'cfg option \<Rightarrow> u64 \<Rightarrow> service \<Rightarrow> proto_rumor option" where
  "to_rumor to_vec exported incarnation service =
     do { rumor \<leftarrow> service_new to_vec (us_member_id service) (us_pkg service) (us_service_group service) (us_sys service) exported;
          Some (update_service (sv_incarnation_update (\<lambda>_. incarnation)) rumor) }"

section \<open>Workers\<close>

record update_worker =
  uw_current :: package_ident
  uw_spec_ident :: package_ident
  uw_builder_url :: string
  uw_channel :: string

record receiver =
  rc_worker :: update_worker
  rc_ident :: "package_ident option"

datatype try_recv = Received package_install | ChannelEmpty | ChannelDisconnected

definition update_worker_new :: "service \<Rightarrow> update_worker" where
  "update_worker_new service =
     \<lparr>uw_current = us_pkg service, uw_spec_ident = us_spec_ident service, uw_builder_url = us_bldr_url service,
      uw_channel = us_channel service\<rparr>"

definition worker_start :: "update_worker \<Rightarrow> package_ident option \<Rightarrow> receiver" where
  "worker_start worker ident = \<lparr>rc_worker = worker, rc_ident = ident\<rparr>"

text \<open>One turn of the loops of a worker, with what installing gave: the package that is sent, which ends the loop.\<close>

definition run_once_turn :: "'e + package_install \<Rightarrow> update_worker \<Rightarrow> update_worker \<times> package_install option" where
  "run_once_turn installed worker =
     (case installed of
        Inr package \<Rightarrow> (worker\<lparr>uw_current := pki_ident package\<rparr>, Some package)
      | Inl _ \<Rightarrow> (worker, None))"

definition run_poll_turn :: "'e + package_install \<Rightarrow> update_worker \<Rightarrow> update_worker \<times> package_install option" where
  "run_poll_turn installed worker =
     (case installed of
        Inr package \<Rightarrow>
          if ident_partial_cmp (uw_current worker) (pki_ident package) = Some Less
          then (worker\<lparr>uw_current := pki_ident package\<rparr>, Some package)
          else (worker, None)
      | Inl _ \<Rightarrow> (worker, None))"

definition worker_turn ::
  "(string \<Rightarrow> package_ident \<Rightarrow> string \<Rightarrow> 'e + package_install) \<Rightarrow> receiver \<Rightarrow> update_worker \<times> package_install option" where
  "worker_turn install rx =
     (let worker = rc_worker rx
      in case rc_ident rx of
           Some latest \<Rightarrow> run_once_turn (install (uw_builder_url worker) latest (uw_channel worker)) worker
         | None \<Rightarrow> run_poll_turn (install (uw_builder_url worker) (uw_spec_ident worker) (uw_channel worker)) worker)"

text \<open>\<open>str::parse\<close> for \<open>i64\<close>, and the time between two turns in milliseconds.\<close>

definition parse_i64 :: "string \<Rightarrow> int option" where
  "parse_i64 s =
     (let negative = (s \<noteq> [] \<and> hd s = CHR ''-'');
          ds = (if s \<noteq> [] \<and> hd s \<in> {CHR ''-'', CHR ''+''} then tl s else s);
          n = (if negative then - digits_value ds else digits_value ds)
      in if ds \<noteq> [] \<and> list_all is_digit ds \<and> - (2 ^ 63) \<le> n \<and> n < 2 ^ 63 then Some n else None)"

definition MIN_ALLOWED_FREQUENCY :: int where
  "MIN_ALLOWED_FREQUENCY = 60000"

definition update_period :: "string option \<Rightarrow> bool \<Rightarrow> int" where
  "update_period frequency bypass_check =
     (case frequency of
        Some val \<Rightarrow>
          (case parse_i64 val of
             Some num \<Rightarrow>
               if (bypass_check \<and> num > 0) \<or> num \<ge> MIN_ALLOWED_FREQUENCY then num else MIN_ALLOWED_FREQUENCY
           | None \<Rightarrow> MIN_ALLOWED_FREQUENCY)
      | None \<Rightarrow> MIN_ALLOWED_FREQUENCY)"

definition next_period_start :: "int \<Rightarrow> int \<Rightarrow> int" where
  "next_period_start now period = now + period"

definition sleep_until :: "int \<Rightarrow> int \<Rightarrow> int" where
  "sleep_until now next_start = (let time_to_wait = next_start - now in if time_to_wait > 0 then time_to_wait else 0)"

section \<open>The updater of services\<close>

datatype leader_state = Polling receiver | LeaderWaiting

datatype follower_state = FollowerWaiting | Updating receiver

datatype rolling_state =
    AwaitingElection
  | InElection
  | RollingLeader leader_state
  | RollingFollower follower_state

datatype updater_state = UpdateAtOnce receiver | UpdateRolling rolling_state

record service_updater =
  su_states :: "(service_group, updater_state) hmap"
  su_butterfly :: server

definition service_updater_new :: "server \<Rightarrow> service_updater" where
  "service_updater_new butterfly = \<lparr>su_states = hm_new, su_butterfly = butterfly\<rparr>"

definition or_insert :: "service_group \<Rightarrow> updater_state \<Rightarrow> service_updater \<Rightarrow> service_updater" where
  "or_insert sg state su =
     (if hm_contains (su_states su) sg then su else su\<lparr>su_states := hm_insert sg state (su_states su)\<rparr>)"

definition updater_add :: "service \<Rightarrow> service_updater \<Rightarrow> bool \<times> service_updater" where
  "updater_add service su =
     (case us_update_strategy service of
        StrategyNone \<Rightarrow> (False, su)
      | AtOnce \<Rightarrow> (True, or_insert (us_service_group service) (UpdateAtOnce (worker_start (update_worker_new service) None)) su)
      | Rolling \<Rightarrow> (True, or_insert (us_service_group service) (UpdateRolling AwaitingElection) su))"

definition check_at_once :: "try_recv \<Rightarrow> receiver \<Rightarrow> service \<Rightarrow> (bool \<times> service \<times> updater_state) option" where
  "check_at_once recv rx service =
     (case recv of
        Received package \<Rightarrow> do { service \<leftarrow> update_package package service; Some (True, service, UpdateAtOnce rx) }
      | ChannelEmpty \<Rightarrow> Some (False, service, UpdateAtOnce rx)
      | ChannelDisconnected \<Rightarrow> Some (False, service, UpdateAtOnce (worker_start (update_worker_new service) None)))"

definition check_awaiting_election :: "'t census_group option \<Rightarrow> service \<Rightarrow> server \<Rightarrow> rolling_state \<times> server" where
  "check_awaiting_election census_group_opt service butterfly =
     (case census_group_opt of
        None \<Rightarrow> (AwaitingElection, butterfly)
      | Some cg \<Rightarrow>
          if us_topology service = TopologyLeader then
            (case (cg_me cg, cg_leader cg) of
               (Some me, Some leader) \<Rightarrow>
                 let suitability = (if cm_member_id me = cm_member_id leader then 0 else - 1)
                 in (InElection, start_update_election (us_service_group service) suitability 0 butterfly)
             | _ \<Rightarrow> (AwaitingElection, butterfly))
          else (InElection, start_update_election (us_service_group service) 0 0 butterfly))"

definition check_in_election :: "'t census_group option \<Rightarrow> rolling_state" where
  "check_in_election census_group_opt =
     (case census_group_opt of
        None \<Rightarrow> InElection
      | Some cg \<Rightarrow>
          (case (cg_me cg, cg_update_leader cg) of
             (Some me, Some leader) \<Rightarrow>
               if cm_member_id me = cm_member_id leader then RollingLeader LeaderWaiting
               else RollingFollower FollowerWaiting
           | _ \<Rightarrow> InElection))"

text \<open>
  Whether a member runs another package than the supervisor itself; \<open>any\<close> stops at the first such
  member, and a missing package on the way is a panic.
\<close>

fun any_differs :: "'t census_member option \<Rightarrow> 't census_member list \<Rightarrow> bool option" where
  "any_differs me [] = Some False"
| "any_differs me (cm # cms) =
     do { theirs \<leftarrow> cm_pkg cm;
          me_member \<leftarrow> me;
          ours \<leftarrow> cm_pkg me_member;
          if theirs \<noteq> ours then Some True else any_differs me cms }"

definition check_leader ::
  "try_recv \<Rightarrow> 't census_group option \<Rightarrow> service \<Rightarrow> leader_state \<Rightarrow> (bool \<times> service \<times> leader_state) option" where
  "check_leader recv census_group_opt service state =
     (case state of
        Polling rx \<Rightarrow>
          (case recv of
             Received package \<Rightarrow> do { service \<leftarrow> update_package package service; Some (True, service, LeaderWaiting) }
           | ChannelEmpty \<Rightarrow> Some (False, service, Polling rx)
           | ChannelDisconnected \<Rightarrow> Some (False, service, Polling (worker_start (update_worker_new service) None)))
      | LeaderWaiting \<Rightarrow>
          do { cg \<leftarrow> census_group_opt;
               differs \<leftarrow> any_differs (cg_me cg) (cg_members cg);
               Some (False, service, if differs then LeaderWaiting else Polling (worker_start (update_worker_new service) None)) })"

definition check_follower ::
  "try_recv \<Rightarrow> 't census_group option \<Rightarrow> service \<Rightarrow> follower_state \<Rightarrow> (bool \<times> service \<times> follower_state) option" where
  "check_follower recv census_group_opt service state =
     do { cg \<leftarrow> census_group_opt;
          case state of
            FollowerWaiting \<Rightarrow>
              Some (False, service,
                case (cg_update_leader cg, previous_peer cg, cg_me cg) of
                  (Some leader, Some peer, Some me) \<Rightarrow>
                    if cm_pkg leader = cm_pkg me then FollowerWaiting
                    else if cm_pkg leader \<noteq> cm_pkg peer then FollowerWaiting
                    else Updating (worker_start (update_worker_new service) (cm_pkg leader))
                | _ \<Rightarrow> FollowerWaiting)
          | Updating rx \<Rightarrow>
              (case recv of
                 Received package \<Rightarrow> do { service \<leftarrow> update_package package service; Some (True, service, FollowerWaiting) }
               | ChannelEmpty \<Rightarrow> Some (False, service, Updating rx)
               | ChannelDisconnected \<Rightarrow>
                   do { leader \<leftarrow> cg_update_leader cg;
                        Some (False, service, Updating (worker_start (update_worker_new service) (cm_pkg leader))) }) }"

definition check_for_updated_package ::
  "try_recv \<Rightarrow> 't census_ring \<Rightarrow> service \<Rightarrow> service_updater \<Rightarrow> (bool \<times> service \<times> service_updater) option" where
  "check_for_updated_package recv census_ring service su =
     (let sg = us_service_group service;
          put = (\<lambda>state. su\<lparr>su_states := hm_insert sg state (su_states su)\<rparr>);
          census_group_opt = census_group_for sg census_ring
      in case hm_get (su_states su) sg of
           Some (UpdateAtOnce rx) \<Rightarrow>
             do { (updated, service, state) \<leftarrow> check_at_once recv rx service; Some (updated, service, put state) }
         | Some (UpdateRolling AwaitingElection) \<Rightarrow>
             (case check_awaiting_election census_group_opt service (su_butterfly su) of
                (st, butterfly) \<Rightarrow> Some (False, service, (put (UpdateRolling st))\<lparr>su_butterfly := butterfly\<rparr>))
         | Some (UpdateRolling InElection) \<Rightarrow>
             Some (False, service, put (UpdateRolling (check_in_election census_group_opt)))
         | Some (UpdateRolling (RollingLeader state)) \<Rightarrow>
             do { (updated, service, state) \<leftarrow> check_leader recv census_group_opt service state;
                  Some (updated, service, put (UpdateRolling (RollingLeader state))) }
         | Some (UpdateRolling (RollingFollower state)) \<Rightarrow>
             do { (updated, service, state) \<leftarrow> check_follower recv census_group_opt service state;
                  Some (updated, service, put (UpdateRolling (RollingFollower state))) }
         | None \<Rightarrow> Some (False, service, su))"

section \<open>The manager\<close>

definition gossip_latest_service_rumor ::
  "steady_time \<Rightarrow> ('cfg \<Rightarrow> bytes option) \<Rightarrow> 'cfg option \<Rightarrow> service \<Rightarrow> server \<Rightarrow> server option" where
  "gossip_latest_service_rumor now to_vec exported service butterfly =
     (let incarnation =
        (case hm_get (rs_list (srv_service_store butterfly)) (us_service_group service) of
           Some rumors \<Rightarrow>
             (case hm_get rumors (us_member_id service) of
                Some rumor \<Rightarrow> sv_incarnation (get_service rumor) + 1
              | None \<Rightarrow> 1)
         | None \<Rightarrow> 1)
      in do { rumor \<leftarrow> to_rumor to_vec exported incarnation service;
              Some (insert_service now rumor butterfly) })"

text \<open>The manager and its updater hold the same gossip server. \<open>recv\<close> says what arrived for each service.\<close>

fun check_for_updated_packages ::
  "steady_time \<Rightarrow> ('cfg \<Rightarrow> bytes option) \<Rightarrow> (service \<Rightarrow> 'cfg option) \<Rightarrow> (service \<Rightarrow> try_recv) \<Rightarrow> 't census_ring \<Rightarrow>
    service list \<Rightarrow> service_updater \<Rightarrow> (service list \<times> service_updater) option" where
  "check_for_updated_packages now to_vec exported recv census_ring [] su = Some ([], su)"
| "check_for_updated_packages now to_vec exported recv census_ring (service # services) su =
     do { (updated, service', su) \<leftarrow> check_for_updated_package (recv service) census_ring service su;
          su \<leftarrow> (if updated then
                   do { butterfly \<leftarrow> gossip_latest_service_rumor now to_vec (exported service') service' (su_butterfly su);
                        Some (su\<lparr>su_butterfly := butterfly\<rparr>) }
                 else Some su);
          (services, su) \<leftarrow> check_for_updated_packages now to_vec exported recv census_ring services su;
          Some (service' # services, su) }"

section \<open>The updater of the supervisor itself\<close>

record self_updater =
  sf_current :: package_ident
  sf_update_url :: string
  sf_update_channel :: string

text \<open>A turn of the loop of its worker, and what the supervisor sees; restarting the worker changes no field.\<close>

definition self_updater_turn :: "'e + package_install \<Rightarrow> package_ident \<Rightarrow> package_install option" where
  "self_updater_turn installed current =
     (case installed of
        Inr package \<Rightarrow> if ident_partial_cmp current (pki_ident package) = Some Less then Some package else None
      | Inl _ \<Rightarrow> None)"

definition self_updater_updated :: "try_recv \<Rightarrow> self_updater \<Rightarrow> package_install option \<times> self_updater" where
  "self_updater_updated recv sf =
     (case recv of
        Received package \<Rightarrow> (Some package, sf)
      | ChannelEmpty \<Rightarrow> (None, sf)
      | ChannelDisconnected \<Rightarrow> (None, sf))"

definition update_frequency :: "string option \<Rightarrow> int" where
  "update_frequency frequency =
     (case frequency of
        Some val \<Rightarrow> (case parse_i64 val of Some num \<Rightarrow> num | None \<Rightarrow> 60000)
      | None \<Rightarrow> 60000)"

end
