(* ===== verification/Updater_Facts.thy ===== *)
theory Updater_Facts
  imports Updater Census_Facts Dat_File_Facts
begin

text \<open>
  Laws of the updates of services: when the members of a group that update one after the
  other agree on the leader of the update, at most one of them is being updated at any
  time, however old the packages are that they see of each other, and the update goes on as long as a member
  is behind. Further, that an updated package is gossiped and how long a worker waits.
\<close>

section \<open>What the census shows\<close>

text \<open>
  The census of member \<open>i\<close> contains the alive members \<open>ids\<close>, runs the packages \<open>view\<close> of them, and
  names no leader of the update but \<open>L\<close>.
\<close>

definition census_shows ::
  "string list \<Rightarrow> string \<Rightarrow> service_group \<Rightarrow> string \<Rightarrow> (string \<Rightarrow> package_ident) \<Rightarrow> 't census_group \<Rightarrow> bool" where
  "census_shows ids L sg i view cg \<longleftrightarrow>
     group_inv sg cg \<and> cg_local_member_id cg = i \<and> map cm_member_id (cg_members cg) = ids \<and>
     list_all (\<lambda>cm. cm_alive cm \<and> cm_pkg cm = Some (view (cm_member_id cm))) (cg_members cg) \<and>
     (cg_update_leader_id cg = None \<or> cg_update_leader_id cg = Some L)"

lemma shown_member:
  assumes "census_shows ids L sg i view cg" and "j \<in> set ids"
  obtains cm where "hm_get (cg_population cg) j = Some cm" "cm_member_id cm = j" "cm_pkg cm = Some (view j)"
proof -
  have inv: "group_inv sg cg" using assms(1) by (simp add: census_shows_def)
  from assms obtain cm where cm: "cm \<in> set (cg_members cg)" "cm_member_id cm = j" by (auto simp: census_shows_def)
  with inv obtain k where k: "hm_get (cg_population cg) k = Some cm" by (auto simp: cg_members_def group_inv_def bt_values_iff)
  moreover have "k = j" using inv k cm(2) by (auto simp: group_inv_def)
  moreover have "cm_pkg cm = Some (view j)" using assms(1) cm by (auto simp: census_shows_def list_all_iff)
  ultimately show ?thesis using that cm(2) by blast
qed

lemma shown_me:
  assumes "census_shows ids L sg i view cg" and "i \<in> set ids"
  obtains me where "cg_me cg = Some me" "cm_member_id me = i" "cm_pkg me = Some (view i)"
proof -
  have "cg_local_member_id cg = i" using assms(1) by (simp add: census_shows_def)
  with shown_member [OF assms] that show ?thesis by (metis cg_me_def)
qed

lemma shown_leader:
  assumes "census_shows ids L sg i view cg" and "L \<in> set ids" and "cg_update_leader cg = Some leader"
  shows "cm_member_id leader = L" and "cm_pkg leader = Some (view L)"
proof -
  have "cg_update_leader_id cg = Some L"
    using assms(1, 3) by (auto simp: census_shows_def cg_update_leader_def)
  with assms(3) have "hm_get (cg_population cg) L = Some leader" by (simp add: cg_update_leader_def)
  with shown_member [OF assms(1, 2)] show "cm_member_id leader = L" "cm_pkg leader = Some (view L)" by (metis option.inject)+
qed

lemma any_differs_shown:
  assumes "me = Some m" and "cm_pkg m = Some p" and "list_all (\<lambda>cm. cm_pkg cm = Some (view (cm_member_id cm))) cms"
  shows "any_differs me cms = Some (\<exists>j \<in> cm_member_id ` set cms. view j \<noteq> p)"
  using assms(3) by (induction cms) (auto simp: assms(1, 2))

lemma shown_differs:
  assumes "census_shows ids L sg i view cg" and "i \<in> set ids"
  shows "any_differs (cg_me cg) (cg_members cg) = Some (\<exists>j \<in> set ids. view j \<noteq> view i)"
proof -
  obtain me where me: "cg_me cg = Some me" "cm_pkg me = Some (view i)" by (rule shown_me [OF assms])
  have members: "list_all (\<lambda>cm. cm_pkg cm = Some (view (cm_member_id cm))) (cg_members cg)"
    using assms(1) by (auto simp: census_shows_def list_all_iff)
  have "cm_member_id ` set (cg_members cg) = set ids" using assms(1) by (auto simp: census_shows_def)
  with any_differs_shown [OF me members] show ?thesis by simp
qed

text \<open>The previous peer in the ring of the members, which starts anywhere.\<close>

lemma rotate_predecessor:
  assumes "m < length ring" and "(n + m) mod length ring = t" and "0 < t"
  shows "rotate n ring ! (if m = 0 then length ring - 1 else m - 1) = ring ! (t - 1)"
proof -
  let ?len = "length ring" and ?m = "if m = 0 then length ring - 1 else m - 1"
  have "n + ?m + 1 = (if m = 0 then n + ?len else n + m)" using assms(1) by auto
  then have "(n + ?m + 1) mod ?len = t" using assms(2) by auto
  then have "((n + ?m) mod ?len + 1) mod ?len = t" by (simp add: mod_simps)
  moreover have "(n + ?m) mod ?len < ?len" using assms(1) by (intro mod_less_divisor) linarith
  ultimately have "(n + ?m) mod ?len = t - 1"
    using assms(3) by (cases "(n + ?m) mod ?len + 1 = ?len") auto
  then show ?thesis using assms(1) by (subst nth_rotate) auto
qed

lemma shown_peer:
  assumes "census_shows ids L sg i view cg" and "ids = rotate n ring" and "t < length ring" and "i = ring ! t" and "0 < t"
  obtains peer where "previous_peer cg = Some peer" "cm_pkg peer = Some (view (ring ! (t - 1)))"
proof -
  let ?ms = "cg_members cg" and ?len = "length ring"
  have inv: "group_inv sg cg" and ids: "map cm_member_id ?ms = ids"
    and alive: "list_all (\<lambda>cm. cm_alive cm \<and> cm_pkg cm = Some (view (cm_member_id cm))) ?ms"
    using assms(1) by (simp_all add: census_shows_def)
  have ms: "filter cm_alive ?ms = ?ms" using alive by (simp add: filter_id_conv list_all_iff)
  have len: "length ?ms = ?len" using arg_cong [OF ids, of length] assms(2) by simp
  have dist: "distinct (map cm_member_id ?ms)" using alive_ids_sorted(2) [OF inv] by (simp add: alive_ids_def ms)
  have member: "i \<in> set ids" using assms(2-4) by simp
  moreover have "length ids = ?len" using assms(2) by simp
  ultimately obtain m where m: "m < ?len" "ids ! m = i" unfolding in_set_conv_nth by auto
  obtain me where me: "cg_me cg = Some me" "cm_member_id me = i" by (rule shown_me [OF assms(1) member])
  have nth: "cm_member_id (?ms ! m') = ids ! m'" if "m' < ?len" for m' using that len ids by (metis nth_map)
  have "position (\<lambda>cm. cm_member_id cm = cm_member_id me) ?ms = Some m"
    using position_nth [OF dist, of m] m nth [OF m(1)] me(2) len by simp
  moreover have "1 < ?len" using assms(3, 5) by simp
  ultimately have peer: "previous_peer cg = Some (?ms ! (if m = 0 then ?len - 1 else m - 1))"
    using me(1) len ms unfolding previous_peer_def cg_members_def by simp
  let ?p = "if m = 0 then ?len - 1 else m - 1"
  have p: "?p < ?len" using m(1) by auto
  have "distinct ring" using dist ids assms(2) by simp
  moreover have "ring ! ((n + m) mod ?len) = ring ! t" using m assms(2, 4) by (simp add: nth_rotate)
  moreover have "(n + m) mod ?len < ?len" using m(1) by (intro mod_less_divisor) linarith
  ultimately have "(n + m) mod ?len = t" using assms(3) by (simp add: nth_eq_iff_index_eq)
  from rotate_predecessor [OF m(1) this assms(5)] have "cm_member_id (?ms ! ?p) = ring ! (t - 1)"
    using nth [OF p] assms(2) by simp
  moreover have "cm_pkg (?ms ! ?p) = Some (view (cm_member_id (?ms ! ?p)))" using alive p len by (simp add: list_all_length)
  ultimately show ?thesis using that [OF peer] by simp
qed

section \<open>One check\<close>

lemma update_package_cases:
  assumes "update_package package s = Some s'"
  shows "us_service_group s' = us_service_group s" and "us_pkg s' = us_pkg s \<or> us_pkg s' = pki_ident package"
  using assms by (auto simp: update_package_def pkg_from_install_def split: if_splits)

lemma shown_in_election:
  assumes "census_shows ids L sg i view cg" and "i \<in> set ids" and "L \<in> set ids"
  shows "check_in_election (Some cg) = InElection \<or>
    check_in_election (Some cg) = (if i = L then RollingLeader LeaderWaiting else RollingFollower FollowerWaiting)"
proof -
  obtain me where "cg_me cg = Some me" "cm_member_id me = i" by (rule shown_me [OF assms(1, 2)])
  with shown_leader(1) [OF assms(1, 3)] show ?thesis
    by (auto simp: check_in_election_def split: option.split)
qed

text \<open>What a check of the leader and of a follower may do.\<close>

lemma check_leader_cases:
  assumes "census_shows ids L sg i view cg" and "i \<in> set ids" and "check_leader recv (Some cg) s ls = Some (b, s', ls')"
  obtains (wait) "ls = LeaderWaiting" "ls' = LeaderWaiting" "s' = s" "\<not> b"
  | (start) rx where "ls = LeaderWaiting" "ls' = Polling rx" "rc_ident rx = None" "s' = s" "\<not> b" "\<forall>j \<in> set ids. view j = view i"
  | (poll) rx rx' where "ls = Polling rx" "ls' = Polling rx'" "rx' = rx \<or> rc_ident rx' = None" "s' = s" "\<not> b"
  | (finish) rx package where "ls = Polling rx" "ls' = LeaderWaiting" "recv = Received package" "update_package package s = Some s'" "b"
  using assms(3) shown_differs [OF assms(1, 2)]
  by (auto simp: check_leader_def worker_start_def split: leader_state.splits try_recv.splits bind_splits if_splits)

lemma check_follower_cases:
  assumes "census_shows ids L sg i view cg" and "i \<in> set ids" and "L \<in> set ids"
    and "ids = rotate n ring" and "t < length ring" and "i = ring ! t" and "0 < t"
    and "check_follower recv (Some cg) s fs = Some (b, s', fs')"
  obtains (wait) "fs = FollowerWaiting" "fs' = FollowerWaiting" "s' = s" "\<not> b"
  | (start) rx where "fs = FollowerWaiting" "fs' = Updating rx" "rc_ident rx = Some (view L)" "s' = s" "\<not> b"
      "view L \<noteq> view i" "view L = view (ring ! (t - 1))"
  | (fetch) rx rx' where "fs = Updating rx" "fs' = Updating rx'" "rx' = rx \<or> rc_ident rx' = Some (view L)" "s' = s" "\<not> b"
  | (finish) rx package where "fs = Updating rx" "fs' = FollowerWaiting" "recv = Received package" "update_package package s = Some s'" "b"
proof -
  obtain me where me: "cg_me cg = Some me" "cm_pkg me = Some (view i)" by (rule shown_me [OF assms(1, 2)])
  obtain peer where peer: "previous_peer cg = Some peer" "cm_pkg peer = Some (view (ring ! (t - 1)))"
    by (rule shown_peer [OF assms(1, 4-7)])
  note leader = shown_leader(2) [OF assms(1, 3)]
  show ?thesis
  proof (cases fs)
    case FollowerWaiting
    show ?thesis
    proof (cases "cg_update_leader cg")
      case None
      with assms(8) FollowerWaiting wait show ?thesis by (simp add: check_follower_def)
    next
      case (Some leader)
      with assms(8) FollowerWaiting me peer leader [OF Some] wait start show ?thesis
        by (auto simp: check_follower_def worker_start_def split: if_splits)
    qed
  next
    case (Updating rx)
    with assms(8) leader fetch finish show ?thesis
      by (auto simp: check_follower_def worker_start_def split: try_recv.splits bind_splits)
  qed
qed

section \<open>A group that updates one member after the other\<close>

text \<open>
  The members of a group, each with its service, updater and census. \<open>rg_history\<close> are the packages
  a member has run, and \<open>rg_seen g i j\<close> says up to which of those of \<open>j\<close> the rumors have reached \<open>i\<close>: a census may be
  arbitrarily far behind, but it never goes back.
\<close>

record 't rolling_group =
  rg_service :: "string \<Rightarrow> service"
  rg_updater :: "string \<Rightarrow> service_updater"
  rg_census :: "string \<Rightarrow> 't census_ring"
  rg_history :: "string \<Rightarrow> package_ident list"
  rg_seen :: "string \<Rightarrow> string \<Rightarrow> nat"

definition rg_view :: "'t rolling_group \<Rightarrow> string \<Rightarrow> string \<Rightarrow> package_ident" where
  "rg_view g i j = rg_history g j ! rg_seen g i j"

definition rg_state :: "service_group \<Rightarrow> 't rolling_group \<Rightarrow> string \<Rightarrow> updater_state option" where
  "rg_state sg g i = hm_get (su_states (rg_updater g i)) sg"

text \<open>
  What the worker behind a receiver may send. Installing a given release installs it, and a newer
  package of the depot is none that the member ran before.
\<close>

fun rx_of :: "updater_state option \<Rightarrow> receiver option" where
  "rx_of (Some (UpdateRolling (RollingLeader (Polling rx)))) = Some rx"
| "rx_of (Some (UpdateRolling (RollingFollower (Updating rx)))) = Some rx"
| "rx_of (Some (UpdateAtOnce rx)) = Some rx"
| "rx_of _ = None"

definition delivers :: "package_ident list \<Rightarrow> receiver \<Rightarrow> package_install \<Rightarrow> bool" where
  "delivers used rx package \<longleftrightarrow>
     snd (worker_turn (\<lambda>_ _ _. Inr package :: unit + package_install) rx) = Some package \<and>
     (case rc_ident rx of Some ident \<Rightarrow> pki_ident package = ident | None \<Rightarrow> pki_ident package \<notin> set used)"

definition census_of_view :: "string list \<Rightarrow> string \<Rightarrow> service_group \<Rightarrow> string \<Rightarrow> (string \<Rightarrow> package_ident) \<Rightarrow> 't census_ring \<Rightarrow> bool" where
  "census_of_view ids L sg i view cr \<longleftrightarrow> (\<exists>cg. census_group_for sg cr = Some cg \<and> census_shows ids L sg i view cg)"

definition checked :: "string \<Rightarrow> service \<Rightarrow> service_updater \<Rightarrow> 't rolling_group \<Rightarrow> 't rolling_group" where
  "checked i s u g =
     g\<lparr>rg_service := (rg_service g)(i := s), rg_updater := (rg_updater g)(i := u),
       rg_history := (if us_pkg s = us_pkg (rg_service g i) then rg_history g
         else (rg_history g)(i := rg_history g i @ [us_pkg s]))\<rparr>"

text \<open>
  A member checks for updates after it has rebuilt its census, which then shows its own package.
  Its gossip server changes at any time.
\<close>

inductive rolling_step :: "string list \<Rightarrow> string \<Rightarrow> service_group \<Rightarrow> 't rolling_group \<Rightarrow> 't rolling_group \<Rightarrow> bool"
  for ids :: "string list" and L :: string and sg :: service_group where
  check: "i \<in> set ids \<Longrightarrow> Suc (rg_seen g i i) = length (rg_history g i) \<Longrightarrow>
    (\<And>package rx. recv = Received package \<Longrightarrow> rx_of (rg_state sg g i) = Some rx \<Longrightarrow> delivers (rg_history g i) rx package) \<Longrightarrow>
    check_for_updated_package recv (rg_census g i) (rg_service g i) (rg_updater g i) = Some (updated, s, u) \<Longrightarrow>
    rolling_step ids L sg g (checked i s u g)"
| refresh: "i \<in> set ids \<Longrightarrow> \<forall>j \<in> set ids. rg_seen g i j \<le> seen j \<and> seen j < length (rg_history g j) \<Longrightarrow>
    census_of_view ids L sg i (\<lambda>j. rg_history g j ! seen j) cr \<Longrightarrow>
    rolling_step ids L sg g (g\<lparr>rg_census := (rg_census g)(i := cr), rg_seen := (rg_seen g)(i := seen)\<rparr>)"
| gossip: "rolling_step ids L sg g
    (g\<lparr>rg_updater := (rg_updater g)(i := (rg_updater g i)\<lparr>su_butterfly := butterfly\<rparr>)\<rparr>)"

text \<open>At first all members run the same package and no update leader is known.\<close>

definition rolling_start :: "string list \<Rightarrow> string \<Rightarrow> service_group \<Rightarrow> 't rolling_group \<Rightarrow> bool" where
  "rolling_start ids L sg g \<longleftrightarrow> (\<exists>package. \<forall>i \<in> set ids.
     us_service_group (rg_service g i) = sg \<and> us_pkg (rg_service g i) = package \<and> rg_history g i = [package] \<and>
     rg_state sg g i = Some (UpdateRolling AwaitingElection) \<and> (\<forall>j \<in> set ids. rg_seen g i j = 0) \<and>
     census_of_view ids L sg i (\<lambda>_. package) (rg_census g i))"

text \<open>
  The invariant. The members in ring order from the leader on are \<open>ring\<close>. The first \<open>k\<close> of them run
  \<open>p\<close>, the others the last package of \<open>h\<close>; only the next one may be fetching.
\<close>

definition state_ok :: "string list \<Rightarrow> nat \<Rightarrow> package_ident list \<Rightarrow> package_ident \<Rightarrow> string \<Rightarrow> nat \<Rightarrow> updater_state option \<Rightarrow> bool" where
  "state_ok ring k h p i seen_leader state =
     (case state of
        Some (UpdateRolling AwaitingElection) \<Rightarrow> True
      | Some (UpdateRolling InElection) \<Rightarrow> True
      | Some (UpdateRolling (RollingLeader LeaderWaiting)) \<Rightarrow> i = hd ring
      | Some (UpdateRolling (RollingLeader (Polling rx))) \<Rightarrow> i = hd ring \<and> k = length ring \<and> rc_ident rx = None
      | Some (UpdateRolling (RollingFollower FollowerWaiting)) \<Rightarrow> i \<noteq> hd ring
      | Some (UpdateRolling (RollingFollower (Updating rx))) \<Rightarrow>
          i \<noteq> hd ring \<and> k < length ring \<and> i = ring ! k \<and> rc_ident rx = Some p \<and> seen_leader = length h
      | _ \<Rightarrow> False)"

definition member_ok ::
  "string list \<Rightarrow> string list \<Rightarrow> service_group \<Rightarrow> nat \<Rightarrow> package_ident list \<Rightarrow> package_ident \<Rightarrow> 't rolling_group \<Rightarrow> string \<Rightarrow> bool" where
  "member_ok ids ring sg k h p g i \<longleftrightarrow>
     us_service_group (rg_service g i) = sg \<and> us_pkg (rg_service g i) = last (rg_history g i) \<and>
     census_of_view ids (hd ring) sg i (rg_view g i) (rg_census g i) \<and>
     (\<forall>j \<in> set ring. rg_seen g i j < length (rg_history g j)) \<and>
     (i \<noteq> hd ring \<longrightarrow> length (rg_history g i) \<le> Suc (rg_seen g i (hd ring))) \<and>
     state_ok ring k h p i (rg_seen g i (hd ring)) (rg_state sg g i)"

definition histories :: "string list \<Rightarrow> nat \<Rightarrow> package_ident list \<Rightarrow> package_ident \<Rightarrow> (string \<Rightarrow> package_ident list) \<Rightarrow> bool" where
  "histories ring k h p hist \<longleftrightarrow> 0 < k \<and> k \<le> length ring \<and> distinct (h @ [p]) \<and> (k < length ring \<longrightarrow> h \<noteq> []) \<and>
     (\<forall>t < length ring. hist (ring ! t) = (if t < k then h @ [p] else h))"

definition rolling_inv :: "string list \<Rightarrow> string list \<Rightarrow> service_group \<Rightarrow> 't rolling_group \<Rightarrow> bool" where
  "rolling_inv ids ring sg g \<longleftrightarrow>
     (\<exists>k h p. histories ring k h p (rg_history g) \<and> (\<forall>i \<in> set ring. member_ok ids ring sg k h p g i))"

lemma rolling_inv_start:
  assumes "rolling_start ids (hd ring) sg g" and "ids = rotate n ring" and "ring \<noteq> []"
  shows "rolling_inv ids ring sg g"
proof -
  from assms(1) obtain package where g: "\<forall>i \<in> set ids. us_service_group (rg_service g i) = sg \<and>
     us_pkg (rg_service g i) = package \<and> rg_history g i = [package] \<and> rg_state sg g i = Some (UpdateRolling AwaitingElection) \<and>
     (\<forall>j \<in> set ids. rg_seen g i j = 0) \<and> census_of_view ids (hd ring) sg i (\<lambda>_. package) (rg_census g i)"
    unfolding rolling_start_def by blast
  have set_ids: "set ids = set ring" "hd ring \<in> set ring" using assms(2, 3) by simp_all
  have "histories ring (length ring) [] package (rg_history g)"
    using g assms(3) set_ids by (auto simp: histories_def)
  moreover have "member_ok ids ring sg (length ring) [] package g i" if "i \<in> set ring" for i
  proof -
    have "census_of_view ids (hd ring) sg i (rg_view g i) (rg_census g i)"
    proof -
      have "rg_view g i j = package" if "j \<in> set ids" for j
        using g \<open>i \<in> set ring\<close> that set_ids by (simp add: rg_view_def)
      moreover have "census_of_view ids (hd ring) sg i (\<lambda>_. package) (rg_census g i)" using g that set_ids by simp
      ultimately show ?thesis
        by (fastforce simp: census_of_view_def census_shows_def list_all_iff)
    qed
    with g that set_ids show ?thesis by (simp add: member_ok_def state_ok_def)
  qed
  ultimately show ?thesis unfolding rolling_inv_def by blast
qed

text \<open>A check touches one member only.\<close>

lemma checked_simps [simp]:
  "rg_census (checked i s u g) = rg_census g" "rg_seen (checked i s u g) = rg_seen g"
  "rg_service (checked i s u g) = (rg_service g)(i := s)"
  "rg_state sg (checked i s u g) j = (if j = i then hm_get (su_states u) sg else rg_state sg g j)"
  by (simp_all add: checked_def rg_state_def)

lemma history_checked:
  "rg_history (checked i s u g) j =
    (if j = i \<and> us_pkg s \<noteq> us_pkg (rg_service g i) then rg_history g i @ [us_pkg s] else rg_history g j)"
  by (simp add: checked_def)

lemma census_of_view_cong:
  "(\<And>j. j \<in> set ids \<Longrightarrow> view j = view' j) \<Longrightarrow> census_of_view ids L sg i view cr \<Longrightarrow> census_of_view ids L sg i view' cr"
  by (fastforce simp: census_of_view_def census_shows_def list_all_iff)

lemma member_ok_checked:
  assumes "member_ok ids ring sg k h p g j" and "set ids = set ring"
    and "j = i \<Longrightarrow> us_service_group s = sg"
    and "j = i \<Longrightarrow> i \<noteq> hd ring \<Longrightarrow> length (rg_history (checked i s u g) i) \<le> Suc (rg_seen g i (hd ring))"
    and "state_ok ring k' h' p' j (rg_seen g j (hd ring)) (rg_state sg (checked i s u g) j)"
  shows "member_ok ids ring sg k' h' p' (checked i s u g) j"
proof -
  let ?g = "checked i s u g"
  have seen: "rg_seen g j m < length (rg_history g m)" if "m \<in> set ids" for m
    using assms(1, 2) that by (simp add: member_ok_def)
  have "rg_view g j m = rg_view ?g j m" if "m \<in> set ids" for m
    using seen [OF that] by (auto simp: rg_view_def history_checked nth_append)
  moreover have "census_of_view ids (hd ring) sg j (rg_view g j) (rg_census g j)"
    using assms(1) by (simp add: member_ok_def)
  ultimately have "census_of_view ids (hd ring) sg j (rg_view ?g j) (rg_census ?g j)"
    by (auto intro: census_of_view_cong)
  moreover have "rg_seen ?g j m < length (rg_history ?g m)" if "m \<in> set ring" for m
    using seen [of m] that assms(2) by (auto simp: history_checked)
  moreover have "us_pkg (rg_service ?g j) = last (rg_history ?g j)" "us_service_group (rg_service ?g j) = sg"
    using assms(1, 3) by (auto simp: history_checked member_ok_def)
  moreover have "length (rg_history ?g j) \<le> Suc (rg_seen ?g j (hd ring))" if "j \<noteq> hd ring"
    using assms(1, 4) that by (cases "j = i") (auto simp: history_checked member_ok_def)
  ultimately show ?thesis using assms(5) by (simp add: member_ok_def)
qed

text \<open>What a check does to the state of a member with the strategy of rolling updates.\<close>

lemma check_rolling_cases:
  assumes "check_for_updated_package recv cr s0 u0 = Some (b, s, u)" and "us_service_group s0 = sg"
    and "hm_get (su_states u0) sg = Some (UpdateRolling rs)" and "census_group_for sg cr = Some cg"
  obtains (await) "rs = AwaitingElection" "s = s0"
      "hm_get (su_states u) sg = Some (UpdateRolling AwaitingElection) \<or> hm_get (su_states u) sg = Some (UpdateRolling InElection)"
  | (elect) "rs = InElection" "s = s0" "hm_get (su_states u) sg = Some (UpdateRolling (check_in_election (Some cg)))"
  | (leader) ls ls' where "rs = RollingLeader ls" "check_leader recv (Some cg) s0 ls = Some (b, s, ls')"
      "hm_get (su_states u) sg = Some (UpdateRolling (RollingLeader ls'))"
  | (follower) fs fs' where "rs = RollingFollower fs" "check_follower recv (Some cg) s0 fs = Some (b, s, fs')"
      "hm_get (su_states u) sg = Some (UpdateRolling (RollingFollower fs'))"
proof (cases rs)
  case AwaitingElection
  have "fst (check_awaiting_election (Some cg) s0 (su_butterfly u0)) \<in> {AwaitingElection, InElection}"
    by (auto simp: check_awaiting_election_def Let_def split: option.split)
  with AwaitingElection assms await show ?thesis
    by (auto simp: check_for_updated_package_def split: prod.splits)
next
  case InElection
  with assms elect show ?thesis by (auto simp: check_for_updated_package_def Let_def)
next
  case (RollingLeader ls)
  with assms leader show ?thesis by (auto simp: check_for_updated_package_def Let_def split: bind_splits)
next
  case (RollingFollower fs)
  with assms follower show ?thesis by (auto simp: check_for_updated_package_def Let_def split: bind_splits)
qed

text \<open>The three ways in which a check may change the group.\<close>

lemma state_ok_moved:
  assumes "state_ok ring k h p j x st" and "j \<noteq> i" and "k = length ring \<and> i = hd ring \<or> k < length ring \<and> i = ring ! k"
  shows "state_ok ring k' h' p' j x st"
  using assms by (cases st rule: rx_of.cases) (auto simp: state_ok_def split: rolling_state.splits updater_state.splits
      leader_state.splits follower_state.splits option.splits)

lemma inv_member_waits:
  assumes "histories ring k h p (rg_history g)" and "\<forall>j \<in> set ring. member_ok ids ring sg k h p g j" and "set ids = set ring"
    and "us_service_group s = sg" and "us_pkg s = us_pkg (rg_service g i)"
    and "state_ok ring k h p i (rg_seen g i (hd ring)) (hm_get (su_states u) sg)"
  shows "rolling_inv ids ring sg (checked i s u g)"
proof -
  have "rg_history (checked i s u g) = rg_history g" by (rule ext) (simp add: history_checked assms(5))
  moreover have "member_ok ids ring sg k h p (checked i s u g) j" if "j \<in> set ring" for j
    by (rule member_ok_checked [of _ _ _ k h p])
      (use assms that in \<open>auto simp: history_checked member_ok_def\<close>)
  ultimately show ?thesis using assms(1) unfolding rolling_inv_def by metis
qed

lemma inv_leader_moves:
  assumes "histories ring (length ring) h p (rg_history g)" and "\<forall>j \<in> set ring. member_ok ids ring sg (length ring) h p g j"
    and "set ids = set ring" and "distinct ring" and "i = hd ring"
    and "us_service_group s = sg" and "us_pkg s \<notin> set (rg_history g i)"
    and "hm_get (su_states u) sg = Some (UpdateRolling (RollingLeader LeaderWaiting))"
  shows "rolling_inv ids ring sg (checked i s u g)"
proof -
  let ?g = "checked i s u g"
  have i: "ring ! 0 = i" "i \<in> set ring" "0 < length ring" using assms(1, 5) by (auto simp: histories_def hd_conv_nth)
  have hist: "rg_history g (ring ! t) = h @ [p]" if "t < length ring" for t using assms(1) that by (simp add: histories_def)
  have "us_pkg (rg_service g i) \<in> set (rg_history g i)"
    using assms(2) i hist [of 0] by (simp add: member_ok_def)
  with assms(7) have moved: "us_pkg s \<noteq> us_pkg (rg_service g i)" by auto
  have "histories ring 1 (h @ [p]) (us_pkg s) (rg_history ?g)"
    unfolding histories_def
  proof (intro conjI allI impI)
    fix t
    assume t: "t < length ring"
    then have "ring ! t = i \<longleftrightarrow> t = 0" using i assms(4) nth_eq_iff_index_eq by blast
    then show "rg_history ?g (ring ! t) = (if t < 1 then (h @ [p]) @ [us_pkg s] else h @ [p])"
      using hist [OF t] moved by (auto simp: history_checked)
  qed (use i hist [of 0] assms(1, 7) in \<open>auto simp: histories_def Suc_le_eq\<close>)
  moreover have "member_ok ids ring sg 1 (h @ [p]) (us_pkg s) ?g j" if "j \<in> set ring" for j
  proof (rule member_ok_checked [of _ _ _ "length ring" h p])
    have "state_ok ring (length ring) h p j (rg_seen g j (hd ring)) (rg_state sg g j)"
      using assms(2) that by (simp add: member_ok_def)
    then show "state_ok ring 1 (h @ [p]) (us_pkg s) j (rg_seen g j (hd ring)) (rg_state sg ?g j)"
      using assms(5, 8) state_ok_moved [of ring "length ring" h p j _ _ i] by (auto simp: state_ok_def)
  qed (use assms that in auto)
  ultimately show ?thesis unfolding rolling_inv_def by blast
qed

lemma inv_follower_moves:
  assumes "histories ring k h p (rg_history g)" and "\<forall>j \<in> set ring. member_ok ids ring sg k h p g j"
    and "set ids = set ring" and "distinct ring" and "k < length ring" and "i = ring ! k" and "i \<noteq> hd ring"
    and "us_service_group s = sg" and "us_pkg s = p" and "rg_seen g i (hd ring) = length h"
    and "hm_get (su_states u) sg = Some (UpdateRolling (RollingFollower FollowerWaiting))"
  shows "rolling_inv ids ring sg (checked i s u g)"
proof -
  let ?g = "checked i s u g"
  have hist: "rg_history g (ring ! t) = (if t < k then h @ [p] else h)" if "t < length ring" for t
    using assms(1) that by (simp add: histories_def)
  have hp: "h \<noteq> []" "p \<notin> set h" using assms(1, 5) by (auto simp: histories_def)
  have i: "i \<in> set ring" "rg_history g i = h" using assms(5, 6) hist [of k] by auto
  then have "us_pkg (rg_service g i) \<in> set h" using assms(2) hp by (simp add: member_ok_def)
  with hp(2) assms(9) have moved: "us_pkg s \<noteq> us_pkg (rg_service g i)" by auto
  have "histories ring (Suc k) h p (rg_history ?g)"
    unfolding histories_def
  proof (intro conjI allI impI)
    fix t
    assume t: "t < length ring"
    then have "ring ! t = i \<longleftrightarrow> t = k" using assms(4-6) nth_eq_iff_index_eq by blast
    then show "rg_history ?g (ring ! t) = (if t < Suc k then h @ [p] else h)"
      using hist [OF t] moved i(2) assms(9) by (auto simp: history_checked)
  qed (use hp assms(1, 5) in \<open>auto simp: histories_def\<close>)
  moreover have "member_ok ids ring sg (Suc k) h p ?g j" if "j \<in> set ring" for j
  proof (rule member_ok_checked [of _ _ _ k h p])
    have "state_ok ring k h p j (rg_seen g j (hd ring)) (rg_state sg g j)"
      using assms(2) that by (simp add: member_ok_def)
    then show "state_ok ring (Suc k) h p j (rg_seen g j (hd ring)) (rg_state sg ?g j)"
      using assms(5-7, 11) state_ok_moved [of ring k h p j _ _ i] by (auto simp: state_ok_def)
  qed (use assms that i moved in \<open>auto simp: history_checked\<close>)
  ultimately show ?thesis unfolding rolling_inv_def by blast
qed

text \<open>What a member sees of another one tells where the update stands.\<close>

lemma leader_history:
  assumes "histories ring k h p hist"
  shows "hist (hd ring) = h @ [p]"
proof -
  have "ring \<noteq> []" "0 < k" using assms by (auto simp: histories_def)
  with assms show ?thesis by (simp add: histories_def hd_conv_nth)
qed

lemma seen_new_package:
  assumes "histories ring k h p hist" and "t < length ring" and "n < length (hist (ring ! t))" and "hist (ring ! t) ! n = p"
  shows "t < k" and "n = length h"
proof -
  have hist: "hist (ring ! t) = (if t < k then h @ [p] else h)" and dist: "p \<notin> set h"
    using assms(1, 2) by (auto simp: histories_def)
  show "t < k" using assms(3, 4) hist dist by (auto split: if_splits)
  with assms(3, 4) hist dist show "n = length h" by (auto simp: nth_append split: if_splits)
qed

lemma follower_starts_in_turn:
  assumes "histories ring k h p (rg_history g)" and "member_ok ids ring sg k h p g i" and "t < length ring" and "i = ring ! t" and "0 < t"
    and "Suc (rg_seen g i i) = length (rg_history g i)" and "distinct ring"
    and "rg_view g i (hd ring) \<noteq> rg_view g i i" and "rg_view g i (hd ring) = rg_view g i (ring ! (t - 1))"
  shows "t = k" and "rg_view g i (hd ring) = p" and "rg_seen g i (hd ring) = length h"
proof -
  have hist: "rg_history g (ring ! t') = (if t' < k then h @ [p] else h)" if "t' < length ring" for t'
    using assms(1) that by (simp add: histories_def)
  have ne: "ring \<noteq> []" using assms(3) by auto
  then have L: "hd ring = ring ! 0" "0 < k" "hd ring \<in> set ring" using assms(1) by (simp_all add: histories_def hd_conv_nth)
  note leader = leader_history [OF assms(1)]
  have "i \<noteq> hd ring" using L(1) ne assms(3-5, 7) nth_eq_iff_index_eq [of ring t 0] by auto
  then have seen: "rg_seen g i (hd ring) < Suc (length h)" "length (rg_history g i) \<le> Suc (rg_seen g i (hd ring))"
    using assms(2) L(3) leader by (auto simp: member_ok_def)
  have own: "rg_view g i i = last (rg_history g i)" "rg_history g i \<noteq> []"
  proof -
    have "rg_seen g i i = length (rg_history g i) - 1" "rg_history g i \<noteq> []" using assms(6) by auto
    then show "rg_view g i i = last (rg_history g i)" "rg_history g i \<noteq> []" by (simp_all add: rg_view_def last_conv_nth)
  qed
  show n: "rg_seen g i (hd ring) = length h"
  proof (rule ccontr)
    assume "rg_seen g i (hd ring) \<noteq> length h"
    with seen have less: "rg_seen g i (hd ring) < length h" by simp
    with seen(2) hist [OF assms(3)] assms(4) have "rg_history g i = h" "rg_seen g i (hd ring) = length h - 1"
      by (auto split: if_splits)
    with own less leader have "rg_view g i (hd ring) = rg_view g i i"
      by (simp add: rg_view_def nth_append last_conv_nth)
    with assms(8) show False by simp
  qed
  with leader show p: "rg_view g i (hd ring) = p" by (simp add: rg_view_def)
  have "t - 1 < length ring" "ring ! (t - 1) \<in> set ring" using assms(3) by auto
  then have "t - 1 < k"
    using seen_new_package(1) [OF assms(1), of "t - 1" "rg_seen g i (ring ! (t - 1))"] assms(2, 9) p
    by (auto simp: rg_view_def member_ok_def)
  moreover have "\<not> t < k"
  proof
    assume "t < k"
    with hist [OF assms(3)] assms(4) own(1) have "rg_view g i i = p" by simp
    with p assms(8) show False by simp
  qed
  ultimately show "t = k" using assms(5) by simp
qed

text \<open>The situation of a member that checks, and the two kinds of members.\<close>

definition at_check :: "string list \<Rightarrow> string list \<Rightarrow> service_group \<Rightarrow> nat \<Rightarrow> package_ident list \<Rightarrow> package_ident \<Rightarrow>
  't rolling_group \<Rightarrow> string \<Rightarrow> rolling_state \<Rightarrow> 't census_group \<Rightarrow> try_recv \<Rightarrow> bool" where
  "at_check ids ring sg k h p g i rs cg recv \<longleftrightarrow>
     histories ring k h p (rg_history g) \<and> (\<forall>j \<in> set ring. member_ok ids ring sg k h p g j) \<and>
     (\<exists>n. ids = rotate n ring) \<and> distinct ring \<and> i \<in> set ring \<and> Suc (rg_seen g i i) = length (rg_history g i) \<and>
     rg_state sg g i = Some (UpdateRolling rs) \<and> census_shows ids (hd ring) sg i (rg_view g i) cg \<and>
     (\<forall>package rx. recv = Received package \<longrightarrow> rx_of (rg_state sg g i) = Some rx \<longrightarrow> delivers (rg_history g i) rx package)"

lemma at_check_facts:
  assumes "at_check ids ring sg k h p g i rs cg recv"
  shows "set ids = set ring" and "i \<in> set ids" and "hd ring \<in> set ids" and "us_service_group (rg_service g i) = sg"
    and "state_ok ring k h p i (rg_seen g i (hd ring)) (Some (UpdateRolling rs))"
proof -
  show ids: "set ids = set ring" "i \<in> set ids" using assms by (auto simp: at_check_def)
  then show "hd ring \<in> set ids" by (metis empty_iff empty_set hd_in_set)
  from assms have "member_ok ids ring sg k h p g i" "rg_state sg g i = Some (UpdateRolling rs)" by (auto simp: at_check_def)
  then show "us_service_group (rg_service g i) = sg" "state_ok ring k h p i (rg_seen g i (hd ring)) (Some (UpdateRolling rs))"
    by (simp_all add: member_ok_def)
qed

lemma inv_checked_same:
  assumes "at_check ids ring sg k h p g i rs cg recv"
    and "us_service_group s = sg" and "us_pkg s = us_pkg (rg_service g i)"
    and "hm_get (su_states u) sg = Some (UpdateRolling rs')"
    and "state_ok ring k h p i (rg_seen g i (hd ring)) (Some (UpdateRolling rs'))"
  shows "rolling_inv ids ring sg (checked i s u g)"
  by (rule inv_member_waits [of _ k h p]) (use assms at_check_facts(1) [OF assms(1)] in \<open>auto simp: at_check_def\<close>)

lemma inv_leader_checks:
  assumes "at_check ids ring sg k h p g i (RollingLeader ls) cg recv"
    and "check_leader recv (Some cg) (rg_service g i) ls = Some (b, s, ls')"
    and "hm_get (su_states u) sg = Some (UpdateRolling (RollingLeader ls'))"
  shows "rolling_inv ids ring sg (checked i s u g)"
proof -
  note facts = at_check_facts [OF assms(1)]
  have i: "i = hd ring" using facts(5) by (auto simp: state_ok_def split: leader_state.splits)
  note same = inv_checked_same [OF assms(1) _ _ assms(3)]
  have seen: "census_shows ids (hd ring) sg i (rg_view g i) cg" using assms(1) by (simp add: at_check_def)
  show ?thesis
  proof (rule check_leader_cases [OF seen facts(2) assms(2)], goal_cases)
    case 1
    then show ?case by (intro same) (use facts(4) in \<open>simp_all add: i state_ok_def\<close>)
  next
    case (2 rx)
    have hist: "histories ring k h p (rg_history g)" and me: "member_ok ids ring sg k h p g i"
      and own: "Suc (rg_seen g i i) = length (rg_history g i)" using assms(1) by (auto simp: at_check_def)
    have "rg_history g i = h @ [p]" using leader_history [OF hist] i by simp
    with own have view: "rg_view g i i = p" by (simp add: rg_view_def)
    have "t < k" if "t < length ring" for t
    proof (rule seen_new_package(1) [OF hist that])
      have "ring ! t \<in> set ring" using that by simp
      with me show "rg_seen g i (ring ! t) < length (rg_history g (ring ! t))" by (simp add: member_ok_def)
      show "rg_history g (ring ! t) ! rg_seen g i (ring ! t) = p"
        using 2(6) \<open>ring ! t \<in> set ring\<close> facts(1) view by (simp add: rg_view_def)
    qed
    then have "\<not> k < length ring" by blast
    moreover have "k \<le> length ring" using hist by (simp add: histories_def)
    ultimately have "k = length ring" by simp
    with 2 show ?case by (intro same) (use facts(4) in \<open>simp_all add: i state_ok_def\<close>)
  next
    case (3 rx rx')
    then show ?case by (intro same) (use facts in \<open>auto simp: state_ok_def\<close>)
  next
    case (4 rx package)
    then have k: "k = length ring" "rc_ident rx = None" using facts(5) by (simp_all add: state_ok_def)
    show ?case
    proof (cases "us_pkg s = us_pkg (rg_service g i)")
      case True
      then show ?thesis
        by (intro same) (use 4 update_package_cases(1) [OF 4(4)] facts(4) in \<open>simp_all add: i state_ok_def\<close>)
    next
      case False
      with update_package_cases [OF 4(4)] have s: "us_pkg s = pki_ident package" "us_service_group s = sg" using facts(4) by auto
      have "delivers (rg_history g i) rx package" using assms(1) 4(1, 3) by (auto simp: at_check_def)
      with k(2) s(1) have "us_pkg s \<notin> set (rg_history g i)" by (simp add: delivers_def)
      then show ?thesis
        by (intro inv_leader_moves [of _ h p]) (use assms(1, 3) 4(2) k(1) facts i s in \<open>auto simp: at_check_def\<close>)
    qed
  qed
qed

lemma inv_follower_checks:
  assumes "at_check ids ring sg k h p g i (RollingFollower fs) cg recv"
    and "check_follower recv (Some cg) (rg_service g i) fs = Some (b, s, fs')"
    and "hm_get (su_states u) sg = Some (UpdateRolling (RollingFollower fs'))"
  shows "rolling_inv ids ring sg (checked i s u g)"
proof -
  note facts = at_check_facts [OF assms(1)]
  have follower: "i \<noteq> hd ring" using facts(5) by (auto simp: state_ok_def split: follower_state.splits)
  note same = inv_checked_same [OF assms(1) _ _ assms(3)]
  have seen: "census_shows ids (hd ring) sg i (rg_view g i) cg" and hist: "histories ring k h p (rg_history g)"
    and me: "member_ok ids ring sg k h p g i" and own: "Suc (rg_seen g i i) = length (rg_history g i)" and dist: "distinct ring"
    using assms(1) by (auto simp: at_check_def)
  obtain n where ids: "ids = rotate n ring" using assms(1) by (auto simp: at_check_def)
  obtain t where t: "t < length ring" "i = ring ! t" using assms(1) by (auto simp: at_check_def in_set_conv_nth)
  have "0 < t" using follower t by (cases t) (auto simp: hd_conv_nth)
  note leader_view = leader_history [OF hist]
  show ?thesis
  proof (rule check_follower_cases [OF seen facts(2, 3) ids t \<open>0 < t\<close> assms(2)], goal_cases)
    case 1
    then show ?case by (intro same) (use facts(4) follower in \<open>simp_all add: state_ok_def\<close>)
  next
    case (2 rx)
    note turn = follower_starts_in_turn [OF hist me t \<open>0 < t\<close> own dist 2(6, 7)]
    from 2 show ?case by (intro same) (use facts(4) follower t turn in \<open>simp_all add: state_ok_def\<close>)
  next
    case (3 rx rx')
    with facts(5) have "rg_seen g i (hd ring) = length h" by (auto simp: state_ok_def)
    with leader_view have "rg_view g i (hd ring) = p" by (simp add: rg_view_def)
    with 3 show ?case by (intro same) (use facts(4, 5) in \<open>auto simp: state_ok_def\<close>)
  next
    case (4 rx package)
    then have k: "k < length ring" "i = ring ! k" "rc_ident rx = Some p" "rg_seen g i (hd ring) = length h"
      using facts(5) by (auto simp: state_ok_def)
    show ?case
    proof (cases "us_pkg s = us_pkg (rg_service g i)")
      case True
      then show ?thesis
        by (intro same) (use 4 update_package_cases(1) [OF 4(4)] facts(4) follower in \<open>simp_all add: state_ok_def\<close>)
    next
      case False
      have "delivers (rg_history g i) rx package" using assms(1) 4(1, 3) by (auto simp: at_check_def)
      with k(3) False update_package_cases [OF 4(4)] facts(4) have s: "us_pkg s = p" "us_service_group s = sg"
        by (auto simp: delivers_def)
      show ?thesis
        by (rule inv_follower_moves [OF hist _ facts(1) dist k(1, 2) follower s(2, 1) k(4)])
          (use assms(1, 3) 4(2) in \<open>auto simp: at_check_def\<close>)
    qed
  qed
qed

lemma rolling_inv_check:
  assumes "rolling_inv ids ring sg g" and "ids = rotate n ring" and "distinct ring" and "i \<in> set ids"
    and "Suc (rg_seen g i i) = length (rg_history g i)"
    and "\<And>package rx. recv = Received package \<Longrightarrow> rx_of (rg_state sg g i) = Some rx \<Longrightarrow> delivers (rg_history g i) rx package"
    and "check_for_updated_package recv (rg_census g i) (rg_service g i) (rg_updater g i) = Some (updated, s, u)"
  shows "rolling_inv ids ring sg (checked i s u g)"
proof -
  obtain k h p where hist: "histories ring k h p (rg_history g)" and ok: "\<forall>j \<in> set ring. member_ok ids ring sg k h p g j"
    using assms(1) unfolding rolling_inv_def by blast
  have i: "i \<in> set ring" using assms(2, 4) by simp
  with ok obtain cg rs where cg: "census_group_for sg (rg_census g i) = Some cg" "census_shows ids (hd ring) sg i (rg_view g i) cg"
    and rs: "rg_state sg g i = Some (UpdateRolling rs)"
    by (fastforce simp: member_ok_def census_of_view_def state_ok_def split: option.splits updater_state.splits)
  have at: "at_check ids ring sg k h p g i rs cg recv"
    unfolding at_check_def using hist ok assms(2, 3, 5, 6) i rs cg(2) by blast
  note facts = at_check_facts [OF at]
  show ?thesis
  proof (rule check_rolling_cases [OF assms(7) facts(4) rs [unfolded rg_state_def] cg(1)], goal_cases)
    case 1
    then show ?case using inv_checked_same [OF at] facts(4) by (auto simp: state_ok_def)
  next
    case 2
    with shown_in_election [OF cg(2) facts(2, 3)] show ?case
      by (intro inv_checked_same [OF at]) (use facts(4) in \<open>auto simp: state_ok_def\<close>)
  next
    case (3 ls ls')
    with at show ?case by (intro inv_leader_checks) auto
  next
    case (4 fs fs')
    with at show ?case by (intro inv_follower_checks) auto
  qed
qed

lemma state_ok_seen:
  assumes "state_ok ring k h p i x st" and "x = length h \<Longrightarrow> y = length h"
  shows "state_ok ring k h p i y st"
  using assms by (cases st rule: rx_of.cases) (auto simp: state_ok_def split: rolling_state.splits updater_state.splits
      leader_state.splits follower_state.splits option.splits)

text \<open>A member stays as it was when nothing it depends on changes.\<close>

lemma member_ok_cong:
  assumes "member_ok ids ring sg k h p g i"
    and "rg_service g' i = rg_service g i" and "rg_census g' i = rg_census g i" and "rg_history g' = rg_history g"
    and "rg_seen g' i = rg_seen g i" and "rg_state sg g' i = rg_state sg g i"
  shows "member_ok ids ring sg k h p g' i"
proof -
  have "rg_view g' i = rg_view g i" by (rule ext) (simp add: rg_view_def assms(4, 5))
  with assms show ?thesis unfolding member_ok_def by simp
qed

lemma rolling_inv_refresh:
  assumes "rolling_inv ids ring sg g" and "set ids = set ring" and "i \<in> set ids"
    and "\<forall>j \<in> set ids. rg_seen g i j \<le> seen j \<and> seen j < length (rg_history g j)"
    and "census_of_view ids (hd ring) sg i (\<lambda>j. rg_history g j ! seen j) cr"
  shows "rolling_inv ids ring sg (g\<lparr>rg_census := (rg_census g)(i := cr), rg_seen := (rg_seen g)(i := seen)\<rparr>)"
    (is "rolling_inv ids ring sg ?g")
proof -
  obtain k h p where hist: "histories ring k h p (rg_history g)" and ok: "\<forall>j \<in> set ring. member_ok ids ring sg k h p g j"
    using assms(1) unfolding rolling_inv_def by blast
  have "ring \<noteq> []" using assms(2, 3) by auto
  then have L: "hd ring \<in> set ids" using assms(2) by simp
  have leader: "rg_seen g i (hd ring) \<le> seen (hd ring)" "seen (hd ring) < Suc (length h)"
    using assms(4) L leader_history [OF hist] by auto
  have me: "member_ok ids ring sg k h p g i" using ok assms(2, 3) by simp
  have "member_ok ids ring sg k h p ?g j" if "j \<in> set ring" for j
  proof (cases "j = i")
    case False
    show ?thesis by (rule member_ok_cong [OF ok [rule_format, OF that]]) (simp_all add: False rg_state_def)
  next
    case True
    have view: "rg_view ?g i = (\<lambda>j. rg_history g j ! seen j)" by (rule ext) (simp add: rg_view_def)
    have "state_ok ring k h p i (seen (hd ring)) (rg_state sg g i)"
      by (rule state_ok_seen [of _ _ _ _ _ "rg_seen g i (hd ring)"]) (use me leader in \<open>simp_all add: member_ok_def\<close>)
    moreover have "rg_state sg ?g i = rg_state sg g i" by (simp add: rg_state_def)
    moreover have "i \<noteq> hd ring \<Longrightarrow> length (rg_history g i) \<le> Suc (seen (hd ring))"
      using me leader(1) by (simp add: member_ok_def)
    ultimately show ?thesis
      using me assms(2, 4, 5) unfolding True member_ok_def view by simp
  qed
  moreover have "histories ring k h p (rg_history ?g)" using hist by simp
  ultimately show ?thesis unfolding rolling_inv_def by blast
qed

lemma rolling_inv_gossip:
  assumes "rolling_inv ids ring sg g"
  shows "rolling_inv ids ring sg (g\<lparr>rg_updater := (rg_updater g)(i := (rg_updater g i)\<lparr>su_butterfly := butterfly\<rparr>)\<rparr>)"
    (is "rolling_inv ids ring sg ?g")
proof -
  obtain k h p where hist: "histories ring k h p (rg_history g)" and ok: "\<forall>j \<in> set ring. member_ok ids ring sg k h p g j"
    using assms unfolding rolling_inv_def by blast
  have "member_ok ids ring sg k h p ?g j" if "j \<in> set ring" for j
    by (rule member_ok_cong [OF ok [rule_format, OF that]]) (simp_all add: rg_state_def)
  moreover have "histories ring k h p (rg_history ?g)" using hist by simp
  ultimately show ?thesis unfolding rolling_inv_def by blast
qed

lemma rolling_inv_run:
  assumes "(rolling_step ids (hd ring) sg)\<^sup>*\<^sup>* g0 g" and "rolling_start ids (hd ring) sg g0"
    and "ids = rotate n ring" and "distinct ring" and "ring \<noteq> []"
  shows "rolling_inv ids ring sg g"
  using assms(1)
proof induction
  case base
  show ?case by (rule rolling_inv_start [OF assms(2, 3, 5)])
next
  case (step g g')
  have ids: "set ids = set ring" using assms(3) by simp
  from step.hyps(2) show ?case
  proof cases
    case (check i recv updated s u)
    show ?thesis
      unfolding check(1) by (rule rolling_inv_check [OF step.IH assms(3, 4) check(2, 3) _ check(5)]) (rule check(4))
  next
    case (refresh i seen cr)
    show ?thesis unfolding refresh(1) by (rule rolling_inv_refresh [OF step.IH ids refresh(2-4)])
  next
    case (gossip i butterfly)
    show ?thesis unfolding gossip by (rule rolling_inv_gossip [OF step.IH])
  qed
qed

section \<open>What an update promises\<close>

text \<open>C27: When the members of a group agree on the leader of a rolling update and stay alive, then however far behind what
  they see of each other is: at every time the members from the leader on, up to some point of the
  ring, run the new package and all others the one before it; only the next member of
  the ring may be fetching the new package, so never two at once; and the leader looks for a newer package only
  when all run the same one.\<close>

theorem rolling_updates_go_one_by_one:
  assumes "rolling_start ids L sg g0" and "ids = rotate n ring" and "distinct ring" and "ring \<noteq> []" and "hd ring = L"
    and "(rolling_step ids L sg)\<^sup>*\<^sup>* g0 g"
  shows "\<exists>k new old. 0 < k \<and> k \<le> length ring \<and> (k < length ring \<longrightarrow> old \<noteq> new) \<and>
    (\<forall>t < length ring. us_pkg (rg_service g (ring ! t)) = (if t < k then new else old)) \<and>
    (\<forall>i \<in> set ids. \<forall>rx. rg_state sg g i = Some (UpdateRolling (RollingFollower (Updating rx))) \<longrightarrow>
      k < length ring \<and> i = ring ! k \<and> rc_ident rx = Some new) \<and>
    (\<forall>i \<in> set ids. \<forall>rx. rg_state sg g i = Some (UpdateRolling (RollingLeader (Polling rx))) \<longrightarrow> i = L \<and> k = length ring)"
proof -
  have "rolling_inv ids ring sg g"
    by (rule rolling_inv_run [of _ _ _ g0]) (use assms in simp_all)
  then obtain k h p where hist: "histories ring k h p (rg_history g)" and ok: "\<forall>i \<in> set ring. member_ok ids ring sg k h p g i"
    unfolding rolling_inv_def by blast
  have state: "state_ok ring k h p i (rg_seen g i L) (rg_state sg g i)" if "i \<in> set ids" for i
    using ok that assms(2, 5) by (simp add: member_ok_def)
  have "us_pkg (rg_service g (ring ! t)) = (if t < k then p else last h)" if "t < length ring" for t
    using ok hist that by (auto simp: member_ok_def histories_def)
  moreover have "last h \<noteq> p" if "k < length ring" using hist that by (auto simp: histories_def)
  moreover have "k < length ring \<and> i = ring ! k \<and> rc_ident rx = Some p"
    if "i \<in> set ids" "rg_state sg g i = Some (UpdateRolling (RollingFollower (Updating rx)))" for i rx
    using state [OF that(1)] that(2) by (auto simp: state_ok_def)
  moreover have "i = L \<and> k = length ring"
    if "i \<in> set ids" "rg_state sg g i = Some (UpdateRolling (RollingLeader (Polling rx)))" for i rx
    using state [OF that(1)] that(2) assms(5) by (auto simp: state_ok_def)
  moreover have "0 < k" "k \<le> length ring" using hist by (simp_all add: histories_def)
  ultimately show ?thesis by blast
qed

text \<open>An example: two members, of which the first leads and finds a new package, and then the second fetches it.\<close>

definition rolling_pkg :: "string \<Rightarrow> package_ident" where
  "rolling_pkg version = package_ident_new ''core'' ''foo'' (Some version) (Some ''1'')"

definition rolling_member :: "string \<Rightarrow> package_ident \<Rightarrow> unit census_member" where
  "rolling_member i package = (default_census_member ())\<lparr>cm_member_id := i, cm_pkg := Some package, cm_alive := True\<rparr>"

definition rolling_census :: "string \<Rightarrow> (string \<Rightarrow> package_ident) \<Rightarrow> unit census_ring" where
  "rolling_census i view =
     (census_ring_new i)\<lparr>cr_census_groups := [(''foo.bar'', (census_group_new ''foo.bar'' i)\<lparr>
        cg_population := [(''a'', rolling_member ''a'' (view ''a'')), (''b'', rolling_member ''b'' (view ''b''))],
        cg_update_leader_id := Some ''a''\<rparr>)]\<rparr>"

lemma rolling_census_shows: "census_of_view [''a'', ''b''] ''a'' ''foo.bar'' i view (rolling_census i view)"
proof -
  let ?cg = "(census_group_new ''foo.bar'' i :: unit census_group)\<lparr>
    cg_population := [(''a'', rolling_member ''a'' (view ''a'')), (''b'', rolling_member ''b'' (view ''b''))],
    cg_update_leader_id := Some ''a''\<rparr>"
  have members: "cg_members ?cg = [rolling_member ''a'' (view ''a''), rolling_member ''b'' (view ''b'')]"
    by (simp add: cg_members_def bt_values_def)
  have "sg_from_str ''foo.bar'' = Inr ''foo.bar''" by code_simp
  then have "group_inv ''foo.bar'' ?cg"
    by (simp add: group_inv_def census_group_new_def hm_inv_def hm_get_def rolling_member_def one_flagged_def
        default_census_member_def hm_new_def)
  with members have "census_shows [''a'', ''b''] ''a'' ''foo.bar'' i view ?cg"
    by (simp add: census_shows_def rolling_member_def census_group_new_def)
  then show ?thesis
    by (simp add: census_of_view_def rolling_census_def census_group_for_def hm_get_def)
qed

definition rolling_example :: "unit rolling_group" where
  "rolling_example =
     \<lparr>rg_service = (\<lambda>i. \<lparr>us_service_group = ''foo.bar'', us_bldr_url = ''url'', us_channel = ''stable'',
        us_spec_ident = package_ident_new ''core'' ''foo'' None None, us_topology = TopologyStandalone,
        us_update_strategy = Rolling, us_pkg = rolling_pkg ''1'', us_member_id = i, us_sys = default_sys_info, us_initialized = True\<rparr>),
      rg_updater = (\<lambda>i. \<lparr>su_states = [(''foo.bar'', UpdateRolling AwaitingElection)],
        su_butterfly = example_server i [(''a'', Alive), (''b'', Alive)]\<rparr>),
      rg_census = (\<lambda>i. rolling_census i (\<lambda>_. rolling_pkg ''1'')), rg_history = (\<lambda>_. [rolling_pkg ''1'']), rg_seen = (\<lambda>_ _. 0)\<rparr>"

definition check_now :: "try_recv \<Rightarrow> string \<Rightarrow> 't rolling_group \<Rightarrow> 't rolling_group" where
  "check_now recv i g =
     (case check_for_updated_package recv (rg_census g i) (rg_service g i) (rg_updater g i) of
        Some (_, s, u) \<Rightarrow> checked i s u g
      | None \<Rightarrow> g)"

definition may_check :: "string list \<Rightarrow> service_group \<Rightarrow> try_recv \<Rightarrow> string \<Rightarrow> 't rolling_group \<Rightarrow> bool" where
  "may_check ids sg recv i g \<longleftrightarrow> i \<in> set ids \<and> Suc (rg_seen g i i) = length (rg_history g i) \<and>
     (case recv of Received package \<Rightarrow> pred_option (\<lambda>rx. delivers (rg_history g i) rx package) (rx_of (rg_state sg g i)) | _ \<Rightarrow> True) \<and>
     check_for_updated_package recv (rg_census g i) (rg_service g i) (rg_updater g i) \<noteq> None"

lemma check_now_step:
  assumes "may_check ids sg recv i g"
  shows "rolling_step ids L sg g (check_now recv i g)"
proof -
  obtain b s u where run: "check_for_updated_package recv (rg_census g i) (rg_service g i) (rg_updater g i) = Some (b, s, u)"
    using assms by (auto simp: may_check_def)
  have "rolling_step ids L sg g (checked i s u g)"
    by (rule rolling_step.check [OF _ _ _ run]) (use assms in \<open>auto simp: may_check_def\<close>)
  then show ?thesis by (simp add: check_now_def run)
qed

definition refresh_now :: "string \<Rightarrow> unit rolling_group \<Rightarrow> unit rolling_group" where
  "refresh_now i g =
     (let seen = (\<lambda>j. length (rg_history g j) - 1)
      in g\<lparr>rg_census := (rg_census g)(i := rolling_census i (\<lambda>j. rg_history g j ! seen j)), rg_seen := (rg_seen g)(i := seen)\<rparr>)"

lemma refresh_now_step:
  assumes "i \<in> {''a'', ''b''}" and "\<forall>j \<in> {''a'', ''b''}. rg_seen g i j < length (rg_history g j)"
  shows "rolling_step [''a'', ''b''] ''a'' ''foo.bar'' g (refresh_now i g)"
  unfolding refresh_now_def Let_def
  by (rule rolling_step.refresh [OF _ _ rolling_census_shows]) (use assms in auto)

definition rolling_found :: "unit rolling_group" where
  "rolling_found =
     refresh_now ''b'' (check_now (Received \<lparr>pki_ident = rolling_pkg ''2'', pki_readable = True, pki_templates_ok = True\<rparr>) ''a''
       (check_now ChannelEmpty ''b'' (check_now ChannelEmpty ''b''
         (check_now ChannelEmpty ''a'' (check_now ChannelEmpty ''a'' (check_now ChannelEmpty ''a'' rolling_example))))))"

lemma rolling_example_start: "rolling_start [''a'', ''b''] ''a'' ''foo.bar'' rolling_example"
  using rolling_census_shows [of _ "\<lambda>_. rolling_pkg ''1''"]
  by (simp add: rolling_start_def rolling_example_def rg_state_def hm_get_def)

lemma rolling_found_reached: "(rolling_step [''a'', ''b''] ''a'' ''foo.bar'')\<^sup>*\<^sup>* rolling_example rolling_found"
proof -
  let ?step = "rolling_step [''a'', ''b''] ''a'' ''foo.bar''" and ?may = "may_check [''a'', ''b''] ''foo.bar''"
  let ?g1 = "check_now ChannelEmpty ''a'' rolling_example"
  let ?g2 = "check_now ChannelEmpty ''a'' ?g1"
  let ?g3 = "check_now ChannelEmpty ''a'' ?g2"
  let ?g4 = "check_now ChannelEmpty ''b'' ?g3"
  let ?g5 = "check_now ChannelEmpty ''b'' ?g4"
  let ?new = "Received \<lparr>pki_ident = rolling_pkg ''2'', pki_readable = True, pki_templates_ok = True\<rparr>"
  have "?may ChannelEmpty ''a'' rolling_example" "?may ChannelEmpty ''a'' ?g1" "?may ChannelEmpty ''a'' ?g2"
    "?may ChannelEmpty ''b'' ?g3" "?may ChannelEmpty ''b'' ?g4" "?may ?new ''a'' ?g5"
    by code_simp+
  note this [THEN check_now_step, of "''a''"]
  moreover have "\<forall>j \<in> {''a'', ''b''}. rg_seen (check_now ?new ''a'' ?g5) ''b'' j < length (rg_history (check_now ?new ''a'' ?g5) j)"
    by code_simp
  then have "?step (check_now ?new ''a'' ?g5) rolling_found" unfolding rolling_found_def by (rule refresh_now_step [rotated]) simp
  ultimately show ?thesis by (meson converse_rtranclp_into_rtranclp rtranclp.rtrancl_refl)
qed

theorem rolling_updates_go_one_by_one_witness:
  "\<exists>g rx. (rolling_step [''a'', ''b''] ''a'' ''foo.bar'')\<^sup>*\<^sup>* rolling_example g \<and>
     rg_state ''foo.bar'' g ''b'' = Some (UpdateRolling (RollingFollower (Updating rx))) \<and>
     rc_ident rx = Some (us_pkg (rg_service g ''a''))"
proof -
  let ?g = "check_now ChannelEmpty ''b'' rolling_found"
  have "may_check [''a'', ''b''] ''foo.bar'' ChannelEmpty ''b'' rolling_found" by code_simp
  then have run: "(rolling_step [''a'', ''b''] ''a'' ''foo.bar'')\<^sup>*\<^sup>* rolling_example ?g"
    by (rule rtranclp.rtrancl_into_rtrancl [OF rolling_found_reached check_now_step])
  have "rx_of (rg_state ''foo.bar'' ?g ''b'') \<noteq> None \<and>
      (case rg_state ''foo.bar'' ?g ''b'' of Some (UpdateRolling (RollingFollower fs)) \<Rightarrow> True | _ \<Rightarrow> False)" by code_simp
  then obtain rx where rx: "rg_state ''foo.bar'' ?g ''b'' = Some (UpdateRolling (RollingFollower (Updating rx)))"
    by (auto split: option.splits updater_state.splits rolling_state.splits elim: rx_of.elims)
  have ring: "[''a'', ''b''] = rotate 0 [''a'', ''b'']" "distinct [''a'', ''b'']" "[''a'', ''b''] \<noteq> []" "hd [''a'', ''b''] = ''a''"
    by simp_all
  from rolling_updates_go_one_by_one [OF rolling_example_start ring run] obtain k new old where k: "0 < k"
      "\<forall>t < length [''a'', ''b'']. us_pkg (rg_service ?g ([''a'', ''b''] ! t)) = (if t < k then new else old)"
      "\<forall>i \<in> set [''a'', ''b'']. \<forall>rx. rg_state ''foo.bar'' ?g i = Some (UpdateRolling (RollingFollower (Updating rx))) \<longrightarrow>
        k < length [''a'', ''b''] \<and> i = [''a'', ''b''] ! k \<and> rc_ident rx = Some new"
    by blast
  have "us_pkg (rg_service ?g ''a'') = new" using k(1) k(2) [rule_format, of 0] by simp
  moreover have "rc_ident rx = Some new" using k(3) [rule_format, of "''b''" rx] rx by simp
  ultimately show ?thesis using run rx by blast
qed

section \<open>Progress\<close>

text \<open>A census that names the leader, and what follows for the checks of a follower and of the leader.\<close>

definition names_leader :: "string \<Rightarrow> service_group \<Rightarrow> 't census_ring \<Rightarrow> bool" where
  "names_leader L sg cr \<longleftrightarrow> map_option cg_update_leader_id (census_group_for sg cr) = Some (Some L)"

definition up_to_date :: "string list \<Rightarrow> 't rolling_group \<Rightarrow> string \<Rightarrow> bool" where
  "up_to_date ids g i \<longleftrightarrow> (\<forall>j \<in> set ids. Suc (rg_seen g i j) = length (rg_history g j))"

lemma follower_starts:
  assumes "census_shows ids L sg i view cg" and "i \<in> set ids" and "L \<in> set ids" and "cg_update_leader_id cg = Some L"
    and "ids = rotate n ring" and "t < length ring" and "i = ring ! t" and "0 < t"
    and "view L \<noteq> view i" and "view L = view (ring ! (t - 1))"
  shows "check_follower recv (Some cg) s FollowerWaiting =
    Some (False, s, Updating (worker_start (update_worker_new s) (Some (view L))))"
proof -
  obtain me where "cg_me cg = Some me" "cm_pkg me = Some (view i)" by (rule shown_me [OF assms(1, 2)])
  moreover obtain peer where "previous_peer cg = Some peer" "cm_pkg peer = Some (view (ring ! (t - 1)))"
    by (rule shown_peer [OF assms(1, 5-8)])
  moreover obtain leader where "cg_update_leader cg = Some leader" "cm_pkg leader = Some (view L)"
    using shown_member [OF assms(1, 3)] assms(4) by (metis cg_update_leader_def option.case(2))
  ultimately show ?thesis using assms(9, 10) by (simp add: check_follower_def)
qed

lemma follower_finishes:
  assumes "pki_readable package" and "pki_templates_ok package" and "fully_qualified (pki_ident package)"
  shows "check_follower (Received package) (Some cg) s (Updating rx) =
    Some (True, s\<lparr>us_pkg := pki_ident package, us_initialized := False\<rparr>, FollowerWaiting)"
  using assms by (simp add: check_follower_def update_package_def pkg_from_install_def)

lemma leader_starts:
  assumes "census_shows ids L sg i view cg" and "i \<in> set ids" and "\<forall>j \<in> set ids. view j = view i"
  shows "check_leader recv (Some cg) s LeaderWaiting = Some (False, s, Polling (worker_start (update_worker_new s) None))"
  using shown_differs [OF assms(1, 2)] assms(3) by (simp add: check_leader_def)

lemma check_member:
  assumes "us_service_group s = sg" and "census_group_for sg cr = Some cg"
  shows "hm_get (su_states su) sg = Some (UpdateRolling (RollingFollower fs)) \<Longrightarrow>
      check_for_updated_package recv cr s su = map_option (\<lambda>(b, s, fs).
        (b, s, su\<lparr>su_states := hm_insert sg (UpdateRolling (RollingFollower fs)) (su_states su)\<rparr>)) (check_follower recv (Some cg) s fs)"
    and "hm_get (su_states su) sg = Some (UpdateRolling (RollingLeader ls)) \<Longrightarrow>
      check_for_updated_package recv cr s su = map_option (\<lambda>(b, s, ls).
        (b, s, su\<lparr>su_states := hm_insert sg (UpdateRolling (RollingLeader ls)) (su_states su)\<rparr>)) (check_leader recv (Some cg) s ls)"
  using assms by (auto simp: check_for_updated_package_def Let_def map_option_case split: bind_splits option.split)

text \<open>The package and the state of a member after its next check.\<close>

definition after_check :: "try_recv \<Rightarrow> service_group \<Rightarrow> 't rolling_group \<Rightarrow> string \<Rightarrow> (package_ident \<times> updater_state option) option" where
  "after_check recv sg g i = map_option (\<lambda>(_, s, u). (us_pkg s, hm_get (su_states u) sg))
     (check_for_updated_package recv (rg_census g i) (rg_service g i) (rg_updater g i))"

lemma after_check_follower:
  assumes "rg_state sg g i = Some (UpdateRolling (RollingFollower fs))" and "us_service_group (rg_service g i) = sg"
    and "census_group_for sg (rg_census g i) = Some cg"
    and "check_follower recv (Some cg) (rg_service g i) fs = Some (b, s, fs')"
  shows "after_check recv sg g i = Some (us_pkg s, Some (UpdateRolling (RollingFollower fs')))"
  using check_member(1) [OF assms(2, 3) assms(1) [unfolded rg_state_def], of recv] assms(4) by (simp add: after_check_def)

lemma after_check_leader:
  assumes "rg_state sg g i = Some (UpdateRolling (RollingLeader ls))" and "us_service_group (rg_service g i) = sg"
    and "census_group_for sg (rg_census g i) = Some cg"
    and "check_leader recv (Some cg) (rg_service g i) ls = Some (b, s, ls')"
  shows "after_check recv sg g i = Some (us_pkg s, Some (UpdateRolling (RollingLeader ls')))"
  using check_member(2) [OF assms(2, 3) assms(1) [unfolded rg_state_def], of recv] assms(4) by (simp add: after_check_def)

definition decided :: "service_group \<Rightarrow> 't rolling_group \<Rightarrow> string \<Rightarrow> bool" where
  "decided sg g i \<longleftrightarrow> rg_state sg g i \<noteq> Some (UpdateRolling AwaitingElection) \<and> rg_state sg g i \<noteq> Some (UpdateRolling InElection)"

text \<open>What is known of a member that is up to date.\<close>

lemma member_up_to_date:
  assumes "\<forall>j \<in> set ring. member_ok ids ring sg k h p g j" and "set ids = set ring" and "i \<in> set ids"
    and "up_to_date ids g i" and "names_leader L sg (rg_census g i)" and "L = hd ring"
  obtains cg where "census_group_for sg (rg_census g i) = Some cg" "cg_update_leader_id cg = Some L"
    "census_shows ids L sg i (\<lambda>j. us_pkg (rg_service g j)) cg"
proof -
  have me: "member_ok ids ring sg k h p g i" using assms(1-3) by simp
  have "rg_view g i j = us_pkg (rg_service g j)" if "j \<in> set ids" for j
  proof -
    have "Suc (rg_seen g i j) = length (rg_history g j)" using assms(4) that by (simp add: up_to_date_def)
    then have "rg_seen g i j = length (rg_history g j) - 1" "rg_history g j \<noteq> []" by auto
    moreover have "us_pkg (rg_service g j) = last (rg_history g j)" using assms(1, 2) that by (simp add: member_ok_def)
    ultimately show ?thesis by (simp add: rg_view_def last_conv_nth)
  qed
  moreover have "census_of_view ids L sg i (rg_view g i) (rg_census g i)" using me assms(6) by (simp add: member_ok_def)
  ultimately have "census_of_view ids L sg i (\<lambda>j. us_pkg (rg_service g j)) (rg_census g i)" by (rule census_of_view_cong)
  then obtain cg where "census_group_for sg (rg_census g i) = Some cg" "census_shows ids L sg i (\<lambda>j. us_pkg (rg_service g j)) cg"
    by (auto simp: census_of_view_def)
  with assms(5) that show ?thesis by (auto simp: names_leader_def)
qed

text \<open>Who moves next: the first member of the ring that is behind, or the leader.\<close>

lemma next_follower_moves:
  assumes "histories ring k h p (rg_history g)" and ok: "\<forall>j \<in> set ring. member_ok ids ring sg k h p g j"
    and "ids = rotate n ring" and "L = hd ring" and "k < length ring" and "i = ring ! k"
    and "up_to_date ids g i" and "names_leader L sg (rg_census g i)" and "decided sg g i" and "i \<noteq> L"
  shows "(\<exists>rx. rc_ident rx = Some p \<and> (\<forall>recv. after_check recv sg g i =
        Some (us_pkg (rg_service g i), Some (UpdateRolling (RollingFollower (Updating rx)))))) \<or>
    (\<exists>rx. rg_state sg g i = Some (UpdateRolling (RollingFollower (Updating rx))) \<and> rc_ident rx = Some p \<and>
      (\<forall>package. pki_ident package = p \<and> pki_readable package \<and> pki_templates_ok package \<and> fully_qualified p \<longrightarrow>
        after_check (Received package) sg g i = Some (p, Some (UpdateRolling (RollingFollower FollowerWaiting)))))"
proof -
  have ids: "set ids = set ring" "i \<in> set ids" "0 < k" using assms(1, 3, 5, 6) by (simp_all add: histories_def)
  have L: "L \<in> set ids" using assms(4, 5) ids(1) by (metis hd_in_set less_nat_zero_code list.size(3))
  obtain cg where cg: "census_group_for sg (rg_census g i) = Some cg" "cg_update_leader_id cg = Some L"
    "census_shows ids L sg i (\<lambda>j. us_pkg (rg_service g j)) cg"
    by (rule member_up_to_date [OF ok ids(1, 2) assms(7, 8, 4)])
  have me: "member_ok ids ring sg k h p g i" using ok ids by simp
  have pkg: "us_pkg (rg_service g (ring ! t)) = (if t < k then p else last h)" if "t < length ring" for t
    using ok assms(1) that by (auto simp: member_ok_def histories_def)
  have behind: "us_pkg (rg_service g i) \<noteq> p" using pkg [OF assms(5)] assms(1, 5, 6) by (auto simp: histories_def)
  have new: "us_pkg (rg_service g L) = p" "us_pkg (rg_service g (ring ! (k - 1))) = p"
    using pkg [of 0] pkg [of "k - 1"] ids(3) assms(4, 5) by (auto simp: hd_conv_nth simp flip: length_greater_0_conv)
  have sg: "us_service_group (rg_service g i) = sg" using me by (simp add: member_ok_def)
  have "state_ok ring k h p i (rg_seen g i L) (rg_state sg g i)" using me assms(4) by (simp add: member_ok_def)
  then obtain fs where fs: "rg_state sg g i = Some (UpdateRolling (RollingFollower fs))"
    and rx: "\<And>rx. fs = Updating rx \<Longrightarrow> rc_ident rx = Some p"
    using assms(4, 9, 10) by (auto simp: state_ok_def decided_def split: option.splits updater_state.splits rolling_state.splits
        leader_state.splits follower_state.splits)
  show ?thesis
  proof (cases fs)
    case FollowerWaiting
    let ?rx = "worker_start (update_worker_new (rg_service g i)) (Some p)"
    have "check_follower recv (Some cg) (rg_service g i) fs = Some (False, rg_service g i, Updating ?rx)" for recv
      using follower_starts [OF cg(3) ids(2) L cg(2) assms(3, 5, 6) ids(3)] behind new FollowerWaiting by simp
    from after_check_follower [OF fs sg cg(1) this] have "\<forall>recv. after_check recv sg g i =
        Some (us_pkg (rg_service g i), Some (UpdateRolling (RollingFollower (Updating ?rx))))" by blast
    moreover have "rc_ident ?rx = Some p" by (simp add: worker_start_def)
    ultimately show ?thesis by blast
  next
    case (Updating rx')
    have "after_check (Received package) sg g i = Some (p, Some (UpdateRolling (RollingFollower FollowerWaiting)))"
      if "pki_ident package = p \<and> pki_readable package \<and> pki_templates_ok package \<and> fully_qualified p" for package
      using after_check_follower [OF fs sg cg(1), of "Received package"] follower_finishes [of package cg "rg_service g i" rx'] that Updating
      by simp
    with fs rx Updating show ?thesis by blast
  qed
qed

lemma leader_moves:
  assumes ok: "\<forall>j \<in> set ring. member_ok ids ring sg k h p g j"
    and "ids = rotate n ring" and "L = hd ring" and "ring \<noteq> []" and "distinct ring"
    and "up_to_date ids g L" and "names_leader L sg (rg_census g L)" and "decided sg g L"
    and "\<forall>i \<in> set ids. us_pkg (rg_service g i) = us_pkg (rg_service g L)"
  shows "\<exists>rx. rg_state sg g L = Some (UpdateRolling (RollingLeader (Polling rx))) \<or>
    (\<forall>recv. after_check recv sg g L = Some (us_pkg (rg_service g L), Some (UpdateRolling (RollingLeader (Polling rx)))))"
proof -
  have ids: "set ids = set ring" "L \<in> set ids" using assms(2-4) by simp_all
  obtain cg where cg: "census_group_for sg (rg_census g L) = Some cg" "census_shows ids L sg L (\<lambda>j. us_pkg (rg_service g j)) cg"
    by (rule member_up_to_date [OF ok ids assms(6, 7, 3)])
  have me: "member_ok ids ring sg k h p g L" using ok ids by simp
  have sg: "us_service_group (rg_service g L) = sg" using me by (simp add: member_ok_def)
  have "state_ok ring k h p L (rg_seen g L L) (rg_state sg g L)" using me assms(3) by (simp add: member_ok_def)
  then obtain ls where ls: "rg_state sg g L = Some (UpdateRolling (RollingLeader ls))"
    using assms(3, 8) by (auto simp: state_ok_def decided_def split: option.splits updater_state.splits rolling_state.splits
        leader_state.splits follower_state.splits)
  show ?thesis
  proof (cases ls)
    case (Polling rx)
    with ls show ?thesis by blast
  next
    case LeaderWaiting
    with after_check_leader [OF ls sg cg(1)] leader_starts [OF cg(2) ids(2) assms(9)] show ?thesis by blast
  qed
qed

text \<open>C28: A rolling update does not get stuck. When what the members see of each other is up to date and they know their roles, then
  either all run the package of the leader, and the leader is looking for a newer one or will be
  after its next check; or there is a member that is behind whose next check makes it fetch the package of the
  leader, or that is fetching it and will run it after the check that receives it.\<close>

theorem rolling_update_goes_on:
  assumes "rolling_start ids L sg g0" and "ids = rotate n ring" and "distinct ring" and "ring \<noteq> []" and "hd ring = L"
    and "(rolling_step ids L sg)\<^sup>*\<^sup>* g0 g"
    and "\<forall>i \<in> set ids. up_to_date ids g i \<and> names_leader L sg (rg_census g i) \<and> decided sg g i"
  shows "if \<forall>i \<in> set ids. us_pkg (rg_service g i) = us_pkg (rg_service g L)
    then \<exists>rx. rg_state sg g L = Some (UpdateRolling (RollingLeader (Polling rx))) \<or>
      (\<forall>recv. after_check recv sg g L = Some (us_pkg (rg_service g L), Some (UpdateRolling (RollingLeader (Polling rx)))))
    else \<exists>i \<in> set ids. us_pkg (rg_service g i) \<noteq> us_pkg (rg_service g L) \<and>
      ((\<exists>rx. rc_ident rx = Some (us_pkg (rg_service g L)) \<and> (\<forall>recv. after_check recv sg g i =
          Some (us_pkg (rg_service g i), Some (UpdateRolling (RollingFollower (Updating rx)))))) \<or>
       (\<exists>rx. rg_state sg g i = Some (UpdateRolling (RollingFollower (Updating rx))) \<and> rc_ident rx = Some (us_pkg (rg_service g L)) \<and>
        (\<forall>package. pki_ident package = us_pkg (rg_service g L) \<and> pki_readable package \<and> pki_templates_ok package \<and>
          fully_qualified (us_pkg (rg_service g L)) \<longrightarrow>
          after_check (Received package) sg g i =
            Some (us_pkg (rg_service g L), Some (UpdateRolling (RollingFollower FollowerWaiting))))))"
proof -
  have "rolling_inv ids ring sg g" by (rule rolling_inv_run [of _ _ _ g0]) (use assms in simp_all)
  then obtain k h p where hist: "histories ring k h p (rg_history g)" and ok: "\<forall>i \<in> set ring. member_ok ids ring sg k h p g i"
    unfolding rolling_inv_def by blast
  have ids: "set ids = set ring" "L \<in> set ids" using assms(2, 4, 5) by auto
  have pkg: "us_pkg (rg_service g (ring ! t)) = (if t < k then p else last h)" if "t < length ring" for t
    using ok hist that by (auto simp: member_ok_def histories_def)
  have leader: "us_pkg (rg_service g L) = p"
    using pkg [of 0] hist assms(4, 5) by (simp add: histories_def hd_conv_nth)
  show ?thesis
  proof (cases "\<forall>i \<in> set ids. us_pkg (rg_service g i) = us_pkg (rg_service g L)")
    case True
    show ?thesis
      unfolding if_P [OF True]
      by (rule leader_moves [OF ok assms(2) assms(5) [symmetric] assms(4, 3) _ _ _ True]) (use assms(7) ids(2) in blast)+
  next
    case False
    then obtain t where "t < length ring" "us_pkg (rg_service g (ring ! t)) \<noteq> p"
      using leader ids(1) by (auto simp: in_set_conv_nth)
    then have k: "k < length ring" "ring ! k \<in> set ids" using pkg [of t] ids(1) by (auto split: if_splits)
    then have behind: "us_pkg (rg_service g (ring ! k)) \<noteq> p" using pkg [of k] hist by (auto simp: histories_def)
    with leader have "ring ! k \<noteq> L" by auto
    note moves = next_follower_moves [OF hist ok assms(2) assms(5) [symmetric] k(1) refl _ _ _ this]
    show ?thesis
      unfolding leader if_not_P [OF False [unfolded leader]] by (rule bexI [OF _ k(2)], rule conjI [OF behind], rule moves) (use assms(7) k(2) in blast)+
  qed
qed

theorem rolling_update_goes_on_witness:
  "\<exists>g rx. (rolling_step [''a'', ''b''] ''a'' ''foo.bar'')\<^sup>*\<^sup>* rolling_example g \<and>
     after_check ChannelEmpty ''foo.bar'' g ''b'' = Some (rolling_pkg ''1'', Some (UpdateRolling (RollingFollower (Updating rx)))) \<and>
     rc_ident rx = Some (rolling_pkg ''2'')"
proof -
  let ?g = "refresh_now ''a'' rolling_found"
  have "\<forall>j \<in> {''a'', ''b''}. rg_seen rolling_found ''a'' j < length (rg_history rolling_found j)" by code_simp
  then have run: "(rolling_step [''a'', ''b''] ''a'' ''foo.bar'')\<^sup>*\<^sup>* rolling_example ?g"
    by (intro rtranclp.rtrancl_into_rtrancl [OF rolling_found_reached] refresh_now_step) simp_all
  have ring: "[''a'', ''b''] = rotate 0 [''a'', ''b'']" "distinct [''a'', ''b'']" "[''a'', ''b''] \<noteq> []" "hd [''a'', ''b''] = ''a''"
    by simp_all
  have ready: "\<forall>i \<in> set [''a'', ''b'']. up_to_date [''a'', ''b''] ?g i \<and> names_leader ''a'' ''foo.bar'' (rg_census ?g i) \<and> decided ''foo.bar'' ?g i"
    by code_simp
  have pkgs: "us_pkg (rg_service ?g ''a'') = rolling_pkg ''2''" "us_pkg (rg_service ?g ''b'') = rolling_pkg ''1''"
    "rolling_pkg ''1'' \<noteq> rolling_pkg ''2''" and waiting: "rx_of (rg_state ''foo.bar'' ?g ''b'') = None" by code_simp+
  have "\<not> (\<forall>i \<in> set [''a'', ''b'']. us_pkg (rg_service ?g i) = us_pkg (rg_service ?g ''a''))" using pkgs by simp
  note goes_on = rolling_update_goes_on [OF rolling_example_start ring run ready, unfolded if_not_P [OF this]]
  then obtain i where "i \<in> set [''a'', ''b'']" "us_pkg (rg_service ?g i) \<noteq> us_pkg (rg_service ?g ''a'')" by blast
  then have only: "i = ''b'' \<longleftrightarrow> us_pkg (rg_service ?g i) \<noteq> us_pkg (rg_service ?g ''a'')" if "i \<in> set [''a'', ''b'']" for i
    using that by auto
  have "rg_state ''foo.bar'' ?g ''b'' \<noteq> Some (UpdateRolling (RollingFollower (Updating rx)))" for rx using waiting by auto
  with goes_on only obtain rx where "rc_ident rx = Some (us_pkg (rg_service ?g ''a''))"
    "\<forall>recv. after_check recv ''foo.bar'' ?g ''b'' = Some (us_pkg (rg_service ?g ''b''), Some (UpdateRolling (RollingFollower (Updating rx))))"
    by blast
  with run pkgs show ?thesis by metis
qed

section \<open>Waiting times and names\<close>

lemma update_period_bounds:
  "0 < update_period frequency bypass_check" "\<not> bypass_check \<Longrightarrow> 60000 \<le> update_period frequency bypass_check"
  "update_period frequency bypass_check < 2 ^ 63"
  by (auto simp: update_period_def MIN_ALLOWED_FREQUENCY_def parse_i64_def Let_def split: option.split)

lemma strategy_roundtrip:
  "update_strategy_from_str (update_strategy_as_str u) = Inr u" "topology_from_str (topology_as_str t) = Inr t"
  by (cases u; simp add: update_strategy_from_str_def) (cases t; simp add: topology_from_str_def)

section \<open>Leaders that wait, and the gossip of an update\<close>

lemma any_differs_behind:
  assumes "cg_me cg = Some me" and "cm_pkg me = Some p" and "\<forall>cm \<in> set cms. cm_pkg cm \<noteq> None" and "\<exists>cm \<in> set cms. cm_pkg cm \<noteq> Some p"
  shows "any_differs (cg_me cg) cms = Some True"
  using assms(3, 4) by (induction cms) (force simp: assms(1, 2))+

text \<open>C39: The leader of a rolling update waits for every member that its census still lists: a member that is dead and
  runs an older package keeps it from looking for new packages, at this and at every later check with this census.\<close>

theorem dead_member_stops_updates:
  assumes "census_group_for sg cr = Some cg" and "group_inv sg cg" and "us_service_group s = sg"
    and "hm_get (su_states su) sg = Some (UpdateRolling (RollingLeader LeaderWaiting))"
    and "cg_me cg = Some me" and "cm_pkg me = Some p" and "\<forall>cm \<in> set (cg_members cg). cm_pkg cm \<noteq> None"
    and "hm_get (cg_population cg) dead = Some cm" and "cm_confirmed cm \<and> \<not> cm_alive cm" and "cm_pkg cm \<noteq> Some p"
  shows "\<exists>su'. check_for_updated_package recv cr s su = Some (False, s, su') \<and>
    hm_get (su_states su') sg = Some (UpdateRolling (RollingLeader LeaderWaiting))"
proof -
  have "cm \<in> set (cg_members cg)" using assms(2, 8) by (auto simp: cg_members_def bt_values_iff group_inv_def)
  with assms(10) any_differs_behind [OF assms(5-7)] have "any_differs (cg_me cg) (cg_members cg) = Some True" by blast
  then have "check_leader recv (Some cg) s LeaderWaiting = Some (False, s, LeaderWaiting)" by (simp add: check_leader_def)
  with check_member(2) [OF assms(3, 1, 4), of recv] show ?thesis by simp
qed

definition rolling_dead :: "unit census_group" where
  "rolling_dead = (census_group_new ''foo.bar'' ''a'')\<lparr>cg_population :=
     [(''a'', rolling_member ''a'' (rolling_pkg ''2'')),
      (''b'', (rolling_member ''b'' (rolling_pkg ''1''))\<lparr>cm_alive := False, cm_confirmed := True\<rparr>)]\<rparr>"

theorem dead_member_stops_updates_witness:
  "\<exists>su'. check_for_updated_package ChannelEmpty (cr_put_group ''foo.bar'' rolling_dead (census_ring_new ''a''))
      (rg_service rolling_example ''a'')
      \<lparr>su_states = [(''foo.bar'', UpdateRolling (RollingLeader LeaderWaiting))], su_butterfly = example_server ''a'' []\<rparr> =
    Some (False, rg_service rolling_example ''a'', su') \<and>
    hm_get (su_states su') ''foo.bar'' = Some (UpdateRolling (RollingLeader LeaderWaiting))"
proof -
  let ?a = "rolling_member ''a'' (rolling_pkg ''2'')"
    and ?b = "(rolling_member ''b'' (rolling_pkg ''1''))\<lparr>cm_alive := False, cm_confirmed := True\<rparr>"
  let ?cg = rolling_dead and ?cr = "cr_put_group ''foo.bar'' rolling_dead (census_ring_new ''a'')"
  have cr: "census_group_for ''foo.bar'' ?cr = Some ?cg" by (simp add: census_group_for_def)
  have "sg_from_str ''foo.bar'' = Inr ''foo.bar''" by code_simp
  then have inv: "group_inv ''foo.bar'' ?cg"
    by (simp add: rolling_dead_def group_inv_def census_group_new_def hm_inv_def hm_get_def rolling_member_def one_flagged_def
        default_census_member_def hm_new_def)
  have s: "us_service_group (rg_service rolling_example ''a'') = ''foo.bar''" by (simp add: rolling_example_def)
  have me: "cg_me ?cg = Some ?a" "cm_pkg ?a = Some (rolling_pkg ''2'')"
    by (simp_all add: rolling_dead_def cg_me_def census_group_new_def hm_get_def rolling_member_def)
  have pkgs: "\<forall>cm \<in> set (cg_members ?cg). cm_pkg cm \<noteq> None" by (simp add: rolling_dead_def cg_members_def bt_values_def rolling_member_def)
  have dead: "hm_get (cg_population ?cg) ''b'' = Some ?b" "cm_confirmed ?b \<and> \<not> cm_alive ?b" "cm_pkg ?b \<noteq> Some (rolling_pkg ''2'')"
    by (simp_all add: rolling_dead_def hm_get_def rolling_member_def rolling_pkg_def package_ident_new_def)
  show ?thesis
    by (rule dead_member_stops_updates [OF cr inv s _ me pkgs dead]) (simp add: hm_get_def)
qed

lemma uint_plus_1:
  fixes x :: u64
  assumes "x \<noteq> - 1"
  shows "uint (x + 1) = uint x + 1"
proof -
  have "uint (- 1 :: u64) = 2 ^ 64 - 1" by (simp add: unsigned_minus_1_eq_mask mask_eq_exp_minus_1)
  with assms have "uint x \<noteq> 2 ^ 64 - 1" by (metis word_uint_eqI)
  moreover have "uint x < 2 ^ 64" using uint_lt2p [of x] by simp
  ultimately have "uint x + 1 < 2 ^ 64" by simp
  then show ?thesis by (simp add: uint_word_ariths)
qed

text \<open>C29: When the package of a service was updated, the supervisor gossips it: afterwards its own store of service rumors
  holds a rumor of the supervisor with the new package, whose incarnation is one above that of the
  rumor it replaces and which therefore replaces that rumor at every other member, too.\<close>

theorem updated_package_is_gossiped:
  assumes "server_inv srv" and "sg_service (us_service_group s) = Some (pi_name (us_pkg s))" and "fully_qualified (us_pkg s)"
    and "pred_option (\<lambda>c. to_vec c \<noteq> None) exported"
    and "\<forall>r. with_rumor (srv_service_store srv) (us_service_group s) (us_member_id s) = Some r \<longrightarrow> sv_incarnation (get_service r) \<noteq> - 1"
  shows "\<exists>srv' r. gossip_latest_service_rumor now to_vec exported s srv = Some srv' \<and> server_inv srv' \<and>
    with_rumor (srv_service_store srv') (us_service_group s) (us_member_id s) = Some r \<and>
    sv_pkg (get_service r) = ident_to_string (us_pkg s) \<and>
    (case with_rumor (srv_service_store srv) (us_service_group s) (us_member_id s) of
       None \<Rightarrow> sv_incarnation (get_service r) = 1
     | Some old \<Rightarrow> uint (sv_incarnation (get_service r)) = uint (sv_incarnation (get_service old)) + 1 \<and>
         service_merge old r = (r, True))"
proof -
  let ?sg = "us_service_group s" and ?i = "us_member_id s" and ?store = "srv_service_store srv"
  define n where "n = (case with_rumor ?store ?sg ?i of Some r \<Rightarrow> sv_incarnation (get_service r) + 1 | None \<Rightarrow> 1)"
  obtain bytes where "(case exported of None \<Rightarrow> Some [] | Some c \<Rightarrow> to_vec c) = Some bytes"
    using assms(4) by (cases exported) auto
  then obtain r where r: "to_rumor to_vec exported n s = Some r" "sv_pkg (get_service r) = ident_to_string (us_pkg s)"
      "sv_incarnation (get_service r) = n" "sv_service_group (get_service r) = ?sg" "sv_member_id (get_service r) = ?i"
    using assms(2, 3) by (auto simp: to_rumor_def service_new_def update_service_def get_service_def)
  have "gossip_latest_service_rumor now to_vec exported s srv = Some (insert_service now r srv)"
    using r(1) by (cases "hm_get (rs_list ?store) ?sg"; cases "with_rumor ?store ?sg ?i")
      (simp_all add: gossip_latest_service_rumor_def n_def with_rumor_def Let_def)
  moreover have wins: "service_merge old r = (r, True)" "uint (sv_incarnation (get_service r)) = uint (sv_incarnation (get_service old)) + 1"
    if old: "with_rumor ?store ?sg ?i = Some old" for old
  proof -
    have "rs_inv service_ops ?store" using assms(1) by (simp add: server_inv_def)
    from rs_inv_lookup [OF this old] have "sv_service_group (get_service old) = ?sg" "sv_member_id (get_service old) = ?i"
      by (simp_all add: service_ops_def)
    moreover have up: "uint (n :: u64) = uint (sv_incarnation (get_service old)) + 1"
      using assms(5) old unfolding n_def by (simp add: uint_plus_1)
    ultimately show "service_merge old r = (r, True)"
      using r by (simp add: service_merge_def service_partial_cmp_def rust_cmp_def word_less_def)
    show "uint (sv_incarnation (get_service r)) = uint (sv_incarnation (get_service old)) + 1" using up r(3) by simp
  qed
  moreover have "srv_service_store (insert_service now r srv) = fst (rs_insert service_ops r ?store)"
    using rumor_stores_insert_service [of now r srv] by (simp add: rumor_stores_def)
  moreover have "with_rumor (fst (rs_insert service_ops r ?store)) ?sg ?i = Some r"
    using wins(1) r(4, 5) by (cases "with_rumor ?store ?sg ?i") (simp_all add: service.with_rumor_insert, simp_all add: service_ops_def)
  moreover have "n = 1" if "with_rumor ?store ?sg ?i = None" using that by (simp add: n_def)
  ultimately show ?thesis
    using r(2, 3) server_inv_insert_service [OF assms(1)] by (auto split: option.split)
qed

theorem updated_package_is_gossiped_witness:
  "\<exists>srv' r. gossip_latest_service_rumor 0 (\<lambda>_. None) (None :: unit option)
      ((rg_service rolling_example ''a'')\<lparr>us_pkg := rolling_pkg ''2''\<rparr>) (example_server ''a'' [(''a'', Alive), (''b'', Alive)]) = Some srv' \<and>
    with_rumor (srv_service_store srv') ''foo.bar'' ''a'' = Some r \<and> sv_pkg (get_service r) = ''core/foo/2/1'' \<and>
    sv_incarnation (get_service r) = 1"
proof -
  let ?s = "(rg_service rolling_example ''a'')\<lparr>us_pkg := rolling_pkg ''2''\<rparr>"
  let ?srv = "example_server ''a'' [(''a'', Alive), (''b'', Alive)]"
  have inv: "server_inv ?srv" by code_simp
  have s: "sg_service (us_service_group ?s) = Some (pi_name (us_pkg ?s))" "fully_qualified (us_pkg ?s)" by code_simp+
  have old: "with_rumor (srv_service_store ?srv) (us_service_group ?s) (us_member_id ?s) = Some (example_service ''a'' 0)" by code_simp
  moreover have zero: "sv_incarnation (get_service (example_service ''a'' 0)) = 0" by code_simp
  ultimately have room: "\<forall>r. with_rumor (srv_service_store ?srv) (us_service_group ?s) (us_member_id ?s) = Some r \<longrightarrow>
      sv_incarnation (get_service r) \<noteq> - 1" by simp
  have "pred_option (\<lambda>c. (\<lambda>_. None) c \<noteq> (None :: bytes option)) (None :: unit option)" by simp
  from updated_package_is_gossiped [OF inv s this room, of 0] obtain srv' r where
      "gossip_latest_service_rumor 0 (\<lambda>_. None) (None :: unit option) ?s ?srv = Some srv'"
      "with_rumor (srv_service_store srv') (us_service_group ?s) (us_member_id ?s) = Some r"
      "sv_pkg (get_service r) = ident_to_string (us_pkg ?s)" "uint (sv_incarnation (get_service r)) = 1"
    unfolding old by (auto simp: zero)
  moreover have "us_service_group ?s = ''foo.bar''" "us_member_id ?s = ''a''" "ident_to_string (us_pkg ?s) = ''core/foo/2/1''"
    by code_simp+
  moreover have "x = 1" if "uint x = 1" for x :: u64 using that by (metis uint_1 word_uint_eqI)
  ultimately show ?thesis by (metis (no_types))
qed

end
