(* ===== verification/Spec2Isabelle.thy ===== *)
theory Spec2Isabelle
  imports Ring_Facts Census_Facts Package_Graph_Facts Dat_File_Facts Job_Server_Facts Updater_Facts
begin

text \<open>
  \<^bold>\<open>Habitat.\<close> A supervisor runs the services of a package and takes part in a gossip ring; a build
  service builds packages and what depends on them. This development models the gossip ring with
  its failure detector, rumors, elections and persistence, the census that a supervisor draws
  from it, the rolling updates of services, the naming of packages and services, the dependency graph of the build service, and
  its job server with the scheduler of builds and the manager of build workers.
  File names below are relative to \<open>src/components\<close>.

  \<^bold>\<open>How the parts interact.\<close> The ring consists of servers (\<open>butterfly/src/server/mod.rs\<close>). Each keeps
  a member list and one store per kind of rumor. Its threads receive SWIM messages (\<open>inbound.rs\<close>),
  probe other members (\<open>outbound.rs\<close>), exchange rumors (\<open>push.rs\<close>, \<open>pull.rs\<close>) and confirm members that
  stay silent (\<open>expire.rs\<close>). The supervisor calls the server to insert its own rumors and to start
  elections, saves the rumors to a file (\<open>dat_file.rs\<close>), and rebuilds its census from the stores
  (\<open>sup/src/census.rs\<close>). The census tells the updater (\<open>sup/src/manager/service_updater.rs\<close>) when it is the turn of the
  supervisor to update a service. Rumors name services by service groups and packages by identifiers. The
  build service keeps the packages it knows in a graph and asks it what to rebuild.

  The job server (\<open>builder-jobsrv/src/server\<close>) has three threads that meet in the database
  (\<open>data_store.rs\<close>). A request handler (\<open>handlers.rs\<close>) makes a group of a package and of what depends on
  it. The scheduler (\<open>scheduler.rs\<close>) creates the jobs of the projects of a group, each when the
  projects it depends on are built, and follows their states. The worker manager
  (\<open>worker_manager.rs\<close>) gives pending jobs to build workers, takes their heartbeats and reports, and
  queues the jobs of silent workers again. The page of a build in the web interface
  (\<open>builder-web/app\<close>) asks the job server for the log while the build runs.

  \<^bold>\<open>Conventions.\<close> A struct is a record and an enumeration a datatype. A \<open>HashMap\<close> is an association
  list with distinct keys (\<open>hmap\<close>, with the contract in the locale \<open>hash_map\<close>), so that its
  iteration order is the order of the list, and theorems do not depend on it unless they say so.
  \<open>u64\<close> and \<open>usize\<close> are 64-bit words. A method that may panic returns an option, \<open>None\<close> being the
  panic; a \<open>Result\<close> is a sum with the error on the left. A method that changes its object returns
  the new one. Time is an integer of milliseconds, read by the caller. What comes from crates
  outside the repository (the random shuffle, the parser of socket addresses, cryptography,
  protobuf and toml encodings, byte order, petgraph) and from the operating system is an
  argument of the definitions that use it; what is assumed about it stands in the theorems, and
  every theorem with an assumption is followed by a witness in which it holds.

  The methods of the job server are actions on a \<open>world\<close>: the tables of the database, the clocks,
  the notices between the threads, the workers and the commands sent to them, and the events to
  come. Every access to the database and every message consumes an event, which says whether it
  fails, in which order rows come, which rows are locked, and what other threads did to the
  tables meanwhile. A world is \<open>undisturbed\<close> if its events are calm; theorems about errors and
  interleavings say which other worlds they cover. Stored procedures are functions on the tables.

  \<^bold>\<open>The theories.\<close>

  \<^item> \<open>Prelude\<close>: words, hash maps, the \<open>Ordering\<close> of Rust, panics, folds that may fail, and the
    locale \<open>max_store\<close> for stores that keep the largest version per key.

  \<^item> \<open>Member_List\<close> (\<open>butterfly/src/member.rs\<close>): \<open>Health\<close>, \<open>Member\<close>, \<open>MemberList\<close> with its timers. The
    lemmas show that \<open>insert\<close> keeps the larger pair of incarnation and health and that lists
    which receive the same rumors agree.

  \<^item> \<open>Rumor_Store\<close>, \<open>Rumors\<close>, \<open>Election\<close>, \<open>Rumor_Heat\<close> (\<open>butterfly/src/rumor/\<close>): the \<open>Rumor\<close> trait as a
    record of methods with the locales \<open>rumor_trait\<close> and \<open>versioned_rumor\<close>, interpreted for all six
    kinds of rumors; \<open>RumorStore\<close>; the merging of rumors; the heat that decides what is sent.
    The lemmas show convergence of the stores, stability of decided elections, and how
    often a rumor is sent.

  \<^item> \<open>Butterfly_Server\<close>, \<open>Server_Facts\<close>, \<open>Expire\<close> (\<open>server/mod.rs\<close>, \<open>timing.rs\<close>, \<open>expire.rs\<close>): the state of a
    server and every method that changes it; quorum, start, decision and restart of elections;
    the expiry of suspects.

  \<^item> \<open>Swim\<close>, \<open>Inbound\<close>, \<open>Ring\<close>, \<open>Ring_Run\<close>, \<open>Ring_Facts\<close> (\<open>message/\<close>, \<open>outbound.rs\<close>, \<open>inbound.rs\<close>, \<open>pull.rs\<close>,
    \<open>push.rs\<close>): the messages and the passes of the four threads. \<open>server_step\<close> is the step relation
    of a server under any interleaving of its threads; the locale \<open>server_invariant\<close> carries an
    invariant through runs and is interpreted for well-formedness and for the trust of a server in
    itself.

  \<^item> \<open>Census\<close>, \<open>Census_Facts\<close> (\<open>sup/src/census.rs\<close>): the census and its agreement with the rumors.

  \<^item> \<open>Updater\<close>, \<open>Updater_Facts\<close> (\<open>sup/src/manager/service_updater.rs\<close>, \<open>self_updater.rs\<close>, \<open>periodic.rs\<close> and parts of
    \<open>manager/mod.rs\<close> and \<open>service/mod.rs\<close>): updates of services. \<open>rolling_step\<close> is the step relation of a
    group that updates one member after the other, with censuses that lag behind; the lemmas show
    that at most one member is being updated, that the update goes on, and that it is gossiped. The
    membership and the update leader are fixed in these runs.

  \<^item> \<open>Dat_File\<close>, \<open>Dat_File_Facts\<close> (\<open>butterfly/src/rumor/dat_file.rs\<close>): the file of a server, its
    round trip over a restart, and its atomicity. The outcome of every operating system call is
    an argument, so that writing may fail or be short at any point.

  \<^item> \<open>Service_Group\<close> (\<open>core/src/service.rs\<close>), \<open>Package_Ident\<close> (\<open>core/src/package/ident.rs\<close>, \<open>target.rs\<close>,
    \<open>core/src/os/system/mod.rs\<close>): names, with parsing, printing and the comparison of versions.

  \<^item> \<open>Package_Graph\<close>, \<open>Package_Graph_Facts\<close> (\<open>builder-core/src/package_graph.rs\<close>, \<open>rdeps.rs\<close>): the graph of
    packages. The locale \<open>graph_library\<close> is the contract of petgraph, interpreted on lists of
    edges.

  \<^item> \<open>Action\<close>: actions that change a state, fail or panic, with weakest preconditions, in which all
    lemmas about the job server are stated.

  \<^item> \<open>Job_Types\<close>, \<open>Job_Store\<close>, \<open>Job_Store_Facts\<close> (\<open>builder-protocol\<close>, \<open>builder-jobsrv/src/data_store.rs\<close>,
    \<open>migrations/jobs.rs\<close>, \<open>migrations/scheduler.rs\<close>): messages and states, the tables with their
    stored procedures, and every method of the data store. The lemmas give what each method
    returns and changes on well-formed tables (\<open>tables_inv\<close>).

  \<^item> \<open>Scheduler\<close>, \<open>Scheduler_Facts\<close> (\<open>server/scheduler.rs\<close>, \<open>builder-core/src/logger.rs\<close>): every method of
    the scheduler. The lemmas show that builds wait for their dependencies, that a failure
    skips exactly the dependents, that a waiting group has work, and that a round ends.

  \<^item> \<open>Worker_Manager\<close>, \<open>Worker_Facts\<close> (\<open>server/worker_manager.rs\<close>): every method of the manager.
    \<open>mgr_step\<close> is its step relation, with the other threads between the steps. The lemmas show
    that jobs stay in the hands of known workers, that expiry at the front of the table is complete,
    and that work is handed out in order.

  \<^item> \<open>Job_Server\<close>, \<open>Log_Stream\<close>, \<open>Job_Server_Facts\<close> (\<open>server/handlers.rs\<close>, \<open>server/mod.rs\<close>,
    \<open>builder-core/src/target_graph.rs\<close>, \<open>builder-web/app/actions/builds.ts\<close>, \<open>reducers/builds.ts\<close>): the
    request handlers and the page of a build log. The lemmas compose the parts: a new group
    meets what the scheduler assumes, canceling leaves nothing to start, a page shows the whole
    log, and when a report of a worker reaches the scheduler.

  \<^bold>\<open>Termination.\<close> No definition uses fuel. Loops over data are structural or have a
  termination measure; the endless loops of the threads appear as one pass each, and
  \<open>server_step\<close>, \<open>mgr_step\<close> and \<open>rolling_step\<close> compose the passes. Loops of the job server that run until the
  database has no more work are partial functions, with \<open>None\<close> if they do not end; the theorems
  about them show that they end.

  \<^bold>\<open>Not modelled.\<close> Starting threads, sockets and locks: a method runs as one step of its thread, which is
  what the locks of the fields give for methods that take one lock, and an abstraction for the
  others. The bytes of messages, which generated code writes. JSON output, tracing and logging.
  The client of the ring (\<open>butterfly/src/client.rs\<close>), which encodes one rumor and sends it. The
  rest of the supervisor, the command line, the launcher, the HTTP servers and the other
  servers of the build service, the rest of the web interface, and the packaging tools, which consist mostly of calls to processes,
  files, sockets and SQL. Of the job server the set-up of sockets, the connection pool and the
  database schema, the archive of logs, which is an argument, and the reception of logs.
\<close>

end
